(* ===== verification/Ladder.thy ===== *)
theory Ladder
  imports Prelude
begin

text \<open>
  The ordered price ladder.  \<open>Search\<close> is Go's \<^verbatim>\<open>sort.Search\<close>, the binary search that both
  \<^verbatim>\<open>insertSorted\<close> and \<^verbatim>\<open>removeOrder\<close> of \<^verbatim>\<open>examples/stub-engine/main.go\<close> call.  The locale
  \<open>ladder_order\<close> is the contract between the comparator of the order book and the ladder
  operations: a strict weak order.  Its lemmas say where the binary search lands in a sorted
  ladder and that insertion and removal at that place keep the ladder sorted.
\<close>

section \<open>sort.Search\<close>

function Search_loop :: "(nat \<Rightarrow> bool) \<Rightarrow> nat \<Rightarrow> nat \<Rightarrow> nat" where
  "Search_loop f i j =
     (if i < j
      then let h = (i + j) div 2
           in if \<not> f h then Search_loop f (h + 1) j else Search_loop f i h
      else i)"
  by pat_completeness auto
termination
  by (relation "measure (\<lambda>(f, i, j). j - i)") auto

definition Search :: "nat \<Rightarrow> (nat \<Rightarrow> bool) \<Rightarrow> nat" where
  "Search n f = Search_loop f 0 n"

declare Search_loop.simps [simp del]

text \<open>
  With everything below \<open>i\<close> false and everything from \<open>j\<close> on true, the loop returns a
  boundary: all false before it, and true at it unless it is the end.
\<close>

lemma Search_loop_spec:
  assumes "i \<le> j" and "\<forall>a b. a \<le> b \<longrightarrow> b < n \<longrightarrow> f a \<longrightarrow> f b" and "j \<le> n"
    and "\<forall>k<i. \<not> f k" and "\<forall>k. j \<le> k \<and> k < n \<longrightarrow> f k"
  shows "Search_loop f i j \<le> n \<and> (\<forall>k<Search_loop f i j. \<not> f k)
    \<and> (\<forall>k. Search_loop f i j \<le> k \<and> k < n \<longrightarrow> f k)"
  using assms
proof (induction f i j rule: Search_loop.induct)
  case (1 f i j)
  note mono = "1.prems"(2)
  show ?case
  proof (cases "i < j")
    case False
    then have "Search_loop f i j = i" by (simp add: Search_loop.simps [of f i j])
    moreover from False "1.prems"(1) have "j = i" by simp
    ultimately show ?thesis using "1.prems"(3-5) by simp
  next
    case True
    define h where "h = (i + j) div 2"
    have h: "i \<le> h" "h < j" using True by (auto simp: h_def)
    show ?thesis
    proof (cases "f h")
      case fh: True
      have above: "\<forall>k. h \<le> k \<and> k < n \<longrightarrow> f k" using mono fh by blast
      have hn: "h \<le> n" using h "1.prems"(3) by simp
      have nn: "\<not> \<not> f h" using fh by simp
      have eq: "Search_loop f i j = Search_loop f i h"
        using True fh by (simp add: Search_loop.simps [of f i j] Let_def flip: h_def)
      show ?thesis
        unfolding eq by (rule "1.IH"(2) [OF True h_def nn h(1) mono hn "1.prems"(4) above])
    next
      case fh: False
      have "\<not> f k" if "k < h + 1" for k
      proof
        assume "f k"
        moreover have "k \<le> h" "h < n" using that h(2) "1.prems"(3) by simp_all
        ultimately have "f h" using mono by blast
        with fh show False ..
      qed
      then have below: "\<forall>k<h + 1. \<not> f k" by blast
      have hj: "h + 1 \<le> j" using h by simp
      have eq: "Search_loop f i j = Search_loop f (h + 1) j"
        using True fh by (simp add: Search_loop.simps [of f i j] Let_def flip: h_def)
      show ?thesis
        unfolding eq by (rule "1.IH"(1) [OF True h_def fh hj mono "1.prems"(3) below "1.prems"(5)])
    qed
  qed
qed

lemma Search_spec:
  assumes "\<forall>a b. a \<le> b \<longrightarrow> b < n \<longrightarrow> f a \<longrightarrow> f b"
  shows "Search n f \<le> n" and "k < Search n f \<Longrightarrow> \<not> f k"
    and "Search n f \<le> k \<Longrightarrow> k < n \<Longrightarrow> f k"
proof -
  have "Search n f \<le> n \<and> (\<forall>k<Search n f. \<not> f k) \<and> (\<forall>k. Search n f \<le> k \<and> k < n \<longrightarrow> f k)"
    unfolding Search_def by (rule Search_loop_spec [OF _ assms]) auto
  then show "Search n f \<le> n" and "k < Search n f \<Longrightarrow> \<not> f k"
    and "Search n f \<le> k \<Longrightarrow> k < n \<Longrightarrow> f k"
    by blast+
qed

section \<open>The contract of the comparator\<close>

locale ladder_order =
  fixes before :: "'a \<Rightarrow> 'a \<Rightarrow> bool"
  assumes before_irrefl: "\<not> before x x"
    and before_trans: "before x y \<Longrightarrow> before y z \<Longrightarrow> before x z"
    and before_cotrans: "before x z \<Longrightarrow> before x y \<or> before y z"
begin

lemma before_asym: "before x y \<Longrightarrow> \<not> before y x"
  using before_irrefl before_trans by blast

text \<open>The probe of an insertion is monotone along a sorted ladder.\<close>

lemma insert_probe_mono:
  assumes "sorted_wrt before s"
  shows "\<forall>a b. a \<le> b \<longrightarrow> b < length s \<longrightarrow> before x (s ! a) \<longrightarrow> before x (s ! b)"
  using assms before_trans by (metis nat_less_le sorted_wrt_iff_nth_less)

lemma remove_probe_mono:
  assumes "sorted_wrt before s"
  shows "\<forall>a b. a \<le> b \<longrightarrow> b < length s \<longrightarrow> \<not> before (s ! a) x \<longrightarrow> \<not> before (s ! b) x"
  using assms before_trans by (metis nat_less_le sorted_wrt_iff_nth_less)

text \<open>Inserting at the place the search finds keeps the ladder sorted.\<close>

lemma sorted_insert_at_Search:
  assumes sorted: "sorted_wrt before s"
    and strict: "\<forall>y\<in>set s. before y x \<or> before x y"
    and i: "i = Search (length s) (\<lambda>i. before x (s ! i))"
  shows "sorted_wrt before (take i s @ x # drop i s)"
proof -
  note spec = Search_spec [OF insert_probe_mono [OF sorted, of x], folded i]
  have "before y x" if "y \<in> set (take i s)" for y
  proof -
    from that obtain k where "k < i" "k < length s" "y = s ! k"
      by (auto simp: in_set_conv_nth)
    with spec(2) [of k] strict show ?thesis using nth_mem by blast
  qed
  moreover have "before x y" if "y \<in> set (drop i s)" for y
  proof -
    from that obtain k where "k < length s - i" "y = s ! (i + k)"
      by (auto simp: in_set_conv_nth)
    with spec(3) [of "i + k"] show ?thesis by simp
  qed
  moreover have "sorted_wrt before (take i s @ drop i s)" using sorted by simp
  ultimately show ?thesis
    by (auto simp: sorted_wrt_append simp del: append_take_drop_id)
qed

text \<open>
  The search for an element of a sorted ladder lands exactly on it: everything before
  precedes it, and it does not precede itself.
\<close>

lemma Search_finds:
  assumes sorted: "sorted_wrt before s" and k: "k < length s"
  shows "Search (length s) (\<lambda>i. \<not> before (s ! i) (s ! k)) = k"
proof -
  let ?f = "\<lambda>i. \<not> before (s ! i) (s ! k)"
  note spec = Search_spec [OF remove_probe_mono [OF sorted, of "s ! k"]]
  have "\<not> Search (length s) ?f < k"
  proof
    assume "Search (length s) ?f < k"
    then have "before (s ! Search (length s) ?f) (s ! k)"
      using sorted k by (simp add: sorted_wrt_iff_nth_less)
    moreover have "?f (Search (length s) ?f)"
      by (rule spec(3)) (use \<open>Search (length s) ?f < k\<close> k in simp_all)
    ultimately show False by blast
  qed
  moreover have "\<not> k < Search (length s) ?f"
    using spec(2) [of k] before_irrefl by blast
  ultimately show ?thesis by simp
qed

text \<open>Two sorted ladders with the same elements are the same ladder.\<close>

lemma sorted_unique:
  assumes "sorted_wrt before s" and "sorted_wrt before t" and "set s = set t"
  shows "s = t"
  using assms
proof (induction s arbitrary: t)
  case Nil
  then show ?case by simp
next
  case (Cons x s)
  then obtain y u where t: "t = y # u" by (cases t) auto
  have "x = y"
  proof (rule ccontr)
    assume "x \<noteq> y"
    with Cons.prems t have "before x y" and "before y x" by auto
    then show False using before_asym by blast
  qed
  moreover have "set s = set u"
  proof -
    have "x \<notin> set s" "y \<notin> set u" using Cons.prems t before_irrefl by auto
    with Cons.prems(3) t \<open>x = y\<close> show ?thesis by auto
  qed
  ultimately show ?case using Cons t by auto
qed

end

end
