(* ===== verification/OrderBook.thy ===== *)
theory OrderBook
  imports Ladder "HOL-Library.Multiset"
begin

text \<open>
  The messages, orders and books of \<^verbatim>\<open>examples/stub-engine/main.go\<close>, the comparator
  \<^verbatim>\<open>orderBefore\<close> and the two ladder operations \<^verbatim>\<open>insertSorted\<close> and \<^verbatim>\<open>removeOrder\<close>.

  An \<^verbatim>\<open>*Order\<close> is shared by a book side and by the engine's cancel index, and the matching
  loop mutates its quantity in place, so orders live in a heap: an \<open>oref\<close> is a pointer, a
  heap maps pointers to orders, a book side is a list of pointers and pointer identity is
  equality of \<open>oref\<close>s.  A \<^verbatim>\<open>*Client\<close> is an opaque identity, nil is \<^const>\<open>None\<close>.
\<close>

section \<open>Limits\<close>

definition maxRestingPerSymbol :: nat where "maxRestingPerSymbol = 100000"
definition maxOrderFieldLen :: nat where "maxOrderFieldLen = 256"

section \<open>Messages\<close>

type_synonym client = nat

record NewOrder =
  no_Type :: string
  no_RunID :: string
  no_ClientOrderID :: string
  no_Symbol :: string
  no_Side :: string
  no_Price :: int
  no_Qty :: int
  no_TsNs :: u64
  no_OrderType :: string

record CancelOrder =
  co_Type :: string
  co_RunID :: string
  co_ClientOrderID :: string
  co_OrigClientOrderID :: string
  co_TsNs :: u64

record Ack =
  ack_Type :: string
  ack_ClientOrderID :: string
  ack_Status :: string
  ack_EngineSeq :: u64
  ack_TsNs :: u64
  ack_Reason :: string

record Fill =
  f_Symbol :: string
  f_Type :: string
  f_BuyOrderID :: string
  f_SellOrderID :: string
  f_Price :: int
  f_Qty :: int
  f_EngineSeq :: u64

record FillDelivery =
  fd_Fill :: Fill
  fd_Recipients :: "client option list"

section \<open>Orders and books\<close>

record Order =
  o_ID :: string
  o_Symbol :: string
  o_Side :: string
  o_Price :: int
  o_Qty :: int
  o_TsNs :: u64
  o_InsertSeq :: u64
  o_Owner :: "client option"

type_synonym oref = nat
type_synonym heap = "oref \<Rightarrow> Order"

record Book =
  b_insertSeq :: u64
  b_buys :: "oref list"
  b_sells :: "oref list"

definition newBook :: Book where
  "newBook = \<lparr>b_insertSeq = 0, b_buys = [], b_sells = []\<rparr>"

section \<open>The comparator\<close>

definition orderBefore :: "Order \<Rightarrow> Order \<Rightarrow> bool \<Rightarrow> bool \<Rightarrow> bool" where
  "orderBefore a b buySide broken =
     (if o_Price a \<noteq> o_Price b
      then (if buySide then o_Price a > o_Price b else o_Price a < o_Price b)
      else if o_TsNs a \<noteq> o_TsNs b
      then (if broken then o_TsNs a > o_TsNs b else o_TsNs a < o_TsNs b)
      else o_InsertSeq a < o_InsertSeq b)"

abbreviation ref_before :: "heap \<Rightarrow> bool \<Rightarrow> bool \<Rightarrow> oref \<Rightarrow> oref \<Rightarrow> bool" where
  "ref_before h buySide broken \<equiv> \<lambda>x y. orderBefore (h x) (h y) buySide broken"

interpretation ladder: ladder_order "ref_before h buySide broken" for h buySide broken
  by unfold_locales (auto simp: orderBefore_def split: if_splits)

text \<open>Orders with different insertion numbers are always comparable.\<close>

lemma orderBefore_strict:
  "o_InsertSeq a \<noteq> o_InsertSeq b \<Longrightarrow> orderBefore a b buySide broken \<or> orderBefore b a buySide broken"
  by (auto simp: orderBefore_def)

text \<open>The comparator reads only the fields that never change after the insert.\<close>

lemma orderBefore_qty [simp]:
  "orderBefore (a\<lparr>o_Qty := q\<rparr>) b buySide broken = orderBefore a b buySide broken"
  "orderBefore a (b\<lparr>o_Qty := q\<rparr>) buySide broken = orderBefore a b buySide broken"
  by (simp_all add: orderBefore_def)

section \<open>insertSorted\<close>

text \<open>
  \<^verbatim>\<open>append(s, nil); copy(s[i+1:], s[i:]); s[i] = o\<close> shifts the tail by one and stores the
  pointer at \<open>i\<close>.
\<close>

definition insertSorted :: "heap \<Rightarrow> oref list \<Rightarrow> oref \<Rightarrow> bool \<Rightarrow> bool \<Rightarrow> oref list" where
  "insertSorted h s a buySide broken =
     (let i = Search (length s) (\<lambda>i. orderBefore (h a) (h (s ! i)) buySide broken)
      in take i s @ a # drop i s)"

lemma set_insertSorted [simp]: "set (insertSorted h s a buySide broken) = insert a (set s)"
proof -
  have "set (take i s) \<union> set (drop i s) = set s" for i
    by (metis append_take_drop_id set_append)
  then show ?thesis by (auto simp: insertSorted_def Let_def)
qed

lemma mset_insertSorted: "mset (insertSorted h s a buySide broken) = mset (s @ [a])"
proof -
  have "mset (take i s) + mset (drop i s) = mset s" for i
    by (metis append_take_drop_id mset_append)
  then show ?thesis by (simp add: insertSorted_def Let_def)
qed

lemma length_insertSorted [simp]: "length (insertSorted h s a buySide broken) = Suc (length s)"
  using mset_insertSorted [of h s a buySide broken] by (metis length_append_singleton size_mset)

lemma sorted_insertSorted:
  assumes "sorted_wrt (ref_before h buySide broken) s"
    and "\<forall>x\<in>set s. o_InsertSeq (h x) \<noteq> o_InsertSeq (h a)"
  shows "sorted_wrt (ref_before h buySide broken) (insertSorted h s a buySide broken)"
  unfolding insertSorted_def Let_def
  by (rule ladder.sorted_insert_at_Search [OF assms(1) _ refl])
     (use assms(2) orderBefore_strict in blast)

text \<open>Any way of sorting the side with the order appended gives the same ladder.\<close>

lemma insertSorted_eq_sorted_append:
  assumes "sorted_wrt (ref_before h buySide broken) s"
    and "\<forall>x\<in>set s. o_InsertSeq (h x) \<noteq> o_InsertSeq (h a)"
    and "sorted_wrt (ref_before h buySide broken) t" and "mset t = mset (s @ [a])"
  shows "insertSorted h s a buySide broken = t"
proof (rule ladder.sorted_unique)
  show "sorted_wrt (ref_before h buySide broken) (insertSorted h s a buySide broken)"
    using assms(1,2) by (rule sorted_insertSorted)
  show "sorted_wrt (ref_before h buySide broken) t" by (rule assms(3))
  show "set (insertSorted h s a buySide broken) = set t"
    using mset_insertSorted assms(4) by (metis set_mset_mset)
qed

section \<open>removeOrder\<close>

definition removeOrder :: "heap \<Rightarrow> Book \<Rightarrow> oref \<Rightarrow> bool \<Rightarrow> bool \<times> Book" where
  "removeOrder h book ord broken =
     (let buySide = (o_Side (h ord) = ''BUY'');
          s = (if buySide then b_buys book else b_sells book);
          i = Search (length s) (\<lambda>i. \<not> orderBefore (h (s ! i)) (h ord) buySide broken)
      in if i \<ge> length s \<or> s ! i \<noteq> ord then (False, book)
         else let s' = take i s @ drop (Suc i) s
              in if buySide then (True, book\<lparr>b_buys := s'\<rparr>) else (True, book\<lparr>b_sells := s'\<rparr>))"

text \<open>The side of the book an order with this pointer belongs to.\<close>

definition side_of :: "heap \<Rightarrow> Book \<Rightarrow> oref \<Rightarrow> oref list" where
  "side_of h book r = (if o_Side (h r) = ''BUY'' then b_buys book else b_sells book)"

definition set_side :: "heap \<Rightarrow> Book \<Rightarrow> oref \<Rightarrow> oref list \<Rightarrow> Book" where
  "set_side h book r s =
     (if o_Side (h r) = ''BUY'' then book\<lparr>b_buys := s\<rparr> else book\<lparr>b_sells := s\<rparr>)"

lemma removeOrder_not_resting:
  assumes "r \<notin> set (side_of h book r)"
  shows "removeOrder h book r broken = (False, book)"
proof -
  let ?s = "side_of h book r"
  have "i \<ge> length ?s \<or> ?s ! i \<noteq> r" for i
    using assms by (metis leI nth_mem)
  then show ?thesis
    unfolding removeOrder_def side_of_def Let_def by auto
qed

text \<open>
  In a sorted side the binary search lands on the pointer itself, so a resting order is
  always found, and exactly it is removed.
\<close>

lemma removeOrder_resting:
  assumes sorted: "sorted_wrt (ref_before h (o_Side (h r) = ''BUY'') broken) (side_of h book r)"
    and k: "k < length (side_of h book r)" and r: "side_of h book r ! k = r"
  shows "removeOrder h book r broken =
    (True, set_side h book r (take k (side_of h book r) @ drop (Suc k) (side_of h book r)))"
proof -
  have "Search (length (side_of h book r))
      (\<lambda>i. \<not> orderBefore (h (side_of h book r ! i)) (h r) (o_Side (h r) = ''BUY'') broken) = k"
    using ladder.Search_finds [OF sorted k] r by simp
  with k r show ?thesis
    unfolding removeOrder_def set_side_def Let_def
    by (auto simp: side_of_def split: if_splits)
qed

lemma ladder_distinct:
  "sorted_wrt (ref_before h buySide broken) s \<Longrightarrow> distinct s"
  by (induction s) (auto simp: ladder.before_irrefl)

text \<open>A removed order is gone: removing it a second time is a clean miss.\<close>

lemma removeOrder_twice:
  assumes "sorted_wrt (ref_before h (o_Side (h r) = ''BUY'') broken) (side_of h book r)"
    and "removeOrder h book r broken = (True, book')"
  shows "removeOrder h book' r broken = (False, book')"
proof -
  have "r \<in> set (side_of h book r)"
    using assms(2) removeOrder_not_resting by fastforce
  then obtain k where k: "k < length (side_of h book r)" "side_of h book r ! k = r"
    by (auto simp: in_set_conv_nth)
  have "book' = set_side h book r (take k (side_of h book r) @ drop (Suc k) (side_of h book r))"
    using removeOrder_resting [OF assms(1) k] assms(2) by simp
  then have "side_of h book' r = take k (side_of h book r) @ drop (Suc k) (side_of h book r)"
    by (simp add: side_of_def set_side_def split: if_splits)
  then have "set (side_of h book' r) = set (side_of h book r) - {r}"
    using distinct_remove_nth [OF ladder_distinct [OF assms(1)] k(1)] k(2) by simp
  then show ?thesis by (intro removeOrder_not_resting) simp
qed

end
