(* ===== verification/Matching.thy ===== *)
theory Matching
  imports OrderBook
begin

text \<open>
  The matching loops \<^verbatim>\<open>matchBuy\<close> and \<^verbatim>\<open>matchSell\<close> of \<^verbatim>\<open>examples/stub-engine/main.go\<close>, with
  the state they share: the sequence counter, the cancel index and the heap of orders.

  One pass of the loop body is \<open>matchBuy_iter\<close> (\<open>matchSell_iter\<close>); the loop itself is a
  terminating recursion over it.  The reference is \<open>sweep\<close>: the list of trades an order
  makes against a ladder, computed without pointers, mutation or index.
  \<open>Engine_matchBuy_refines\<close> and \<open>Engine_matchSell_refines\<close> show that the loop on the heap
  is exactly the sweep, and the laws of the sweep (conservation, price limit, priority,
  exhaustion) then carry over to the code.
\<close>

section \<open>Engine state shared by both cores\<close>

record Core =
  c_engineSeq :: u64
  c_index :: "string \<Rightarrow> oref option"
  c_heap :: heap
  c_next :: oref

definition nextSeq :: "'a Core_scheme \<Rightarrow> u64 \<times> 'a Core_scheme" where
  "nextSeq e = (c_engineSeq e + 1, e\<lparr>c_engineSeq := c_engineSeq e + 1\<rparr>)"

definition minInt64 :: "int \<Rightarrow> int \<Rightarrow> int" where
  "minInt64 a b = (if a < b then a else b)"

lemma minInt64_min: "minInt64 a b = min a b"
  by (simp add: minInt64_def)

section \<open>uniqueClients\<close>

fun uniqueClients_loop :: "client set \<Rightarrow> client option list \<Rightarrow> client option list" where
  "uniqueClients_loop seen [] = []"
| "uniqueClients_loop seen (None # cs) = uniqueClients_loop seen cs"
| "uniqueClients_loop seen (Some c # cs) =
     (if c \<in> seen then uniqueClients_loop seen cs
      else Some c # uniqueClients_loop (insert c seen) cs)"

fun uniqueClients :: "client option list \<Rightarrow> client option list" where
  "uniqueClients [] = []"
| "uniqueClients [c] = (if c = None then [] else [c])"
| "uniqueClients [a, b] =
     (if a = None \<and> b = None then []
      else if a = None then [b]
      else if b = None then [a]
      else if a = b then [a]
      else [a, b])"
| "uniqueClients clients = uniqueClients_loop {} clients"

lemma uniqueClients_loop_set:
  "set (uniqueClients_loop seen cs) = {Some c | c. Some c \<in> set cs \<and> c \<notin> seen}"
  by (induction seen cs rule: uniqueClients_loop.induct) auto

lemma uniqueClients_loop_distinct: "distinct (uniqueClients_loop seen cs)"
  by (induction seen cs rule: uniqueClients_loop.induct) (auto simp: uniqueClients_loop_set)

text \<open>The three hand-written fast paths agree with the general de-duplication.\<close>

lemma uniqueClients_eq_loop: "uniqueClients cs = uniqueClients_loop {} cs"
proof (cases cs rule: uniqueClients.cases)
  case (2 c)
  then show ?thesis by (cases c) auto
next
  case (3 a b)
  then show ?thesis by (cases a; cases b) auto
qed auto

lemma set_uniqueClients: "set (uniqueClients cs) = set cs - {None}"
proof -
  have "{Some c | c. Some c \<in> set cs \<and> c \<notin> {}} = set cs - {None}"
    by (auto simp: image_iff)
  then show ?thesis by (simp add: uniqueClients_eq_loop uniqueClients_loop_set)
qed

lemma distinct_uniqueClients: "distinct (uniqueClients cs)"
  by (simp add: uniqueClients_eq_loop uniqueClients_loop_distinct)

section \<open>The loops\<close>

text \<open>\<^verbatim>\<open>active.Qty -= qty; resting.Qty -= qty\<close>, in this order, on the heap.\<close>

definition decQty :: "oref \<Rightarrow> int \<Rightarrow> heap \<Rightarrow> heap" where
  "decQty r q h = h(r := (h r)\<lparr>o_Qty := o_Qty (h r) - q\<rparr>)"

definition matchBuy_iter ::
  "'a Core_scheme \<Rightarrow> Book \<Rightarrow> oref \<Rightarrow> bool \<Rightarrow> ('a Core_scheme \<times> Book \<times> FillDelivery) option" where
  "matchBuy_iter e book a market =
     (if o_Qty (c_heap e a) > 0 \<and> b_sells book \<noteq> []
      then let resting = hd (b_sells book);
               active = c_heap e a;
               rest = c_heap e resting
           in if \<not> market \<and> o_Price active < o_Price rest then None
              else let qty = minInt64 (o_Qty active) (o_Qty rest);
                       (seq, e1) = nextSeq e;
                       fill = \<lparr>f_Symbol = o_Symbol rest, f_Type = ''fill'',
                               f_BuyOrderID = o_ID active, f_SellOrderID = o_ID rest,
                               f_Price = o_Price rest, f_Qty = qty, f_EngineSeq = seq\<rparr>;
                       d = \<lparr>fd_Fill = fill,
                            fd_Recipients = uniqueClients [o_Owner active, o_Owner rest]\<rparr>;
                       h = decQty resting qty (decQty a qty (c_heap e1));
                       e2 = e1\<lparr>c_heap := h\<rparr>
                   in if o_Qty (h resting) = 0
                      then Some (e2\<lparr>c_index := (c_index e2)(o_ID (h resting) := None)\<rparr>,
                                 book\<lparr>b_sells := tl (b_sells book)\<rparr>, d)
                      else Some (e2, book, d)
      else None)"

definition matchSell_iter ::
  "'a Core_scheme \<Rightarrow> Book \<Rightarrow> oref \<Rightarrow> bool \<Rightarrow> ('a Core_scheme \<times> Book \<times> FillDelivery) option" where
  "matchSell_iter e book a market =
     (if o_Qty (c_heap e a) > 0 \<and> b_buys book \<noteq> []
      then let resting = hd (b_buys book);
               active = c_heap e a;
               rest = c_heap e resting
           in if \<not> market \<and> o_Price active > o_Price rest then None
              else let qty = minInt64 (o_Qty active) (o_Qty rest);
                       (seq, e1) = nextSeq e;
                       fill = \<lparr>f_Symbol = o_Symbol rest, f_Type = ''fill'',
                               f_BuyOrderID = o_ID rest, f_SellOrderID = o_ID active,
                               f_Price = o_Price rest, f_Qty = qty, f_EngineSeq = seq\<rparr>;
                       d = \<lparr>fd_Fill = fill,
                            fd_Recipients = uniqueClients [o_Owner active, o_Owner rest]\<rparr>;
                       h = decQty resting qty (decQty a qty (c_heap e1));
                       e2 = e1\<lparr>c_heap := h\<rparr>
                   in if o_Qty (h resting) = 0
                      then Some (e2\<lparr>c_index := (c_index e2)(o_ID (h resting) := None)\<rparr>,
                                 book\<lparr>b_buys := tl (b_buys book)\<rparr>, d)
                      else Some (e2, book, d)
      else None)"

text \<open>
  Each pass empties the resting order, which then leaves the side, or empties the active
  order, which ends the loop.
\<close>

definition work :: "heap \<Rightarrow> oref \<Rightarrow> oref list \<Rightarrow> nat" where
  "work h a s = length s + (if o_Qty (h a) > 0 then 1 else 0)"

lemma matchBuy_iter_decreases:
  "matchBuy_iter e book a market = Some (e', book', d) \<Longrightarrow>
     work (c_heap e') a (b_sells book') < work (c_heap e) a (b_sells book)"
  by (cases "b_sells book")
    (auto simp: matchBuy_iter_def nextSeq_def Let_def work_def decQty_def minInt64_def split: if_splits)

lemma matchSell_iter_decreases:
  "matchSell_iter e book a market = Some (e', book', d) \<Longrightarrow>
     work (c_heap e') a (b_buys book') < work (c_heap e) a (b_buys book)"
  by (cases "b_buys book")
    (auto simp: matchSell_iter_def nextSeq_def Let_def work_def decQty_def minInt64_def split: if_splits)

function Engine_matchBuy ::
  "'a Core_scheme \<Rightarrow> Book \<Rightarrow> oref \<Rightarrow> bool \<Rightarrow> 'a Core_scheme \<times> Book \<times> FillDelivery list" where
  "Engine_matchBuy e book a market =
     (case matchBuy_iter e book a market of
        None \<Rightarrow> (e, book, [])
      | Some (e1, book1, d) \<Rightarrow>
          (let (e', book', ds) = Engine_matchBuy e1 book1 a market in (e', book', d # ds)))"
  by pat_completeness auto
termination
  by (relation "measure (\<lambda>(e, book, a, market). work (c_heap e) a (b_sells book))")
    (auto intro: matchBuy_iter_decreases)

function Engine_matchSell ::
  "'a Core_scheme \<Rightarrow> Book \<Rightarrow> oref \<Rightarrow> bool \<Rightarrow> 'a Core_scheme \<times> Book \<times> FillDelivery list" where
  "Engine_matchSell e book a market =
     (case matchSell_iter e book a market of
        None \<Rightarrow> (e, book, [])
      | Some (e1, book1, d) \<Rightarrow>
          (let (e', book', ds) = Engine_matchSell e1 book1 a market in (e', book', d # ds)))"
  by pat_completeness auto
termination
  by (relation "measure (\<lambda>(e, book, a, market). work (c_heap e) a (b_buys book))")
    (auto intro: matchSell_iter_decreases)

declare Engine_matchBuy.simps [simp del] Engine_matchSell.simps [simp del]


section \<open>The sweep: what an order trades\<close>

text \<open>
  \<open>sweep\<close> walks the opposite ladder from its best order; each trade takes the smaller of
  the two quantities, and the walk stops when nothing is left to trade or the next order is
  outside the limit.
\<close>

definition outside_limit :: "bool \<Rightarrow> bool \<Rightarrow> int \<Rightarrow> int \<Rightarrow> bool" where
  "outside_limit buySide market price restPrice \<longleftrightarrow>
     \<not> market \<and> (if buySide then price < restPrice else price > restPrice)"

fun sweep :: "heap \<Rightarrow> bool \<Rightarrow> bool \<Rightarrow> int \<Rightarrow> int \<Rightarrow> oref list \<Rightarrow> (oref \<times> int) list" where
  "sweep h buySide market price q [] = []"
| "sweep h buySide market price q (r # rs) =
     (if q \<le> 0 \<or> outside_limit buySide market price (o_Price (h r)) then []
      else let t = min q (o_Qty (h r)) in (r, t) # sweep h buySide market price (q - t) rs)"

definition traded :: "(oref \<times> int) list \<Rightarrow> int" where
  "traded tr = sum_list (map snd tr)"

text \<open>The heap after the trades, and the identifiers of the orders they used up.\<close>

definition settle :: "heap \<Rightarrow> oref \<Rightarrow> (oref \<times> int) list \<Rightarrow> heap" where
  "settle h a tr = fold (\<lambda>(r, t) h. decQty r t (decQty a t h)) tr h"

definition used_up :: "heap \<Rightarrow> (oref \<times> int) list \<Rightarrow> string set" where
  "used_up h tr = {o_ID (h r) | r t. (r, t) \<in> set tr \<and> o_Qty (h r) = t}"

definition drop_ids :: "string set \<Rightarrow> (string \<Rightarrow> oref option) \<Rightarrow> (string \<Rightarrow> oref option)" where
  "drop_ids ids m = (\<lambda>id. if id \<in> ids then None else m id)"

definition fill_of :: "heap \<Rightarrow> bool \<Rightarrow> oref \<Rightarrow> oref \<times> int \<Rightarrow> u64 \<Rightarrow> FillDelivery" where
  "fill_of h buySide a rt seq =
     (let r = fst rt in
      \<lparr>fd_Fill = \<lparr>f_Symbol = o_Symbol (h r), f_Type = ''fill'',
                   f_BuyOrderID = (if buySide then o_ID (h a) else o_ID (h r)),
                   f_SellOrderID = (if buySide then o_ID (h r) else o_ID (h a)),
                   f_Price = o_Price (h r), f_Qty = snd rt, f_EngineSeq = seq\<rparr>,
       fd_Recipients = uniqueClients [o_Owner (h a), o_Owner (h r)]\<rparr>)"

fun fills_of :: "heap \<Rightarrow> bool \<Rightarrow> oref \<Rightarrow> u64 \<Rightarrow> (oref \<times> int) list \<Rightarrow> FillDelivery list" where
  "fills_of h buySide a seq [] = []"
| "fills_of h buySide a seq (rt # tr) =
     fill_of h buySide a rt (seq + 1) # fills_of h buySide a (seq + 1) tr"

definition opp :: "bool \<Rightarrow> Book \<Rightarrow> oref list" where
  "opp buySide book = (if buySide then b_sells book else b_buys book)"

definition set_opp :: "bool \<Rightarrow> Book \<Rightarrow> oref list \<Rightarrow> Book" where
  "set_opp buySide book s = (if buySide then book\<lparr>b_sells := s\<rparr> else book\<lparr>b_buys := s\<rparr>)"

lemma opp_set_opp [simp]: "opp buySide (set_opp buySide book s) = s"
  and set_opp_set_opp [simp]: "set_opp buySide (set_opp buySide book s) t = set_opp buySide book t"
  and set_opp_opp [simp]: "set_opp buySide book (opp buySide book) = book"
  by (simp_all add: opp_def set_opp_def)

text \<open>Both loop bodies are one body, with the sides exchanged.\<close>

definition match_iter ::
  "bool \<Rightarrow> 'a Core_scheme \<Rightarrow> Book \<Rightarrow> oref \<Rightarrow> bool \<Rightarrow> ('a Core_scheme \<times> Book \<times> FillDelivery) option"
  where
  "match_iter buySide = (if buySide then matchBuy_iter else matchSell_iter)"

definition Engine_match ::
  "bool \<Rightarrow> 'a Core_scheme \<Rightarrow> Book \<Rightarrow> oref \<Rightarrow> bool \<Rightarrow> 'a Core_scheme \<times> Book \<times> FillDelivery list"
  where
  "Engine_match buySide = (if buySide then Engine_matchBuy else Engine_matchSell)"

lemma Engine_match_simps:
  "Engine_match buySide e book a market =
     (case match_iter buySide e book a market of
        None \<Rightarrow> (e, book, [])
      | Some (e1, book1, d) \<Rightarrow>
          (let (e', book', ds) = Engine_match buySide e1 book1 a market in (e', book', d # ds)))"
proof (cases buySide)
  case True
  show ?thesis
    unfolding Engine_match_def match_iter_def if_P [OF True]
    by (rule Engine_matchBuy.simps)
next
  case False
  show ?thesis
    unfolding Engine_match_def match_iter_def if_not_P [OF False]
    by (rule Engine_matchSell.simps)
qed

lemma match_iter_Nil: "opp buySide book = [] \<Longrightarrow> match_iter buySide e book a market = None"
  by (auto simp: match_iter_def opp_def matchBuy_iter_def matchSell_iter_def)

lemma match_iter_stop:
  assumes "opp buySide book = r # rs"
    and "o_Qty (c_heap e a) \<le> 0 \<or>
         outside_limit buySide market (o_Price (c_heap e a)) (o_Price (c_heap e r))"
  shows "match_iter buySide e book a market = None"
proof (cases buySide)
  case True
  with assms show ?thesis
    by (simp add: match_iter_def opp_def matchBuy_iter_def outside_limit_def Let_def) linarith
next
  case False
  with assms show ?thesis
    by (simp add: match_iter_def opp_def matchSell_iter_def outside_limit_def Let_def) linarith
qed

lemma used_up_single:
  "used_up h [(r, t)] = (if o_Qty (h r) = t then {o_ID (h r)} else {})"
  by (simp add: used_up_def)

lemma match_iter_trade:
  assumes "opp buySide book = r # rs" and "0 < o_Qty (c_heap e a)" and "a \<noteq> r"
    and "\<not> outside_limit buySide market (o_Price (c_heap e a)) (o_Price (c_heap e r))"
    and t: "t = min (o_Qty (c_heap e a)) (o_Qty (c_heap e r))"
  shows "match_iter buySide e book a market =
    Some (e\<lparr>c_engineSeq := c_engineSeq e + 1,
            c_heap := decQty r t (decQty a t (c_heap e)),
            c_index := drop_ids (used_up (c_heap e) [(r, t)]) (c_index e)\<rparr>,
          set_opp buySide book (if o_Qty (c_heap e r) = t then rs else r # rs),
          fill_of (c_heap e) buySide a (r, t) (c_engineSeq e + 1))"
proof -
  have idx: "m(id := None) = drop_ids {id} m" for m :: "string \<Rightarrow> oref option" and id
    by (auto simp: drop_ids_def)
  have idx0: "drop_ids {} m = m" for m
    by (simp add: drop_ids_def)
  have q: "o_Qty (decQty r t (decQty a t (c_heap e)) r) = o_Qty (c_heap e r) - t"
    and id: "o_ID (decQty r t (decQty a t (c_heap e)) r) = o_ID (c_heap e r)"
    using assms(3) by (simp_all add: decQty_def)
  have m: "minInt64 (o_Qty (c_heap e a)) (o_Qty (c_heap e r)) = t"
    by (simp add: minInt64_min t)
  show ?thesis
  proof (cases buySide)
    case True
    with assms(1-4) show ?thesis
      by (simp add: match_iter_def opp_def set_opp_def matchBuy_iter_def outside_limit_def
          nextSeq_def Let_def m q id fill_of_def used_up_single idx idx0)
  next
    case False
    with assms(1-4) show ?thesis
      by (simp add: match_iter_def opp_def set_opp_def matchSell_iter_def outside_limit_def
          nextSeq_def Let_def m q id fill_of_def used_up_single idx idx0)
  qed
qed


subsection \<open>Frame facts\<close>

lemma settle_Nil [simp]: "settle h a [] = h"
  by (simp add: settle_def)

lemma settle_Cons [simp]: "settle h a ((r, t) # tr) = settle (decQty r t (decQty a t h)) a tr"
  by (simp add: settle_def)

lemma decQty_other [simp]: "x \<noteq> r \<Longrightarrow> decQty r t h x = h x"
  by (simp add: decQty_def)

lemma settle_other: "x \<noteq> a \<Longrightarrow> x \<notin> fst ` set tr \<Longrightarrow> settle h a tr x = h x"
  by (induction tr arbitrary: h) auto

lemma decQty_fields [simp]:
  "o_ID (decQty r t h x) = o_ID (h x)" "o_Symbol (decQty r t h x) = o_Symbol (h x)"
  "o_Side (decQty r t h x) = o_Side (h x)" "o_Price (decQty r t h x) = o_Price (h x)"
  "o_TsNs (decQty r t h x) = o_TsNs (h x)" "o_InsertSeq (decQty r t h x) = o_InsertSeq (h x)"
  "o_Owner (decQty r t h x) = o_Owner (h x)"
  by (simp_all add: decQty_def)

lemma settle_fields [simp]:
  "o_ID (settle h a tr x) = o_ID (h x)" "o_Symbol (settle h a tr x) = o_Symbol (h x)"
  "o_Side (settle h a tr x) = o_Side (h x)" "o_Price (settle h a tr x) = o_Price (h x)"
  "o_TsNs (settle h a tr x) = o_TsNs (h x)" "o_InsertSeq (settle h a tr x) = o_InsertSeq (h x)"
  "o_Owner (settle h a tr x) = o_Owner (h x)"
  by (induction tr arbitrary: h) auto

lemma settle_before [simp]: "orderBefore (settle h a tr x) (settle h a tr y) = orderBefore (h x) (h y)"
  by (intro ext) (simp add: orderBefore_def)

lemma sweep_fst: "fst ` set (sweep h buySide market price q s) \<subseteq> set s"
  by (induction s arbitrary: q) (auto simp: Let_def)

lemma sweep_cong:
  "\<forall>r\<in>set s. o_Qty (h r) = o_Qty (h' r) \<and> o_Price (h r) = o_Price (h' r) \<Longrightarrow>
     sweep h buySide market price q s = sweep h' buySide market price q s"
  by (induction s arbitrary: q) (auto simp: Let_def)

lemma sweep_le_0 [simp]: "q \<le> 0 \<Longrightarrow> sweep h buySide market price q s = []"
  by (cases s) auto

lemma fill_of_decQty [simp]: "fill_of (decQty r t h) buySide a rt seq = fill_of h buySide a rt seq"
  by (simp add: fill_of_def Let_def)

lemma fills_of_decQty [simp]:
  "fills_of (decQty r t h) buySide a seq tr = fills_of h buySide a seq tr"
  by (induction tr arbitrary: seq) simp_all

lemma used_up_Cons: "used_up h (rt # tr) = used_up h [rt] \<union> used_up h tr"
  by (auto simp: used_up_def)

lemma used_up_cong:
  assumes "\<forall>r\<in>fst ` set tr. h r = h' r"
  shows "used_up h tr = used_up h' tr"
proof -
  have "h r = h' r" if "(r, t) \<in> set tr" for r t
    using assms that by (metis fst_conv imageI)
  then show ?thesis unfolding used_up_def by (metis (no_types, opaque_lifting))
qed

lemma drop_ids_drop_ids [simp]: "drop_ids A (drop_ids B m) = drop_ids (B \<union> A) m"
  by (auto simp: drop_ids_def)

lemma drop_ids_empty [simp]: "drop_ids {} m = m"
  by (simp add: drop_ids_def)

lemma used_up_Nil [simp]: "used_up h [] = {}"
  by (simp add: used_up_def)

subsection \<open>The loop is the sweep\<close>

lemma Engine_match_sweep:
  fixes e :: "'a Core_scheme"
  assumes "opp buySide book = s" and "distinct (a # s)"
    and "\<forall>r\<in>set s. 0 < o_Qty (c_heap e r)"
    and "tr = sweep (c_heap e) buySide market (o_Price (c_heap e a)) (o_Qty (c_heap e a)) s"
  shows "Engine_match buySide e book a market =
    (e\<lparr>c_engineSeq := c_engineSeq e + of_nat (length tr),
       c_heap := settle (c_heap e) a tr,
       c_index := drop_ids (used_up (c_heap e) tr) (c_index e)\<rparr>,
     set_opp buySide book (filter (\<lambda>r. 0 < o_Qty (settle (c_heap e) a tr r)) s),
     fills_of (c_heap e) buySide a (c_engineSeq e) tr)"
  using assms
proof (induction s arbitrary: e book tr)
  case Nil
  then show ?case
    by (simp add: Engine_match_simps [of buySide e] match_iter_Nil set_opp_opp [of buySide book, simplified Nil])
next
  case (Cons r rs)
  let ?h = "c_heap e"
  let ?q = "o_Qty (?h a)" and ?p = "o_Price (?h a)"
  show ?case
  proof (cases "?q \<le> 0 \<or> outside_limit buySide market ?p (o_Price (?h r))")
    case True
    then have tr: "tr = []" using Cons.prems(4) by simp
    have "filter (\<lambda>x. 0 < o_Qty (?h x)) (r # rs) = r # rs"
      using Cons.prems(3) by (simp add: filter_id_conv)
    with tr match_iter_stop [OF Cons.prems(1) True] Cons.prems(1) show ?thesis
      by (simp add: Engine_match_simps [of buySide e] flip: Cons.prems(1))
  next
    case False
    define t where "t = min ?q (o_Qty (?h r))"
    let ?h1 = "decQty r t (decQty a t ?h)"
    define e1 where "e1 = e\<lparr>c_engineSeq := c_engineSeq e + 1, c_heap := ?h1,
       c_index := drop_ids (used_up ?h [(r, t)]) (c_index e)\<rparr>"
    define book1 where "book1 = set_opp buySide book (if o_Qty (?h r) = t then rs else r # rs)"
    have ar: "a \<noteq> r" "a \<notin> set rs" "r \<notin> set rs" "distinct rs" using Cons.prems(2) by auto
    have iter: "match_iter buySide e book a market =
        Some (e1, book1, fill_of ?h buySide a (r, t) (c_engineSeq e + 1))"
      unfolding e1_def book1_def
      by (rule match_iter_trade [OF Cons.prems(1)]) (use False ar t_def in auto)
    have tr: "tr = (r, t) # sweep ?h buySide market ?p (?q - t) rs"
      using Cons.prems(4) False by (simp add: t_def Let_def)
    have pos: "0 < o_Qty (?h1 x)" if "x \<in> set rs" for x
      using that Cons.prems(3) ar by (auto simp: decQty_def)
    have qa: "o_Qty (?h1 a) = ?q - t" using ar by (simp add: decQty_def)
    have qr: "o_Qty (?h1 r) = o_Qty (?h r) - t" using ar by (simp add: decQty_def)
    define tr1 where "tr1 = sweep ?h1 buySide market ?p (?q - t) rs"
    have tr1: "sweep ?h buySide market ?p (?q - t) rs = tr1"
      unfolding tr1_def by (rule sweep_cong) (use ar in \<open>auto simp: decQty_def\<close>)
    have "fst ` set tr1 \<subseteq> set rs" unfolding tr1_def by (rule sweep_fst)
    then have r1: "r \<notin> fst ` set tr1" and a1: "\<forall>x\<in>fst ` set tr1. x \<noteq> a \<and> x \<noteq> r" using ar by auto
    show ?thesis
    proof (cases "o_Qty (?h r) = t")
      case used: True
      have IH: "Engine_match buySide e1 book1 a market =
        (e1\<lparr>c_engineSeq := c_engineSeq e1 + of_nat (length tr1),
           c_heap := settle (c_heap e1) a tr1,
           c_index := drop_ids (used_up (c_heap e1) tr1) (c_index e1)\<rparr>,
         set_opp buySide book1 (filter (\<lambda>r. 0 < o_Qty (settle (c_heap e1) a tr1 r)) rs),
         fills_of (c_heap e1) buySide a (c_engineSeq e1) tr1)"
        by (rule Cons.IH) (use used ar pos qa in \<open>auto simp: book1_def e1_def tr1_def\<close>)
      have uu: "used_up ?h1 tr1 = used_up ?h tr1"
        by (rule used_up_cong) (use a1 in auto)
      have rq: "o_Qty (settle ?h1 a tr1 r) = 0"
        using settle_other [OF _ r1, of a ?h1] ar qr used by simp
      show ?thesis
        using IH
        by (simp add: Engine_match_simps [of buySide e] iter tr tr1 e1_def book1_def used uu rq
            used_up_Cons [of ?h "(r, t)" tr1] ac_simps)
    next
      case kept: False
      then have q0: "?q - t = 0" and less: "t < o_Qty (?h r)" by (auto simp: t_def)
      have s1: "opp buySide book1 = r # rs" using kept by (simp add: book1_def)
      have stop: "match_iter buySide e1 book1 a market = None"
        by (rule match_iter_stop [OF s1]) (simp add: e1_def qa q0)
      have all: "filter (\<lambda>x. 0 < o_Qty (?h1 x)) (r # rs) = r # rs"
        using pos qr less by (simp add: filter_id_conv)
      have "Engine_match buySide e1 book1 a market = (e1, book1, [])"
        by (simp add: Engine_match_simps [of buySide e1] stop)
      then have "Engine_match buySide e book a market =
          (e1, book1, [fill_of ?h buySide a (r, t) (c_engineSeq e + 1)])"
        by (simp add: Engine_match_simps [of buySide e] iter)
      moreover have "tr = [(r, t)]" by (simp add: tr q0)
      ultimately show ?thesis
        using all by (simp add: e1_def book1_def kept used_up_single)
    qed
  qed
qed


section \<open>Laws of the sweep\<close>

lemma sweep_within_limit:
  "(r, t) \<in> set (sweep h buySide market price q s) \<Longrightarrow> \<not> outside_limit buySide market price (o_Price (h r))"
  by (induction s arbitrary: q) (auto simp: Let_def split: if_splits)

lemma sweep_qty:
  assumes "\<forall>r\<in>set s. 0 < o_Qty (h r)" and "(r, t) \<in> set (sweep h buySide market price q s)"
  shows "0 < t \<and> t \<le> o_Qty (h r)"
  using assms by (induction s arbitrary: q) (auto simp: Let_def min_def split: if_splits)

lemma traded_Nil [simp]: "traded [] = 0"
  and traded_Cons [simp]: "traded ((r, t) # tr) = t + traded tr"
  by (simp_all add: traded_def)

lemma traded_bounds:
  assumes "\<forall>r\<in>set s. 0 < o_Qty (h r)" and "0 \<le> q"
  shows "0 \<le> traded (sweep h buySide market price q s) \<and> traded (sweep h buySide market price q s) \<le> q"
  using assms
proof (induction s arbitrary: q)
  case (Cons r rs)
  have "0 \<le> q - min q (o_Qty (h r))" by simp
  from Cons.IH [OF _ this] Cons.prems show ?case by (auto simp: Let_def)
qed simp

text \<open>The trades hit an initial segment of the ladder.\<close>

lemma sweep_prefix:
  "map fst (sweep h buySide market price q s) = take (length (sweep h buySide market price q s)) s"
  by (induction s arbitrary: q) (auto simp: Let_def)

text \<open>Only the last trade can leave its resting order alive.\<close>

lemma sweep_butlast_used:
  assumes "\<forall>r\<in>set s. 0 < o_Qty (h r)" and "(r, t) \<in> set (butlast (sweep h buySide market price q s))"
  shows "t = o_Qty (h r)"
  using assms
proof (induction s arbitrary: q)
  case (Cons x rs)
  let ?q = "q - min q (o_Qty (h x))"
  let ?tr = "sweep h buySide market price ?q rs"
  have less: "min q (o_Qty (h x)) = o_Qty (h x)" if "?tr \<noteq> []"
  proof -
    have "\<not> ?q \<le> 0" using that sweep_le_0 by blast
    then show ?thesis by (simp add: min_def split: if_splits)
  qed
  have IH: "(r, t) \<in> set (butlast ?tr) \<Longrightarrow> t = o_Qty (h r)"
    by (rule Cons.IH) (use Cons.prems(1) in auto)
  show ?case
  proof (cases "q \<le> 0 \<or> outside_limit buySide market price (o_Price (h x))")
    case True
    with Cons.prems(2) show ?thesis by simp
  next
    case False
    then have tr: "sweep h buySide market price q (x # rs) = (x, min q (o_Qty (h x))) # ?tr"
      by (simp add: Let_def)
    show ?thesis
    proof (cases "?tr = []")
      case True
      with Cons.prems(2) tr show ?thesis by simp
    next
      case False
      then have "(r, t) = (x, min q (o_Qty (h x))) \<or> (r, t) \<in> set (butlast ?tr)"
        using Cons.prems(2) tr by simp
      with less [OF False] IH show ?thesis by auto
    qed
  qed
qed simp

text \<open>A residual is left only when every order left in the ladder is outside the limit.\<close>

lemma sweep_exhausts:
  assumes "sorted_wrt (ref_before h (\<not> buySide) broken) s" and "\<forall>r\<in>set s. 0 < o_Qty (h r)"
    and "traded (sweep h buySide market price q s) < q" and "r \<in> set s"
    and "(r, o_Qty (h r)) \<notin> set (sweep h buySide market price q s)"
  shows "outside_limit buySide market price (o_Price (h r))"
  using assms
proof (induction s arbitrary: q)
  case (Cons x rs)
  let ?q = "q - min q (o_Qty (h x))"
  have q: "0 < q"
    using traded_bounds [of "x # rs" h 0 buySide market price] Cons.prems(3) sweep_le_0
    by (cases "q \<le> 0") auto
  show ?case
  proof (cases "outside_limit buySide market price (o_Price (h x))")
    case True
    from Cons.prems(1,4) have "x = r \<or> orderBefore (h x) (h r) (\<not> buySide) broken" by auto
    then have "x = r \<or> (if buySide then o_Price (h x) \<le> o_Price (h r) else o_Price (h r) \<le> o_Price (h x))"
      by (auto simp: orderBefore_def split: if_splits)
    with True show ?thesis by (auto simp: outside_limit_def split: if_splits)
  next
    case False
    then have tr: "sweep h buySide market price q (x # rs) =
        (x, min q (o_Qty (h x))) # sweep h buySide market price ?q rs"
      using q by (simp add: Let_def)
    have less: "traded (sweep h buySide market price ?q rs) < ?q"
      using Cons.prems(3) tr by simp
    have "0 \<le> traded (sweep h buySide market price ?q rs)"
      by (rule conjunct1 [OF traded_bounds]) (use Cons.prems(2) in auto)
    with less have full: "min q (o_Qty (h x)) = o_Qty (h x)"
      by simp
    have "r \<noteq> x" using Cons.prems(5) tr full by auto
    show ?thesis
    proof (rule Cons.IH [OF _ _ less])
      show "sorted_wrt (ref_before h (\<not> buySide) broken) rs" using Cons.prems(1) by simp
      show "\<forall>r\<in>set rs. 0 < o_Qty (h r)" using Cons.prems(2) by simp
      show "r \<in> set rs" using Cons.prems(4) \<open>r \<noteq> x\<close> by simp
      show "(r, o_Qty (h r)) \<notin> set (sweep h buySide market price ?q rs)"
        using Cons.prems(5) tr by simp
    qed
  qed
qed simp

lemma settle_active:
  assumes "a \<notin> fst ` set tr"
  shows "o_Qty (settle h a tr a) = o_Qty (h a) - traded tr"
  using assms
proof (induction tr arbitrary: h)
  case (Cons rt tr)
  obtain r t where rt: "rt = (r, t)" by fastforce
  have "o_Qty (decQty r t (decQty a t h) a) = o_Qty (h a) - t"
    using Cons.prems rt by (simp add: decQty_def)
  with Cons rt show ?case by simp
qed simp

lemma settle_resting:
  assumes "a \<notin> fst ` set tr" and "distinct (map fst tr)" and "(r, t) \<in> set tr"
  shows "o_Qty (settle h a tr r) = o_Qty (h r) - t"
  using assms
proof (induction tr arbitrary: h)
  case (Cons rt tr)
  obtain x u where rt: "rt = (x, u)" by fastforce
  show ?case
  proof (cases "x = r")
    case True
    then have "r \<notin> fst ` set tr" "r \<noteq> a" "u = t" using Cons.prems rt by force+
    with rt True settle_other [of r a tr] show ?thesis by (simp add: decQty_def)
  next
    case False
    then have "(r, t) \<in> set tr" using Cons.prems rt by auto
    moreover from this have "r \<noteq> a" using Cons.prems rt by force
    ultimately show ?thesis using Cons rt False by (simp add: decQty_def)
  qed
qed simp

lemma sum_settle:
  assumes "distinct (a # s)"
    and tr: "tr = sweep h buySide market price q s"
  shows "(\<Sum>r\<in>set s. o_Qty (h r) - o_Qty (settle h a tr r)) = traded tr"
  using assms
proof (induction s arbitrary: h q tr)
  case (Cons x rs)
  let ?t = "min q (o_Qty (h x))"
  let ?h1 = "decQty x ?t (decQty a ?t h)"
  show ?case
  proof (cases "q \<le> 0 \<or> outside_limit buySide market price (o_Price (h x))")
    case False
    let ?tr = "sweep h buySide market price (q - ?t) rs"
    have ax: "a \<noteq> x" "a \<notin> set rs" "x \<notin> set rs" "distinct rs" using Cons.prems by auto
    have cong: "sweep ?h1 buySide market price (q - ?t) rs = ?tr"
      by (rule sweep_cong) (use ax in \<open>auto simp: decQty_def\<close>)
    have tr': "tr = (x, ?t) # ?tr" using Cons.prems(2) False by (simp add: Let_def)
    have x: "x \<notin> fst ` set ?tr" using sweep_fst ax by blast
    have "(\<Sum>r\<in>set rs. o_Qty (?h1 r) - o_Qty (settle ?h1 a ?tr r)) = traded ?tr"
      by (rule Cons.IH [OF _ cong [symmetric]]) (use ax in auto)
    moreover have "(\<Sum>r\<in>set rs. o_Qty (?h1 r) - o_Qty (settle ?h1 a ?tr r)) =
        (\<Sum>r\<in>set rs. o_Qty (h r) - o_Qty (settle ?h1 a ?tr r))"
      by (rule sum.cong) (use ax in \<open>auto simp: decQty_def\<close>)
    moreover have "o_Qty (settle ?h1 a ?tr x) = o_Qty (h x) - ?t"
      using settle_other [OF ax(1) [symmetric] x, of ?h1] ax by (simp add: decQty_def)
    ultimately show ?thesis using ax tr' by simp
  qed (use Cons.prems in simp)
qed simp

lemma length_fills_of [simp]: "length (fills_of h buySide a seq tr) = length tr"
  by (induction tr arbitrary: seq) auto

lemma fills_of_nth:
  "i < length tr \<Longrightarrow> fills_of h buySide a seq tr ! i = fill_of h buySide a (tr ! i) (seq + 1 + of_nat i)"
proof (induction tr arbitrary: seq i)
  case (Cons rt tr)
  then show ?case by (cases i) (auto simp: ac_simps)
qed simp

lemma map_qty_fills_of: "map (\<lambda>d. f_Qty (fd_Fill d)) (fills_of h buySide a seq tr) = map snd tr"
  by (induction tr arbitrary: seq) (auto simp: fill_of_def Let_def)


section \<open>What the loops guarantee\<close>

text \<open>
  What the caller has when it starts a loop: the new order is not in the ladder, the ladder
  has no order twice, and every resting order has something left to trade.
\<close>

definition matchable :: "'a Core_scheme \<Rightarrow> Book \<Rightarrow> bool \<Rightarrow> oref \<Rightarrow> bool" where
  "matchable e book buySide a \<longleftrightarrow>
     distinct (a # opp buySide book) \<and> (\<forall>r\<in>set (opp buySide book). 0 < o_Qty (c_heap e r))"

definition trades_of :: "'a Core_scheme \<Rightarrow> Book \<Rightarrow> bool \<Rightarrow> oref \<Rightarrow> bool \<Rightarrow> (oref \<times> int) list" where
  "trades_of e book buySide a market =
     sweep (c_heap e) buySide market (o_Price (c_heap e a)) (o_Qty (c_heap e a)) (opp buySide book)"

lemma trades_of_fst: "fst ` set (trades_of e book buySide a market) \<subseteq> set (opp buySide book)"
  unfolding trades_of_def by (rule sweep_fst)

lemma trades_of_distinct:
  assumes "matchable e book buySide a"
  shows "distinct (map fst (trades_of e book buySide a market))"
  using assms by (simp add: trades_of_def sweep_prefix matchable_def)

lemma trades_of_active:
  assumes "matchable e book buySide a"
  shows "a \<notin> fst ` set (trades_of e book buySide a market)"
  using assms trades_of_fst unfolding matchable_def by fastforce

text \<open>The pieces of the result, for the proofs about the loops' callers.\<close>

lemma Engine_match_result:
  assumes "matchable e book buySide a" and "Engine_match buySide e book a market = (e', book', ds)"
  defines "tr \<equiv> trades_of e book buySide a market"
  shows "e' = e\<lparr>c_engineSeq := c_engineSeq e + of_nat (length tr),
                 c_heap := settle (c_heap e) a tr,
                 c_index := drop_ids (used_up (c_heap e) tr) (c_index e)\<rparr>"
    and "book' = set_opp buySide book
           (filter (\<lambda>r. 0 < o_Qty (settle (c_heap e) a tr r)) (opp buySide book))"
    and "ds = fills_of (c_heap e) buySide a (c_engineSeq e) tr"
  using Engine_match_sweep [of buySide book "opp buySide book" a e tr market] assms
  by (simp_all add: matchable_def trades_of_def)

lemma trades_of_qty:
  assumes "matchable e book buySide a" and "(r, t) \<in> set (trades_of e book buySide a market)"
  shows "0 < t \<and> t \<le> o_Qty (c_heap e r)"
  using assms sweep_qty unfolding matchable_def trades_of_def by blast

lemma trades_of_bounds:
  assumes "matchable e book buySide a" and "0 \<le> o_Qty (c_heap e a)"
  shows "0 \<le> traded (trades_of e book buySide a market)"
    and "traded (trades_of e book buySide a market) \<le> o_Qty (c_heap e a)"
  using assms traded_bounds unfolding matchable_def trades_of_def by blast+

lemma trades_of_sum:
  assumes "matchable e book buySide a"
  shows "(\<Sum>r\<in>set (opp buySide book).
      o_Qty (c_heap e r) - o_Qty (settle (c_heap e) a (trades_of e book buySide a market) r)) =
    traded (trades_of e book buySide a market)"
  using assms by (intro sum_settle [OF _ trades_of_def]) (simp add: matchable_def)

lemma fill_qtys:
  "sum_list (map (\<lambda>d. f_Qty (fd_Fill d)) (fills_of h buySide a seq tr)) = traded tr"
  by (simp add: map_qty_fills_of traded_def)

lemma trades_of_nth:
  assumes "i < length (trades_of e book buySide a market)"
  shows "fst (trades_of e book buySide a market ! i) = opp buySide book ! i"
    and "i < length (opp buySide book)"
proof -
  let ?tr = "trades_of e book buySide a market"
  have pre: "map fst ?tr = take (length ?tr) (opp buySide book)"
    unfolding trades_of_def by (rule sweep_prefix)
  then have "length ?tr = min (length (opp buySide book)) (length ?tr)"
    by (metis length_map length_take)
  with assms show "i < length (opp buySide book)" by simp
  show "fst (?tr ! i) = opp buySide book ! i"
    using assms pre by (metis nth_map nth_take)
qed

text \<open>What is left in the ladder was not used up, and is outside the limit of a residual.\<close>

lemma trades_of_exhausts:
  assumes m: "matchable e book buySide a"
    and sorted: "sorted_wrt (ref_before (c_heap e) (\<not> buySide) broken) (opp buySide book)"
    and left: "traded (trades_of e book buySide a market) < o_Qty (c_heap e a)"
    and r: "r \<in> set (opp buySide book)"
    and alive: "0 < o_Qty (settle (c_heap e) a (trades_of e book buySide a market) r)"
  shows "outside_limit buySide market (o_Price (c_heap e a)) (o_Price (c_heap e r))"
proof (rule sweep_exhausts [OF sorted])
  show "\<forall>r\<in>set (opp buySide book). 0 < o_Qty (c_heap e r)" using m by (simp add: matchable_def)
  show "traded (sweep (c_heap e) buySide market (o_Price (c_heap e a)) (o_Qty (c_heap e a))
      (opp buySide book)) < o_Qty (c_heap e a)"
    using left by (simp add: trades_of_def)
  show "r \<in> set (opp buySide book)" by (rule r)
  show "(r, o_Qty (c_heap e r)) \<notin> set (sweep (c_heap e) buySide market (o_Price (c_heap e a))
      (o_Qty (c_heap e a)) (opp buySide book))"
    using settle_resting [OF trades_of_active [OF m] trades_of_distinct [OF m], of r "o_Qty (c_heap e r)"]
      alive by (auto simp: trades_of_def)
qed

text \<open>A concrete book: two sells at 100 and one at 101, and a buy for 7.\<close>

definition demo_order :: "string \<Rightarrow> string \<Rightarrow> int \<Rightarrow> int \<Rightarrow> u64 \<Rightarrow> Order" where
  "demo_order oid side price qty n =
     \<lparr>o_ID = oid, o_Symbol = ''DEFAULT'', o_Side = side, o_Price = price, o_Qty = qty,
      o_TsNs = n, o_InsertSeq = n, o_Owner = None\<rparr>"

definition demo_core :: Core where
  "demo_core =
     \<lparr>c_engineSeq = 3,
      c_index = [''s1'' \<mapsto> 0, ''s2'' \<mapsto> 1, ''s3'' \<mapsto> 2],
      c_heap = (\<lambda>_. demo_order ''b'' ''BUY'' 100 7 4)
        (0 := demo_order ''s1'' ''SELL'' 100 3 1,
         1 := demo_order ''s2'' ''SELL'' 100 2 2,
         2 := demo_order ''s3'' ''SELL'' 101 5 3),
      c_next = 4\<rparr>"

definition demo_book :: Book where
  "demo_book = \<lparr>b_insertSeq = 3, b_buys = [], b_sells = [0, 1, 2]\<rparr>"

lemmas demo_defs = demo_core_def demo_book_def demo_order_def opp_def matchable_def

text \<open>
  C3. The matching loop on the heap of shared orders computes the sweep of the opposite
  ladder: the trades, and only they, move the sequence counter, the quantities and the
  ladder; the orders used up leave the ladder and the cancel index; the fills carry
  consecutive sequence numbers.
\<close>

theorem match_refines_sweep:
  assumes "matchable e book buySide a"
  shows "Engine_match buySide e book a market =
    (let tr = trades_of e book buySide a market; h' = settle (c_heap e) a tr in
     (e\<lparr>c_engineSeq := c_engineSeq e + of_nat (length tr), c_heap := h',
        c_index := drop_ids (used_up (c_heap e) tr) (c_index e)\<rparr>,
      set_opp buySide book (filter (\<lambda>r. 0 < o_Qty (h' r)) (opp buySide book)),
      fills_of (c_heap e) buySide a (c_engineSeq e) tr))"
  unfolding Let_def trades_of_def
  by (rule Engine_match_sweep [OF refl _ _ refl]) (use assms in \<open>simp_all add: matchable_def\<close>)

lemma match_refines_sweep_witness:
  "trades_of demo_core demo_book True 3 False = [(0, 3), (1, 2)] \<and>
   (case Engine_match True demo_core demo_book 3 False of
      (e', book', ds) \<Rightarrow> b_sells book' = [2] \<and> o_Qty (c_heap e' 3) = 2 \<and> length ds = 2)"
proof -
  have m: "matchable demo_core demo_book True 3" by (simp add: demo_defs)
  have tr: "trades_of demo_core demo_book True 3 False = [(0, 3), (1, 2)]"
    by (simp add: trades_of_def demo_defs Let_def outside_limit_def)
  show ?thesis
    unfolding match_refines_sweep [OF m] tr
    by (simp add: demo_defs Let_def set_opp_def decQty_def)
qed

text \<open>
  C2. Quantity is conserved: the fills have positive quantities that add up to what the new
  order lost and to what the resting orders lost, and the new order never goes below zero.
\<close>

theorem match_conserves_quantity:
  assumes "matchable e book buySide a" and "0 \<le> o_Qty (c_heap e a)"
  shows "case Engine_match buySide e book a market of (e', book', ds) \<Rightarrow>
    (\<forall>d\<in>set ds. 0 < f_Qty (fd_Fill d)) \<and>
    sum_list (map (\<lambda>d. f_Qty (fd_Fill d)) ds) = o_Qty (c_heap e a) - o_Qty (c_heap e' a) \<and>
    sum_list (map (\<lambda>d. f_Qty (fd_Fill d)) ds) =
      (\<Sum>r\<in>set (opp buySide book). o_Qty (c_heap e r) - o_Qty (c_heap e' r)) \<and>
    0 \<le> o_Qty (c_heap e' a)"
proof -
  obtain e' book' ds where eq: "Engine_match buySide e book a market = (e', book', ds)"
    by (cases "Engine_match buySide e book a market")
  note res = Engine_match_result [OF assms(1) eq]
  let ?tr = "trades_of e book buySide a market"
  have "set (map (\<lambda>d. f_Qty (fd_Fill d)) ds) = snd ` set ?tr"
    by (simp only: res(3) map_qty_fills_of set_map)
  then have "\<forall>d\<in>set ds. f_Qty (fd_Fill d) \<in> snd ` set ?tr" by force
  then have pos: "\<forall>d\<in>set ds. 0 < f_Qty (fd_Fill d)"
    using trades_of_qty [OF assms(1)] by force
  have qa: "o_Qty (c_heap e' a) = o_Qty (c_heap e a) - traded ?tr"
    by (simp add: res(1) settle_active [OF trades_of_active [OF assms(1)]])
  have "sum_list (map (\<lambda>d. f_Qty (fd_Fill d)) ds) = traded ?tr"
    by (simp only: res(3) fill_qtys)
  moreover have "(\<Sum>r\<in>set (opp buySide book). o_Qty (c_heap e r) - o_Qty (c_heap e' r)) = traded ?tr"
    using trades_of_sum [OF assms(1)] by (simp add: res(1))
  ultimately show ?thesis
    using pos qa trades_of_bounds [OF assms, of market] by (simp add: eq)
qed

lemma match_conserves_quantity_witness:
  "matchable demo_core demo_book True 3 \<and>
   (case Engine_match True demo_core demo_book 3 False of (e', book', ds) \<Rightarrow>
      sum_list (map (\<lambda>d. f_Qty (fd_Fill d)) ds) = 7 - o_Qty (c_heap e' 3))"
proof -
  have "matchable demo_core demo_book True 3" by (simp add: demo_defs)
  moreover have "o_Qty (c_heap demo_core 3) = 7" by (simp add: demo_defs)
  ultimately show ?thesis
    using match_conserves_quantity [of demo_core demo_book True 3 False] by auto
qed

text \<open>
  C1. Price-time priority: on a sorted ladder the fills hit exactly its first orders, in
  ladder order, each at the price of the resting order and inside the limit of the new one;
  every fill but the last uses its resting order up; and a residual is left only when the
  ladder that remains is empty (market) or starts outside the limit.
\<close>

theorem match_price_time_priority:
  assumes "matchable e book buySide a"
    and "sorted_wrt (ref_before (c_heap e) (\<not> buySide) broken) (opp buySide book)"
  shows "case Engine_match buySide e book a market of (e', book', ds) \<Rightarrow>
    (\<forall>i<length ds. i < length (opp buySide book) \<and>
       (let f = fd_Fill (ds ! i); r = opp buySide book ! i in
        (if buySide then f_SellOrderID f else f_BuyOrderID f) = o_ID (c_heap e r) \<and>
        f_Price f = o_Price (c_heap e r) \<and>
        \<not> outside_limit buySide market (o_Price (c_heap e a)) (f_Price f) \<and>
        f_EngineSeq f = c_engineSeq e + 1 + of_nat i \<and>
        (Suc i < length ds \<longrightarrow> f_Qty f = o_Qty (c_heap e r)))) \<and>
    (0 < o_Qty (c_heap e' a) \<longrightarrow>
       (\<forall>r\<in>set (opp buySide book').
          outside_limit buySide market (o_Price (c_heap e a)) (o_Price (c_heap e r))))"
proof -
  obtain e' book' ds where eq: "Engine_match buySide e book a market = (e', book', ds)"
    by (cases "Engine_match buySide e book a market")
  note res = Engine_match_result [OF assms(1) eq]
  let ?tr = "trades_of e book buySide a market"
  have fills: "i < length (opp buySide book) \<and>
     (let f = fd_Fill (ds ! i); r = opp buySide book ! i in
        (if buySide then f_SellOrderID f else f_BuyOrderID f) = o_ID (c_heap e r) \<and>
        f_Price f = o_Price (c_heap e r) \<and>
        \<not> outside_limit buySide market (o_Price (c_heap e a)) (f_Price f) \<and>
        f_EngineSeq f = c_engineSeq e + 1 + of_nat i \<and>
        (Suc i < length ds \<longrightarrow> f_Qty f = o_Qty (c_heap e r)))" if i: "i < length ds" for i
  proof -
    have len: "i < length ?tr" using i by (simp add: res(3))
    obtain t where nth: "?tr ! i = (opp buySide book ! i, t)"
      using trades_of_nth(1) [OF len] by (metis prod.collapse)
    have mem: "(opp buySide book ! i, t) \<in> set ?tr" using nth len nth_mem by metis
    have last: "t = o_Qty (c_heap e (opp buySide book ! i))" if "Suc i < length ?tr"
    proof (rule sweep_butlast_used)
      have "i < length (butlast ?tr)" using that by simp
      then have "?tr ! i \<in> set (butlast ?tr)" by (metis nth_butlast nth_mem)
      then show "(opp buySide book ! i, t) \<in> set (butlast (sweep (c_heap e) buySide market
          (o_Price (c_heap e a)) (o_Qty (c_heap e a)) (opp buySide book)))"
        using nth by (simp add: trades_of_def)
    qed (use assms(1) in \<open>simp add: matchable_def\<close>)
    have "\<not> outside_limit buySide market (o_Price (c_heap e a)) (o_Price (c_heap e (opp buySide book ! i)))"
      using mem sweep_within_limit unfolding trades_of_def by blast
    then show ?thesis
      using last trades_of_nth(2) [OF len] nth len
      by (simp add: res(3) fills_of_nth fill_of_def)
  qed
  have "0 < o_Qty (c_heap e' a) \<longrightarrow>
     (\<forall>r\<in>set (opp buySide book').
        outside_limit buySide market (o_Price (c_heap e a)) (o_Price (c_heap e r)))"
    using trades_of_exhausts [OF assms] settle_active [OF trades_of_active [OF assms(1)]]
    by (auto simp: res(1,2))
  with fills show ?thesis by (simp add: eq)
qed

lemma match_price_time_priority_witness:
  "sorted_wrt (ref_before (c_heap demo_core) False False) (b_sells demo_book) \<and>
   (case Engine_match True demo_core demo_book 3 False of (e', book', ds) \<Rightarrow>
      0 < o_Qty (c_heap e' 3) \<longrightarrow>
        (\<forall>r\<in>set (b_sells book'). 100 < o_Price (c_heap demo_core r)))"
proof -
  have "matchable demo_core demo_book True 3"
    and sorted: "sorted_wrt (ref_before (c_heap demo_core) (\<not> True) False) (opp True demo_book)"
    by (simp_all add: demo_defs orderBefore_def)
  then have "case Engine_match True demo_core demo_book 3 False of (e', book', ds) \<Rightarrow>
      0 < o_Qty (c_heap e' 3) \<longrightarrow> (\<forall>r\<in>set (opp True book').
        outside_limit True False (o_Price (c_heap demo_core 3)) (o_Price (c_heap demo_core r)))"
    using match_price_time_priority [of demo_core demo_book True 3 False False]
    by (simp add: case_prod_beta)
  with sorted show ?thesis
    by (simp add: case_prod_beta outside_limit_def demo_defs)
qed

end
