(* ===== verification/MutexEngine.thy ===== *)
theory MutexEngine
  imports Matching
begin

text \<open>
  The mutex engine of \<^verbatim>\<open>examples/stub-engine/main.go\<close>: \<^verbatim>\<open>Engine\<close> with its books by
  symbol, \<^verbatim>\<open>ProcessNew\<close> and \<^verbatim>\<open>ProcessCancel\<close>.

  Each operation runs under the lock of its book, so it is one atomic step of the model;
  \<^verbatim>\<open>ProcessCancel\<close> reads the index before it takes the lock and is therefore two steps,
  \<open>ProcessCancel_load\<close> and \<open>ProcessCancel_locked\<close>, between which any other operation may
  run.  The clock is an argument (\<open>now\<close>).
\<close>

record Engine = Core +
  e_books :: "string \<Rightarrow> Book option"
  e_mode :: string

definition newEngine :: "string \<Rightarrow> Engine" where
  "newEngine mode =
     \<lparr>c_engineSeq = 0, c_index = Map.empty, c_heap = (\<lambda>_. \<lparr>o_ID = [], o_Symbol = [], o_Side = [],
        o_Price = 0, o_Qty = 0, o_TsNs = 0, o_InsertSeq = 0, o_Owner = None\<rparr>), c_next = 0,
      e_books = Map.empty, e_mode = mode\<rparr>"

definition e_broken :: "Engine \<Rightarrow> bool" where
  "e_broken e = (e_mode e = ''broken-price-time-priority'')"

section \<open>Acks and books\<close>

definition mkAck :: "string \<Rightarrow> string \<Rightarrow> u64 \<Rightarrow> u64 \<Rightarrow> string \<Rightarrow> Ack" where
  "mkAck cid status seq now reason =
     \<lparr>ack_Type = ''ack'', ack_ClientOrderID = cid, ack_Status = status, ack_EngineSeq = seq,
      ack_TsNs = now, ack_Reason = reason\<rparr>"

definition RejectAck :: "'a Core_scheme \<Rightarrow> u64 \<Rightarrow> string \<Rightarrow> 'a Core_scheme \<times> Ack" where
  "RejectAck e now reason = (let (seq, e') = nextSeq e in (e', mkAck [] ''rejected'' seq now reason))"

definition rejectResidual :: "Ack \<Rightarrow> FillDelivery list \<Rightarrow> Ack" where
  "rejectResidual ack deliveries =
     (if deliveries = [] then ack\<lparr>ack_Status := ''rejected'', ack_Reason := ''book_full''\<rparr>
      else ack\<lparr>ack_Reason := ''residual_dropped''\<rparr>)"

text \<open>
  The double-checked creation: a book that is there is returned, a missing one is created.
  The symbol it is filed under is the result's first component.
\<close>

definition bookFor :: "Engine \<Rightarrow> string \<Rightarrow> string \<times> Book \<times> Engine" where
  "bookFor e symbol =
     (let symbol = (if symbol = [] then ''DEFAULT'' else symbol) in
      case e_books e symbol of
        Some book \<Rightarrow> (symbol, book, e)
      | None \<Rightarrow> (symbol, newBook, e\<lparr>e_books := (e_books e)(symbol \<mapsto> newBook)\<rparr>))"

section \<open>ProcessNew\<close>

definition invalid_order :: "NewOrder \<Rightarrow> bool" where
  "invalid_order ord \<longleftrightarrow>
     (let side = ToUpper (no_Side ord);
          orderType = (let t = ToUpper (no_OrderType ord) in if t = [] then ''LIMIT'' else t)
      in no_ClientOrderID ord = [] \<or> no_Qty ord \<le> 0 \<or> (side \<noteq> ''BUY'' \<and> side \<noteq> ''SELL'') \<or>
         (orderType = ''LIMIT'' \<and> no_Price ord \<le> 0))"

definition is_market :: "NewOrder \<Rightarrow> bool" where
  "is_market ord \<longleftrightarrow> ToUpper (no_OrderType ord) = ''MARKET''"

definition ProcessNew_locked ::
  "Engine \<Rightarrow> u64 \<Rightarrow> NewOrder \<Rightarrow> client option \<Rightarrow> string \<Rightarrow> Book \<Rightarrow> Engine \<times> Ack \<times> FillDelivery list" where
  "ProcessNew_locked e now ord owner symbol book =
     (let side = ToUpper (no_Side ord);
          (seq, e1) = nextSeq e;
          ack = mkAck (no_ClientOrderID ord) ''accepted'' seq now [];
          book1 = book\<lparr>b_insertSeq := b_insertSeq book + 1\<rparr>;
          active = \<lparr>o_ID = no_ClientOrderID ord, o_Symbol = symbol, o_Side = side,
                    o_Price = no_Price ord, o_Qty = no_Qty ord, o_TsNs = no_TsNs ord,
                    o_InsertSeq = b_insertSeq book1, o_Owner = owner\<rparr>;
          a = c_next e1;
          e2 = e1\<lparr>c_heap := (c_heap e1)(a := active), c_next := a + 1\<rparr>;
          broken = e_broken e
      in if side = ''BUY''
         then let (e3, book2, deliveries) = Engine_matchBuy e2 book1 a (is_market ord)
              in if o_Qty (c_heap e3 a) > 0 \<and> \<not> is_market ord
                 then if length (b_buys book2) < maxRestingPerSymbol
                      then let book3 = book2\<lparr>b_buys := insertSorted (c_heap e3) (b_buys book2) a True broken\<rparr>
                           in (e3\<lparr>c_index := (c_index e3)(o_ID active \<mapsto> a),
                                 e_books := (e_books e3)(symbol \<mapsto> book3)\<rparr>, ack, deliveries)
                      else (e3\<lparr>e_books := (e_books e3)(symbol \<mapsto> book2)\<rparr>, rejectResidual ack deliveries, deliveries)
                 else (e3\<lparr>e_books := (e_books e3)(symbol \<mapsto> book2)\<rparr>, ack, deliveries)
         else let (e3, book2, deliveries) = Engine_matchSell e2 book1 a (is_market ord)
              in if o_Qty (c_heap e3 a) > 0 \<and> \<not> is_market ord
                 then if length (b_sells book2) < maxRestingPerSymbol
                      then let book3 = book2\<lparr>b_sells := insertSorted (c_heap e3) (b_sells book2) a False broken\<rparr>
                           in (e3\<lparr>c_index := (c_index e3)(o_ID active \<mapsto> a),
                                 e_books := (e_books e3)(symbol \<mapsto> book3)\<rparr>, ack, deliveries)
                      else (e3\<lparr>e_books := (e_books e3)(symbol \<mapsto> book2)\<rparr>, rejectResidual ack deliveries, deliveries)
                 else (e3\<lparr>e_books := (e_books e3)(symbol \<mapsto> book2)\<rparr>, ack, deliveries))"

definition ProcessNew ::
  "Engine \<Rightarrow> u64 \<Rightarrow> NewOrder \<Rightarrow> client option \<Rightarrow> Engine \<times> Ack \<times> FillDelivery list" where
  "ProcessNew e now ord owner =
     (if invalid_order ord
      then let (seq, e1) = nextSeq e
           in (e1, mkAck (no_ClientOrderID ord) ''rejected'' seq now ''invalid_order'', [])
      else if length (no_ClientOrderID ord) > maxOrderFieldLen \<or> length (no_Symbol ord) > maxOrderFieldLen
      then let (seq, e1) = nextSeq e
           in (e1, mkAck (no_ClientOrderID ord) ''rejected'' seq now ''field_too_long'', [])
      else let symbol = (if no_Symbol ord = [] then ''DEFAULT'' else no_Symbol ord);
               (symbol', book, e1) = bookFor e symbol
           in ProcessNew_locked e1 now ord owner symbol' book)"

section \<open>ProcessCancel\<close>

text \<open>The lookup before the lock: not found ends the call, found keeps the pointer.\<close>

definition ProcessCancel_load :: "Engine \<Rightarrow> u64 \<Rightarrow> CancelOrder \<Rightarrow> Engine \<times> (Ack + oref)" where
  "ProcessCancel_load e now c =
     (case c_index e (co_OrigClientOrderID c) of
        None \<Rightarrow> let (seq, e1) = nextSeq e
                in (e1, Inl (mkAck (co_ClientOrderID c) ''not_found'' seq now []))
      | Some ord \<Rightarrow> (e, Inr ord))"

definition ProcessCancel_locked :: "Engine \<Rightarrow> u64 \<Rightarrow> CancelOrder \<Rightarrow> oref \<Rightarrow> Engine \<times> Ack" where
  "ProcessCancel_locked e now c ord =
     (let (symbol, book, e1) = bookFor e (o_Symbol (c_heap e ord));
          (seq, e2) = nextSeq e1;
          ack = mkAck (co_ClientOrderID c) ''not_found'' seq now [];
          (removed, book') = removeOrder (c_heap e2) book ord (e_broken e2)
      in if removed
         then (e2\<lparr>e_books := (e_books e2)(symbol \<mapsto> book'),
                  c_index := (c_index e2)(co_OrigClientOrderID c := None)\<rparr>,
               ack\<lparr>ack_Status := ''canceled''\<rparr>)
         else (e2, ack))"

definition ProcessCancel :: "Engine \<Rightarrow> u64 \<Rightarrow> CancelOrder \<Rightarrow> Engine \<times> Ack" where
  "ProcessCancel e now c =
     (case ProcessCancel_load e now c of
        (e1, Inl ack) \<Rightarrow> (e1, ack)
      | (e1, Inr ord) \<Rightarrow> ProcessCancel_locked e1 now c ord)"


section \<open>Both sides at once\<close>

text \<open>
  The two branches of \<open>ProcessNew_locked\<close> are one, over the side of the new order; its own
  side is the opposite of the opposite one.
\<close>

definition new_active :: "NewOrder \<Rightarrow> client option \<Rightarrow> string \<Rightarrow> Book \<Rightarrow> Order" where
  "new_active ord owner symbol book =
     \<lparr>o_ID = no_ClientOrderID ord, o_Symbol = symbol, o_Side = ToUpper (no_Side ord),
      o_Price = no_Price ord, o_Qty = no_Qty ord, o_TsNs = no_TsNs ord,
      o_InsertSeq = b_insertSeq book + 1, o_Owner = owner\<rparr>"

definition new_core :: "Engine \<Rightarrow> NewOrder \<Rightarrow> client option \<Rightarrow> string \<Rightarrow> Book \<Rightarrow> Engine" where
  "new_core e ord owner symbol book =
     e\<lparr>c_engineSeq := c_engineSeq e + 1,
       c_heap := (c_heap e)(c_next e := new_active ord owner symbol book),
       c_next := c_next e + 1\<rparr>"

definition is_buy :: "NewOrder \<Rightarrow> bool" where
  "is_buy ord \<longleftrightarrow> ToUpper (no_Side ord) = ''BUY''"

lemma ProcessNew_locked_eq:
  "ProcessNew_locked e now ord owner symbol book =
     (let bs = is_buy ord; a = c_next e;
          ack = mkAck (no_ClientOrderID ord) ''accepted'' (c_engineSeq e + 1) now [];
          (e3, book2, ds) = Engine_match bs (new_core e ord owner symbol book)
             (book\<lparr>b_insertSeq := b_insertSeq book + 1\<rparr>) a (is_market ord)
      in if o_Qty (c_heap e3 a) > 0 \<and> \<not> is_market ord
         then if length (opp (\<not> bs) book2) < maxRestingPerSymbol
              then (e3\<lparr>c_index := (c_index e3)(no_ClientOrderID ord \<mapsto> a),
                       e_books := (e_books e3)(symbol \<mapsto> set_opp (\<not> bs) book2
                          (insertSorted (c_heap e3) (opp (\<not> bs) book2) a bs (e_broken e)))\<rparr>, ack, ds)
              else (e3\<lparr>e_books := (e_books e3)(symbol \<mapsto> book2)\<rparr>, rejectResidual ack ds, ds)
         else (e3\<lparr>e_books := (e_books e3)(symbol \<mapsto> book2)\<rparr>, ack, ds))"
proof -
  obtain e3 book2 ds where m: "Engine_match (is_buy ord) (new_core e ord owner symbol book)
      (book\<lparr>b_insertSeq := b_insertSeq book + 1\<rparr>) (c_next e) (is_market ord) = (e3, book2, ds)"
    by (cases "Engine_match (is_buy ord) (new_core e ord owner symbol book)
      (book\<lparr>b_insertSeq := b_insertSeq book + 1\<rparr>) (c_next e) (is_market ord)")
  show ?thesis
  proof (cases "ToUpper (no_Side ord) = ''BUY''")
    case True
    then show ?thesis
      using m by (simp add: ProcessNew_locked_def Engine_match_def is_buy_def new_core_def
          new_active_def nextSeq_def Let_def opp_def set_opp_def)
  next
    case False
    then show ?thesis
      using m by (simp add: ProcessNew_locked_def Engine_match_def is_buy_def new_core_def
          new_active_def nextSeq_def Let_def opp_def set_opp_def)
  qed
qed

section \<open>The invariant\<close>

definition side_ok :: "heap \<Rightarrow> oref \<Rightarrow> bool \<Rightarrow> string \<Rightarrow> u64 \<Rightarrow> bool \<Rightarrow> oref list \<Rightarrow> bool" where
  "side_ok h n broken symbol ins buySide s \<longleftrightarrow>
     sorted_wrt (ref_before h buySide broken) s \<and> length s \<le> maxRestingPerSymbol \<and>
     (\<forall>r\<in>set s. r < n \<and> 0 < o_Qty (h r) \<and> o_Side (h r) = (if buySide then ''BUY'' else ''SELL'') \<and>
        o_Symbol (h r) = symbol \<and> o_InsertSeq (h r) \<le> ins)"

definition uncrossed :: "heap \<Rightarrow> Book \<Rightarrow> bool" where
  "uncrossed h book \<longleftrightarrow>
     (\<forall>b\<in>set (b_buys book). \<forall>s\<in>set (b_sells book). o_Price (h b) < o_Price (h s))"

definition book_ok :: "heap \<Rightarrow> oref \<Rightarrow> bool \<Rightarrow> string \<Rightarrow> Book \<Rightarrow> bool" where
  "book_ok h n broken symbol book \<longleftrightarrow>
     side_ok h n broken symbol (b_insertSeq book) True (b_buys book) \<and>
     side_ok h n broken symbol (b_insertSeq book) False (b_sells book) \<and> uncrossed h book"

definition books_ok :: "Engine \<Rightarrow> bool" where
  "books_ok e \<longleftrightarrow> (\<forall>symbol book. e_books e symbol = Some book \<longrightarrow>
     symbol \<noteq> [] \<and> book_ok (c_heap e) (c_next e) (e_broken e) symbol book)"

text \<open>Every entry of the cancel index points to a resting order with that identifier.\<close>

definition resting :: "Engine \<Rightarrow> oref \<Rightarrow> bool" where
  "resting e r \<longleftrightarrow> (case e_books e (o_Symbol (c_heap e r)) of
     None \<Rightarrow> False | Some book \<Rightarrow> r \<in> set (side_of (c_heap e) book r))"

definition index_ok :: "Engine \<Rightarrow> bool" where
  "index_ok e \<longleftrightarrow> (\<forall>i r. c_index e i = Some r \<longrightarrow> o_ID (c_heap e r) = i \<and> resting e r)"

definition engine_ok :: "Engine \<Rightarrow> bool" where
  "engine_ok e \<longleftrightarrow> books_ok e \<and> index_ok e"

lemma book_ok_sides:
  "book_ok h n broken symbol book \<longleftrightarrow>
     (\<forall>bs. side_ok h n broken symbol (b_insertSeq book) bs (opp (\<not> bs) book)) \<and> uncrossed h book"
  by (auto simp: book_ok_def opp_def all_bool_eq)

lemma book_ok_opp:
  assumes "book_ok h n broken symbol book"
  shows "side_ok h n broken symbol (b_insertSeq book) (\<not> bs) (opp bs book)"
  using assms by (cases bs) (auto simp: book_ok_def opp_def)

lemma book_ok_own:
  assumes "book_ok h n broken symbol book"
  shows "side_ok h n broken symbol (b_insertSeq book) bs (opp (\<not> bs) book)"
  using assms by (cases bs) (auto simp: book_ok_def opp_def)

lemma side_okD:
  assumes "side_ok h n broken symbol ins bs s" and "r \<in> set s"
  shows "r < n" "0 < o_Qty (h r)" "o_Side (h r) = (if bs then ''BUY'' else ''SELL'')"
    "o_Symbol (h r) = symbol" "o_InsertSeq (h r) \<le> ins"
  using assms unfolding side_ok_def by blast+

lemma own_not_opp:
  assumes ok: "book_ok h n broken symbol book" and r: "r \<in> set (opp (\<not> bs) book)"
  shows "r \<noteq> n" "r \<notin> set (opp bs book)"
proof -
  note own = side_okD [OF book_ok_own [OF ok] r]
  then show "r \<noteq> n" by simp
  show "r \<notin> set (opp bs book)"
  proof
    assume "r \<in> set (opp bs book)"
    from side_okD(3) [OF book_ok_opp [OF ok] this] own(3) show False by (cases bs) simp_all
  qed
qed

text \<open>All fields but the quantity.\<close>

definition same_order :: "Order \<Rightarrow> Order \<Rightarrow> bool" where
  "same_order x y \<longleftrightarrow> y = x\<lparr>o_Qty := o_Qty y\<rparr>"

lemma same_orderD:
  assumes "same_order x y"
  shows "o_ID y = o_ID x" "o_Symbol y = o_Symbol x" "o_Side y = o_Side x" "o_Price y = o_Price x"
    "o_TsNs y = o_TsNs x" "o_InsertSeq y = o_InsertSeq x" "o_Owner y = o_Owner x"
proof -
  from assms have "y = x\<lparr>o_Qty := o_Qty y\<rparr>" by (simp add: same_order_def)
  then show "o_ID y = o_ID x" "o_Symbol y = o_Symbol x" "o_Side y = o_Side x" "o_Price y = o_Price x"
    "o_TsNs y = o_TsNs x" "o_InsertSeq y = o_InsertSeq x" "o_Owner y = o_Owner x"
    by (metis Order.simps(1-9) Order.select_convs Order.surjective Order.update_convs)+
qed

lemma same_order_settle [simp]: "same_order (h r) (settle h a tr r)"
  by (simp add: same_order_def)

lemma same_order_refl [simp]: "same_order x x"
  by (simp add: same_order_def)

lemma side_ok_filter:
  assumes "side_ok h n broken symbol ins bs s" and "n \<le> n'" and "ins \<le> ins'"
    and "\<forall>r\<in>set s. P r \<longrightarrow> same_order (h r) (h' r) \<and> 0 < o_Qty (h' r)"
  shows "side_ok h' n' broken symbol ins' bs (filter P s)"
proof -
  have fields: "o_ID (h' r) = o_ID (h r)" "o_Symbol (h' r) = o_Symbol (h r)"
    "o_Side (h' r) = o_Side (h r)" "o_Price (h' r) = o_Price (h r)"
    "o_TsNs (h' r) = o_TsNs (h r)" "o_InsertSeq (h' r) = o_InsertSeq (h r)"
    if "r \<in> set s" "P r" for r
    using assms(4) that same_orderD by blast+
  have "sorted_wrt (ref_before h bs broken) (filter P s)"
    using assms(1) by (simp add: side_ok_def sorted_wrt_filter)
  then have "sorted_wrt (ref_before h' bs broken) (filter P s)"
    by (rule sorted_wrt_mono_rel [rotated]) (auto simp: orderBefore_def fields split: if_splits)
  moreover have "length (filter P s) \<le> maxRestingPerSymbol"
    using assms(1) length_filter_le [of P s] unfolding side_ok_def by linarith
  ultimately show ?thesis
    using assms fields unfolding side_ok_def by (auto intro: order_trans)
qed

lemma side_ok_mono:
  assumes "side_ok h n broken symbol ins bs s" and "n \<le> n'" and "ins \<le> ins'"
    and "\<forall>r\<in>set s. h' r = h r"
  shows "side_ok h' n' broken symbol ins' bs s"
proof -
  have "side_ok h' n' broken symbol ins' bs (filter (\<lambda>_. True) s)"
    by (rule side_ok_filter [OF assms(1-3)]) (use assms(1,4) in \<open>simp add: side_ok_def\<close>)
  then show ?thesis by simp
qed

lemma side_ok_insert:
  assumes ok: "side_ok h n broken symbol ins bs s" and "r < n" and "0 < o_Qty (h r)"
    and "o_Side (h r) = (if bs then ''BUY'' else ''SELL'')" and "o_Symbol (h r) = symbol"
    and "o_InsertSeq (h r) = ins'" and "ins < ins'" and "length s < maxRestingPerSymbol"
  shows "side_ok h n broken symbol ins' bs (insertSorted h s r bs broken)"
proof -
  have "\<forall>x\<in>set s. o_InsertSeq (h x) \<noteq> o_InsertSeq (h r)"
    using ok assms(6,7) unfolding side_ok_def by force
  then have "sorted_wrt (ref_before h bs broken) (insertSorted h s r bs broken)"
    using ok unfolding side_ok_def by (intro sorted_insertSorted) auto
  with assms show ?thesis
    unfolding side_ok_def by (auto intro: order_trans [OF _ less_imp_le])
qed


section \<open>The matching phase under the invariant\<close>

lemma side_ok_distinct: "side_ok h n broken symbol ins bs s \<Longrightarrow> distinct s"
  unfolding side_ok_def using ladder_distinct by blast

lemma opp_insertSeq [simp]: "opp bs (book\<lparr>b_insertSeq := n\<rparr>) = opp bs book"
  by (simp add: opp_def)

lemma set_opp_insertSeq [simp]: "b_insertSeq (set_opp bs book s) = b_insertSeq book"
  by (simp add: set_opp_def)

lemma opp_set_opp_other [simp]: "opp (\<not> bs) (set_opp bs book s) = opp (\<not> bs) book"
  "opp bs (set_opp (\<not> bs) book s) = opp bs book"
  by (simp_all add: opp_def set_opp_def)

lemma new_matchable:
  assumes "book_ok (c_heap e) (c_next e) broken symbol book"
  shows "matchable (new_core e ord owner symbol book) (book\<lparr>b_insertSeq := n\<rparr>) bs (c_next e)"
proof -
  have "side_ok (c_heap e) (c_next e) broken symbol (b_insertSeq book) (\<not> bs) (opp bs book)"
    using assms by (rule book_ok_opp)
  then show ?thesis
    using side_ok_distinct unfolding matchable_def new_core_def
    by (auto simp: side_ok_def)
qed

lemma after_match:
  assumes ok: "book_ok (c_heap e) (c_next e) broken symbol book"
    and m: "Engine_match bs (new_core e ord owner symbol book)
      (book\<lparr>b_insertSeq := b_insertSeq book + 1\<rparr>) (c_next e) market = (e3, book2, ds)"
    and qty: "0 < no_Qty ord"
  shows after_match_next: "c_next e3 = c_next e + 1" "e_books e3 = e_books e" "e_mode e3 = e_mode e"
    and after_match_same: "r \<noteq> c_next e \<Longrightarrow> same_order (c_heap e r) (c_heap e3 r)"
    and after_match_other:
      "r \<noteq> c_next e \<Longrightarrow> r \<notin> set (opp bs book) \<Longrightarrow> c_heap e3 r = c_heap e r"
    and after_match_opp: "opp bs book2 = filter (\<lambda>r. 0 < o_Qty (c_heap e3 r)) (opp bs book)"
      "opp (\<not> bs) book2 = opp (\<not> bs) book" "b_insertSeq book2 = b_insertSeq book + 1"
    and after_match_active: "same_order (new_active ord owner symbol book) (c_heap e3 (c_next e))"
      "0 \<le> o_Qty (c_heap e3 (c_next e))"
    and after_match_residual:
      "0 < o_Qty (c_heap e3 (c_next e)) \<Longrightarrow> r \<in> set (opp bs book2) \<Longrightarrow>
         outside_limit bs market (no_Price ord) (o_Price (c_heap e r))"
    and after_match_index: "c_index e3 i = Some r \<Longrightarrow> o_ID (c_heap e r) = i \<Longrightarrow>
         c_index e i = Some r \<and> (r \<in> set (opp bs book) \<longrightarrow> 0 < o_Qty (c_heap e3 r))"
proof -
  let ?c = "new_core e ord owner symbol book"
  let ?b = "book\<lparr>b_insertSeq := b_insertSeq book + 1\<rparr>"
  let ?a = "c_next e"
  let ?tr = "trades_of ?c ?b bs ?a market"
  note mt = new_matchable [OF ok, of ord owner "b_insertSeq book + 1" bs]
  note res = Engine_match_result [OF mt m]
  have side: "side_ok (c_heap e) ?a broken symbol (b_insertSeq book) (\<not> bs) (opp bs book)"
    using ok by (rule book_ok_opp)
  have fresh: "?a \<notin> set (opp bs book)" using side by (auto simp: side_ok_def)
  have heap_old: "c_heap ?c r = c_heap e r" if "r \<noteq> ?a" for r
    using that by (simp add: new_core_def)
  have act: "c_heap ?c ?a = new_active ord owner symbol book" by (simp add: new_core_def)
  have tr_sub: "fst ` set ?tr \<subseteq> set (opp bs book)" using trades_of_fst [of ?c ?b bs ?a market] by simp
  show "c_next e3 = c_next e + 1" "e_books e3 = e_books e" "e_mode e3 = e_mode e"
    by (simp_all add: res(1) new_core_def)
  show "same_order (c_heap e r) (c_heap e3 r)" if "r \<noteq> ?a"
    using same_order_settle [of "c_heap ?c" r ?a ?tr] heap_old [OF that] by (simp add: res(1))
  show "c_heap e3 r = c_heap e r" if "r \<noteq> ?a" "r \<notin> set (opp bs book)"
    using settle_other [of r ?a ?tr "c_heap ?c"] that tr_sub heap_old by (auto simp: res(1))
  show opp2: "opp bs book2 = filter (\<lambda>r. 0 < o_Qty (c_heap e3 r)) (opp bs book)"
    and "opp (\<not> bs) book2 = opp (\<not> bs) book" and "b_insertSeq book2 = b_insertSeq book + 1"
    by (simp_all add: res(1,2))
  show "same_order (new_active ord owner symbol book) (c_heap e3 ?a)"
    using same_order_settle [of "c_heap ?c" ?a ?a ?tr] by (simp add: res(1) act)
  have qa: "o_Qty (c_heap e3 ?a) = no_Qty ord - traded ?tr"
    using settle_active [OF trades_of_active [OF mt], of "c_heap ?c" market]
    by (simp add: res(1) act new_active_def)
  show "0 \<le> o_Qty (c_heap e3 ?a)"
    using trades_of_bounds(2) [OF mt, of market] qty by (simp add: qa act new_active_def)
  have "sorted_wrt (ref_before (c_heap ?c) (\<not> bs) broken) (opp bs ?b)"
    using side fresh heap_old unfolding side_ok_def
    by (auto intro!: sorted_wrt_mono_rel [of _ "ref_before (c_heap e) (\<not> bs) broken"])
      (metis heap_old fresh)+
  note exh = trades_of_exhausts [OF mt this, of market]
  show "outside_limit bs market (no_Price ord) (o_Price (c_heap e r))"
    if "0 < o_Qty (c_heap e3 ?a)" "r \<in> set (opp bs book2)"
  proof -
    from that(2) have r: "r \<in> set (opp bs book)" "0 < o_Qty (c_heap e3 r)" by (simp_all add: opp2)
    moreover from r fresh have "r \<noteq> ?a" by blast
    moreover have "traded ?tr < no_Qty ord" using that(1) by (simp only: qa)
    moreover have "0 < o_Qty (settle (c_heap ?c) ?a ?tr r)" using r(2) by (simp add: res(1))
    ultimately show ?thesis
      using exh [of r] heap_old [of r] by (simp add: act new_active_def)
  qed
  show "c_index e i = Some r \<and> (r \<in> set (opp bs book) \<longrightarrow> 0 < o_Qty (c_heap e3 r))"
    if idx: "c_index e3 i = Some r" and i: "o_ID (c_heap e r) = i"
  proof -
    from idx have old: "c_index e i = Some r" and nu: "i \<notin> used_up (c_heap ?c) ?tr"
      by (auto simp: res(1) drop_ids_def new_core_def split: if_splits)
    have "0 < o_Qty (c_heap e3 r)" if r: "r \<in> set (opp bs book)"
    proof (cases "r \<in> fst ` set ?tr")
      case True
      then obtain t where t: "(r, t) \<in> set ?tr" by force
      have ra: "r \<noteq> ?a" using r fresh by blast
      have "t \<noteq> o_Qty (c_heap ?c r)"
      proof
        assume "t = o_Qty (c_heap ?c r)"
        then have "o_ID (c_heap ?c r) \<in> used_up (c_heap ?c) ?tr"
          using t unfolding used_up_def by blast
        with nu i heap_old [OF ra] show False by simp
      qed
      moreover have "o_Qty (c_heap e3 r) = o_Qty (c_heap ?c r) - t"
        using settle_resting [OF trades_of_active [OF mt] trades_of_distinct [OF mt] t] by (simp add: res(1))
      ultimately show ?thesis using trades_of_qty [OF mt t] by simp
    next
      case False
      moreover have ra: "r \<noteq> ?a" using r fresh by blast
      ultimately have "c_heap e3 r = c_heap e r"
        using settle_other [of r ?a ?tr "c_heap ?c"] heap_old by (simp add: res(1))
      then show ?thesis using side r by (simp add: side_ok_def)
    qed
    with old show ?thesis by blast
  qed
qed


section \<open>ProcessNew preserves the invariant\<close>

lemma side_of_opp: "side_of h book r = opp (o_Side (h r) \<noteq> ''BUY'') book"
  by (simp add: side_of_def opp_def)

lemma book_ok_frame:
  assumes "book_ok h n broken symbol book" and "n \<le> n'"
    and "\<forall>r<n. o_Symbol (h r) = symbol \<longrightarrow> h' r = h r"
  shows "book_ok h' n' broken symbol book"
proof -
  have "\<forall>r\<in>set (b_buys book) \<union> set (b_sells book). h' r = h r"
    using assms(1,3) unfolding book_ok_def side_ok_def by blast
  then show ?thesis
    using assms(1,2) unfolding book_ok_def uncrossed_def
    by (auto intro: side_ok_mono)
qed

lemma resting_alloc:
  assumes "books_ok e" and "resting e r"
  shows "r < c_next e"
proof -
  obtain book where "e_books e (o_Symbol (c_heap e r)) = Some book" "r \<in> set (side_of (c_heap e) book r)"
    using assms(2) unfolding resting_def by (auto split: option.splits)
  with assms(1) show ?thesis
    unfolding books_ok_def book_ok_def side_ok_def side_of_def by (auto split: if_splits)
qed

lemma book2_ok:
  assumes ok: "book_ok (c_heap e) (c_next e) broken symbol book" and w: "b_insertSeq book \<noteq> - 1"
    and m: "Engine_match bs (new_core e ord owner symbol book)
      (book\<lparr>b_insertSeq := b_insertSeq book + 1\<rparr>) (c_next e) market = (e3, book2, ds)"
    and qty: "0 < no_Qty ord"
  shows "book_ok (c_heap e3) (c_next e + 1) broken symbol book2"
proof -
  note am = after_match [OF ok m qty]
  note own = book_ok_own [OF ok, of bs] and opp = book_ok_opp [OF ok, of bs]
  have ins: "b_insertSeq book \<le> b_insertSeq book + 1"
    using word_succ_gt [OF w] by simp
  have other: "r \<noteq> c_next e \<and> r \<notin> set (opp bs book)" if "r \<in> set (opp (\<not> bs) book)" for r
    using own_not_opp [OF ok that] by blast
  have own2: "side_ok (c_heap e3) (c_next e + 1) broken symbol (b_insertSeq book2) bs (opp (\<not> bs) book2)"
    unfolding am(7,8) by (rule side_ok_mono [OF own]) (use ins other am(5) in auto)
  have opp2: "side_ok (c_heap e3) (c_next e + 1) broken symbol (b_insertSeq book2) (\<not> bs) (opp bs book2)"
    unfolding am(6,8)
  proof (rule side_ok_filter [OF opp])
    have "r \<noteq> c_next e" if "r \<in> set (opp bs book)" for r using that opp by (auto simp: side_ok_def)
    then show "\<forall>r\<in>set (opp bs book). 0 < o_Qty (c_heap e3 r) \<longrightarrow>
        same_order (c_heap e r) (c_heap e3 r) \<and> 0 < o_Qty (c_heap e3 r)"
      using am(4) by blast
  qed (use ins in auto)
  have "o_Price (c_heap e3 r) = o_Price (c_heap e r)" if "r \<in> set (b_buys book) \<union> set (b_sells book)" for r
  proof -
    have "r < c_next e" using that ok by (auto simp: book_ok_def side_ok_def)
    then show ?thesis using am(4) [of r] same_orderD(4) by simp
  qed
  moreover have "set (b_buys book2) \<subseteq> set (b_buys book)" "set (b_sells book2) \<subseteq> set (b_sells book)"
    using am(6,7) by (cases bs; auto simp: opp_def)+
  ultimately have "uncrossed (c_heap e3) book2"
    using ok unfolding book_ok_def uncrossed_def by (metis UnCI subsetD)
  with own2 opp2 show ?thesis by (cases bs) (auto simp: book_ok_def opp_def)
qed

text \<open>The residual that rests does not cross the side it could not trade with.\<close>

lemma book3_ok:
  assumes ok: "book_ok (c_heap e) (c_next e) broken symbol book" and w: "b_insertSeq book \<noteq> - 1"
    and m: "Engine_match bs (new_core e ord owner symbol book)
      (book\<lparr>b_insertSeq := b_insertSeq book + 1\<rparr>) (c_next e) False = (e3, book2, ds)"
    and qty: "0 < no_Qty ord" and res: "0 < o_Qty (c_heap e3 (c_next e))"
    and side: "ToUpper (no_Side ord) = (if bs then ''BUY'' else ''SELL'')"
    and room: "length (opp (\<not> bs) book2) < maxRestingPerSymbol"
  shows "book_ok (c_heap e3) (c_next e + 1) broken symbol
    (set_opp (\<not> bs) book2 (insertSorted (c_heap e3) (opp (\<not> bs) book2) (c_next e) bs broken))"
proof -
  let ?s = "insertSorted (c_heap e3) (opp (\<not> bs) book2) (c_next e) bs broken"
  note am = after_match [OF ok m qty] and ok2 = book2_ok [OF ok w m qty]
  note act = same_orderD [OF am(9)]
  have "side_ok (c_heap e3) (c_next e + 1) broken symbol (b_insertSeq book) bs (opp (\<not> bs) book2)"
    unfolding am(7)
  proof (rule side_ok_mono [OF book_ok_own [OF ok]])
    show "\<forall>r\<in>set (opp (\<not> bs) book). c_heap e3 r = c_heap e r"
      using am(5) own_not_opp [OF ok] by blast
  qed simp_all
  then have own: "side_ok (c_heap e3) (c_next e + 1) broken symbol (b_insertSeq book2) bs ?s"
    unfolding am(8)
    by (rule side_ok_insert)
      (use res room side act word_succ_gt [OF w] in \<open>simp_all add: new_active_def\<close>)
  have "outside_limit bs False (o_Price (c_heap e3 (c_next e))) (o_Price (c_heap e3 r))"
    if "r \<in> set (opp bs book2)" for r
  proof -
    have "r < c_next e" using that am(6) book_ok_opp [OF ok, of bs] by (auto simp: side_ok_def)
    then have "o_Price (c_heap e3 r) = o_Price (c_heap e r)"
      using am(4) [of r] same_orderD(4) by simp
    then show ?thesis using am(11) [OF res that] act(4) by (simp add: new_active_def)
  qed
  then have "uncrossed (c_heap e3) (set_opp (\<not> bs) book2 ?s)"
    using ok2 by (cases bs) (auto simp: book_ok_def uncrossed_def set_opp_def opp_def outside_limit_def)
  with own ok2 show ?thesis
    by (cases bs) (auto simp: book_ok_def set_opp_def opp_def)
qed


lemma books_okD:
  "books_ok e \<Longrightarrow> e_books e symbol = Some book \<Longrightarrow>
     book_ok (c_heap e) (c_next e) (e_broken e) symbol book"
  "books_ok e \<Longrightarrow> e_books e symbol = Some book \<Longrightarrow> symbol \<noteq> []"
  unfolding books_ok_def by blast+

text \<open>Replacing one book, with a heap that changed only that book's orders and new ones.\<close>

lemma books_ok_install:
  assumes "books_ok e" and "symbol \<noteq> []" and "e_books e' = (e_books e)(symbol \<mapsto> book')"
    and "e_mode e' = e_mode e" and "c_next e \<le> c_next e'"
    and "\<forall>r<c_next e. o_Symbol (c_heap e r) \<noteq> symbol \<longrightarrow> c_heap e' r = c_heap e r"
    and "book_ok (c_heap e') (c_next e') (e_broken e) symbol book'"
  shows "books_ok e'"
  unfolding books_ok_def
proof (intro allI impI)
  fix sym bk assume bk: "e_books e' sym = Some bk"
  have broken: "e_broken e' = e_broken e" using assms(4) by (simp add: e_broken_def)
  show "sym \<noteq> [] \<and> book_ok (c_heap e') (c_next e') (e_broken e') sym bk"
  proof (cases "sym = symbol")
    case True
    with bk assms(2,3,7) broken show ?thesis by simp
  next
    case False
    then have old: "e_books e sym = Some bk" using bk assms(3) by simp
    have "\<forall>r<c_next e. o_Symbol (c_heap e r) = sym \<longrightarrow> c_heap e' r = c_heap e r"
      using assms(6) False by blast
    with books_okD [OF assms(1) old] assms(5) broken show ?thesis
      by (simp add: book_ok_frame)
  qed
qed

lemma resting_same:
  assumes "same_order (c_heap e r) (c_heap e' r)"
    and "resting e r"
    and "\<forall>book. e_books e (o_Symbol (c_heap e r)) = Some book \<longrightarrow> r \<in> set (side_of (c_heap e) book r) \<longrightarrow>
       (\<exists>book'. e_books e' (o_Symbol (c_heap e r)) = Some book' \<and>
          r \<in> set (opp (o_Side (c_heap e r) \<noteq> ''BUY'') book'))"
  shows "resting e' r"
proof -
  from assms(2) obtain book where "e_books e (o_Symbol (c_heap e r)) = Some book"
    "r \<in> set (side_of (c_heap e) book r)"
    unfolding resting_def by (auto split: option.splits)
  with assms(3) obtain book' where "e_books e' (o_Symbol (c_heap e r)) = Some book'"
    "r \<in> set (opp (o_Side (c_heap e r) \<noteq> ''BUY'') book')" by blast
  then show ?thesis
    using same_orderD [OF assms(1)] by (simp add: resting_def side_of_opp)
qed

text \<open>
  What the operation leaves behind, whichever way it ends: the book after the match,
  possibly with the residual inserted.
\<close>

lemma resting_after_match:
  assumes inv: "engine_ok e" and bk: "e_books e symbol = Some book"
    and m: "Engine_match bs (new_core e ord owner symbol book)
      (book\<lparr>b_insertSeq := b_insertSeq book + 1\<rparr>) (c_next e) market = (e3, book2, ds)"
    and qty: "0 < no_Qty ord"
    and e': "c_heap e' = c_heap e3" "e_books e' = (e_books e)(symbol \<mapsto> book')"
    and sub: "set (opp bs book2) \<subseteq> set (opp bs book')"
      "set (opp (\<not> bs) book2) \<subseteq> set (opp (\<not> bs) book')"
    and old: "resting e r" and alive: "r \<in> set (opp bs book) \<longrightarrow> 0 < o_Qty (c_heap e3 r)"
  shows "same_order (c_heap e r) (c_heap e' r)" and "resting e' r"
proof -
  have ok: "book_ok (c_heap e) (c_next e) (e_broken e) symbol book"
    using inv bk books_okD(1) unfolding engine_ok_def by blast
  note am = after_match [OF ok m qty]
  have ra: "r < c_next e" using resting_alloc old inv unfolding engine_ok_def by blast
  then show same: "same_order (c_heap e r) (c_heap e' r)" using am(4) e'(1) by simp
  show "resting e' r"
  proof (rule resting_same [OF same old], intro allI impI)
    fix b assume b: "e_books e (o_Symbol (c_heap e r)) = Some b" "r \<in> set (side_of (c_heap e) b r)"
    show "\<exists>book'. e_books e' (o_Symbol (c_heap e r)) = Some book' \<and>
        r \<in> set (opp (o_Side (c_heap e r) \<noteq> ''BUY'') book')"
    proof (cases "o_Symbol (c_heap e r) = symbol")
      case True
      then have r: "r \<in> set (opp (o_Side (c_heap e r) \<noteq> ''BUY'') book)"
        using b bk by (simp add: side_of_opp)
      have "r \<in> set (opp (o_Side (c_heap e r) \<noteq> ''BUY'') book')"
      proof (cases "(o_Side (c_heap e r) \<noteq> ''BUY'') = bs")
        case True
        then have "r \<in> set (opp bs book)" using r by simp
        then have "r \<in> set (opp bs book2)" using am(6) alive by simp
        with True sub(1) show ?thesis by auto
      next
        case False
        then have side: "(o_Side (c_heap e r) \<noteq> ''BUY'') = (\<not> bs)" by blast
        then have "r \<in> set (opp (\<not> bs) book2)" using r am(7) by simp
        with side sub(2) show ?thesis by auto
      qed
      then show ?thesis using True e'(2) by simp
    next
      case False
      then show ?thesis using b e'(2) by (simp add: side_of_opp)
    qed
  qed
qed

lemma index_ok_after_match:
  assumes inv: "engine_ok e" and bk: "e_books e symbol = Some book"
    and m: "Engine_match bs (new_core e ord owner symbol book)
      (book\<lparr>b_insertSeq := b_insertSeq book + 1\<rparr>) (c_next e) market = (e3, book2, ds)"
    and qty: "0 < no_Qty ord"
    and e': "c_heap e' = c_heap e3" "e_books e' = (e_books e)(symbol \<mapsto> book')"
    and sub: "set (opp bs book2) \<subseteq> set (opp bs book')"
      "set (opp (\<not> bs) book2) \<subseteq> set (opp (\<not> bs) book')"
    and idx: "c_index e3 i = Some r"
  shows "o_ID (c_heap e' r) = i \<and> resting e' r"
proof -
  have ok: "book_ok (c_heap e) (c_next e) (e_broken e) symbol book"
    using inv bk books_okD(1) unfolding engine_ok_def by blast
  have "c_index e i = Some r"
    using idx Engine_match_result(1) [OF new_matchable [OF ok] m]
    by (auto simp: new_core_def drop_ids_def split: if_splits)
  then have old: "o_ID (c_heap e r) = i" "resting e r" using inv by (auto simp: engine_ok_def index_ok_def)
  have "r \<in> set (opp bs book) \<longrightarrow> 0 < o_Qty (c_heap e3 r)"
    using after_match(12) [OF ok m qty idx old(1)] by blast
  note rest = resting_after_match [OF inv bk m qty e' sub old(2) this]
  with old(1) same_orderD(1) [OF rest(1)] show ?thesis by simp
qed

lemma ProcessNew_locked_ok:
  assumes inv: "engine_ok e" and bk: "e_books e symbol = Some book"
    and w: "b_insertSeq book \<noteq> - 1" and valid: "\<not> invalid_order ord"
  shows "engine_ok (fst (ProcessNew_locked e now ord owner symbol book))"
proof -
  let ?bs = "is_buy ord" and ?a = "c_next e"
  obtain e3 book2 ds where m: "Engine_match ?bs (new_core e ord owner symbol book)
      (book\<lparr>b_insertSeq := b_insertSeq book + 1\<rparr>) ?a (is_market ord) = (e3, book2, ds)"
    by (cases "Engine_match ?bs (new_core e ord owner symbol book)
      (book\<lparr>b_insertSeq := b_insertSeq book + 1\<rparr>) ?a (is_market ord)")
  have qty: "0 < no_Qty ord"
    and side: "ToUpper (no_Side ord) = (if ?bs then ''BUY'' else ''SELL'')"
    using valid by (auto simp: invalid_order_def is_buy_def Let_def)
  have bok: "books_ok e" using inv by (simp add: engine_ok_def)
  note ok = books_okD(1) [OF bok bk] and sym = books_okD(2) [OF bok bk]
  note am = after_match [OF ok m qty]
  have frame: "\<forall>r<?a. o_Symbol (c_heap e r) \<noteq> symbol \<longrightarrow> c_heap e3 r = c_heap e r"
  proof (intro allI impI)
    fix r assume "r < ?a" "o_Symbol (c_heap e r) \<noteq> symbol"
    moreover from this(2) have "r \<notin> set (opp ?bs book)" using side_okD(4) [OF book_ok_opp [OF ok]] by blast
    ultimately show "c_heap e3 r = c_heap e r" using am(5) by simp
  qed
  have install: "books_ok e'" if "e_books e' = (e_books e)(symbol \<mapsto> book')" "e_mode e' = e_mode e"
      "c_next e' = ?a + 1" "c_heap e' = c_heap e3"
      "book_ok (c_heap e3) (?a + 1) (e_broken e) symbol book'" for e' book'
    by (rule books_ok_install [OF bok sym that(1,2)]) (use that frame in auto)
  note idx = index_ok_after_match [OF inv bk m qty]
  show ?thesis
  proof (cases "0 < o_Qty (c_heap e3 ?a) \<and> \<not> is_market ord \<and>
      length (opp (\<not> ?bs) book2) < maxRestingPerSymbol")
    case True
    define book3 where "book3 = set_opp (\<not> ?bs) book2
      (insertSorted (c_heap e3) (opp (\<not> ?bs) book2) ?a ?bs (e_broken e))"
    define e' where "e' = e3\<lparr>c_index := (c_index e3)(no_ClientOrderID ord \<mapsto> ?a),
      e_books := (e_books e3)(symbol \<mapsto> book3)\<rparr>"
    have m': "Engine_match ?bs (new_core e ord owner symbol book)
      (book\<lparr>b_insertSeq := b_insertSeq book + 1\<rparr>) ?a False = (e3, book2, ds)"
      using m True by simp
    have res: "fst (ProcessNew_locked e now ord owner symbol book) = e'"
      using True m by (simp add: ProcessNew_locked_eq Let_def e'_def book3_def)
    have e': "e_books e' = (e_books e)(symbol \<mapsto> book3)" "c_heap e' = c_heap e3"
      by (simp_all add: e'_def am(2))
    have "books_ok e'"
      by (rule install [OF e'(1) _ _ e'(2)])
        (use book3_ok [OF ok w m' qty _ side] True in \<open>simp_all add: e'_def am book3_def\<close>)
    moreover have "index_ok e'"
      unfolding index_ok_def
    proof (intro allI impI)
      fix i r assume ir: "c_index e' i = Some r"
      show "o_ID (c_heap e' r) = i \<and> resting e' r"
      proof (cases "i = no_ClientOrderID ord")
        case True
        then have "r = ?a" using ir by (simp add: e'_def)
        have "?a \<in> set (opp (\<not> ?bs) book3)" by (simp add: book3_def)
        moreover have "(ToUpper (no_Side ord) \<noteq> ''BUY'') = (\<not> ?bs)" by (simp add: is_buy_def)
        ultimately show ?thesis
          using same_orderD [OF am(9)] \<open>r = ?a\<close> True
          by (simp add: resting_def side_of_opp new_active_def e')
      next
        case False
        then have "c_index e3 i = Some r" using ir by (simp add: e'_def)
        then show ?thesis
          by (intro idx [OF e'(2,1)]) (auto simp: book3_def)
      qed
    qed
    ultimately show ?thesis unfolding res engine_ok_def by blast
  next
    case False
    define e' where "e' = e3\<lparr>e_books := (e_books e3)(symbol \<mapsto> book2)\<rparr>"
    have res: "fst (ProcessNew_locked e now ord owner symbol book) = e'"
      using False m by (auto simp: ProcessNew_locked_eq Let_def e'_def)
    have e': "e_books e' = (e_books e)(symbol \<mapsto> book2)" "c_heap e' = c_heap e3"
      by (simp_all add: e'_def am(2))
    have "books_ok e'"
      by (rule install [OF e'(1) _ _ e'(2)]) (use book2_ok [OF ok w m qty] in \<open>simp_all add: e'_def am\<close>)
    moreover have "index_ok e'"
      unfolding index_ok_def
    proof (intro allI impI)
      fix i r assume "c_index e' i = Some r"
      then show "o_ID (c_heap e' r) = i \<and> resting e' r"
        by (intro idx [OF e'(2,1)]) (auto simp: e'_def)
    qed
    ultimately show ?thesis unfolding res engine_ok_def by blast
  qed
qed


section \<open>The operations preserve the invariant\<close>

lemma engine_ok_seq [simp]: "engine_ok (e\<lparr>c_engineSeq := n\<rparr>) = engine_ok e"
  by (simp add: engine_ok_def books_ok_def index_ok_def e_broken_def resting_def
      cong: option.case_cong)

lemma book_ok_newBook: "book_ok h n broken symbol newBook"
  by (simp add: book_ok_def side_ok_def uncrossed_def newBook_def)

lemma bookFor_result:
  assumes "bookFor e s = (symbol, book, e1)"
  shows bookFor_symbol: "symbol = (if s = [] then ''DEFAULT'' else s)"
    and bookFor_core: "c_heap e1 = c_heap e" "c_next e1 = c_next e" "c_index e1 = c_index e"
      "c_engineSeq e1 = c_engineSeq e" "e_mode e1 = e_mode e"
    and bookFor_books: "e_books e1 symbol = Some book" "t \<noteq> symbol \<Longrightarrow> e_books e1 t = e_books e t"
      "book = (case e_books e symbol of None \<Rightarrow> newBook | Some b \<Rightarrow> b)"
  using assms by (auto simp: bookFor_def Let_def split: option.splits if_splits)

lemma bookFor_keeps:
  assumes "bookFor e s = (symbol, book, e1)"
  shows "e_books e t = Some b \<Longrightarrow> e_books e1 t = Some b" and "resting e r \<Longrightarrow> resting e1 r"
proof -
  note bf = bookFor_result [OF assms]
  show keep: "e_books e1 t = Some b" if "e_books e t = Some b" for t b
    using that bf(7,9) bf(8) [of t] by (cases "t = symbol") auto
  show "resting e1 r" if "resting e r"
    by (rule resting_same [OF _ that]) (use keep bf(2) in \<open>auto simp: side_of_opp\<close>)
qed

lemma bookFor_ok:
  assumes "engine_ok e" and "bookFor e s = (symbol, book, e1)"
  shows "engine_ok e1"
proof -
  note bf = bookFor_result [OF assms(2)]
  have "symbol \<noteq> []" using bf(1) by simp
  have "book_ok (c_heap e) (c_next e) (e_broken e) symbol book"
    using assms(1) bf(9) book_ok_newBook
    by (cases "e_books e symbol") (auto simp: engine_ok_def dest: books_okD(1))
  then have "books_ok e1"
    using assms(1) \<open>symbol \<noteq> []\<close> bf
    by (intro books_ok_install [of e symbol e1 book]) (auto simp: engine_ok_def e_broken_def)
  then show ?thesis using bookFor_keeps(2) [OF assms(2)] assms(1) bf by (simp add: engine_ok_def index_ok_def)
qed

text \<open>How a step may change the heap: old orders keep all fields but the quantity.\<close>

definition heap_ext :: "Engine \<Rightarrow> Engine \<Rightarrow> bool" where
  "heap_ext e e' \<longleftrightarrow> c_next e \<le> c_next e' \<and> (\<forall>r<c_next e. same_order (c_heap e r) (c_heap e' r))"

definition seq_bound :: "nat \<Rightarrow> Engine \<Rightarrow> bool" where
  "seq_bound k e \<longleftrightarrow> (\<forall>symbol book. e_books e symbol = Some book \<longrightarrow> unat (b_insertSeq book) \<le> k)"

lemma seq_bound_w:
  assumes "seq_bound k e" and "k < 2 ^ 64 - 1" and "e_books e symbol = Some book"
  shows "b_insertSeq book \<noteq> - 1"
proof
  assume "b_insertSeq book = - 1"
  moreover have "unat (b_insertSeq book) \<le> k" using assms by (auto simp: seq_bound_def)
  ultimately have "unat (- 1 :: u64) \<le> k" by simp
  then show False using assms(2) by (simp add: unsigned_minus_1_eq_mask mask_eq_exp_minus_1)
qed

lemma bookFor_seq_bound:
  assumes "seq_bound k e" and "bookFor e s = (symbol, book, e1)"
  shows "seq_bound k e1"
  unfolding seq_bound_def
proof (intro allI impI)
  fix t b assume t: "e_books e1 t = Some b"
  note bf = bookFor_result [OF assms(2)]
  show "unat (b_insertSeq b) \<le> k"
  proof (cases "t = symbol")
    case True
    then have "b = (case e_books e symbol of None \<Rightarrow> newBook | Some b \<Rightarrow> b)" using t bf(7,9) by simp
    with assms(1) show ?thesis
      by (cases "e_books e symbol") (auto simp: seq_bound_def newBook_def)
  next
    case False
    with t bf(8) assms(1) show ?thesis by (simp add: seq_bound_def)
  qed
qed

lemma ProcessNew_locked_ext:
  assumes inv: "engine_ok e" and bk: "e_books e symbol = Some book"
    and w: "b_insertSeq book \<noteq> - 1" and valid: "\<not> invalid_order ord"
    and e': "e' = fst (ProcessNew_locked e now ord owner symbol book)"
  shows "heap_ext e e'" and "seq_bound k e \<Longrightarrow> seq_bound (Suc k) e'"
    and "e_mode e' = e_mode e"
proof -
  let ?bs = "is_buy ord" and ?a = "c_next e"
  obtain e3 book2 ds where m: "Engine_match ?bs (new_core e ord owner symbol book)
      (book\<lparr>b_insertSeq := b_insertSeq book + 1\<rparr>) ?a (is_market ord) = (e3, book2, ds)"
    by (cases "Engine_match ?bs (new_core e ord owner symbol book)
      (book\<lparr>b_insertSeq := b_insertSeq book + 1\<rparr>) ?a (is_market ord)")
  have qty: "0 < no_Qty ord" using valid by (auto simp: invalid_order_def Let_def)
  have ok: "book_ok (c_heap e) (c_next e) (e_broken e) symbol book"
    using inv bk books_okD(1) unfolding engine_ok_def by blast
  note am = after_match [OF ok m qty]
  have shape: "c_heap e' = c_heap e3 \<and> c_next e' = c_next e3 \<and> e_mode e' = e_mode e \<and>
     (\<forall>t b. e_books e' t = Some b \<longrightarrow>
        (if t = symbol then b_insertSeq b = b_insertSeq book + 1 else e_books e t = Some b))"
    using m am(2,3,8) unfolding e' ProcessNew_locked_eq by (simp add: Let_def)
  then show "heap_ext e e'" and "e_mode e' = e_mode e"
    using am(1,4) by (simp_all add: heap_ext_def)
  have ne: "1 + b_insertSeq book \<noteq> 0"
    using w by (metis add.commute add_eq_0_iff)
  show "seq_bound (Suc k) e'" if "seq_bound k e"
    unfolding seq_bound_def
  proof (intro allI impI)
    fix t b assume t: "e_books e' t = Some b"
    show "unat (b_insertSeq b) \<le> Suc k"
    proof (cases "t = symbol")
      case True
      then have "b_insertSeq b = 1 + b_insertSeq book" using shape t by (simp add: add.commute)
      then show ?thesis using that bk unatSuc [OF ne] by (auto simp: seq_bound_def)
    next
      case False
      then have "e_books e t = Some b" using shape t by metis
      then show ?thesis using that by (auto simp: seq_bound_def intro: le_SucI)
    qed
  qed
qed

lemma ProcessNew_ok:
  assumes inv: "engine_ok e" and sb: "seq_bound k e" and k: "k < 2 ^ 64 - 1"
    and e': "e' = fst (ProcessNew e now ord owner)"
  shows "engine_ok e' \<and> heap_ext e e' \<and> seq_bound (Suc k) e'"
proof (cases "invalid_order ord \<or> length (no_ClientOrderID ord) > maxOrderFieldLen \<or>
    length (no_Symbol ord) > maxOrderFieldLen")
  case True
  then have "e' = e\<lparr>c_engineSeq := c_engineSeq e + 1\<rparr>"
    by (auto simp: e' ProcessNew_def nextSeq_def)
  then show ?thesis using inv sb by (auto simp: heap_ext_def seq_bound_def intro: le_SucI)
next
  case False
  obtain symbol book e1 where
    bf: "bookFor e (if no_Symbol ord = [] then ''DEFAULT'' else no_Symbol ord) = (symbol, book, e1)"
    by (cases "bookFor e (if no_Symbol ord = [] then ''DEFAULT'' else no_Symbol ord)")
  have e'1: "e' = fst (ProcessNew_locked e1 now ord owner symbol book)"
    using False bf by (simp add: e' ProcessNew_def Let_def)
  note b = bookFor_result [OF bf] and ok1 = bookFor_ok [OF inv bf] and sb1 = bookFor_seq_bound [OF sb bf]
  note w = seq_bound_w [OF sb1 k b(7)]
  note ext = ProcessNew_locked_ext [OF ok1 b(7) w _ e'1]
  have "engine_ok e'" using ProcessNew_locked_ok [OF ok1 b(7) w] False e'1 by simp
  moreover have "heap_ext e1 e'" "seq_bound (Suc k) e'" using ext sb1 False by blast+
  ultimately show ?thesis using b(2,3) by (simp add: heap_ext_def)
qed


subsection \<open>Cancels\<close>

lemma removeOrder_cases:
  assumes ok: "book_ok h n broken symbol book" and rm: "removeOrder h book r broken = (removed, book')"
  shows "removed \<longleftrightarrow> r \<in> set (side_of h book r)"
    and "\<not> removed \<Longrightarrow> book' = book"
    and "removed \<Longrightarrow> set (side_of h book' r) = set (side_of h book r) - {r}"
    and "opp (o_Side (h r) = ''BUY'') book' = opp (o_Side (h r) = ''BUY'') book"
    and "book_ok h n broken symbol book'" and "b_insertSeq book' = b_insertSeq book"
proof -
  let ?bs = "o_Side (h r) = ''BUY''"
  have so: "side_of h book r = opp (\<not> ?bs) book" by (simp add: side_of_opp)
  note own = book_ok_own [OF ok, of ?bs, folded so]
  then have sorted: "sorted_wrt (ref_before h ?bs broken) (side_of h book r)"
    by (simp add: side_ok_def)
  have "(removed \<longleftrightarrow> r \<in> set (side_of h book r)) \<and> (\<not> removed \<longrightarrow> book' = book) \<and>
    (removed \<longrightarrow> set (side_of h book' r) = set (side_of h book r) - {r}) \<and>
    opp ?bs book' = opp ?bs book \<and> book_ok h n broken symbol book' \<and> b_insertSeq book' = b_insertSeq book"
  proof (cases "r \<in> set (side_of h book r)")
    case False
    with removeOrder_not_resting [OF False, of broken] rm ok show ?thesis by simp
  next
    case True
    then obtain k where k: "k < length (side_of h book r)" "side_of h book r ! k = r"
      by (auto simp: in_set_conv_nth)
    let ?s = "take k (side_of h book r) @ drop (Suc k) (side_of h book r)"
    have res: "removed" "book' = set_opp (\<not> ?bs) book ?s"
      using removeOrder_resting [OF sorted k] rm by (simp_all add: set_side_def set_opp_def)
    have set: "set ?s = set (side_of h book r) - {r}"
      using distinct_remove_nth [OF ladder_distinct [OF sorted] k(1)] k(2) by simp
    have len: "length ?s \<le> length (side_of h book r)" by simp
    have "side_ok h n broken symbol (b_insertSeq book) ?bs ?s"
      using own sorted_wrt_remove_nth [OF sorted, of k] len set unfolding side_ok_def by auto
    moreover have "uncrossed h book'"
      using ok set so unfolding book_ok_def uncrossed_def res(2)
      by (cases ?bs) (auto simp: set_opp_def opp_def)
    ultimately have "book_ok h n broken symbol book'"
      using ok unfolding res(2) by (cases ?bs) (auto simp: book_ok_def set_opp_def opp_def)
    with res(1) set True so show ?thesis
      by (simp add: res(2) side_of_opp)
  qed
  then show "removed \<longleftrightarrow> r \<in> set (side_of h book r)"
    and "\<not> removed \<Longrightarrow> book' = book"
    and "removed \<Longrightarrow> set (side_of h book' r) = set (side_of h book r) - {r}"
    and "opp ?bs book' = opp ?bs book"
    and "book_ok h n broken symbol book'" and "b_insertSeq book' = b_insertSeq book"
    by blast+
qed

text \<open>A pointer the index once gave for this cancel.\<close>

definition cancel_ref :: "Engine \<Rightarrow> CancelOrder \<Rightarrow> oref \<Rightarrow> bool" where
  "cancel_ref e c r \<longleftrightarrow> r < c_next e \<and> o_ID (c_heap e r) = co_OrigClientOrderID c"

lemma cancel_ref_ext: "heap_ext e e' \<Longrightarrow> cancel_ref e c r \<Longrightarrow> cancel_ref e' c r"
  unfolding cancel_ref_def heap_ext_def using same_orderD(1) by fastforce

lemma ProcessCancel_load_ok:
  assumes "engine_ok e" and "ProcessCancel_load e now c = (e', res)"
  shows "engine_ok e'" "heap_ext e e'" "seq_bound k e \<Longrightarrow> seq_bound k e'"
    "res = Inr r \<Longrightarrow> cancel_ref e' c r \<and> resting e' r"
proof -
  have "e' = e \<or> e' = e\<lparr>c_engineSeq := c_engineSeq e + 1\<rparr>"
    using assms(2) by (auto simp: ProcessCancel_load_def nextSeq_def Let_def split: option.splits)
  then show "engine_ok e'" "heap_ext e e'" "seq_bound k e \<Longrightarrow> seq_bound k e'"
    using assms(1) by (auto simp: heap_ext_def seq_bound_def)
  show "cancel_ref e' c r \<and> resting e' r" if "res = Inr r"
  proof -
    have "e' = e" "c_index e (co_OrigClientOrderID c) = Some r"
      using assms(2) that by (auto simp: ProcessCancel_load_def nextSeq_def Let_def split: option.splits)
    with assms(1) show ?thesis
      using resting_alloc unfolding engine_ok_def index_ok_def cancel_ref_def by blast
  qed
qed

lemma ProcessCancel_locked_ok:
  assumes inv: "engine_ok e" and ref: "cancel_ref e c r"
    and e': "ProcessCancel_locked e now c r = (e', ack)"
  shows "engine_ok e'" and "heap_ext e e'" and "seq_bound k e \<Longrightarrow> seq_bound k e'"
    and "ack = mkAck (co_ClientOrderID c) (if resting e r then ''canceled'' else ''not_found'')
           (c_engineSeq e + 1) now []"
    and "\<not> resting e' r"
    and "c_engineSeq e' = c_engineSeq e + 1"
    and "x \<noteq> r \<Longrightarrow> resting e x \<Longrightarrow> resting e' x"
    and "c_heap e' = c_heap e"
    and "resting e r \<Longrightarrow> c_index e' (co_OrigClientOrderID c) = None"
proof -
  obtain symbol book e1 where bf: "bookFor e (o_Symbol (c_heap e r)) = (symbol, book, e1)"
    by (cases "bookFor e (o_Symbol (c_heap e r))")
  note b = bookFor_result [OF bf] and ok1 = bookFor_ok [OF inv bf]
  obtain removed book' where rm: "removeOrder (c_heap e) book r (e_broken e) = (removed, book')"
    by (cases "removeOrder (c_heap e) book r (e_broken e)")
  have broken: "e_broken e1 = e_broken e" using b(6) by (simp add: e_broken_def)
  have bok1: "books_ok e1" and iok1: "index_ok e1" using ok1 by (simp_all add: engine_ok_def)
  have bok: "book_ok (c_heap e) (c_next e) (e_broken e) symbol book"
    using books_okD(1) [OF bok1 b(7)] b broken by simp
  note rc = removeOrder_cases [OF bok rm]
  have sym: "symbol \<noteq> []" using books_okD(2) [OF bok1 b(7)] .
  have rest1: "resting e r \<longleftrightarrow> r \<in> set (side_of (c_heap e) book r)"
  proof (cases "e_books e (o_Symbol (c_heap e r))")
    case None
    then have "\<not> resting e r" by (simp add: resting_def)
    moreover have "side_of (c_heap e) newBook r = []" by (simp add: side_of_def newBook_def)
    moreover have "r \<notin> set (side_of (c_heap e) book r)"
    proof
      assume "r \<in> set (side_of (c_heap e) book r)"
      then have "o_Symbol (c_heap e r) = symbol"
        using bok by (auto simp: side_of_def book_ok_def side_ok_def split: if_splits)
      with None b(9) \<open>r \<in> _\<close> show False by (simp add: side_of_def newBook_def split: if_splits)
    qed
    ultimately show ?thesis by blast
  next
    case (Some bk)
    then have "o_Symbol (c_heap e r) \<noteq> []" using inv by (auto simp: engine_ok_def books_ok_def)
    with Some b(1,9) show ?thesis by (simp add: resting_def)
  qed
  define e2 where "e2 = e1\<lparr>c_engineSeq := c_engineSeq e + 1\<rparr>"
  have res: "e' = (if removed
      then e2\<lparr>e_books := (e_books e1)(symbol \<mapsto> book'),
              c_index := (c_index e1)(co_OrigClientOrderID c := None)\<rparr> else e2)"
    and ack: "ack = mkAck (co_ClientOrderID c) (if removed then ''canceled'' else ''not_found'')
      (c_engineSeq e + 1) now []"
    using e' rm by (auto simp: ProcessCancel_locked_def bf nextSeq_def Let_def b e2_def e_broken_def
        mkAck_def split: if_splits)
  show "ack = mkAck (co_ClientOrderID c) (if resting e r then ''canceled'' else ''not_found'')
           (c_engineSeq e + 1) now []"
    using ack rc(1) rest1 by simp
  show "c_engineSeq e' = c_engineSeq e + 1" by (simp add: res e2_def)
  show "c_index e' (co_OrigClientOrderID c) = None" if "resting e r"
    using that rest1 rc(1) by (simp add: res)
  show "heap_ext e e'" by (simp add: res e2_def heap_ext_def b)
  have sb1: "seq_bound k e \<Longrightarrow> seq_bound k e1" using bookFor_seq_bound [OF _ bf] .
  show "seq_bound k e'" if "seq_bound k e"
    using sb1 [OF that] b(7) rc(6) by (auto simp: seq_bound_def res e2_def split: if_splits)
  have re2: "resting e2 = resting e1" by (simp add: fun_eq_iff e2_def resting_def cong: option.case_cong)
  have gone: "\<not> resting e' r \<and> (\<forall>x. x \<noteq> r \<longrightarrow> resting e1 x \<longrightarrow> resting e' x)"
  proof (cases removed)
    case False
    have "\<not> resting e1 r"
    proof
      assume "resting e1 r"
      then obtain bk where bk: "e_books e1 (o_Symbol (c_heap e r)) = Some bk" "r \<in> set (side_of (c_heap e) bk r)"
        by (auto simp: resting_def b split: option.splits)
      then have "o_Symbol (c_heap e r) \<noteq> []" using bok1 unfolding books_ok_def by blast
      then have "bk = book" using bk b(1,7) by simp
      with bk False rc(1) show False by simp
    qed
    with False re2 show ?thesis by (simp add: res)
  next
    case True
    then have "r \<in> set (side_of (c_heap e) book r)" using rc(1) by simp
    then have rsym: "o_Symbol (c_heap e r) = symbol"
      using bok by (auto simp: side_of_def book_ok_def side_ok_def split: if_splits)
    have "\<not> resting e' r"
      using rc(3) [OF True] True rsym
      by (simp add: res resting_def e2_def b(2) side_of_opp del: not_None_eq)
    moreover have "resting e' x" if x: "x \<noteq> r" "resting e1 x" for x
    proof (rule resting_same [OF _ x(2)])
      show "same_order (c_heap e1 x) (c_heap e' x)" by (simp add: res e2_def)
      show "\<forall>bk. e_books e1 (o_Symbol (c_heap e1 x)) = Some bk \<longrightarrow> x \<in> set (side_of (c_heap e1) bk x) \<longrightarrow>
        (\<exists>bk'. e_books e' (o_Symbol (c_heap e1 x)) = Some bk' \<and>
          x \<in> set (opp (o_Side (c_heap e1 x) \<noteq> ''BUY'') bk'))"
      proof (intro allI impI)
        fix bk assume bk: "e_books e1 (o_Symbol (c_heap e1 x)) = Some bk" "x \<in> set (side_of (c_heap e1) bk x)"
        show "\<exists>bk'. e_books e' (o_Symbol (c_heap e1 x)) = Some bk' \<and>
          x \<in> set (opp (o_Side (c_heap e1 x) \<noteq> ''BUY'') bk')"
        proof (cases "o_Symbol (c_heap e1 x) = symbol")
          case False
          with bk show ?thesis using True by (simp add: res e2_def side_of_opp)
        next
          case same: True
          then have "bk = book" using bk b(7) by simp
          then have "x \<in> set (opp (o_Side (c_heap e x) \<noteq> ''BUY'') book)"
            using bk(2) by (simp add: side_of_opp b)
          moreover have "x \<in> set (opp (\<not> (o_Side (c_heap e r) = ''BUY'')) book')"
            if "x \<in> set (opp (\<not> (o_Side (c_heap e r) = ''BUY'')) book)"
            using that x(1) rc(3) [OF True] by (simp add: side_of_opp)
          ultimately have "x \<in> set (opp (o_Side (c_heap e x) \<noteq> ''BUY'') book')"
            using rc(4) by (cases "o_Side (c_heap e x) = ''BUY''"; cases "o_Side (c_heap e r) = ''BUY''") simp_all
          then show ?thesis using True same by (simp add: res e2_def b)
        qed
      qed
    qed
    ultimately show ?thesis by blast
  qed
  then show "\<not> resting e' r" by blast
  show "c_heap e' = c_heap e" by (simp add: res e2_def b)
  show "resting e' x" if "x \<noteq> r" "resting e x"
    using gone that bookFor_keeps(2) [OF bf] by blast
  show "engine_ok e'"
  proof (cases removed)
    case False
    then show ?thesis using ok1 by (simp add: res e2_def)
  next
    case True
    have "books_ok e'"
      by (rule books_ok_install [OF bok1 sym, of e' book'])
        (use True rc(5) broken in \<open>simp_all add: res e2_def b\<close>)
    moreover have "index_ok e'"
      unfolding index_ok_def
    proof (intro allI impI)
      fix i x assume ix: "c_index e' i = Some x"
      then have i: "i \<noteq> co_OrigClientOrderID c" "c_index e1 i = Some x"
        using True by (auto simp: res e2_def split: if_splits)
      then have "o_ID (c_heap e x) = i" "resting e1 x" using iok1 b by (auto simp: index_ok_def)
      moreover from this i(1) have "x \<noteq> r" using ref by (auto simp: cancel_ref_def)
      ultimately show "o_ID (c_heap e' x) = i \<and> resting e' x"
        using gone by (simp add: res e2_def b)
    qed
    ultimately show ?thesis by (simp add: engine_ok_def)
  qed
qed


section \<open>Runs: any interleaving of the callers\<close>

text \<open>
  A caller's order is one step.  A caller's cancel is a lookup and, when the lookup finds a
  pointer, a later locked step; callers are numbered, and whatever other callers do may
  happen in between.
\<close>

datatype request =
    ReqNew u64 NewOrder "client option"
  | ReqLoad nat u64 CancelOrder
  | ReqLocked nat u64

datatype emitted = OutAck Ack | OutFill Fill

fun out_seq :: "emitted \<Rightarrow> u64" where
  "out_seq (OutAck a) = ack_EngineSeq a"
| "out_seq (OutFill f) = f_EngineSeq f"

record Sys =
  s_engine :: Engine
  s_pending :: "nat \<Rightarrow> (CancelOrder \<times> oref) option"
  s_out :: "emitted list"

definition newSys :: "string \<Rightarrow> Sys" where
  "newSys mode = \<lparr>s_engine = newEngine mode, s_pending = Map.empty, s_out = []\<rparr>"

fun sys_step :: "request \<Rightarrow> Sys \<Rightarrow> Sys" where
  "sys_step (ReqNew now ord owner) s =
     (let (e, ack, ds) = ProcessNew (s_engine s) now ord owner
      in s\<lparr>s_engine := e, s_out := s_out s @ OutAck ack # map (OutFill \<circ> fd_Fill) ds\<rparr>)"
| "sys_step (ReqLoad i now c) s =
     (case s_pending s i of
        Some _ \<Rightarrow> s
      | None \<Rightarrow>
        (case ProcessCancel_load (s_engine s) now c of
           (e, Inl ack) \<Rightarrow> s\<lparr>s_engine := e, s_out := s_out s @ [OutAck ack]\<rparr>
         | (e, Inr r) \<Rightarrow> s\<lparr>s_engine := e, s_pending := (s_pending s)(i \<mapsto> (c, r))\<rparr>))"
| "sys_step (ReqLocked i now) s =
     (case s_pending s i of
        None \<Rightarrow> s
      | Some (c, r) \<Rightarrow>
        (let (e, ack) = ProcessCancel_locked (s_engine s) now c r
         in s\<lparr>s_engine := e, s_pending := (s_pending s)(i := None), s_out := s_out s @ [OutAck ack]\<rparr>))"

definition run_sys :: "request list \<Rightarrow> Sys \<Rightarrow> Sys" where
  "run_sys reqs s = fold sys_step reqs s"

definition sys_ok :: "nat \<Rightarrow> Sys \<Rightarrow> bool" where
  "sys_ok k s \<longleftrightarrow> engine_ok (s_engine s) \<and> seq_bound k (s_engine s) \<and>
     (\<forall>i c r. s_pending s i = Some (c, r) \<longrightarrow> cancel_ref (s_engine s) c r)"

lemma sys_ok_ext:
  assumes "sys_ok k s" and "engine_ok e'" and "heap_ext (s_engine s) e'" and "seq_bound k' e'"
  shows "sys_ok k' (s\<lparr>s_engine := e', s_out := out\<rparr>)"
  using assms cancel_ref_ext unfolding sys_ok_def by auto

lemma sys_ok_step:
  assumes ok: "sys_ok k s" and k: "k < 2 ^ 64 - 1"
  shows "sys_ok (Suc k) (sys_step q s)"
proof -
  have inv: "engine_ok (s_engine s)" and sb: "seq_bound k (s_engine s)" using ok by (simp_all add: sys_ok_def)
  have suc: "seq_bound k e \<Longrightarrow> seq_bound (Suc k) e" for e
    by (auto simp: seq_bound_def intro: le_SucI)
  have same: "sys_ok (Suc k) s" using ok suc by (auto simp: sys_ok_def)
  show ?thesis
  proof (cases q)
    case (ReqNew now ord owner)
    obtain e ack ds where r: "ProcessNew (s_engine s) now ord owner = (e, ack, ds)"
      by (cases "ProcessNew (s_engine s) now ord owner")
    have "engine_ok e \<and> heap_ext (s_engine s) e \<and> seq_bound (Suc k) e"
      by (rule ProcessNew_ok [OF inv sb k, of e now ord owner]) (simp add: r)
    then show ?thesis using sys_ok_ext [OF ok] by (simp add: ReqNew r)
  next
    case (ReqLoad i now c)
    obtain e res where r: "ProcessCancel_load (s_engine s) now c = (e, res)"
      by (cases "ProcessCancel_load (s_engine s) now c")
    note lo = ProcessCancel_load_ok [OF inv r]
    note ext = sys_ok_ext [OF ok lo(1,2) suc [OF lo(3) [OF sb]]]
    show ?thesis
    proof (cases "s_pending s i")
      case None
      show ?thesis
      proof (cases res)
        case (Inl ack)
        then show ?thesis using ext by (simp add: ReqLoad r None)
      next
        case (Inr p)
        then show ?thesis
          using ext [of "s_out s"] lo(4) [OF Inr] by (auto simp: ReqLoad r None sys_ok_def)
      qed
    qed (use same in \<open>simp add: ReqLoad\<close>)
  next
    case (ReqLocked i now)
    show ?thesis
    proof (cases "s_pending s i")
      case (Some cr)
      obtain c p where cr: "cr = (c, p)" by fastforce
      obtain e ack where r: "ProcessCancel_locked (s_engine s) now c p = (e, ack)"
        by (cases "ProcessCancel_locked (s_engine s) now c p")
      have "cancel_ref (s_engine s) c p" using ok Some cr by (simp add: sys_ok_def)
      note lo = ProcessCancel_locked_ok [OF inv this r]
      from sys_ok_ext [OF ok lo(1,2) suc [OF lo(3) [OF sb]], of "s_out s @ [OutAck ack]"]
      show ?thesis by (auto simp: ReqLocked Some cr r sys_ok_def)
    qed (use same in \<open>simp add: ReqLocked\<close>)
  qed
qed

lemma newSys_ok: "sys_ok 0 (newSys mode)"
  by (simp add: sys_ok_def newSys_def newEngine_def engine_ok_def books_ok_def index_ok_def seq_bound_def)

lemma run_sys_ok: "length reqs < 2 ^ 64 \<Longrightarrow> sys_ok (length reqs) (run_sys reqs (newSys mode))"
proof (induction reqs rule: rev_induct)
  case Nil
  then show ?case by (simp add: run_sys_def newSys_ok)
next
  case (snoc q reqs)
  then have "sys_ok (length reqs) (run_sys reqs (newSys mode))" by simp
  from sys_ok_step [OF this, of q] snoc.prems show ?case by (simp add: run_sys_def)
qed

text \<open>
  C4. The engine's invariant holds after any interleaving of orders and cancels, in either
  mode: every book is sorted by price, time and insertion on both sides, holds at most the
  resting cap of orders with positive quantity on their own side and symbol, is never
  crossed, and every entry of the cancel index points to a resting order with that
  identifier.  The bound is the insertion counter's width.
\<close>

theorem engine_run_invariant:
  assumes "length reqs < 2 ^ 64"
  shows "engine_ok (s_engine (run_sys reqs (newSys mode)))"
  using run_sys_ok [OF assms] by (simp add: sys_ok_def)

definition demo_new :: "string \<Rightarrow> string \<Rightarrow> string \<Rightarrow> int \<Rightarrow> int \<Rightarrow> NewOrder" where
  "demo_new cid side otype price qty =
     \<lparr>no_Type = ''new_order'', no_RunID = ''r'', no_ClientOrderID = cid, no_Symbol = [],
      no_Side = side, no_Price = price, no_Qty = qty, no_TsNs = 1, no_OrderType = otype\<rparr>"

definition demo_cancel :: "string \<Rightarrow> CancelOrder" where
  "demo_cancel cid = \<lparr>co_Type = ''cancel'', co_RunID = ''r'', co_ClientOrderID = ''c'',
     co_OrigClientOrderID = cid, co_TsNs = 1\<rparr>"

lemma engine_run_invariant_witness:
  "engine_ok (s_engine (run_sys [ReqNew 1 (demo_new ''s1'' ''sell'' [] 100 3) None,
      ReqLoad 0 2 (demo_cancel ''s1''),
      ReqNew 3 (demo_new ''b1'' ''buy'' [] 100 2) None,
      ReqLocked 0 4] (newSys [])))"
  by (rule engine_run_invariant) simp


section \<open>Sequence numbers\<close>

lemma fills_of_seqs:
  "map (\<lambda>d. f_EngineSeq (fd_Fill d)) (fills_of h bs a seq tr) = map (\<lambda>i. seq + of_nat (Suc i)) [0..<length tr]"
proof (induction tr arbitrary: seq)
  case (Cons rt tr)
  have "map (\<lambda>i. seq + of_nat (Suc i)) [0..<Suc (length tr)] =
      (seq + 1) # map (\<lambda>i. (seq + 1) + of_nat (Suc i)) [0..<length tr]"
    by (simp add: upt_conv_Cons map_Suc_upt [symmetric] ac_simps o_def del: upt_Suc)
  with Cons show ?case by (simp add: fill_of_def Let_def)
qed simp

text \<open>
  Consecutive numbers even without the invariant: each pass of a loop takes the next one.
\<close>

definition seqs_from :: "u64 \<Rightarrow> nat \<Rightarrow> u64 list" where
  "seqs_from n k = map (\<lambda>i. n + of_nat (Suc i)) [0..<k]"

lemma seqs_from_0 [simp]: "seqs_from n 0 = []"
  by (simp add: seqs_from_def)

lemma seqs_from_Suc: "seqs_from n (Suc k) = (n + 1) # seqs_from (n + 1) k"
  by (simp add: seqs_from_def upt_conv_Cons map_Suc_upt [symmetric] ac_simps o_def del: upt_Suc)

lemma seqs_from_append: "seqs_from n (j + k) = seqs_from n j @ seqs_from (n + of_nat j) k"
  by (induction j arbitrary: n) (simp_all add: seqs_from_Suc ac_simps)

lemma match_iter_seq:
  assumes "match_iter bs e book a market = Some (e', book', d)"
  shows "f_EngineSeq (fd_Fill d) = c_engineSeq e + 1" "c_engineSeq e' = c_engineSeq e + 1"
  using assms
  by (auto simp: match_iter_def matchBuy_iter_def matchSell_iter_def nextSeq_def Let_def split: if_splits)

lemma match_iter_decreases:
  "match_iter bs e book a market = Some (e', book', d) \<Longrightarrow>
     work (c_heap e') a (opp bs book') < work (c_heap e) a (opp bs book)"
  using matchBuy_iter_decreases matchSell_iter_decreases
  by (auto simp: match_iter_def opp_def split: if_splits)

lemma Engine_match_seqs:
  "Engine_match bs e book a market = (e', book', ds) \<Longrightarrow>
     map (\<lambda>d. f_EngineSeq (fd_Fill d)) ds = seqs_from (c_engineSeq e) (length ds) \<and>
     c_engineSeq e' = c_engineSeq e + of_nat (length ds)"
proof (induction "work (c_heap e) a (opp bs book)" arbitrary: e book e' book' ds rule: less_induct)
  case less
  show ?case
  proof (cases "match_iter bs e book a market")
    case None
    with less.prems show ?thesis by (simp add: Engine_match_simps [of bs e])
  next
    case (Some x)
    obtain e1 book1 d where x: "x = (e1, book1, d)" by (cases x)
    obtain e2 book2 ds2 where r: "Engine_match bs e1 book1 a market = (e2, book2, ds2)"
      by (cases "Engine_match bs e1 book1 a market")
    note it = match_iter_seq [OF Some [unfolded x]]
    have "map (\<lambda>d. f_EngineSeq (fd_Fill d)) ds2 = seqs_from (c_engineSeq e1) (length ds2) \<and>
       c_engineSeq e2 = c_engineSeq e1 + of_nat (length ds2)"
      by (rule less.hyps [OF match_iter_decreases [OF Some [unfolded x]] r])
    with less.prems it show ?thesis
      by (auto simp: Engine_match_simps [of bs e] Some x r seqs_from_Suc)
  qed
qed

lemma ProcessNew_seqs:
  assumes "ProcessNew e now ord owner = (e', ack, ds)"
  shows "ack_EngineSeq ack # map (\<lambda>d. f_EngineSeq (fd_Fill d)) ds = seqs_from (c_engineSeq e) (Suc (length ds)) \<and>
    c_engineSeq e' = c_engineSeq e + of_nat (Suc (length ds))"
proof (cases "invalid_order ord \<or> length (no_ClientOrderID ord) > maxOrderFieldLen \<or>
    length (no_Symbol ord) > maxOrderFieldLen")
  case True
  with assms show ?thesis
    by (auto simp: ProcessNew_def nextSeq_def mkAck_def seqs_from_Suc split: if_splits)
next
  case False
  obtain symbol book e1 where
    bf: "bookFor e (if no_Symbol ord = [] then ''DEFAULT'' else no_Symbol ord) = (symbol, book, e1)"
    by (cases "bookFor e (if no_Symbol ord = [] then ''DEFAULT'' else no_Symbol ord)")
  have new: "ProcessNew_locked e1 now ord owner symbol book = (e', ack, ds)"
    using False bf assms by (simp add: ProcessNew_def Let_def)
  obtain e3 book2 ds3 where m: "Engine_match (is_buy ord) (new_core e1 ord owner symbol book)
      (book\<lparr>b_insertSeq := b_insertSeq book + 1\<rparr>) (c_next e1) (is_market ord) = (e3, book2, ds3)"
    by (cases "Engine_match (is_buy ord) (new_core e1 ord owner symbol book)
      (book\<lparr>b_insertSeq := b_insertSeq book + 1\<rparr>) (c_next e1) (is_market ord)")
  have "c_engineSeq e' = c_engineSeq e3 \<and> ds = ds3 \<and> ack_EngineSeq ack = c_engineSeq e1 + 1"
    using new by (auto simp: ProcessNew_locked_eq Let_def m mkAck_def rejectResidual_def split: if_splits)
  with Engine_match_seqs [OF m] bookFor_result(5) [OF bf] show ?thesis
    by (simp add: new_core_def seqs_from_Suc ac_simps)
qed

lemma ProcessCancel_locked_seqs:
  assumes "ProcessCancel_locked e now c r = (e', ack)"
  shows "ack_EngineSeq ack = c_engineSeq e + 1 \<and> c_engineSeq e' = c_engineSeq e + 1"
proof -
  obtain symbol book e1 where bf: "bookFor e (o_Symbol (c_heap e r)) = (symbol, book, e1)"
    by (cases "bookFor e (o_Symbol (c_heap e r))")
  with assms bookFor_result(5) [OF bf] show ?thesis
    by (auto simp: ProcessCancel_locked_def nextSeq_def Let_def mkAck_def split: prod.splits if_splits)
qed

definition seq_trace :: "Sys \<Rightarrow> bool" where
  "seq_trace s \<longleftrightarrow> map out_seq (s_out s) = seqs_from 0 (length (s_out s)) \<and>
     c_engineSeq (s_engine s) = of_nat (length (s_out s))"

lemma seq_trace_extend:
  assumes "seq_trace s" and "map out_seq out = seqs_from (c_engineSeq (s_engine s)) (length out)"
    and "c_engineSeq e = c_engineSeq (s_engine s) + of_nat (length out)"
  shows "seq_trace (s\<lparr>s_engine := e, s_pending := p, s_out := s_out s @ out\<rparr>)"
  using assms by (simp add: seq_trace_def seqs_from_append)

lemma seq_trace_step: "seq_trace s \<Longrightarrow> seq_trace (sys_step q s)"
proof (cases q)
  case (ReqNew now ord owner)
  assume t: "seq_trace s"
  obtain e ack ds where r: "ProcessNew (s_engine s) now ord owner = (e, ack, ds)"
    by (cases "ProcessNew (s_engine s) now ord owner")
  have "map out_seq (map (OutFill \<circ> fd_Fill) ds) = map (\<lambda>d. f_EngineSeq (fd_Fill d)) ds"
    by simp
  with ProcessNew_seqs [OF r]
  have "seq_trace (s\<lparr>s_engine := e, s_pending := s_pending s,
      s_out := s_out s @ OutAck ack # map (OutFill \<circ> fd_Fill) ds\<rparr>)"
    by (intro seq_trace_extend [OF t]) (simp_all add: o_def)
  then show ?thesis by (simp add: ReqNew r)
next
  case (ReqLoad i now c)
  assume t: "seq_trace s"
  show ?thesis
  proof (cases "s_pending s i = None \<and> c_index (s_engine s) (co_OrigClientOrderID c) = None")
    case True
    define e where "e = (s_engine s)\<lparr>c_engineSeq := c_engineSeq (s_engine s) + 1\<rparr>"
    define ack where "ack = mkAck (co_ClientOrderID c) ''not_found'' (c_engineSeq (s_engine s) + 1) now []"
    have "seq_trace (s\<lparr>s_engine := e, s_pending := s_pending s, s_out := s_out s @ [OutAck ack]\<rparr>)"
      by (rule seq_trace_extend [OF t]) (simp_all add: e_def ack_def mkAck_def seqs_from_Suc)
    with True show ?thesis
      by (simp add: ReqLoad ProcessCancel_load_def nextSeq_def e_def ack_def)
  next
    case False
    with t show ?thesis
      by (auto simp: ReqLoad ProcessCancel_load_def seq_trace_def split: option.splits)
  qed
next
  case (ReqLocked i now)
  assume t: "seq_trace s"
  show ?thesis
  proof (cases "s_pending s i")
    case (Some cr)
    obtain c p where cr: "cr = (c, p)" by fastforce
    obtain e ack where r: "ProcessCancel_locked (s_engine s) now c p = (e, ack)"
      by (cases "ProcessCancel_locked (s_engine s) now c p")
    have "seq_trace (s\<lparr>s_engine := e, s_pending := (s_pending s)(i := None), s_out := s_out s @ [OutAck ack]\<rparr>)"
      by (rule seq_trace_extend [OF t])
        (use ProcessCancel_locked_seqs [OF r] in \<open>simp_all add: seqs_from_Suc\<close>)
    then show ?thesis by (simp add: ReqLocked Some cr r)
  qed (use t in \<open>simp add: ReqLocked\<close>)
qed

lemma seq_trace_run: "seq_trace (run_sys reqs (newSys mode))"
proof (induction reqs rule: rev_induct)
  case Nil
  then show ?case by (simp add: run_sys_def newSys_def newEngine_def seq_trace_def)
next
  case (snoc q reqs)
  then show ?case using seq_trace_step by (simp add: run_sys_def)
qed



section \<open>Acks tell the truth\<close>

text \<open>
  C9. A cancel whose lookup found an order is answered \<^verbatim>\<open>canceled\<close> exactly when that order is
  resting at the moment the book is locked, and \<^verbatim>\<open>not_found\<close> when it was filled or cancelled
  in between; afterwards the order is not resting, every other order still is, no order has
  changed, and a second cancel of it is \<^verbatim>\<open>not_found\<close>.
\<close>

theorem cancel_exactly_resting:
  assumes "engine_ok e" and "cancel_ref e c r"
  shows "case ProcessCancel_locked e now c r of (e', ack) \<Rightarrow>
    ack = mkAck (co_ClientOrderID c) (if resting e r then ''canceled'' else ''not_found'')
      (c_engineSeq e + 1) now [] \<and>
    \<not> resting e' r \<and> (\<forall>x. x \<noteq> r \<and> resting e x \<longrightarrow> resting e' x) \<and> c_heap e' = c_heap e \<and>
    (case ProcessCancel_locked e' now' c r of (e'', ack') \<Rightarrow>
       ack' = mkAck (co_ClientOrderID c) ''not_found'' (c_engineSeq e + 2) now' [])"
proof -
  obtain e' ack where r: "ProcessCancel_locked e now c r = (e', ack)"
    by (cases "ProcessCancel_locked e now c r")
  note lo = ProcessCancel_locked_ok [OF assms r]
  obtain e'' ack' where r': "ProcessCancel_locked e' now' c r = (e'', ack')"
    by (cases "ProcessCancel_locked e' now' c r")
  note lo' = ProcessCancel_locked_ok(4) [OF lo(1) cancel_ref_ext [OF lo(2) assms(2)] r']
  show ?thesis
    unfolding r r' prod.case lo' lo(6) if_not_P [OF lo(5)]
    using lo(4,5,7,8) by (simp add: add.commute)
qed

text \<open>An engine in which one sell order rests.\<close>

definition demo_sell :: NewOrder where
  "demo_sell = demo_new ''s1'' ''sell'' [] 100 3"

definition demo_rested :: Engine where
  "demo_rested = (newEngine [])\<lparr>c_engineSeq := 1,
      c_heap := (c_heap (newEngine []))(0 := new_active demo_sell None ''DEFAULT'' newBook),
      c_next := 1, c_index := [''s1'' \<mapsto> 0],
      e_books := [''DEFAULT'' \<mapsto> \<lparr>b_insertSeq = 1, b_buys = [], b_sells = [0]\<rparr>]\<rparr>"

lemma demo_sell_rests:
  "ProcessNew (newEngine []) 1 demo_sell None = (demo_rested, mkAck ''s1'' ''accepted'' 1 1 [], [])"
  "resting demo_rested 0" "o_ID (c_heap demo_rested 0) = ''s1''"
proof -
  have ord: "\<not> invalid_order demo_sell" "\<not> is_buy demo_sell" "\<not> is_market demo_sell"
    "ToUpper (no_Side demo_sell) = ''SELL''"
    "no_ClientOrderID demo_sell = ''s1''" "no_Symbol demo_sell = []" "no_Qty demo_sell = 3"
    unfolding demo_sell_def by code_simp+
  have m: "Engine_match False (e1 :: Engine) \<lparr>b_insertSeq = 1, b_buys = [], b_sells = []\<rparr> a mk =
      (e1, \<lparr>b_insertSeq = 1, b_buys = [], b_sells = []\<rparr>, [])" for e1 a mk
    by (simp add: Engine_match_simps [of False e1] match_iter_Nil opp_def)
  have ins: "insertSorted h [] 0 False broken = [0]" for h broken
    by (simp add: insertSorted_def)
  show "ProcessNew (newEngine []) 1 demo_sell None = (demo_rested, mkAck ''s1'' ''accepted'' 1 1 [], [])"
    by (simp add: demo_rested_def ProcessNew_def ord maxOrderFieldLen_def bookFor_def newEngine_def
        ProcessNew_locked_eq newBook_def m Let_def new_core_def new_active_def opp_def set_opp_def
        maxRestingPerSymbol_def ins e_broken_def)
  show "resting demo_rested 0" "o_ID (c_heap demo_rested 0) = ''s1''"
    by (simp_all add: demo_rested_def new_active_def ord resting_def side_of_def)
qed

lemma newEngine_ok: "engine_ok (newEngine mode)" "seq_bound 0 (newEngine mode)"
  using newSys_ok [of mode] by (simp_all add: sys_ok_def newSys_def)

lemma demo_rested_ok: "engine_ok demo_rested"
  using ProcessNew_ok [OF newEngine_ok [of "[]"], where e' = demo_rested and now = 1 and ord = demo_sell
      and owner = None] demo_sell_rests(1) by simp

lemma cancel_exactly_resting_witness:
  "\<exists>e'. ProcessCancel_locked demo_rested 2 (demo_cancel ''s1'') 0 = (e', mkAck ''c'' ''canceled'' 2 2 [])"
proof -
  have "cancel_ref demo_rested (demo_cancel ''s1'') 0"
    using demo_sell_rests(3) by (simp add: cancel_ref_def demo_cancel_def) (simp add: demo_rested_def)
  moreover have "c_engineSeq demo_rested = 1" by (simp add: demo_rested_def)
  ultimately show ?thesis
    using cancel_exactly_resting [OF demo_rested_ok, of "demo_cancel ''s1''" 0 2] demo_sell_rests(2)
    by (auto simp: demo_cancel_def split: prod.splits)
qed

subsection \<open>New orders\<close>

definition fill_total :: "FillDelivery list \<Rightarrow> int" where
  "fill_total ds = sum_list (map (\<lambda>d. f_Qty (fd_Fill d)) ds)"

text \<open>How a valid order can end, seen from the result of its match.\<close>

lemma ProcessNew_locked_outcome:
  assumes inv: "engine_ok e" and bk: "e_books e symbol = Some book"
    and w: "b_insertSeq book \<noteq> - 1" and valid: "\<not> invalid_order ord"
    and r: "ProcessNew_locked e now ord owner symbol book = (e', ack, ds)"
  defines "a \<equiv> c_next e"
  shows "o_Qty (c_heap e' a) = no_Qty ord - fill_total ds"
    and "ack_ClientOrderID ack = no_ClientOrderID ord"
    and "(ack_Status ack, ack_Reason ack) =
           (if \<not> is_market ord \<and> 0 < o_Qty (c_heap e' a) \<and> \<not> resting e' a
            then (if ds = [] then (''rejected'', ''book_full'') else (''accepted'', ''residual_dropped''))
            else (''accepted'', []))"
    and "resting e' a \<Longrightarrow> \<not> is_market ord \<and> 0 < o_Qty (c_heap e' a) \<and>
           c_index e' (no_ClientOrderID ord) = Some a"
    and "\<not> resting e' a \<Longrightarrow> ds = [] \<Longrightarrow> c_index e' = c_index e"
    and "ds = [] \<Longrightarrow> r < c_next e \<Longrightarrow> c_heap e' r = c_heap e r"
    and "o_ID (c_heap e' a) = no_ClientOrderID ord" and "c_next e' = c_next e + 1"
    and "ds = [] \<Longrightarrow> resting e r \<Longrightarrow> resting e' r"
    and "0 \<le> o_Qty (c_heap e' a)"
    and "resting e' a \<Longrightarrow> ds = [] \<Longrightarrow> e_books e' = (e_books e)(symbol \<mapsto>
           set_opp (\<not> is_buy ord) (book\<lparr>b_insertSeq := b_insertSeq book + 1\<rparr>)
             (insertSorted (c_heap e') (opp (\<not> is_buy ord) book) a (is_buy ord) (e_broken e)))"
    and "(o_Side (c_heap e' a) = ''BUY'') = is_buy ord" "o_Symbol (c_heap e' a) = symbol"
    and "e_mode e' = e_mode e"
proof -
  let ?bs = "is_buy ord"
  obtain e3 book2 ds3 where m: "Engine_match ?bs (new_core e ord owner symbol book)
      (book\<lparr>b_insertSeq := b_insertSeq book + 1\<rparr>) a (is_market ord) = (e3, book2, ds3)"
    by (cases "Engine_match ?bs (new_core e ord owner symbol book)
      (book\<lparr>b_insertSeq := b_insertSeq book + 1\<rparr>) a (is_market ord)")
  have qty: "0 < no_Qty ord" using valid by (auto simp: invalid_order_def Let_def)
  have bok: "books_ok e" using inv by (simp add: engine_ok_def)
  note ok = books_okD(1) [OF bok bk]
  note mt = new_matchable [OF ok, of ord owner "b_insertSeq book + 1" ?bs]
  note am = after_match [OF ok m [unfolded a_def] qty]
  note em = Engine_match_result [OF mt m [unfolded a_def]]
  note act = same_orderD [OF am(9)]
  let ?rests = "0 < o_Qty (c_heap e3 a) \<and> \<not> is_market ord \<and>
    length (opp (\<not> ?bs) book2) < maxRestingPerSymbol"
  define book' where "book' = (if ?rests then set_opp (\<not> ?bs) book2
      (insertSorted (c_heap e3) (opp (\<not> ?bs) book2) a ?bs (e_broken e)) else book2)"
  have res: "c_heap e' = c_heap e3" "c_next e' = c_next e3" "ds = ds3"
    "e_books e' = (e_books e)(symbol \<mapsto> book')"
    "c_index e' = (if ?rests then (c_index e3)(no_ClientOrderID ord \<mapsto> a) else c_index e3)"
    "ack = (let k = mkAck (no_ClientOrderID ord) ''accepted'' (c_engineSeq e + 1) now [] in
       if 0 < o_Qty (c_heap e3 a) \<and> \<not> is_market ord \<and> \<not> ?rests then rejectResidual k ds else k)"
    using r m am(2) by (auto simp: ProcessNew_locked_eq Let_def a_def book'_def split: if_splits)
  have own: "opp (\<not> ?bs) book2 = opp (\<not> ?bs) book" using am(7) .
  have "a \<notin> set (opp (\<not> ?bs) book)" using own_not_opp(1) [OF ok] by (auto simp: a_def)
  then have "a \<in> set (opp (\<not> ?bs) book') \<longleftrightarrow> ?rests" by (simp add: book'_def own)
  moreover have "(o_Side (c_heap e3 a) \<noteq> ''BUY'') = (\<not> ?bs)" "o_Symbol (c_heap e3 a) = symbol"
    using act by (simp_all add: a_def new_active_def is_buy_def)
  ultimately have rests: "resting e' a \<longleftrightarrow> ?rests"
    unfolding resting_def res(1,4) side_of_opp by simp
  show "(o_Side (c_heap e' a) = ''BUY'') = is_buy ord" "o_Symbol (c_heap e' a) = symbol"
    using act by (simp_all add: res(1) a_def new_active_def is_buy_def)
  show "e_mode e' = e_mode e"
    using r m am(3) by (auto simp: ProcessNew_locked_eq Let_def a_def split: if_splits)
  show "e_books e' = (e_books e)(symbol \<mapsto>
      set_opp (\<not> ?bs) (book\<lparr>b_insertSeq := b_insertSeq book + 1\<rparr>)
        (insertSorted (c_heap e') (opp (\<not> ?bs) book) a ?bs (e_broken e)))"
    if "resting e' a" "ds = []"
  proof -
    have tr: "trades_of (new_core e ord owner symbol book) (book\<lparr>b_insertSeq := b_insertSeq book + 1\<rparr>) ?bs
        (c_next e) (is_market ord) = []"
      using that(2) em(3) res(3) by (metis length_fills_of length_0_conv)
    have "filter (\<lambda>x. 0 < o_Qty (c_heap (new_core e ord owner symbol book) x)) (opp ?bs book) = opp ?bs book"
      using mt by (auto simp: matchable_def filter_id_conv)
    then have "book2 = set_opp ?bs (book\<lparr>b_insertSeq := b_insertSeq book + 1\<rparr>) (opp ?bs book)"
      using em(2) tr by simp
    then have "book2 = book\<lparr>b_insertSeq := b_insertSeq book + 1\<rparr>"
      by (cases "is_buy ord") (simp_all add: set_opp_def opp_def)
    moreover have "book' = set_opp (\<not> ?bs) book2
        (insertSorted (c_heap e3) (opp (\<not> ?bs) book2) a ?bs (e_broken e))"
      using that(1) rests unfolding book'_def by (simp only: if_True simp_thms)
    ultimately show ?thesis by (simp add: res(1,4))
  qed
  show "o_Qty (c_heap e' a) = no_Qty ord - fill_total ds"
    using settle_active [OF trades_of_active [OF mt], of "c_heap (new_core e ord owner symbol book)"]
    by (simp add: res(1,3) em fill_total_def fill_qtys a_def) (simp add: new_core_def new_active_def)
  show "0 \<le> o_Qty (c_heap e' a)" using am(10) by (simp add: res(1) a_def)
  show "ack_ClientOrderID ack = no_ClientOrderID ord"
    by (simp add: res(6) mkAck_def rejectResidual_def Let_def)
  show "(ack_Status ack, ack_Reason ack) =
     (if \<not> is_market ord \<and> 0 < o_Qty (c_heap e' a) \<and> \<not> resting e' a
      then (if ds = [] then (''rejected'', ''book_full'') else (''accepted'', ''residual_dropped''))
      else (''accepted'', []))"
    by (simp add: res(1,6) rests mkAck_def rejectResidual_def Let_def)
  show "\<not> is_market ord \<and> 0 < o_Qty (c_heap e' a) \<and> c_index e' (no_ClientOrderID ord) = Some a"
    if "resting e' a"
    using that unfolding rests by (simp add: res(1,5))
  have no: "c_index e3 = c_index e" "c_heap e3 x = c_heap e x" if "ds = []" "x < c_next e" for x
  proof -
    have "trades_of (new_core e ord owner symbol book) (book\<lparr>b_insertSeq := b_insertSeq book + 1\<rparr>) ?bs
        (c_next e) (is_market ord) = []"
      using that(1) em(3) res(3) by (metis length_fills_of length_0_conv)
    then show "c_index e3 = c_index e" "c_heap e3 x = c_heap e x"
      using em(1) that(2) by (simp_all add: new_core_def)
  qed
  show "c_index e' = c_index e" if "\<not> resting e' a" "ds = []"
  proof -
    have "trades_of (new_core e ord owner symbol book) (book\<lparr>b_insertSeq := b_insertSeq book + 1\<rparr>) ?bs
        (c_next e) (is_market ord) = []"
      using that(2) em(3) res(3) by (metis length_fills_of length_0_conv)
    then have "c_index e3 = c_index e" using em(1) by (simp add: new_core_def)
    moreover have "\<not> ?rests" using that(1) rests by blast
    ultimately show ?thesis unfolding res(5) by (simp only: if_False)
  qed
  show "c_heap e' r = c_heap e r" if "ds = []" "r < c_next e"
    using no(2) [OF that] by (simp add: res(1))
  show "o_ID (c_heap e' a) = no_ClientOrderID ord" using act by (simp add: res(1) a_def new_active_def)
  show "c_next e' = c_next e + 1" using am(1) by (simp add: res(2))
  show "resting e' r" if "ds = []" "resting e r"
  proof (rule resting_after_match(2) [OF inv bk m [unfolded a_def] qty res(1,4) _ _ that(2)])
    show "set (opp ?bs book2) \<subseteq> set (opp ?bs book')" by (simp add: book'_def)
    show "set (opp (\<not> ?bs) book2) \<subseteq> set (opp (\<not> ?bs) book')" by (auto simp: book'_def)
    show "r \<in> set (opp ?bs book) \<longrightarrow> 0 < o_Qty (c_heap e3 r)"
      using side_okD(1,2) [OF book_ok_opp [OF ok]] no(2) [OF that(1)] by auto
  qed
qed


text \<open>
  C10. The ack of a new order tells the truth about it.  A rejected order has produced no
  fill, has left the index and every order untouched and does not rest.  An accepted order
  without a reason is completely filled, or is a market order, or rests with exactly its
  unfilled quantity under its identifier, so that a cancel finds it; \<^verbatim>\<open>residual_dropped\<close> means
  that it was filled in part and does not rest.
\<close>

theorem new_order_ack_truthful:
  assumes "engine_ok e" and "seq_bound k e" and "k < 2 ^ 64 - 1"
  shows "case ProcessNew e now ord owner of (e', ack, ds) \<Rightarrow>
    ack_ClientOrderID ack = no_ClientOrderID ord \<and>
    (ack_Status ack = ''rejected'' \<and> ds = [] \<and> c_index e' = c_index e \<and>
       (\<forall>r<c_next e. c_heap e' r = c_heap e r) \<and>
       (\<forall>r. resting e r \<longrightarrow> resting e' r) \<and> (c_next e < c_next e' \<longrightarrow> \<not> resting e' (c_next e))
     \<or> ack_Status ack = ''accepted'' \<and> ack_Reason ack = [] \<and>
       (fill_total ds = no_Qty ord \<or> is_market ord \<or>
        resting e' (c_next e) \<and> c_index e' (no_ClientOrderID ord) = Some (c_next e) \<and>
        0 < no_Qty ord - fill_total ds \<and>
        o_Qty (c_heap e' (c_next e)) = no_Qty ord - fill_total ds)
     \<or> ack_Status ack = ''accepted'' \<and> ack_Reason ack = ''residual_dropped'' \<and> ds \<noteq> [] \<and>
       fill_total ds < no_Qty ord \<and> \<not> resting e' (c_next e))"
proof (cases "invalid_order ord \<or> length (no_ClientOrderID ord) > maxOrderFieldLen \<or>
    length (no_Symbol ord) > maxOrderFieldLen")
  case True
  then show ?thesis
    by (auto simp: ProcessNew_def nextSeq_def mkAck_def resting_def cong: option.case_cong)
next
  case False
  obtain symbol book e1 where
    bf: "bookFor e (if no_Symbol ord = [] then ''DEFAULT'' else no_Symbol ord) = (symbol, book, e1)"
    by (cases "bookFor e (if no_Symbol ord = [] then ''DEFAULT'' else no_Symbol ord)")
  obtain e' ack ds where r: "ProcessNew_locked e1 now ord owner symbol book = (e', ack, ds)"
    by (cases "ProcessNew_locked e1 now ord owner symbol book")
  have new: "ProcessNew e now ord owner = (e', ack, ds)"
    using False bf r by (simp add: ProcessNew_def Let_def)
  note b = bookFor_result [OF bf]
  note w = seq_bound_w [OF bookFor_seq_bound [OF assms(2) bf] assms(3) b(7)]
  have valid: "\<not> invalid_order ord" using False by blast
  note out = ProcessNew_locked_outcome [OF bookFor_ok [OF assms(1) bf] b(7) w valid r, unfolded b]
  have ok': "engine_ok e'" using ProcessNew_ok [OF assms refl, of now ord owner] new by simp
  have keep: "resting e x \<Longrightarrow> resting e1 x" for x using bookFor_keeps(2) [OF bf] .
  show ?thesis
  proof (cases "\<not> is_market ord \<and> 0 < o_Qty (c_heap e' (c_next e)) \<and> \<not> resting e' (c_next e)")
    case True
    then show ?thesis
      using out(1-3,5,6,9) keep unfolding new by (cases "ds = []") auto
  next
    case rest: False
    have "(ack_Status ack, ack_Reason ack) = (''accepted'', [])"
      using out(3) unfolding if_not_P [OF rest] .
    then have "ack_Status ack = ''accepted'' \<and> ack_Reason ack = []" by simp
    moreover have "fill_total ds = no_Qty ord \<or> is_market ord \<or>
        resting e' (c_next e) \<and> c_index e' (no_ClientOrderID ord) = Some (c_next e) \<and>
        0 < no_Qty ord - fill_total ds \<and>
        o_Qty (c_heap e' (c_next e)) = no_Qty ord - fill_total ds"
      using rest out(1,4,10) by linarith
    ultimately show ?thesis using out(2) unfolding new by simp
  qed
qed

lemma new_order_ack_truthful_witness:
  "case ProcessNew (newEngine []) 1 (demo_new ''b1'' ''buy'' ''limit'' 100 3) None of (e', ack, ds) \<Rightarrow>
     ack_ClientOrderID ack = ''b1''"
proof -
  have "engine_ok (newEngine [])" and "seq_bound 0 (newEngine [])"
    using newSys_ok [of "[]"] by (simp_all add: sys_ok_def newSys_def)
  from new_order_ack_truthful [OF this, where ord = "demo_new ''b1'' ''buy'' ''limit'' 100 3"]
  show ?thesis by (auto simp: demo_new_def case_prod_beta)
qed


subsection \<open>New then cancel\<close>

definition ladders :: "Engine \<Rightarrow> string \<Rightarrow> oref list \<times> oref list" where
  "ladders e symbol =
     (case e_books e symbol of None \<Rightarrow> ([], []) | Some book \<Rightarrow> (b_buys book, b_sells book))"

lemma removeOrder_inserted:
  assumes ok: "book_ok h n broken symbol (set_opp (\<not> bs) book (insertSorted h s a bs broken))"
    and s: "s = opp (\<not> bs) book" "sorted_wrt (ref_before h bs broken) s" "a \<notin> set s"
    and a: "(o_Side (h a) = ''BUY'') = bs"
  shows "removeOrder h (set_opp (\<not> bs) book (insertSorted h s a bs broken)) a broken = (True, book)"
proof -
  let ?b = "set_opp (\<not> bs) book (insertSorted h s a bs broken)"
  obtain removed book' where rm: "removeOrder h ?b a broken = (removed, book')"
    by (cases "removeOrder h ?b a broken")
  note rc = removeOrder_cases [OF ok rm]
  have so: "side_of h b a = opp (\<not> bs) b" for b using a by (simp add: side_of_opp)
  have removed using rc(1) by (simp add: so)
  have "set (opp (\<not> bs) book') = set s" using rc(3) [OF \<open>removed\<close>] s(3) by (simp add: so)
  moreover have "sorted_wrt (ref_before h bs broken) (opp (\<not> bs) book')"
    using book_ok_own [OF rc(5), of bs] by (simp add: side_ok_def)
  ultimately have "opp (\<not> bs) book' = s" using ladder.sorted_unique s(2) by blast
  moreover have "opp bs book' = opp bs book" using rc(4) a by simp
  moreover have "b_insertSeq book' = b_insertSeq book" using rc(6) by simp
  ultimately have "book' = book" using s(1) by (cases bs) (simp_all add: opp_def)
  with rm \<open>removed\<close> show ?thesis by simp
qed

text \<open>A new order that came to rest without trading passed the checks.\<close>

lemma rested_was_processed:
  assumes inv: "engine_ok e"
    and new: "ProcessNew e now ord owner = (e1, ack, [])" and rest: "resting e1 (c_next e)"
  obtains symbol book e0 where "\<not> invalid_order ord"
    and "bookFor e (if no_Symbol ord = [] then ''DEFAULT'' else no_Symbol ord) = (symbol, book, e0)"
    and "ProcessNew_locked e0 now ord owner symbol book = (e1, ack, [])"
proof -
  have "e1 \<noteq> e\<lparr>c_engineSeq := c_engineSeq e + 1\<rparr>"
  proof
    assume "e1 = e\<lparr>c_engineSeq := c_engineSeq e + 1\<rparr>"
    then have "resting e (c_next e)" using rest by (simp add: resting_def cong: option.case_cong)
    then show False using resting_alloc inv unfolding engine_ok_def by blast
  qed
  then have valid: "\<not> (invalid_order ord \<or> length (no_ClientOrderID ord) > maxOrderFieldLen \<or>
      length (no_Symbol ord) > maxOrderFieldLen)"
    using new by (auto simp: ProcessNew_def nextSeq_def split: if_splits)
  obtain symbol book e0 where
    bf: "bookFor e (if no_Symbol ord = [] then ''DEFAULT'' else no_Symbol ord) = (symbol, book, e0)"
    by (cases "bookFor e (if no_Symbol ord = [] then ''DEFAULT'' else no_Symbol ord)")
  have "ProcessNew_locked e0 now ord owner symbol book = (e1, ack, [])"
    using valid bf new by (simp add: ProcessNew_def Let_def)
  then show ?thesis using that valid bf by blast
qed

text \<open>
  C12. Cancelling an order that came to rest without trading takes it out again and leaves
  every ladder of every symbol exactly as it was before the order arrived.
\<close>

theorem new_then_cancel_restores:
  assumes inv: "engine_ok e" "seq_bound k e" "k < 2 ^ 64 - 1"
    and new: "ProcessNew e now ord owner = (e1, ack, [])" and rest: "resting e1 (c_next e)"
    and c: "co_OrigClientOrderID c = no_ClientOrderID ord"
  shows "case ProcessCancel e1 now' c of (e2, ack2) \<Rightarrow>
    ack_Status ack2 = ''canceled'' \<and> ladders e2 = ladders e"
proof -
  have ok1: "engine_ok e1" using ProcessNew_ok [OF inv refl, of now ord owner] new by simp
  obtain symbol book e0 where v: "\<not> invalid_order ord"
    and bf: "bookFor e (if no_Symbol ord = [] then ''DEFAULT'' else no_Symbol ord) = (symbol, book, e0)"
    and r: "ProcessNew_locked e0 now ord owner symbol book = (e1, ack, [])"
    using rested_was_processed [OF inv(1) new rest] by metis
  note b = bookFor_result [OF bf] and ok0 = bookFor_ok [OF inv(1) bf]
  note w = seq_bound_w [OF bookFor_seq_bound [OF inv(2) bf] inv(3) b(7)]
  note out = ProcessNew_locked_outcome [OF ok0 b(7) w _ r, unfolded b(2-6)]
  let ?bs = "is_buy ord" and ?a = "c_next e"
  let ?b1 = "book\<lparr>b_insertSeq := b_insertSeq book + 1\<rparr>"
  let ?b3 = "set_opp (\<not> ?bs) ?b1 (insertSorted (c_heap e1) (opp (\<not> ?bs) book) ?a ?bs (e_broken e0))"
  have books1: "e_books e1 = (e_books e0)(symbol \<mapsto> ?b3)" using out(11) [OF v rest] by simp
  have broken: "e_broken e1 = e_broken e0" using out(14) [OF v] b(6) by (simp add: e_broken_def)
  have bok3: "book_ok (c_heap e1) (c_next e1) (e_broken e0) symbol ?b3"
    using books_okD(1) [of e1 symbol ?b3] ok1 books1 broken by (simp add: engine_ok_def)
  have bok: "book_ok (c_heap e) ?a (e_broken e0) symbol book"
    using books_okD(1) [of e0 symbol book] ok0 b by (simp add: engine_ok_def)
  have own: "side_ok (c_heap e) ?a (e_broken e0) symbol (b_insertSeq book) ?bs (opp (\<not> ?bs) book)"
    by (rule book_ok_own [OF bok])
  have "side_ok (c_heap e1) ?a (e_broken e0) symbol (b_insertSeq book) ?bs (opp (\<not> ?bs) book)"
    by (rule side_ok_mono [OF own]) (use out(6) [OF v] side_okD(1) [OF own] in auto)
  then have sorted: "sorted_wrt (ref_before (c_heap e1) ?bs (e_broken e0)) (opp (\<not> ?bs) book)"
    by (simp add: side_ok_def)
  have fresh: "?a \<notin> set (opp (\<not> ?bs) book)" using side_okD(1) [OF own] by blast
  have rm: "removeOrder (c_heap e1) ?b3 ?a (e_broken e1) = (True, ?b1)"
    unfolding broken
    by (rule removeOrder_inserted [OF bok3 _ sorted fresh]) (use out(12) [OF v] in simp_all)
  have idx: "c_index e1 (co_OrigClientOrderID c) = Some ?a" using out(4) [OF v rest] c by simp
  have sym: "symbol \<noteq> []" using b(1) by simp
  have "ProcessCancel e1 now' c =
    (e1\<lparr>c_engineSeq := c_engineSeq e1 + 1, e_books := (e_books e1)(symbol \<mapsto> ?b1),
        c_index := (c_index e1)(co_OrigClientOrderID c := None)\<rparr>,
     mkAck (co_ClientOrderID c) ''canceled'' (c_engineSeq e1 + 1) now' [])"
    using rm sym
    by (simp add: ProcessCancel_def ProcessCancel_load_def idx ProcessCancel_locked_def out(13) [OF v]
        bookFor_def books1 nextSeq_def Let_def e_broken_def mkAck_def)
  moreover have "ladders (e1\<lparr>c_engineSeq := c_engineSeq e1 + 1, e_books := (e_books e1)(symbol \<mapsto> ?b1),
        c_index := (c_index e1)(co_OrigClientOrderID c := None)\<rparr>) t = ladders e t" for t
    using b(7,9) b(8) [of t]
    by (cases "t = symbol") (auto simp: ladders_def books1 newBook_def split: option.splits)
  ultimately show ?thesis by (auto simp: mkAck_def)
qed

lemma new_then_cancel_restores_witness:
  "case ProcessCancel demo_rested 2 (demo_cancel ''s1'') of (e2, ack2) \<Rightarrow>
     ack_Status ack2 = ''canceled'' \<and> ladders e2 = ladders (newEngine [])"
proof (rule new_then_cancel_restores [OF newEngine_ok _ demo_sell_rests(1)])
  show "resting demo_rested (c_next (newEngine []))"
    using demo_sell_rests(2) by (simp add: newEngine_def)
  show "co_OrigClientOrderID (demo_cancel ''s1'') = no_ClientOrderID demo_sell"
    by (simp add: demo_cancel_def demo_sell_def demo_new_def)
qed simp


subsection \<open>Identifiers are not unique\<close>

text \<open>
  The cancel index is keyed by the client's identifier alone and the engine accepts an
  identifier that is already resting.  An order whose entry was taken over by a later order
  with the same identifier cannot be cancelled: the first cancel removes the later order,
  and the next one is answered \<^verbatim>\<open>not_found\<close> while the earlier order still rests.
\<close>

lemma duplicate_id_strands_order:
  assumes "engine_ok e" and "c_index e (co_OrigClientOrderID c) = Some r1"
    and "resting e r" and "r \<noteq> r1" and "o_ID (c_heap e r) = co_OrigClientOrderID c"
  shows "case ProcessCancel e now c of (e', ack) \<Rightarrow>
    ack_Status ack = ''canceled'' \<and> resting e' r \<and>
    (case ProcessCancel e' now' c of (e'', ack') \<Rightarrow>
       ack_Status ack' = ''not_found'' \<and> resting e'' r)"
proof -
  have ref: "cancel_ref e c r1" and rest: "resting e r1"
    using assms(1,2) resting_alloc unfolding engine_ok_def index_ok_def cancel_ref_def by blast+
  obtain e' ack where r: "ProcessCancel_locked e now c r1 = (e', ack)"
    by (cases "ProcessCancel_locked e now c r1")
  note lo = ProcessCancel_locked_ok [OF assms(1) ref r]
  have "resting e' r" using lo(7) assms(3,4) by blast
  then have "resting (e'\<lparr>c_engineSeq := n\<rparr>) r" for n
    by (simp add: resting_def cong: option.case_cong)
  with \<open>resting e' r\<close> show ?thesis
    using lo(4) lo(9) [OF rest] rest
    by (simp add: ProcessCancel_def ProcessCancel_load_def assms(2) r nextSeq_def mkAck_def)
qed

lemma duplicate_id_strands_order_witness:
  "\<exists>e. e = fst (ProcessNew demo_rested 2 demo_sell None) \<and>
     (case ProcessCancel e 3 (demo_cancel ''s1'') of (e', ack) \<Rightarrow>
        (case ProcessCancel e' 4 (demo_cancel ''s1'') of (e'', ack') \<Rightarrow>
           ack_Status ack' = ''not_found'' \<and> resting e'' 0))"
proof -
  define e where "e = fst (ProcessNew demo_rested 2 demo_sell None)"
  have sb: "seq_bound 1 demo_rested"
    by (simp add: seq_bound_def demo_rested_def)
  have ok: "engine_ok e"
    using ProcessNew_ok [OF demo_rested_ok sb _ e_def] by simp
  have ord: "\<not> invalid_order demo_sell" "\<not> is_buy demo_sell" "\<not> is_market demo_sell"
    "ToUpper (no_Side demo_sell) = ''SELL''" "no_ClientOrderID demo_sell = ''s1''"
    "no_Symbol demo_sell = []" "no_Qty demo_sell = 3"
    unfolding demo_sell_def by code_simp+
  have m: "Engine_match False (e1 :: Engine) \<lparr>b_insertSeq = 2, b_buys = [], b_sells = [0]\<rparr> a mk =
      (e1, \<lparr>b_insertSeq = 2, b_buys = [], b_sells = [0]\<rparr>, [])" for e1 a mk
    by (simp add: Engine_match_simps [of False e1] match_iter_Nil opp_def)
  have "e_books e ''DEFAULT'' = Some \<lparr>b_insertSeq = 2, b_buys = [],
      b_sells = insertSorted (c_heap e) [0] 1 False False\<rparr> \<and>
    c_index e ''s1'' = Some 1 \<and> o_Symbol (c_heap e 0) = ''DEFAULT'' \<and>
    o_Side (c_heap e 0) = ''SELL'' \<and> o_ID (c_heap e 0) = ''s1''"
    unfolding e_def
    by (simp add: demo_rested_def ProcessNew_def ord maxOrderFieldLen_def bookFor_def newEngine_def
        ProcessNew_locked_eq m Let_def new_core_def new_active_def opp_def set_opp_def
        maxRestingPerSymbol_def e_broken_def)
  then have "resting e 0" "c_index e ''s1'' = Some 1" "o_ID (c_heap e 0) = ''s1''"
    by (simp_all add: resting_def side_of_def)
  then have st: "c_index e (co_OrigClientOrderID (demo_cancel ''s1'')) = Some 1" "resting e 0"
    "o_ID (c_heap e 0) = co_OrigClientOrderID (demo_cancel ''s1'')"
    by (simp_all add: demo_cancel_def)
  have "case ProcessCancel e 3 (demo_cancel ''s1'') of (e', ack) \<Rightarrow>
      (case ProcessCancel e' 4 (demo_cancel ''s1'') of (e'', ack') \<Rightarrow>
           ack_Status ack' = ''not_found'' \<and> resting e'' 0)"
    using duplicate_id_strands_order [OF ok st(1,2) _ st(3), of 4 3]
    by (simp only: case_prod_beta)
  with e_def show ?thesis by (intro exI conjI)
qed

end
