(* ===== verification/Ring.thy ===== *)
theory Ring
  imports Prelude
begin

unbundle bit_operations_syntax

text \<open>
  The bounded lock-free multi-producer, single-consumer ring of
  \<^verbatim>\<open>examples/stub-engine/disruptor.go\<close> (\<^verbatim>\<open>newRing\<close>, \<^verbatim>\<open>publish\<close>, \<^verbatim>\<open>consume\<close>), with every
  atomic action of the code as one step, so that producers and the consumer interleave freely:

  \<^item> \<open>ring_claim\<close>: \<^verbatim>\<open>pos := r.prod.Add(1) - 1\<close>;
  \<^item> \<open>ring_write\<close>: the spin on \<^verbatim>\<open>s.seq.Load() != pos\<close> has ended, \<^verbatim>\<open>s.data = item\<close>;
  \<^item> \<open>ring_publish\<close>: \<^verbatim>\<open>s.seq.Store(pos + 1)\<close>;
  \<^item> \<open>ring_read\<close>: the spin on \<^verbatim>\<open>s.seq.Load() != pos+1\<close> has ended, the slot is read and cleared;
  \<^item> \<open>ring_free\<close>: \<^verbatim>\<open>r.cons = pos + 1; s.seq.Store(pos + r.mask + 1)\<close>.

  A step that would still spin is not enabled (\<^const>\<open>None\<close>).  Cursors and slot sequence numbers
  are 64-bit words and wrap.  The ghost lists of the system record, in claim order, what was
  submitted and by whom, and what the consumer returned.
\<close>

section \<open>The ring\<close>

record 'a ringSlot =
  rs_seq :: u64
  rs_data :: 'a

record 'a ring =
  r_mask :: u64
  r_slots :: "'a ringSlot list"
  r_prod :: u64
  r_cons :: u64

definition newRing :: "'a \<Rightarrow> nat \<Rightarrow> 'a ring" where
  "newRing zero lg =
     (let size = push_bit lg (1 :: u64)
      in \<lparr>r_mask = size - 1,
          r_slots = map (\<lambda>i. \<lparr>rs_seq = of_nat i, rs_data = zero\<rparr>) [0..<unat size],
          r_prod = 0, r_cons = 0\<rparr>)"

definition slot_of :: "'a ring \<Rightarrow> u64 \<Rightarrow> nat" where
  "slot_of r pos = unat (pos AND r_mask r)"

definition slot_at :: "'a ring \<Rightarrow> u64 \<Rightarrow> 'a ringSlot" where
  "slot_at r pos = r_slots r ! slot_of r pos"

definition set_slot :: "'a ring \<Rightarrow> u64 \<Rightarrow> 'a ringSlot \<Rightarrow> 'a ring" where
  "set_slot r pos s = r\<lparr>r_slots := (r_slots r)[slot_of r pos := s]\<rparr>"

text \<open>\<^verbatim>\<open>publish\<close>\<close>

definition ring_claim :: "'a ring \<Rightarrow> u64 \<times> 'a ring" where
  "ring_claim r = (let p = r_prod r + 1 in (p - 1, r\<lparr>r_prod := p\<rparr>))"

definition ring_write :: "'a ring \<Rightarrow> u64 \<Rightarrow> 'a \<Rightarrow> 'a ring option" where
  "ring_write r pos item =
     (if rs_seq (slot_at r pos) \<noteq> pos then None
      else Some (set_slot r pos ((slot_at r pos)\<lparr>rs_data := item\<rparr>)))"

definition ring_publish :: "'a ring \<Rightarrow> u64 \<Rightarrow> 'a ring" where
  "ring_publish r pos = set_slot r pos ((slot_at r pos)\<lparr>rs_seq := pos + 1\<rparr>)"

text \<open>\<^verbatim>\<open>consume\<close>\<close>

definition ring_read :: "'a \<Rightarrow> 'a ring \<Rightarrow> ('a \<times> 'a ring) option" where
  "ring_read zero r =
     (let pos = r_cons r; s = slot_at r pos
      in if rs_seq s \<noteq> pos + 1 then None
         else Some (rs_data s, set_slot r pos (s\<lparr>rs_data := zero\<rparr>)))"

definition ring_free :: "'a ring \<Rightarrow> 'a ring" where
  "ring_free r =
     (let pos = r_cons r; r1 = r\<lparr>r_cons := pos + 1\<rparr>
      in set_slot r1 pos ((slot_at r1 pos)\<lparr>rs_seq := pos + r_mask r + 1\<rparr>))"

section \<open>Producers and the consumer\<close>

datatype 'a producer = PIdle | PClaimed u64 'a | PWritten u64

datatype 'a consumer = CIdle | CHolding 'a

record 'a rsys =
  q_ring :: "'a ring"
  q_prod :: "nat \<Rightarrow> 'a producer"
  q_cons :: "'a consumer"
  q_claimed :: "(nat \<times> 'a) list"
  q_consumed :: "'a list"

definition newSystem :: "'a \<Rightarrow> nat \<Rightarrow> 'a rsys" where
  "newSystem zero lg =
     \<lparr>q_ring = newRing zero lg, q_prod = (\<lambda>_. PIdle), q_cons = CIdle, q_claimed = [], q_consumed = []\<rparr>"

text \<open>One step, with \<open>n\<close> producer threads.\<close>

inductive ring_step :: "'a \<Rightarrow> nat \<Rightarrow> 'a rsys \<Rightarrow> 'a rsys \<Rightarrow> bool" for zero :: 'a and n :: nat where
  claim_step: "\<lbrakk>t < n; q_prod s t = PIdle; ring_claim (q_ring s) = (pos, r)\<rbrakk> \<Longrightarrow>
     ring_step zero n s (s\<lparr>q_ring := r, q_prod := (q_prod s)(t := PClaimed pos item),
        q_claimed := q_claimed s @ [(t, item)]\<rparr>)"
| write_step: "\<lbrakk>q_prod s t = PClaimed pos item; ring_write (q_ring s) pos item = Some r\<rbrakk> \<Longrightarrow>
     ring_step zero n s (s\<lparr>q_ring := r, q_prod := (q_prod s)(t := PWritten pos)\<rparr>)"
| publish_step: "\<lbrakk>q_prod s t = PWritten pos\<rbrakk> \<Longrightarrow>
     ring_step zero n s (s\<lparr>q_ring := ring_publish (q_ring s) pos, q_prod := (q_prod s)(t := PIdle)\<rparr>)"
| read_step: "\<lbrakk>q_cons s = CIdle; ring_read zero (q_ring s) = Some (item, r)\<rbrakk> \<Longrightarrow>
     ring_step zero n s (s\<lparr>q_ring := r, q_cons := CHolding item\<rparr>)"
| free_step: "\<lbrakk>q_cons s = CHolding item\<rbrakk> \<Longrightarrow>
     ring_step zero n s (s\<lparr>q_ring := ring_free (q_ring s), q_cons := CIdle,
        q_consumed := q_consumed s @ [item]\<rparr>)"

inductive ring_reach :: "'a \<Rightarrow> nat \<Rightarrow> nat \<Rightarrow> 'a rsys \<Rightarrow> bool" for zero :: 'a and lg :: nat and n :: nat where
  reach_init: "ring_reach zero lg n (newSystem zero lg)"
| reach_step: "\<lbrakk>ring_reach zero lg n s; ring_step zero n s s'\<rbrakk> \<Longrightarrow> ring_reach zero lg n s'"

section \<open>Positions and words\<close>

lemma of_nat_inj64:
  assumes "(of_nat p :: u64) = of_nat q" and "p \<le> q" and "q - p < 2 ^ 64"
  shows "p = q"
proof -
  have "(of_nat (q - p) :: u64) = 0" using assms(1,2) by (simp add: of_nat_diff)
  then have "2 ^ 64 dvd (q - p)" by (simp add: word_of_nat_eq_0_iff)
  then show ?thesis using assms(2,3) by (auto dest: dvd_imp_le)
qed

lemma newRing_mask: "lg < 64 \<Longrightarrow> r_mask (newRing zero lg) = mask lg"
  by (simp add: newRing_def Let_def push_bit_eq_mult mask_eq_exp_minus_1)

lemma unat_two_power: "lg < 64 \<Longrightarrow> unat (2 ^ lg :: u64) = 2 ^ lg"
proof -
  assume "lg < 64"
  then have "(2 :: nat) ^ lg < 2 ^ 64" by (rule power_strict_increasing) simp
  moreover have "unat (of_nat (2 ^ lg) :: u64) = take_bit 64 (2 ^ lg)"
    by (simp add: unsigned_of_nat del: of_nat_power)
  ultimately show ?thesis using \<open>lg < 64\<close> by (simp add: take_bit_nat_eq_self)
qed

lemma slot_of_nat:
  assumes "r_mask r = mask lg" and "lg < 64"
  shows "slot_of r (of_nat p) = p mod 2 ^ lg"
proof -
  have "unat (take_bit lg (of_nat p :: u64)) = take_bit lg (take_bit 64 p)"
    by (simp add: unsigned_take_bit_eq unsigned_of_nat)
  also have "\<dots> = take_bit lg p" using assms(2) by (simp add: min_def)
  finally show ?thesis by (simp add: slot_of_def assms(1) take_bit_eq_mask [symmetric] take_bit_eq_mod)
qed


text \<open>Two positions of one window of the ring's size never share a slot.\<close>

lemma window_slot:
  fixes m :: nat
  assumes "p mod m = q mod m" and "c \<le> p" "p < c + m" and "c \<le> q" "q < c + m"
  shows "p = q"
proof (rule ccontr)
  assume "p \<noteq> q"
  then consider "p < q" | "q < p" by linarith
  then show False
  proof cases
    case 1
    then have "m dvd q - p" using assms(1) mod_eq_dvd_iff_nat [of p q m] by simp
    with 1 assms show False by (auto dest: dvd_imp_le)
  next
    case 2
    then have "m dvd p - q" using assms(1) mod_eq_dvd_iff_nat [of q p m] by simp
    with 2 assms show False by (auto dest: dvd_imp_le)
  qed
qed

text \<open>The window position that shares the slot of a position beyond the window.\<close>

lemma window_twin:
  fixes m :: nat
  assumes "0 < m" and "c + m \<le> p"
  obtains q where "c \<le> q" "q < c + m" "q mod m = p mod m" "q + m \<le> p"
proof
  let ?q = "c + (p - c) mod m"
  show "c \<le> ?q" "?q < c + m" using assms(1) by simp_all
  show "?q mod m = p mod m" using assms by (simp add: mod_add_right_eq)
  have "(p - c) mod m + m \<le> p - c"
  proof -
    have "1 \<le> (p - c) div m" using assms by (simp add: Suc_leI div_greater_zero_iff)
    then have "m \<le> m * ((p - c) div m)" by simp
    moreover have "(p - c) mod m + m * ((p - c) div m) = p - c" by simp
    ultimately show ?thesis by linarith
  qed
  then show "?q + m \<le> p" using assms(2) by linarith
qed

section \<open>The invariant\<close>

definition sq :: "nat \<Rightarrow> 'a rsys \<Rightarrow> nat \<Rightarrow> u64" where
  "sq lg s p = rs_seq (r_slots (q_ring s) ! (p mod 2 ^ lg))"

definition dt :: "nat \<Rightarrow> 'a rsys \<Rightarrow> nat \<Rightarrow> 'a" where
  "dt lg s p = rs_data (r_slots (q_ring s) ! (p mod 2 ^ lg))"

abbreviation claimer :: "'a rsys \<Rightarrow> nat \<Rightarrow> nat" where "claimer s p \<equiv> fst (q_claimed s ! p)"
abbreviation item_at :: "'a rsys \<Rightarrow> nat \<Rightarrow> 'a" where "item_at s p \<equiv> snd (q_claimed s ! p)"
abbreviation nP :: "'a rsys \<Rightarrow> nat" where "nP s \<equiv> length (q_claimed s)"
abbreviation nC :: "'a rsys \<Rightarrow> nat" where "nC s \<equiv> length (q_consumed s)"

text \<open>The shape of the ring and the consumed prefix.\<close>

definition shape_ok :: "nat \<Rightarrow> nat \<Rightarrow> 'a rsys \<Rightarrow> bool" where
  "shape_ok lg n s \<longleftrightarrow>
     r_mask (q_ring s) = mask lg \<and> length (r_slots (q_ring s)) = 2 ^ lg \<and>
     r_prod (q_ring s) = of_nat (nP s) \<and> r_cons (q_ring s) = of_nat (nC s) \<and>
     nC s \<le> nP s \<and> nP s \<le> nC s + 2 ^ lg + n \<and>
     q_consumed s = map snd (take (nC s) (q_claimed s)) \<and> (\<forall>p<nP s. claimer s p < n)"

text \<open>A claimed position of the window: not yet published, or published with its item.\<close>

definition unpublished :: "nat \<Rightarrow> 'a rsys \<Rightarrow> nat \<Rightarrow> bool" where
  "unpublished lg s p \<longleftrightarrow> sq lg s p = of_nat p \<and>
     (q_prod s (claimer s p) = PClaimed (of_nat p) (item_at s p) \<or>
      q_prod s (claimer s p) = PWritten (of_nat p) \<and> dt lg s p = item_at s p)"

definition published :: "nat \<Rightarrow> 'a rsys \<Rightarrow> nat \<Rightarrow> bool" where
  "published lg s p \<longleftrightarrow> sq lg s p = of_nat (Suc p) \<and>
     (dt lg s p = item_at s p \<or> p = nC s \<and> q_cons s \<noteq> CIdle)"

definition slots_ok :: "nat \<Rightarrow> 'a rsys \<Rightarrow> bool" where
  "slots_ok lg s \<longleftrightarrow>
     (\<forall>p. nC s \<le> p \<and> p < nC s + 2 ^ lg \<longrightarrow>
        (if p < nP s then unpublished lg s p \<or> published lg s p else sq lg s p = of_nat p)) \<and>
     (\<forall>p. nC s + 2 ^ lg \<le> p \<and> p < nP s \<longrightarrow> q_prod s (claimer s p) = PClaimed (of_nat p) (item_at s p))"

definition holds :: "nat \<Rightarrow> 'a rsys \<Rightarrow> nat \<Rightarrow> nat \<Rightarrow> bool" where
  "holds lg s t p \<longleftrightarrow> nC s \<le> p \<and> p < nP s \<and> claimer s p = t \<and>
     (p < nC s + 2 ^ lg \<longrightarrow> sq lg s p = of_nat p)"

definition threads_ok :: "nat \<Rightarrow> 'a rsys \<Rightarrow> bool" where
  "threads_ok lg s \<longleftrightarrow>
     (\<forall>t w x. q_prod s t = PClaimed w x \<longrightarrow> (\<exists>p. holds lg s t p \<and> w = of_nat p \<and> x = item_at s p)) \<and>
     (\<forall>t w. q_prod s t = PWritten w \<longrightarrow>
        (\<exists>p. holds lg s t p \<and> w = of_nat p \<and> p < nC s + 2 ^ lg \<and> dt lg s p = item_at s p)) \<and>
     (\<forall>x. q_cons s = CHolding x \<longrightarrow> nC s < nP s \<and> x = item_at s (nC s) \<and> sq lg s (nC s) = of_nat (Suc (nC s)))"

definition ring_inv :: "nat \<Rightarrow> nat \<Rightarrow> 'a rsys \<Rightarrow> bool" where
  "ring_inv lg n s \<longleftrightarrow> shape_ok lg n s \<and> slots_ok lg s \<and> threads_ok lg s"

lemma newSystem_inv: "lg < 64 \<Longrightarrow> ring_inv lg n (newSystem zero lg)"
  by (simp add: ring_inv_def shape_ok_def slots_ok_def threads_ok_def newSystem_def newRing_mask sq_def)
    (simp add: newRing_def Let_def push_bit_eq_mult unat_two_power)


section \<open>Every step preserves the invariant\<close>

text \<open>The sizes for which the ring works: at least two slots, and all cursors distinguishable.\<close>

definition ring_size_ok :: "nat \<Rightarrow> nat \<Rightarrow> bool" where
  "ring_size_ok lg n \<longleftrightarrow> 1 \<le> lg \<and> lg < 64 \<and> 2 ^ lg + n < 2 ^ 64"

lemma ring_size_two: "ring_size_ok lg n \<Longrightarrow> (2 :: nat) \<le> 2 ^ lg"
  unfolding ring_size_ok_def using power_increasing [of 1 lg "2 :: nat"] by simp

lemma pos_inj:
  assumes "shape_ok lg n s" and "ring_size_ok lg n" and "(of_nat p :: u64) = of_nat q"
    and "nC s \<le> p" "p \<le> nP s" "nC s \<le> q" "q \<le> nP s"
  shows "p = q"
proof -
  have "nP s - nC s < 2 ^ 64" using assms(1,2) by (auto simp: shape_ok_def ring_size_ok_def)
  then have "p - q < 2 ^ 64" "q - p < 2 ^ 64" using assms(4-7) by linarith+
  then show ?thesis
    using of_nat_inj64 [OF assms(3)] of_nat_inj64 [OF assms(3) [symmetric]] by (metis nat_le_linear)
qed

lemma slot_at_nat:
  assumes "shape_ok lg n s" and "ring_size_ok lg n"
  shows "slot_at (q_ring s) (of_nat p) = r_slots (q_ring s) ! (p mod 2 ^ lg)"
  using assms slot_of_nat [of "q_ring s" lg p] by (simp add: slot_at_def shape_ok_def ring_size_ok_def)

lemma set_slot_nat:
  assumes "shape_ok lg n s" and "ring_size_ok lg n"
  shows "set_slot (q_ring s) (of_nat p) v = (q_ring s)\<lparr>r_slots := (r_slots (q_ring s))[p mod 2 ^ lg := v]\<rparr>"
  using assms slot_of_nat [of "q_ring s" lg p] by (simp add: set_slot_def shape_ok_def ring_size_ok_def)

lemma slot_update:
  assumes "shape_ok lg n s"
  shows "(r_slots (q_ring s))[p mod 2 ^ lg := v] ! (q mod 2 ^ lg) =
    (if q mod 2 ^ lg = p mod 2 ^ lg then v else r_slots (q_ring s) ! (q mod 2 ^ lg))"
  using assms by (simp add: shape_ok_def nth_list_update)

text \<open>Which position a claimed or written word stands for.\<close>

lemma claim_inv:
  assumes inv: "ring_inv lg n s" and sz: "ring_size_ok lg n" and t: "t < n" "q_prod s t = PIdle"
    and c: "ring_claim (q_ring s) = (pos, r)"
  shows "ring_inv lg n (s\<lparr>q_ring := r, q_prod := (q_prod s)(t := PClaimed pos item),
    q_claimed := q_claimed s @ [(t, item)]\<rparr>)" (is "ring_inv lg n ?s'")
proof -
  have sh: "shape_ok lg n s" and sl: "slots_ok lg s" and th: "threads_ok lg s"
    using inv by (simp_all add: ring_inv_def)
  have pos: "pos = of_nat (nP s)" "r = (q_ring s)\<lparr>r_prod := of_nat (Suc (nP s))\<rparr>"
    using c sh by (auto simp: ring_claim_def Let_def shape_ok_def add.commute)
  let ?lo = "nC s + 2 ^ lg"
  have nt: "claimer s p \<noteq> t" if "nC s \<le> p" "p < nP s" "\<not> published lg s p" for p
  proof -
    have "q_prod s (claimer s p) \<noteq> PIdle"
      using sl that unfolding slots_ok_def unpublished_def by (cases "p < ?lo") auto
    then show ?thesis using t(2) by metis
  qed
  have room: "nP s < ?lo + n"
  proof (cases "?lo \<le> nP s")
    case True
    have late: "q_prod s (claimer s p) = PClaimed (of_nat p) (item_at s p)" if "?lo \<le> p" "p < nP s" for p
      using sl that unfolding slots_ok_def by blast
    have "inj_on (\<lambda>p. claimer s p) {?lo..<nP s}"
    proof (rule inj_onI)
      fix p q assume pq: "p \<in> {?lo..<nP s}" "q \<in> {?lo..<nP s}" "claimer s p = claimer s q"
      then have "(of_nat p :: u64) = of_nat q" using late [of p] late [of q] by auto
      then show "p = q" by (rule pos_inj [OF sh sz]) (use pq in auto)
    qed
    moreover have "(\<lambda>p. claimer s p) ` {?lo..<nP s} \<subseteq> {..<n} - {t}"
    proof
      fix x assume "x \<in> (\<lambda>p. claimer s p) ` {?lo..<nP s}"
      then obtain p where p: "x = claimer s p" "?lo \<le> p" "p < nP s" by auto
      have "q_prod s x \<noteq> PIdle" using late p by simp
      then show "x \<in> {..<n} - {t}" using p sh t(2) by (auto simp: shape_ok_def)
    qed
    ultimately have "card {?lo..<nP s} \<le> card ({..<n} - {t})" by (intro card_inj_on_le) auto
    then show ?thesis using t(1) by simp
  qed (use t in simp)
  have nth: "q_claimed ?s' ! p = (if p < nP s then q_claimed s ! p else (t, item))" if "p \<le> nP s" for p
    using that by (simp add: nth_append)
  have sq: "sq lg ?s' = sq lg s" and dt: "dt lg ?s' = dt lg s"
    by (simp_all add: fun_eq_iff sq_def dt_def pos)
  have "shape_ok lg n ?s'"
    using sh room t(1) by (auto simp: shape_ok_def pos nth_append less_Suc_eq)
  moreover have "slots_ok lg ?s'"
    unfolding slots_ok_def
  proof (intro conjI allI impI)
    fix p assume p: "nC ?s' \<le> p \<and> p < nC ?s' + 2 ^ lg"
    show "if p < nP ?s' then unpublished lg ?s' p \<or> published lg ?s' p else sq lg ?s' p = of_nat p"
    proof (cases "p < nP s")
      case True
      then have "unpublished lg s p \<or> published lg s p" using sl p by (simp add: slots_ok_def)
      then show ?thesis
        using True nt [of p] p nth [of p]
        by (auto simp: unpublished_def published_def sq dt)
    next
      case False
      then have "sq lg s p = of_nat p" using sl p by (simp add: slots_ok_def)
      moreover have "unpublished lg ?s' (nP s)" if "sq lg s (nP s) = of_nat (nP s)"
        unfolding unpublished_def sq using that nth [of "nP s"] pos(1) by simp
      ultimately show ?thesis using False by (auto simp: sq less_Suc_eq)
    qed
  next
    fix p assume p: "nC ?s' + 2 ^ lg \<le> p \<and> p < nP ?s'"
    show "q_prod ?s' (claimer ?s' p) = PClaimed (of_nat p) (item_at ?s' p)"
    proof (cases "p < nP s")
      case True
      moreover from this have late: "q_prod s (claimer s p) = PClaimed (of_nat p) (item_at s p)"
        using sl p by (simp add: slots_ok_def)
      moreover from late have "claimer s p \<noteq> t" using t(2) by auto
      ultimately show ?thesis using nth [of p] by simp
    next
      case False
      with p have "p = nP s" by simp
      then show ?thesis using nth [of p] pos by simp
    qed
  qed
  moreover have "threads_ok lg ?s'"
  proof -
    have keep: "holds lg ?s' u p" if "holds lg s u p" for u p
      using that nth [of p] by (simp add: holds_def sq)
    have new: "holds lg ?s' t (nP s)"
      using sh sl nth [of "nP s"] by (auto simp: holds_def shape_ok_def slots_ok_def sq)
    show ?thesis
      unfolding threads_ok_def
    proof (intro conjI allI impI)
      fix u w x assume u: "q_prod ?s' u = PClaimed w x"
      show "\<exists>p. holds lg ?s' u p \<and> w = of_nat p \<and> x = item_at ?s' p"
      proof (cases "u = t")
        case True
        then show ?thesis using u new nth [of "nP s"] pos by auto
      next
        case False
        then have "q_prod s u = PClaimed w x" using u by simp
        then obtain p where "holds lg s u p" "w = of_nat p" "x = item_at s p"
          using th unfolding threads_ok_def by blast
        then show ?thesis using keep nth [of p] by (auto simp: holds_def)
      qed
    next
      fix u w assume u: "q_prod ?s' u = PWritten w"
      then have "q_prod s u = PWritten w" by (simp split: if_splits)
      then obtain p where "holds lg s u p" "w = of_nat p" "p < nC s + 2 ^ lg" "dt lg s p = item_at s p"
        using th unfolding threads_ok_def by blast
      then show "\<exists>p. holds lg ?s' u p \<and> w = of_nat p \<and> p < nC ?s' + 2 ^ lg \<and> dt lg ?s' p = item_at ?s' p"
        using keep nth [of p] by (auto simp: holds_def dt)
    next
      fix x assume "q_cons ?s' = CHolding x"
      then have "nC s < nP s \<and> x = item_at s (nC s) \<and> sq lg s (nC s) = of_nat (Suc (nC s))"
        using th by (simp add: threads_ok_def)
      then show "nC ?s' < nP ?s'" "x = item_at ?s' (nC ?s')" "sq lg ?s' (nC ?s') = of_nat (Suc (nC ?s'))"
        using nth [of "nC s"] by (simp_all add: sq)
    qed
  qed
  ultimately show ?thesis by (simp add: ring_inv_def)
qed


lemma holdsD:
  assumes "holds lg s t p"
  shows "nC s \<le> p" "p < nP s" "claimer s p = t" "p < nC s + 2 ^ lg \<Longrightarrow> sq lg s p = of_nat p"
  using assms by (simp_all add: holds_def)

lemma of_nat_Suc_ne: "(of_nat (Suc p) :: u64) \<noteq> of_nat p"
  by simp

lemma threads_okI:
  assumes "\<And>t w x. q_prod s t = PClaimed w x \<Longrightarrow> \<exists>p. holds lg s t p \<and> w = of_nat p \<and> x = item_at s p"
    and "\<And>t w. q_prod s t = PWritten w \<Longrightarrow>
      \<exists>p. holds lg s t p \<and> w = of_nat p \<and> p < nC s + 2 ^ lg \<and> dt lg s p = item_at s p"
    and "\<And>x. q_cons s = CHolding x \<Longrightarrow>
      nC s < nP s \<and> x = item_at s (nC s) \<and> sq lg s (nC s) = of_nat (Suc (nC s))"
  shows "threads_ok lg s"
  using assms unfolding threads_ok_def by blast

lemma threads_okD:
  assumes "threads_ok lg s"
  shows "q_prod s t = PClaimed w x \<Longrightarrow> \<exists>p. holds lg s t p \<and> w = of_nat p \<and> x = item_at s p"
    and "q_prod s t = PWritten w \<Longrightarrow>
      \<exists>p. holds lg s t p \<and> w = of_nat p \<and> p < nC s + 2 ^ lg \<and> dt lg s p = item_at s p"
    and "q_cons s = CHolding x \<Longrightarrow>
      nC s < nP s \<and> x = item_at s (nC s) \<and> sq lg s (nC s) = of_nat (Suc (nC s))"
  using assms unfolding threads_ok_def by blast+

text \<open>A producer beyond the window finds an older sequence number in its slot and spins.\<close>

lemma beyond_window_spins:
  assumes inv: "ring_inv lg n s" and sz: "ring_size_ok lg n"
    and p: "nC s + 2 ^ lg \<le> p" "p < nP s"
  shows "sq lg s p \<noteq> of_nat p"
proof
  assume eq: "sq lg s p = of_nat p"
  have sh: "shape_ok lg n s" and sl: "slots_ok lg s" using inv by (simp_all add: ring_inv_def)
  obtain q where q: "nC s \<le> q" "q < nC s + 2 ^ lg" "q mod 2 ^ lg = p mod 2 ^ lg" "q + 2 ^ lg \<le> p"
    using window_twin [of "2 ^ lg" "nC s" p] p by auto
  have "sq lg s q = of_nat p" using eq q(3) by (simp add: sq_def)
  moreover have "sq lg s q = of_nat q \<or> sq lg s q = of_nat (Suc q)"
    using sl q(1,2) unfolding slots_ok_def unpublished_def published_def by metis
  ultimately have "(of_nat q :: u64) = of_nat p \<or> (of_nat (Suc q) :: u64) = of_nat p" by auto
  moreover have "Suc q < p" using q(4) ring_size_two [OF sz] by linarith
  ultimately show False
    using pos_inj [OF sh sz, of q p] pos_inj [OF sh sz, of "Suc q" p] q(1) p(2) by auto
qed

lemma write_inv:
  assumes inv: "ring_inv lg n s" and sz: "ring_size_ok lg n" and t: "q_prod s t = PClaimed pos item"
    and w: "ring_write (q_ring s) pos item = Some r"
  shows "ring_inv lg n (s\<lparr>q_ring := r, q_prod := (q_prod s)(t := PWritten pos)\<rparr>)" (is "ring_inv lg n ?s'")
proof -
  have sh: "shape_ok lg n s" and sl: "slots_ok lg s" and th: "threads_ok lg s"
    using inv by (simp_all add: ring_inv_def)
  obtain p where p: "holds lg s t p" "pos = of_nat p" "item = item_at s p"
    using th t unfolding threads_ok_def by blast
  note hd = holdsD [OF p(1)]
  have guard: "rs_seq (r_slots (q_ring s) ! (p mod 2 ^ lg)) = of_nat p"
    and r: "r = (q_ring s)\<lparr>r_slots := (r_slots (q_ring s))[p mod 2 ^ lg :=
      (r_slots (q_ring s) ! (p mod 2 ^ lg))\<lparr>rs_data := item\<rparr>]\<rparr>"
    using w by (auto simp: ring_write_def p(2) slot_at_nat [OF sh sz] set_slot_nat [OF sh sz] split: if_splits)
  have win: "p < nC s + 2 ^ lg"
    using beyond_window_spins [OF inv sz _ hd(2)] guard unfolding sq_def by (meson leI)
  have sq: "sq lg ?s' = sq lg s"
    by (auto simp: fun_eq_iff sq_def r slot_update [OF sh])
  have dt: "dt lg ?s' q = (if q mod 2 ^ lg = p mod 2 ^ lg then item else dt lg s q)" for q
    by (simp add: dt_def r slot_update [OF sh])
  have same: "q = p" if "nC s \<le> q" "q < nC s + 2 ^ lg" "q mod 2 ^ lg = p mod 2 ^ lg" for q
    using window_slot [OF that(3,1,2) hd(1) win] .
  have mine: "q = p" if "nC s \<le> q" "q < nP s" "q_prod s t = PClaimed (of_nat q) x" for q x
    using that t p(2) pos_inj [OF sh sz, of q p] hd(1,2) by simp
  have "shape_ok lg n ?s'" using sh by (simp add: shape_ok_def r)
  moreover have "slots_ok lg ?s'"
    unfolding slots_ok_def
  proof (intro conjI allI impI)
    fix q assume q: "nC ?s' \<le> q \<and> q < nC ?s' + 2 ^ lg"
    show "if q < nP ?s' then unpublished lg ?s' q \<or> published lg ?s' q else sq lg ?s' q = of_nat q"
    proof (cases "q = p")
      case True
      have "unpublished lg ?s' p"
        unfolding unpublished_def sq dt using guard hd(3) p(2,3) by (simp add: sq_def)
      then show ?thesis using True hd(2) by simp
    next
      case False
      then have "q mod 2 ^ lg \<noteq> p mod 2 ^ lg" using same q by auto
      moreover have "if q < nP s then unpublished lg s q \<or> published lg s q else sq lg s q = of_nat q"
        using sl q by (simp add: slots_ok_def)
      moreover have "claimer s q \<noteq> t" if "q < nP s" "unpublished lg s q"
        using that mine [of q] q False t unfolding unpublished_def by auto
      ultimately show ?thesis by (auto simp: unpublished_def published_def sq dt)
    qed
  next
    fix q assume q: "nC ?s' + 2 ^ lg \<le> q \<and> q < nP ?s'"
    then have late: "q_prod s (claimer s q) = PClaimed (of_nat q) (item_at s q)" using sl by (simp add: slots_ok_def)
    then have "claimer s q \<noteq> t" using mine [of q] q win by auto
    with late show "q_prod ?s' (claimer ?s' q) = PClaimed (of_nat q) (item_at ?s' q)" by simp
  qed
  moreover have "threads_ok lg ?s'"
  proof -
    have keep: "holds lg ?s' u q = holds lg s u q" for u q by (simp add: holds_def sq)
    have wr: "\<exists>q. holds lg s u q \<and> v = of_nat q \<and> q < nC s + 2 ^ lg \<and> dt lg ?s' q = item_at s q"
      if u: "q_prod ?s' u = PWritten v" for u v
    proof (cases "u = t")
      case True
      then have "v = of_nat p" using u p(2) by simp
      moreover have "dt lg ?s' p = item_at s p" using dt [of p] p(3) by simp
      ultimately show ?thesis using True p(1) win by blast
    next
      case False
      then have "q_prod s u = PWritten v" using u by simp
      then obtain q where q: "holds lg s u q" "v = of_nat q" "q < nC s + 2 ^ lg" "dt lg s q = item_at s q"
        using threads_okD(2) [OF th] by blast
      have "q mod 2 ^ lg \<noteq> p mod 2 ^ lg" using same [OF holdsD(1) [OF q(1)] q(3)] hd(3) holdsD(3) [OF q(1)] False by auto
      then have "dt lg ?s' q = item_at s q" using dt [of q] q(4) by simp
      with q(1-3) show ?thesis by blast
    qed
    show ?thesis
    proof (rule threads_okI)
      fix u w x assume "q_prod ?s' u = PClaimed w x"
      then have "q_prod s u = PClaimed w x" by (simp split: if_splits)
      then show "\<exists>q. holds lg ?s' u q \<and> w = of_nat q \<and> x = item_at ?s' q"
        using threads_okD(1) [OF th] unfolding keep by simp
    next
      fix u w assume "q_prod ?s' u = PWritten w"
      then show "\<exists>q. holds lg ?s' u q \<and> w = of_nat q \<and> q < nC ?s' + 2 ^ lg \<and> dt lg ?s' q = item_at ?s' q"
        using wr unfolding keep by simp
    next
      fix x assume "q_cons ?s' = CHolding x"
      then show "nC ?s' < nP ?s' \<and> x = item_at ?s' (nC ?s') \<and> sq lg ?s' (nC ?s') = of_nat (Suc (nC ?s'))"
        using threads_okD(3) [OF th] unfolding sq by simp
    qed
  qed
  ultimately show ?thesis by (simp add: ring_inv_def)
qed

lemma publish_inv:
  assumes inv: "ring_inv lg n s" and sz: "ring_size_ok lg n" and t: "q_prod s t = PWritten pos"
  shows "ring_inv lg n (s\<lparr>q_ring := ring_publish (q_ring s) pos, q_prod := (q_prod s)(t := PIdle)\<rparr>)"
    (is "ring_inv lg n ?s'")
proof -
  have sh: "shape_ok lg n s" and sl: "slots_ok lg s" and th: "threads_ok lg s"
    using inv by (simp_all add: ring_inv_def)
  obtain p where p: "holds lg s t p" "pos = of_nat p" "p < nC s + 2 ^ lg" "dt lg s p = item_at s p"
    using th t unfolding threads_ok_def by blast
  note hd = holdsD [OF p(1)]
  have r: "ring_publish (q_ring s) pos = (q_ring s)\<lparr>r_slots := (r_slots (q_ring s))[p mod 2 ^ lg :=
      (r_slots (q_ring s) ! (p mod 2 ^ lg))\<lparr>rs_seq := of_nat (Suc p)\<rparr>]\<rparr>"
    by (simp add: ring_publish_def p(2) slot_at_nat [OF sh sz] set_slot_nat [OF sh sz] add.commute)
  have dt: "dt lg ?s' = dt lg s"
    by (auto simp: fun_eq_iff dt_def r slot_update [OF sh])
  have sq: "sq lg ?s' q = (if q mod 2 ^ lg = p mod 2 ^ lg then of_nat (Suc p) else sq lg s q)" for q
    by (simp add: sq_def r slot_update [OF sh])
  have same: "q = p" if "nC s \<le> q" "q < nC s + 2 ^ lg" "q mod 2 ^ lg = p mod 2 ^ lg" for q
    using window_slot [OF that(3,1,2) hd(1) p(3)] .
  have "shape_ok lg n ?s'" using sh by (simp add: shape_ok_def r)
  moreover have "slots_ok lg ?s'"
    unfolding slots_ok_def
  proof (intro conjI allI impI)
    fix q assume q: "nC ?s' \<le> q \<and> q < nC ?s' + 2 ^ lg"
    show "if q < nP ?s' then unpublished lg ?s' q \<or> published lg ?s' q else sq lg ?s' q = of_nat q"
    proof (cases "q = p")
      case True
      then show ?thesis using hd(2) p(4) by (simp add: published_def sq dt)
    next
      case False
      then have ne: "q mod 2 ^ lg \<noteq> p mod 2 ^ lg" using same q by auto
      have "if q < nP s then unpublished lg s q \<or> published lg s q else sq lg s q = of_nat q"
        using sl q by (simp add: slots_ok_def)
      moreover have "claimer s q \<noteq> t" if "q < nP s" "unpublished lg s q"
      proof
        assume "claimer s q = t"
        then have "(of_nat q :: u64) = of_nat p" using that(2) t p(2) by (auto simp: unpublished_def)
        then show False using pos_inj [OF sh sz, of q p] hd(1,2) q that(1) False by simp
      qed
      ultimately show ?thesis using ne by (auto simp: unpublished_def published_def sq dt)
    qed
  next
    fix q assume q: "nC ?s' + 2 ^ lg \<le> q \<and> q < nP ?s'"
    then have late: "q_prod s (claimer s q) = PClaimed (of_nat q) (item_at s q)" using sl by (simp add: slots_ok_def)
    then have "claimer s q \<noteq> t" using t by auto
    with late show "q_prod ?s' (claimer ?s' q) = PClaimed (of_nat q) (item_at ?s' q)" by simp
  qed
  moreover have "threads_ok lg ?s'"
  proof -
    have keep: "holds lg ?s' u q" if "holds lg s u q" "u \<noteq> t" for u q
    proof -
      note h = holdsD [OF that(1)]
      have "q mod 2 ^ lg \<noteq> p mod 2 ^ lg" if "q < nC s + 2 ^ lg"
        using same [OF h(1) that] h(3) hd(3) \<open>u \<noteq> t\<close> by auto
      then show ?thesis using h by (simp add: holds_def sq)
    qed
    have cons: "sq lg ?s' (nC s) = of_nat (Suc (nC s))" if "sq lg s (nC s) = of_nat (Suc (nC s))"
    proof (cases "nC s mod 2 ^ lg = p mod 2 ^ lg")
      case True
      then have "nC s = p" using same [of "nC s"] by simp
      then show ?thesis by (simp add: sq)
    qed (use that in \<open>simp add: sq\<close>)
    show ?thesis
      unfolding threads_ok_def
    proof (intro conjI allI impI)
      fix u w x assume u: "q_prod ?s' u = PClaimed w x"
      then have "u \<noteq> t" "q_prod s u = PClaimed w x" by (auto split: if_splits)
      then show "\<exists>q. holds lg ?s' u q \<and> w = of_nat q \<and> x = item_at ?s' q"
        using th keep unfolding threads_ok_def by fastforce
    next
      fix u w assume u: "q_prod ?s' u = PWritten w"
      then have "u \<noteq> t" "q_prod s u = PWritten w" by (auto split: if_splits)
      then show "\<exists>q. holds lg ?s' u q \<and> w = of_nat q \<and> q < nC ?s' + 2 ^ lg \<and> dt lg ?s' q = item_at ?s' q"
        using th keep unfolding threads_ok_def dt by fastforce
    next
      fix x assume "q_cons ?s' = CHolding x"
      then have "nC s < nP s \<and> x = item_at s (nC s) \<and> sq lg s (nC s) = of_nat (Suc (nC s))"
        using th by (simp add: threads_ok_def)
      then show "nC ?s' < nP ?s'" "x = item_at ?s' (nC ?s')" "sq lg ?s' (nC ?s') = of_nat (Suc (nC ?s'))"
        using cons by simp_all
    qed
  qed
  ultimately show ?thesis by (simp add: ring_inv_def)
qed


lemma read_inv:
  assumes inv: "ring_inv lg n s" and sz: "ring_size_ok lg n" and c: "q_cons s = CIdle"
    and r: "ring_read zero (q_ring s) = Some (item, r)"
  shows "ring_inv lg n (s\<lparr>q_ring := r, q_cons := CHolding item\<rparr>)" (is "ring_inv lg n ?s'")
    and "nC s < nP s \<and> item = item_at s (nC s)"
proof -
  have sh: "shape_ok lg n s" and sl: "slots_ok lg s" and th: "threads_ok lg s"
    using inv by (simp_all add: ring_inv_def)
  let ?c = "nC s"
  have cons: "r_cons (q_ring s) = of_nat ?c" using sh by (simp add: shape_ok_def)
  have rd: "sq lg s ?c = of_nat (Suc ?c)" "item = dt lg s ?c"
    and r': "r = (q_ring s)\<lparr>r_slots := (r_slots (q_ring s))[?c mod 2 ^ lg :=
      (r_slots (q_ring s) ! (?c mod 2 ^ lg))\<lparr>rs_data := zero\<rparr>]\<rparr>"
    using r by (auto simp: ring_read_def Let_def cons slot_at_nat [OF sh sz] set_slot_nat [OF sh sz]
        sq_def dt_def add.commute split: if_splits)
  have "if ?c < nP s then unpublished lg s ?c \<or> published lg s ?c else sq lg s ?c = of_nat ?c"
    using sl by (simp add: slots_ok_def)
  then have claimed: "?c < nP s" and item: "dt lg s ?c = item_at s ?c"
    using rd(1) c by (auto simp: unpublished_def published_def split: if_splits)
  then show "?c < nP s \<and> item = item_at s ?c" using rd(2) by simp
  have sq: "sq lg ?s' = sq lg s"
    by (auto simp: fun_eq_iff sq_def r' slot_update [OF sh])
  have dt: "dt lg ?s' q = dt lg s q" if "?c \<le> q" "q < ?c + 2 ^ lg" "q \<noteq> ?c" for q
  proof -
    have "q mod 2 ^ lg \<noteq> ?c mod 2 ^ lg"
      using window_slot [of q "2 ^ lg" ?c ?c] that by auto
    then show ?thesis by (simp add: dt_def r' slot_update [OF sh])
  qed
  have "shape_ok lg n ?s'" using sh by (simp add: shape_ok_def r')
  moreover have "slots_ok lg ?s'"
    unfolding slots_ok_def
  proof (intro conjI allI impI)
    fix q assume q: "nC ?s' \<le> q \<and> q < nC ?s' + 2 ^ lg"
    have old: "if q < nP s then unpublished lg s q \<or> published lg s q else sq lg s q = of_nat q"
      using sl q by (simp add: slots_ok_def)
    show "if q < nP ?s' then unpublished lg ?s' q \<or> published lg ?s' q else sq lg ?s' q = of_nat q"
    proof (cases "q = ?c")
      case True
      then show ?thesis using claimed rd(1) by (simp add: published_def sq)
    next
      case False
      then show ?thesis using old q dt [of q] by (auto simp: unpublished_def published_def sq)
    qed
  qed (use sl in \<open>simp add: slots_ok_def\<close>)
  moreover have "threads_ok lg ?s'"
  proof -
    have keep: "holds lg ?s' u q = holds lg s u q" for u q by (simp add: holds_def sq)
    have wr: "\<exists>q. holds lg s u q \<and> v = of_nat q \<and> q < ?c + 2 ^ lg \<and> dt lg ?s' q = item_at s q"
      if u: "q_prod s u = PWritten v" for u v
    proof -
      obtain q where q: "holds lg s u q" "v = of_nat q" "q < ?c + 2 ^ lg" "dt lg s q = item_at s q"
        using u th unfolding threads_ok_def by blast
      have "q \<noteq> ?c" using holdsD(4) [OF q(1,3)] rd(1) of_nat_Suc_ne [of ?c] by auto
      with q dt [of q] holdsD(1) [OF q(1)] show ?thesis by auto
    qed
    have cons: "?c < nP s \<and> x = item_at s ?c \<and> sq lg ?s' ?c = of_nat (Suc ?c)" if "q_cons ?s' = CHolding x" for x
      using that rd item claimed unfolding sq by simp
    show ?thesis
    proof (rule threads_okI)
      fix u w x assume "q_prod ?s' u = PClaimed w x"
      then have "q_prod s u = PClaimed w x" by simp
      then show "\<exists>q. holds lg ?s' u q \<and> w = of_nat q \<and> x = item_at ?s' q"
        using threads_okD(1) [OF th] unfolding keep by simp
    next
      fix u w assume "q_prod ?s' u = PWritten w"
      then have "q_prod s u = PWritten w" by simp
      from wr [OF this]
      show "\<exists>q. holds lg ?s' u q \<and> w = of_nat q \<and> q < nC ?s' + 2 ^ lg \<and> dt lg ?s' q = item_at ?s' q"
        unfolding keep by simp
    next
      fix x assume "q_cons ?s' = CHolding x"
      from cons [OF this]
      show "nC ?s' < nP ?s' \<and> x = item_at ?s' (nC ?s') \<and> sq lg ?s' (nC ?s') = of_nat (Suc (nC ?s'))"
        unfolding sq by simp
    qed
  qed
  ultimately show "ring_inv lg n ?s'" by (simp add: ring_inv_def)
qed

lemma free_inv:
  assumes inv: "ring_inv lg n s" and sz: "ring_size_ok lg n" and c: "q_cons s = CHolding item"
  shows "ring_inv lg n (s\<lparr>q_ring := ring_free (q_ring s), q_cons := CIdle,
    q_consumed := q_consumed s @ [item]\<rparr>)" (is "ring_inv lg n ?s'")
proof -
  have sh: "shape_ok lg n s" and sl: "slots_ok lg s" and th: "threads_ok lg s"
    using inv by (simp_all add: ring_inv_def)
  let ?c = "nC s"
  have cons: "r_cons (q_ring s) = of_nat ?c" and mask: "r_mask (q_ring s) = mask lg"
    using sh by (simp_all add: shape_ok_def)
  have hold: "?c < nP s" "item = item_at s ?c" "sq lg s ?c = of_nat (Suc ?c)"
    using th c by (simp_all add: threads_ok_def)
  have w: "1 + (mask lg + (of_nat ?c :: u64)) = of_nat ?c + 2 ^ lg"
    by (simp add: mask_eq_exp_minus_1)
  have sh1: "shape_ok lg n s \<Longrightarrow> slot_of ((q_ring s)\<lparr>r_cons := x\<rparr>) y = slot_of (q_ring s) y" for x y
    by (simp add: slot_of_def)
  have so: "slot_of (q_ring s) (of_nat ?c) = ?c mod 2 ^ lg"
    using slot_of_nat [OF mask] sz by (simp add: ring_size_ok_def)
  have r: "ring_free (q_ring s) = (q_ring s)\<lparr>r_cons := of_nat (Suc ?c),
      r_slots := (r_slots (q_ring s))[?c mod 2 ^ lg :=
        (r_slots (q_ring s) ! (?c mod 2 ^ lg))\<lparr>rs_seq := of_nat (?c + 2 ^ lg)\<rparr>]\<rparr>"
    by (simp add: w ring_free_def Let_def cons mask set_slot_def slot_at_def sh1 [OF sh] so add.commute)
  have dt: "dt lg ?s' = dt lg s"
    by (auto simp: fun_eq_iff dt_def r slot_update [OF sh])
  have sq: "sq lg ?s' q = (if q mod 2 ^ lg = ?c mod 2 ^ lg then of_nat (?c + 2 ^ lg) else sq lg s q)" for q
    by (simp add: sq_def r slot_update [OF sh])
  have other: "sq lg ?s' q = sq lg s q" if "Suc ?c \<le> q" "q < ?c + 2 ^ lg" for q
    using window_slot [of q "2 ^ lg" ?c ?c] that sq [of q] by auto
  have top: "sq lg ?s' (?c + 2 ^ lg) = of_nat (?c + 2 ^ lg)" by (simp add: sq)
  have nP': "nP ?s' = nP s" and nC': "nC ?s' = Suc ?c" by simp_all
  have "shape_ok lg n ?s'"
    using sh hold(1,2) by (simp add: shape_ok_def r take_Suc_conv_app_nth)
  moreover have "slots_ok lg ?s'"
    unfolding slots_ok_def nP' nC'
  proof (intro conjI allI impI)
    fix q assume q: "Suc ?c \<le> q \<and> q < Suc ?c + 2 ^ lg"
    show "if q < nP s then unpublished lg ?s' q \<or> published lg ?s' q else sq lg ?s' q = of_nat q"
    proof (cases "q = ?c + 2 ^ lg")
      case True
      moreover have "unpublished lg ?s' q" if "q < nP s"
        using sl that True top by (simp add: slots_ok_def unpublished_def)
      ultimately show ?thesis using top by simp
    next
      case False
      with q have q': "Suc ?c \<le> q" "q < ?c + 2 ^ lg" by auto
      then have "if q < nP s then unpublished lg s q \<or> published lg s q else sq lg s q = of_nat q"
        using sl by (simp add: slots_ok_def)
      with other [OF q'] q' show ?thesis by (auto simp: unpublished_def published_def dt)
    qed
  next
    fix q assume "Suc ?c + 2 ^ lg \<le> q \<and> q < nP s"
    then show "q_prod ?s' (claimer ?s' q) = PClaimed (of_nat q) (item_at ?s' q)"
      using sl by (simp add: slots_ok_def)
  qed
  moreover have "threads_ok lg ?s'"
  proof -
    have keep: "holds lg ?s' u q" if "holds lg s u q" for u q
    proof -
      note h = holdsD [OF that]
      have "q \<noteq> ?c"
      proof
        assume q: "q = ?c"
        then have "sq lg s q = of_nat q" using h(4) by simp
        with hold(3) q of_nat_Suc_ne [of ?c] show False by simp
      qed
      then have q: "Suc ?c \<le> q" using h(1) by simp
      moreover have "sq lg ?s' q = of_nat q" if "q < Suc ?c + 2 ^ lg"
      proof (cases "q = ?c + 2 ^ lg")
        case True
        then show ?thesis using top by simp
      next
        case False
        then have "q < ?c + 2 ^ lg" using that by simp
        with other [OF q] h(4) show ?thesis by simp
      qed
      ultimately show ?thesis using h by (simp add: holds_def)
    qed
    show ?thesis
      unfolding threads_ok_def
    proof (intro conjI allI impI)
      fix u w x assume "q_prod ?s' u = PClaimed w x"
      then have "q_prod s u = PClaimed w x" by simp
      then obtain q where q: "holds lg s u q" "w = of_nat q" "x = item_at s q"
        using th unfolding threads_ok_def by blast
      from keep [OF q(1)] q(2,3) show "\<exists>q. holds lg ?s' u q \<and> w = of_nat q \<and> x = item_at ?s' q"
        by (intro exI [of _ q]) simp
    next
      fix u w assume "q_prod ?s' u = PWritten w"
      then have "q_prod s u = PWritten w" by simp
      then obtain q where q: "holds lg s u q" "w = of_nat q" "q < ?c + 2 ^ lg" "dt lg s q = item_at s q"
        using th unfolding threads_ok_def by blast
      from keep [OF q(1)] q(2-4)
      show "\<exists>q. holds lg ?s' u q \<and> w = of_nat q \<and> q < nC ?s' + 2 ^ lg \<and> dt lg ?s' q = item_at ?s' q"
        unfolding dt by (intro exI [of _ q]) simp
    qed simp_all
  qed
  ultimately show ?thesis by (simp add: ring_inv_def)
qed

section \<open>What the ring guarantees\<close>

lemma ring_step_inv:
  assumes "ring_step zero n s s'" and inv: "ring_inv lg n s" "ring_size_ok lg n"
  shows "ring_inv lg n s'"
  using assms(1)
proof cases
  case (claim_step t pos r item)
  show ?thesis unfolding claim_step(1) by (rule claim_inv [OF inv claim_step(2-4)])
next
  case (write_step t pos item r)
  show ?thesis unfolding write_step(1) by (rule write_inv [OF inv write_step(2,3)])
next
  case (publish_step t pos)
  show ?thesis unfolding publish_step(1) by (rule publish_inv [OF inv publish_step(2)])
next
  case (read_step item r)
  show ?thesis unfolding read_step(1) by (rule read_inv(1) [OF inv read_step(2,3)])
next
  case (free_step item)
  show ?thesis unfolding free_step(1) by (rule free_inv [OF inv free_step(2)])
qed

lemma ring_reach_inv:
  assumes "ring_reach zero lg n s" and "ring_size_ok lg n"
  shows "ring_inv lg n s"
  using assms
proof (induction rule: ring_reach.induct)
  case reach_init
  then show ?case by (intro newSystem_inv) (simp add: ring_size_ok_def)
next
  case (reach_step s s')
  show ?case
    by (rule ring_step_inv [OF reach_step.hyps(2) reach_step.IH [OF reach_step.prems] reach_step.prems])
qed

text \<open>
  C6. The ring is a lossless FIFO queue for any number of concurrent producers: what the
  consumer has returned is exactly the beginning of what was submitted, in the order in which
  the producers claimed their positions, each item once.  This holds for runs of any length,
  although cursors and slot numbers wrap, as long as the ring has at least two slots and its
  size plus the number of producers fits the cursor's width.
\<close>

theorem ring_fifo_exactly_once:
  assumes "ring_reach zero lg n s" and "1 \<le> lg" "lg < 64" "2 ^ lg + n < 2 ^ 64"
  shows "q_consumed s = map snd (take (length (q_consumed s)) (q_claimed s)) \<and>
    length (q_consumed s) \<le> length (q_claimed s)"
  using ring_reach_inv [OF assms(1)] assms(2-4)
  by (simp add: ring_inv_def shape_ok_def ring_size_ok_def)

text \<open>A run of the smallest ring: one item submitted and consumed.\<close>

definition demo_run :: "nat rsys" where
  "demo_run =
     (let s0 = newSystem 0 1;
          s1 = s0\<lparr>q_ring := snd (ring_claim (q_ring s0)), q_prod := (q_prod s0)(0 := PClaimed 0 7),
                  q_claimed := [(0, 7)]\<rparr>;
          s2 = s1\<lparr>q_ring := the (ring_write (q_ring s1) 0 7), q_prod := (q_prod s1)(0 := PWritten 0)\<rparr>
      in s2\<lparr>q_ring := ring_publish (q_ring s2) 0, q_prod := (q_prod s2)(0 := PIdle)\<rparr>)"

lemma demo_run_reach: "ring_reach 0 1 1 demo_run"
proof -
  define s0 where "s0 = newSystem (0 :: nat) 1"
  define s1 where "s1 = s0\<lparr>q_ring := snd (ring_claim (q_ring s0)), q_prod := (q_prod s0)(0 := PClaimed 0 7),
      q_claimed := [(0, 7)]\<rparr>"
  define s2 where "s2 = s1\<lparr>q_ring := the (ring_write (q_ring s1) 0 7), q_prod := (q_prod s1)(0 := PWritten 0)\<rparr>"
  have r0: "ring_reach 0 1 1 s0" unfolding s0_def by (rule ring_reach.reach_init)
  have "ring_step 0 1 s0 (s0\<lparr>q_ring := snd (ring_claim (q_ring s0)), q_prod := (q_prod s0)(0 := PClaimed 0 7),
      q_claimed := q_claimed s0 @ [(0, 7)]\<rparr>)"
    by (rule ring_step.claim_step) (simp_all add: s0_def newSystem_def newRing_def ring_claim_def Let_def)
  then have "ring_step 0 1 s0 s1" by (simp add: s1_def s0_def newSystem_def)
  with r0 have r1: "ring_reach 0 1 1 s1" by (rule ring_reach.reach_step)
  have "ring_write (q_ring s1) 0 7 = Some (the (ring_write (q_ring s1) 0 7))"
    by (simp add: s1_def s0_def newSystem_def ring_claim_def newRing_def Let_def ring_write_def
        slot_at_def slot_of_def upt_rec)
  then have "ring_step 0 1 s1 s2"
    unfolding s2_def by (intro ring_step.write_step) (simp_all add: s1_def)
  with r1 have r2: "ring_reach 0 1 1 s2" by (rule ring_reach.reach_step)
  have "ring_step 0 1 s2 (s2\<lparr>q_ring := ring_publish (q_ring s2) 0, q_prod := (q_prod s2)(0 := PIdle)\<rparr>)"
    by (rule ring_step.publish_step) (simp add: s2_def)
  with r2 have "ring_reach 0 1 1 (s2\<lparr>q_ring := ring_publish (q_ring s2) 0, q_prod := (q_prod s2)(0 := PIdle)\<rparr>)"
    by (rule ring_reach.reach_step)
  then show ?thesis by (simp add: demo_run_def Let_def s2_def s1_def s0_def)
qed

lemma ring_fifo_exactly_once_witness:
  "q_consumed demo_run = map snd (take (length (q_consumed demo_run)) (q_claimed demo_run))"
  using ring_fifo_exactly_once [OF demo_run_reach] by simp

text \<open>
  C13. The ring never gets stuck: while a submitted item has not been returned, the consumer
  can take a step, or the producer of the oldest such item can; a producer that has to wait
  for its slot waits only while the ring is full.
\<close>

theorem ring_never_stuck:
  assumes "ring_reach zero lg n s" and "1 \<le> lg" "lg < 64" "2 ^ lg + n < 2 ^ 64"
    and "length (q_consumed s) < length (q_claimed s)"
  shows "(q_cons s \<noteq> CIdle \<or> ring_read zero (q_ring s) \<noteq> None \<or>
      (let t = fst (q_claimed s ! length (q_consumed s)); x = snd (q_claimed s ! length (q_consumed s));
           pos = of_nat (length (q_consumed s)) in
       q_prod s t = PClaimed pos x \<and> ring_write (q_ring s) pos x \<noteq> None \<or> q_prod s t = PWritten pos)) \<and>
    (\<forall>t pos x. q_prod s t = PClaimed pos x \<and> ring_write (q_ring s) pos x = None \<longrightarrow>
       length (q_consumed s) + 2 ^ lg < length (q_claimed s))"
proof -
  have sz: "ring_size_ok lg n" using assms(2-4) by (simp add: ring_size_ok_def)
  have inv: "ring_inv lg n s" using ring_reach_inv [OF assms(1) sz] .
  then have sh: "shape_ok lg n s" and sl: "slots_ok lg s" and th: "threads_ok lg s"
    by (simp_all add: ring_inv_def)
  let ?c = "nC s"
  have cons: "r_cons (q_ring s) = of_nat ?c" using sh by (simp add: shape_ok_def)
  have oldest: "unpublished lg s ?c \<or> published lg s ?c"
    using sl assms(5) by (simp add: slots_ok_def)
  have read: "ring_read zero (q_ring s) \<noteq> None" if "sq lg s ?c = of_nat (Suc ?c)"
    using that by (simp add: ring_read_def Let_def cons slot_at_nat [OF sh sz] sq_def add.commute)
  have wr: "ring_write (q_ring s) (of_nat p) x \<noteq> None \<longleftrightarrow> sq lg s p = of_nat p" for p x
    by (simp add: ring_write_def slot_at_nat [OF sh sz] sq_def)
  have "length (q_consumed s) + 2 ^ lg < length (q_claimed s)"
    if t: "q_prod s t = PClaimed pos x" "ring_write (q_ring s) pos x = None" for t pos x
  proof -
    obtain p where p: "holds lg s t p" "pos = of_nat p" using threads_okD(1) [OF th t(1)] by blast
    have "sq lg s p \<noteq> of_nat p" using wr [of p x] t(2) p(2) by simp
    then have "?c + 2 ^ lg \<le> p" using holdsD(4) [OF p(1)] by (meson leI)
    then show ?thesis using holdsD(2) [OF p(1)] by simp
  qed
  moreover have "q_cons s \<noteq> CIdle \<or> ring_read zero (q_ring s) \<noteq> None \<or>
      (let t = claimer s ?c; x = item_at s ?c; pos = of_nat ?c in
       q_prod s t = PClaimed pos x \<and> ring_write (q_ring s) pos x \<noteq> None \<or> q_prod s t = PWritten pos)"
    using oldest read wr [of ?c "item_at s ?c"] unfolding unpublished_def published_def Let_def by blast
  ultimately show ?thesis by blast
qed

lemma ring_never_stuck_witness: "ring_read 0 (q_ring demo_run) \<noteq> None"
proof -
  have "length (q_consumed demo_run) < length (q_claimed demo_run)" "fst (q_claimed demo_run ! 0) = 0"
    "length (q_consumed demo_run) = 0" "q_cons demo_run = CIdle" "q_prod demo_run 0 = PIdle"
    by (simp_all add: demo_run_def Let_def newSystem_def)
  then show ?thesis
    using ring_never_stuck [OF demo_run_reach] by (auto simp: Let_def)
qed

end
