(* ===== verification/Disruptor.thy ===== *)
theory Disruptor
  imports MutexEngine Ring
begin

unbundle bit_operations_syntax

text \<open>
  The disruptor engine of \<^verbatim>\<open>examples/stub-engine/disruptor.go\<close>: routing of symbols to shards,
  the submit functions the connections call, the matcher of a shard and the output stage.

  The ring of a shard is its FIFO queue of requests (theory \<^verbatim>\<open>Ring\<close> shows that the ring buffer
  is one); the shared heap, index and sequence counter are the \<open>Core\<close> of both engines.  One
  step of a matcher (\<open>match_step\<close>) is one pass of \<^verbatim>\<open>matchLoop\<close>, one step of an output writer
  (\<open>output_step\<close>) one pass of \<^verbatim>\<open>outputLoop\<close>.  The bounded channel \<^verbatim>\<open>de.out\<close> is a list: a send
  that would block is a step that has not happened yet.
\<close>

section \<open>Shards\<close>

definition disruptorShards :: nat where "disruptorShards = 8"
definition clientOutQueue :: nat where "clientOutQueue = 4096"

definition fnv32a :: "string \<Rightarrow> u32" where
  "fnv32a s = fold (\<lambda>c h. (h XOR of_nat (of_char c)) * 16777619) s 2166136261"

definition shardFor :: "string \<Rightarrow> nat" where
  "shardFor symbol = unat (fnv32a symbol) mod disruptorShards"

lemma shardFor_less: "shardFor symbol < disruptorShards"
  by (simp add: shardFor_def disruptorShards_def)

section \<open>State\<close>

datatype payload = PAck Ack | PFill Fill

datatype reqKind = reqNew | reqCancel

record orderReq =
  rq_kind :: reqKind
  rq_order :: NewOrder
  rq_cancel :: CancelOrder
  rq_symbol :: string
  rq_client :: "client option"

record outMsg =
  om_client :: "client option"
  om_payload :: payload

record DisruptorEngine = Core +
  d_books :: "nat \<Rightarrow> string \<Rightarrow> Book option"
  d_rings :: "nat \<Rightarrow> orderReq list"
  d_out :: "outMsg list"
  d_mode :: string

definition noOrder :: NewOrder where
  "noOrder = \<lparr>no_Type = [], no_RunID = [], no_ClientOrderID = [], no_Symbol = [], no_Side = [],
     no_Price = 0, no_Qty = 0, no_TsNs = 0, no_OrderType = []\<rparr>"

definition noCancel :: CancelOrder where
  "noCancel = \<lparr>co_Type = [], co_RunID = [], co_ClientOrderID = [], co_OrigClientOrderID = [], co_TsNs = 0\<rparr>"

definition NewDisruptorEngine :: "string \<Rightarrow> DisruptorEngine" where
  "NewDisruptorEngine mode =
     \<lparr>c_engineSeq = 0, c_index = Map.empty, c_heap = c_heap (newEngine mode), c_next = 0,
      d_books = (\<lambda>_. Map.empty), d_rings = (\<lambda>_. []), d_out = [], d_mode = mode\<rparr>"

definition d_broken :: "DisruptorEngine \<Rightarrow> bool" where
  "d_broken de = (d_mode de = ''broken-price-time-priority'')"

section \<open>Producers\<close>

definition ring_put :: "nat \<Rightarrow> orderReq \<Rightarrow> DisruptorEngine \<Rightarrow> DisruptorEngine" where
  "ring_put sh req de = de\<lparr>d_rings := (d_rings de)(sh := d_rings de sh @ [req])\<rparr>"

definition emit :: "client option \<Rightarrow> payload \<Rightarrow> DisruptorEngine \<Rightarrow> DisruptorEngine" where
  "emit client p de = de\<lparr>d_out := d_out de @ [\<lparr>om_client = client, om_payload = p\<rparr>]\<rparr>"

definition SubmitNew :: "DisruptorEngine \<Rightarrow> NewOrder \<Rightarrow> client option \<Rightarrow> DisruptorEngine" where
  "SubmitNew de ord client =
     (let symbol = (if no_Symbol ord = [] then ''DEFAULT'' else no_Symbol ord)
      in ring_put (shardFor symbol)
           \<lparr>rq_kind = reqNew, rq_order = ord, rq_cancel = noCancel, rq_symbol = symbol, rq_client = client\<rparr> de)"

definition SubmitCancel :: "DisruptorEngine \<Rightarrow> u64 \<Rightarrow> CancelOrder \<Rightarrow> client option \<Rightarrow> DisruptorEngine" where
  "SubmitCancel de now c client =
     (case c_index de (co_OrigClientOrderID c) of
        Some r \<Rightarrow>
          let symbol = o_Symbol (c_heap de r)
          in ring_put (shardFor symbol)
               \<lparr>rq_kind = reqCancel, rq_order = noOrder, rq_cancel = c, rq_symbol = symbol, rq_client = client\<rparr> de
      | None \<Rightarrow>
          let (seq, de1) = nextSeq de
          in emit client (PAck (mkAck (co_ClientOrderID c) ''not_found'' seq now [])) de1)"

definition Reject :: "DisruptorEngine \<Rightarrow> u64 \<Rightarrow> client option \<Rightarrow> string \<Rightarrow> DisruptorEngine" where
  "Reject de now client reason =
     (let (seq, de1) = nextSeq de
      in emit client (PAck (mkAck [] ''rejected'' seq now reason)) de1)"

section \<open>The matcher's own loops\<close>

definition dMatchBuy_iter ::
  "DisruptorEngine \<Rightarrow> Book \<Rightarrow> oref \<Rightarrow> bool \<Rightarrow> (DisruptorEngine \<times> Book \<times> FillDelivery) option" where
  "dMatchBuy_iter de book a market =
     (if \<not> (o_Qty (c_heap de a) > 0 \<and> length (b_sells book) > 0) then None
      else let resting = b_sells book ! 0; h = c_heap de
           in if \<not> market \<and> o_Price (h a) < o_Price (h resting) then None
              else let qty = minInt64 (o_Qty (h a)) (o_Qty (h resting));
                       (seq, de1) = nextSeq de;
                       d = \<lparr>fd_Fill = \<lparr>f_Symbol = o_Symbol (h resting), f_Type = ''fill'',
                              f_BuyOrderID = o_ID (h a), f_SellOrderID = o_ID (h resting),
                              f_Price = o_Price (h resting), f_Qty = qty, f_EngineSeq = seq\<rparr>,
                            fd_Recipients = uniqueClients [o_Owner (h a), o_Owner (h resting)]\<rparr>;
                       h' = decQty resting qty (decQty a qty h);
                       de2 = de1\<lparr>c_heap := h'\<rparr>
                   in Some (if o_Qty (h' resting) = 0
                            then (de2\<lparr>c_index := (c_index de2)(o_ID (h' resting) := None)\<rparr>,
                                  book\<lparr>b_sells := drop 1 (b_sells book)\<rparr>, d)
                            else (de2, book, d)))"

definition dMatchSell_iter ::
  "DisruptorEngine \<Rightarrow> Book \<Rightarrow> oref \<Rightarrow> bool \<Rightarrow> (DisruptorEngine \<times> Book \<times> FillDelivery) option" where
  "dMatchSell_iter de book a market =
     (if \<not> (o_Qty (c_heap de a) > 0 \<and> length (b_buys book) > 0) then None
      else let resting = b_buys book ! 0; h = c_heap de
           in if \<not> market \<and> o_Price (h a) > o_Price (h resting) then None
              else let qty = minInt64 (o_Qty (h a)) (o_Qty (h resting));
                       (seq, de1) = nextSeq de;
                       d = \<lparr>fd_Fill = \<lparr>f_Symbol = o_Symbol (h resting), f_Type = ''fill'',
                              f_BuyOrderID = o_ID (h resting), f_SellOrderID = o_ID (h a),
                              f_Price = o_Price (h resting), f_Qty = qty, f_EngineSeq = seq\<rparr>,
                            fd_Recipients = uniqueClients [o_Owner (h a), o_Owner (h resting)]\<rparr>;
                       h' = decQty resting qty (decQty a qty h);
                       de2 = de1\<lparr>c_heap := h'\<rparr>
                   in Some (if o_Qty (h' resting) = 0
                            then (de2\<lparr>c_index := (c_index de2)(o_ID (h' resting) := None)\<rparr>,
                                  book\<lparr>b_buys := drop 1 (b_buys book)\<rparr>, d)
                            else (de2, book, d)))"

text \<open>The copies are the mutex engine's loop bodies, so they end for the same reason.\<close>

lemma dMatchBuy_iter_eq: "dMatchBuy_iter = matchBuy_iter"
proof (intro ext)
  fix de book a market
  show "dMatchBuy_iter de book a market = matchBuy_iter de book a market"
    by (cases "b_sells book") (simp_all add: dMatchBuy_iter_def matchBuy_iter_def Let_def nextSeq_def)
qed

lemma dMatchSell_iter_eq: "dMatchSell_iter = matchSell_iter"
proof (intro ext)
  fix de book a market
  show "dMatchSell_iter de book a market = matchSell_iter de book a market"
    by (cases "b_buys book") (simp_all add: dMatchSell_iter_def matchSell_iter_def Let_def nextSeq_def)
qed

function dMatchBuy ::
  "DisruptorEngine \<Rightarrow> Book \<Rightarrow> oref \<Rightarrow> bool \<Rightarrow> DisruptorEngine \<times> Book \<times> FillDelivery list" where
  "dMatchBuy de book a market =
     (case dMatchBuy_iter de book a market of
        None \<Rightarrow> (de, book, [])
      | Some (de1, book1, d) \<Rightarrow>
          (let (de', book', ds) = dMatchBuy de1 book1 a market in (de', book', d # ds)))"
  by pat_completeness auto
termination
  by (relation "measure (\<lambda>(de, book, a, market). work (c_heap de) a (b_sells book))")
    (auto simp: dMatchBuy_iter_eq intro: matchBuy_iter_decreases)

function dMatchSell ::
  "DisruptorEngine \<Rightarrow> Book \<Rightarrow> oref \<Rightarrow> bool \<Rightarrow> DisruptorEngine \<times> Book \<times> FillDelivery list" where
  "dMatchSell de book a market =
     (case dMatchSell_iter de book a market of
        None \<Rightarrow> (de, book, [])
      | Some (de1, book1, d) \<Rightarrow>
          (let (de', book', ds) = dMatchSell de1 book1 a market in (de', book', d # ds)))"
  by pat_completeness auto
termination
  by (relation "measure (\<lambda>(de, book, a, market). work (c_heap de) a (b_buys book))")
    (auto simp: dMatchSell_iter_eq intro: matchSell_iter_decreases)

declare dMatchBuy.simps [simp del] dMatchSell.simps [simp del]


section \<open>processNew and processCancel\<close>

definition shard_book :: "DisruptorEngine \<Rightarrow> nat \<Rightarrow> string \<Rightarrow> Book" where
  "shard_book de sh symbol = (case d_books de sh symbol of Some b \<Rightarrow> b | None \<Rightarrow> newBook)"

definition put_book :: "DisruptorEngine \<Rightarrow> nat \<Rightarrow> string \<Rightarrow> Book \<Rightarrow> DisruptorEngine" where
  "put_book de sh symbol b = de\<lparr>d_books := (d_books de)(sh := (d_books de sh)(symbol \<mapsto> b))\<rparr>"

definition processNew ::
  "DisruptorEngine \<Rightarrow> nat \<Rightarrow> u64 \<Rightarrow> NewOrder \<Rightarrow> client option \<Rightarrow> DisruptorEngine \<times> Ack \<times> FillDelivery list" where
  "processNew de sh now ord owner =
     (if invalid_order ord
      then let (seq, de1) = nextSeq de
           in (de1, mkAck (no_ClientOrderID ord) ''rejected'' seq now ''invalid_order'', [])
      else let side = ToUpper (no_Side ord);
               (seq, de1) = nextSeq de;
               ack = mkAck (no_ClientOrderID ord) ''accepted'' seq now [];
               symbol = (if no_Symbol ord = [] then ''DEFAULT'' else no_Symbol ord);
               book = shard_book de sh symbol;
               book1 = book\<lparr>b_insertSeq := b_insertSeq book + 1\<rparr>;
               active = \<lparr>o_ID = no_ClientOrderID ord, o_Symbol = symbol, o_Side = side,
                         o_Price = no_Price ord, o_Qty = no_Qty ord, o_TsNs = no_TsNs ord,
                         o_InsertSeq = b_insertSeq book1, o_Owner = owner\<rparr>;
               a = c_next de1;
               de2 = de1\<lparr>c_heap := (c_heap de1)(a := active), c_next := a + 1\<rparr>;
               broken = d_broken de
           in if side = ''BUY''
              then let (de3, book2, ds) = dMatchBuy de2 book1 a (is_market ord)
                   in if o_Qty (c_heap de3 a) > 0 \<and> \<not> is_market ord
                      then let book3 = book2\<lparr>b_buys := insertSorted (c_heap de3) (b_buys book2) a True broken\<rparr>
                           in (put_book (de3\<lparr>c_index := (c_index de3)(o_ID active \<mapsto> a)\<rparr>) sh symbol book3, ack, ds)
                      else (put_book de3 sh symbol book2, ack, ds)
              else let (de3, book2, ds) = dMatchSell de2 book1 a (is_market ord)
                   in if o_Qty (c_heap de3 a) > 0 \<and> \<not> is_market ord
                      then let book3 = book2\<lparr>b_sells := insertSorted (c_heap de3) (b_sells book2) a False broken\<rparr>
                           in (put_book (de3\<lparr>c_index := (c_index de3)(o_ID active \<mapsto> a)\<rparr>) sh symbol book3, ack, ds)
                      else (put_book de3 sh symbol book2, ack, ds))"

definition processCancel ::
  "DisruptorEngine \<Rightarrow> nat \<Rightarrow> u64 \<Rightarrow> string \<Rightarrow> CancelOrder \<Rightarrow> DisruptorEngine \<times> Ack" where
  "processCancel de sh now symbol c =
     (let (seq, de1) = nextSeq de;
          ack = mkAck (co_ClientOrderID c) ''not_found'' seq now []
      in case c_index de1 (co_OrigClientOrderID c) of
           None \<Rightarrow> (de1, ack)
         | Some ord \<Rightarrow>
             (case d_books de1 sh symbol of
                None \<Rightarrow> (de1, ack)
              | Some book \<Rightarrow>
                  (let (removed, book') = removeOrder (c_heap de1) book ord (d_broken de1)
                   in if removed
                      then ((put_book de1 sh symbol book')\<lparr>c_index := (c_index de1)(co_OrigClientOrderID c := None)\<rparr>,
                            ack\<lparr>ack_Status := ''canceled''\<rparr>)
                      else (de1, ack))))"

section \<open>The matcher and the output stage\<close>

definition emit_fills :: "FillDelivery list \<Rightarrow> DisruptorEngine \<Rightarrow> DisruptorEngine" where
  "emit_fills ds de =
     fold (\<lambda>d. fold (\<lambda>c de. if c \<noteq> None then emit c (PFill (fd_Fill d)) de else de) (fd_Recipients d)) ds de"

definition match_step :: "nat \<Rightarrow> u64 \<Rightarrow> DisruptorEngine \<Rightarrow> DisruptorEngine option" where
  "match_step sh now de =
     (case d_rings de sh of
        [] \<Rightarrow> None
      | req # rest \<Rightarrow>
          (let de0 = de\<lparr>d_rings := (d_rings de)(sh := rest)\<rparr>
           in Some (case rq_kind req of
                reqNew \<Rightarrow>
                  (let (de1, ack, ds) = processNew de0 sh now (rq_order req) (rq_client req)
                   in emit_fills ds (emit (rq_client req) (PAck ack) de1))
              | reqCancel \<Rightarrow>
                  (let (de1, ack) = processCancel de0 sh now (rq_symbol req) (rq_cancel req)
                   in emit (rq_client req) (PAck ack) de1))))"

text \<open>A connection's bounded outbound queue and the writer that drains it.\<close>

record ClientQ =
  cq_outQ :: "payload list"
  cq_outDropped :: u64
  cq_written :: "payload list"
  cq_writerGone :: bool

definition newClientQ :: ClientQ where
  "newClientQ = \<lparr>cq_outQ = [], cq_outDropped = 0, cq_written = [], cq_writerGone = False\<rparr>"

definition enqueue :: "payload \<Rightarrow> ClientQ \<Rightarrow> ClientQ" where
  "enqueue p c =
     (if length (cq_outQ c) < clientOutQueue then c\<lparr>cq_outQ := cq_outQ c @ [p]\<rparr>
      else c\<lparr>cq_outDropped := cq_outDropped c + 1\<rparr>)"

text \<open>One pass of \<^verbatim>\<open>writeLoop\<close>; \<open>ok\<close> is whether the socket write succeeded.\<close>

definition write_step :: "bool \<Rightarrow> ClientQ \<Rightarrow> ClientQ" where
  "write_step ok c =
     (if cq_writerGone c then c
      else case cq_outQ c of
        [] \<Rightarrow> c
      | p # rest \<Rightarrow>
          if ok then c\<lparr>cq_outQ := rest, cq_written := cq_written c @ [p]\<rparr>
          else c\<lparr>cq_outQ := rest, cq_writerGone := True\<rparr>)"

record OutStage =
  os_out :: "outMsg list"
  os_clients :: "client \<Rightarrow> ClientQ"
  os_audit :: "payload list option"

text \<open>One pass of \<^verbatim>\<open>outputLoop\<close>; \<^verbatim>\<open>audit\<close> is absent when there is no event log.\<close>

definition output_step :: "OutStage \<Rightarrow> OutStage option" where
  "output_step os =
     (case os_out os of
        [] \<Rightarrow> None
      | m # rest \<Rightarrow>
          (let os1 = os\<lparr>os_out := rest\<rparr>
           in Some (case om_client m of
                None \<Rightarrow> os1
              | Some c \<Rightarrow>
                  os1\<lparr>os_audit := map_option (\<lambda>l. l @ [om_payload m]) (os_audit os1),
                      os_clients := (os_clients os1)(c := enqueue (om_payload m) (os_clients os1 c))\<rparr>)))"

section \<open>Equivalence with the mutex engine\<close>

text \<open>Matching sees and changes only the core of an engine.\<close>

definition set_core :: "Core \<Rightarrow> 'a Core_scheme \<Rightarrow> 'a Core_scheme" where
  "set_core c e = e\<lparr>c_engineSeq := c_engineSeq c, c_index := c_index c, c_heap := c_heap c,
     c_next := c_next c\<rparr>"

lemma set_core_simps [simp]:
  "Core.truncate (set_core c e) = c" "set_core c (set_core c1 e) = set_core c e"
  "set_core (Core.truncate e) e = e"
  by (simp_all add: set_core_def Core.defs)

lemma match_iter_core:
  "match_iter bs e book a mk =
    map_option (\<lambda>(c, b, d). (set_core c e, b, d)) (match_iter bs (Core.truncate e) book a mk)"
  by (cases bs) (simp_all add: match_iter_def matchBuy_iter_def matchSell_iter_def Core.defs
      nextSeq_def Let_def set_core_def)

lemma Engine_match_core:
  "Engine_match bs e book a mk =
    (case Engine_match bs (Core.truncate e) book a mk of (c, b, ds) \<Rightarrow> (set_core c e, b, ds))"
proof (induction "work (c_heap e) a (opp bs book)" arbitrary: e book rule: less_induct)
  case less
  show ?case
  proof (cases "match_iter bs (Core.truncate e) book a mk")
    case None
    then show ?thesis
      by (simp add: Engine_match_simps [of bs e] Engine_match_simps [of bs "Core.truncate e"]
          match_iter_core [of bs e])
  next
    case (Some x)
    obtain c1 b1 d where x: "x = (c1, b1, d)" by (cases x)
    have it: "match_iter bs e book a mk = Some (set_core c1 e, b1, d)"
      by (simp add: match_iter_core [of bs e] Some x)
    have "Engine_match bs (set_core c1 e) b1 a mk =
      (case Engine_match bs (Core.truncate (set_core c1 e)) b1 a mk of
         (c, b, ds) \<Rightarrow> (set_core c (set_core c1 e), b, ds))"
      by (rule less) (rule match_iter_decreases [OF it])
    then show ?thesis
      by (simp add: Engine_match_simps [of bs e] Engine_match_simps [of bs "Core.truncate e"]
          it Some x case_prod_beta)
  qed
qed

lemma Engine_match_own:
  "Engine_match bs e book a mk = (e', book', ds) \<Longrightarrow> opp (\<not> bs) book' = opp (\<not> bs) book"
proof (induction "work (c_heap e) a (opp bs book)" arbitrary: e book ds rule: less_induct)
  case less
  show ?case
  proof (cases "match_iter bs e book a mk")
    case None
    with less.prems show ?thesis by (simp add: Engine_match_simps [of bs e])
  next
    case (Some x)
    obtain e1 b1 d where x: "x = (e1, b1, d)" by (cases x)
    obtain ds1 where "Engine_match bs e1 b1 a mk = (e', book', ds1)"
      using less.prems by (auto simp: Engine_match_simps [of bs e] Some x split: prod.splits)
    then have "opp (\<not> bs) book' = opp (\<not> bs) b1"
      using less.hyps match_iter_decreases [OF Some [unfolded x]] by blast
    moreover have "opp (\<not> bs) b1 = opp (\<not> bs) book"
      using Some [unfolded x]
      by (auto simp: match_iter_def matchBuy_iter_def matchSell_iter_def Let_def opp_def nextSeq_def
          split: if_splits)
    ultimately show ?thesis by simp
  qed
qed

lemma dMatchBuy_eq: "dMatchBuy de book a mk = Engine_matchBuy de book a mk"
proof (induction de book a mk rule: dMatchBuy.induct)
  case (1 de book a mk)
  then show ?case
    by (simp add: dMatchBuy.simps [of de] Engine_matchBuy.simps [of de] dMatchBuy_iter_eq
        split: option.split)
qed

lemma dMatchSell_eq: "dMatchSell de book a mk = Engine_matchSell de book a mk"
proof (induction de book a mk rule: dMatchSell.induct)
  case (1 de book a mk)
  then show ?case
    by (simp add: dMatchSell.simps [of de] Engine_matchSell.simps [of de] dMatchSell_iter_eq
        split: option.split)
qed

text \<open>The disruptor seen as one engine: each symbol's book is the one of its shard.\<close>

definition as_mutex :: "DisruptorEngine \<Rightarrow> Engine" where
  "as_mutex de = \<lparr>c_engineSeq = c_engineSeq de, c_index = c_index de, c_heap = c_heap de,
     c_next = c_next de, e_books = (\<lambda>symbol. d_books de (shardFor symbol) symbol), e_mode = d_mode de\<rparr>"

definition target_symbol :: "NewOrder \<Rightarrow> string" where
  "target_symbol ord = (if no_Symbol ord = [] then ''DEFAULT'' else no_Symbol ord)"

text \<open>The mutex engine's two limits, which the disruptor does not have.\<close>

definition within_limits :: "DisruptorEngine \<Rightarrow> NewOrder \<Rightarrow> bool" where
  "within_limits de ord \<longleftrightarrow>
     length (no_ClientOrderID ord) \<le> maxOrderFieldLen \<and> length (no_Symbol ord) \<le> maxOrderFieldLen \<and>
     length (opp (\<not> is_buy ord) (shard_book de (shardFor (target_symbol ord)) (target_symbol ord)))
       < maxRestingPerSymbol"


lemma as_mutex_put [simp]:
  "sh = shardFor symbol \<Longrightarrow>
     as_mutex (put_book de sh symbol b) = (as_mutex de)\<lparr>e_books := (e_books (as_mutex de))(symbol \<mapsto> b)\<rparr>"
  by (auto simp: as_mutex_def put_book_def)

lemma as_mutex_index [simp]: "as_mutex (de\<lparr>c_index := i\<rparr>) = (as_mutex de)\<lparr>c_index := i\<rparr>"
  by (simp add: as_mutex_def)

lemma processNew_eq:
  assumes "\<not> invalid_order ord" and "sh = shardFor (target_symbol ord)"
  shows "processNew de sh now ord owner =
     (let bs = is_buy ord; a = c_next de; symbol = target_symbol ord;
          book = shard_book de sh symbol;
          de2 = de\<lparr>c_engineSeq := c_engineSeq de + 1,
                   c_heap := (c_heap de)(a := new_active ord owner symbol book), c_next := a + 1\<rparr>;
          ack = mkAck (no_ClientOrderID ord) ''accepted'' (c_engineSeq de + 1) now [];
          (de3, book2, ds) = Engine_match bs de2 (book\<lparr>b_insertSeq := b_insertSeq book + 1\<rparr>) a (is_market ord)
      in if o_Qty (c_heap de3 a) > 0 \<and> \<not> is_market ord
         then (put_book (de3\<lparr>c_index := (c_index de3)(no_ClientOrderID ord \<mapsto> a)\<rparr>) sh symbol
                 (set_opp (\<not> bs) book2 (insertSorted (c_heap de3) (opp (\<not> bs) book2) a bs (d_broken de))),
               ack, ds)
         else (put_book de3 sh symbol book2, ack, ds))"
proof -
  let ?book = "shard_book de sh (target_symbol ord)"
  obtain e3 book2 ds where m: "Engine_match (is_buy ord) (de\<lparr>c_engineSeq := c_engineSeq de + 1,
      c_heap := (c_heap de)(c_next de := new_active ord owner (target_symbol ord) ?book), c_next := c_next de + 1\<rparr>)
      (?book\<lparr>b_insertSeq := b_insertSeq ?book + 1\<rparr>) (c_next de) (is_market ord) = (e3, book2, ds)"
    using prod_cases3 by blast
  show ?thesis
  proof (cases "ToUpper (no_Side ord) = ''BUY''")
    case True
    then show ?thesis
      using m assms by (simp add: processNew_def dMatchBuy_eq Engine_match_def is_buy_def new_active_def
          nextSeq_def Let_def opp_def set_opp_def target_symbol_def [symmetric])
  next
    case False
    then show ?thesis
      using m assms by (simp add: processNew_def dMatchSell_eq Engine_match_def is_buy_def new_active_def
          nextSeq_def Let_def opp_def set_opp_def target_symbol_def [symmetric])
  qed
qed


lemma bookFor_as_mutex:
  assumes "symbol \<noteq> []"
  shows "\<exists>e1. bookFor (as_mutex de) symbol = (symbol, shard_book de (shardFor symbol) symbol, e1) \<and>
    (\<forall>b. (e_books e1)(symbol \<mapsto> b) = (e_books (as_mutex de))(symbol \<mapsto> b)) \<and>
    (\<exists>bs. e1 = (as_mutex de)\<lparr>e_books := bs\<rparr>)"
proof (cases "d_books de (shardFor symbol) symbol")
  case None
  with assms show ?thesis
    by (auto simp: bookFor_def shard_book_def as_mutex_def)
next
  case (Some b)
  with assms show ?thesis
    by (auto simp: bookFor_def shard_book_def as_mutex_def intro!: exI [of _ "\<lambda>symbol. d_books de (shardFor symbol) symbol"])
qed

lemma processNew_as_mutex:
  assumes lim: "within_limits de ord" and new: "processNew de (shardFor (target_symbol ord)) now ord owner = (de', ack, ds)"
  shows "ProcessNew (as_mutex de) now ord owner = (as_mutex de', ack, ds)"
    and "d_rings de' = d_rings de" "d_out de' = d_out de" "d_mode de' = d_mode de"
proof -
  have "ProcessNew (as_mutex de) now ord owner = (as_mutex de', ack, ds) \<and>
    d_rings de' = d_rings de \<and> d_out de' = d_out de \<and> d_mode de' = d_mode de"
  proof (cases "invalid_order ord")
    case True
    with new show ?thesis by (auto simp: ProcessNew_def processNew_def nextSeq_def as_mutex_def)
  next
    case valid: False
    let ?sym = "target_symbol ord" and ?bs = "is_buy ord" and ?a = "c_next de"
    let ?sh = "shardFor ?sym"
    let ?book = "shard_book de ?sh ?sym"
    have sym: "?sym \<noteq> []" by (simp add: target_symbol_def)
    obtain e1 bks where e1: "bookFor (as_mutex de) ?sym = (?sym, ?book, e1)"
      "\<And>b. (e_books e1)(?sym \<mapsto> b) = (e_books (as_mutex de))(?sym \<mapsto> b)" "e1 = (as_mutex de)\<lparr>e_books := bks\<rparr>"
      using bookFor_as_mutex [OF sym, of de] by blast
    let ?d2 = "de\<lparr>c_engineSeq := c_engineSeq de + 1,
        c_heap := (c_heap de)(?a := new_active ord owner ?sym ?book), c_next := ?a + 1\<rparr>"
    obtain c3 book2 ds3 where m: "Engine_match ?bs (Core.truncate ?d2)
        (?book\<lparr>b_insertSeq := b_insertSeq ?book + 1\<rparr>) ?a (is_market ord) = (c3, book2, ds3)"
      using prod_cases3 by blast
    have tr: "Core.truncate (new_core e1 ord owner ?sym ?book) = Core.truncate ?d2"
      by (simp add: new_core_def e1(3) as_mutex_def Core.defs)
    have md: "Engine_match ?bs ?d2 (?book\<lparr>b_insertSeq := b_insertSeq ?book + 1\<rparr>) ?a (is_market ord) =
        (set_core c3 ?d2, book2, ds3)"
      by (simp only: Engine_match_core [of ?bs ?d2] m prod.case)
    have mm: "Engine_match ?bs (new_core e1 ord owner ?sym ?book)
        (?book\<lparr>b_insertSeq := b_insertSeq ?book + 1\<rparr>) ?a (is_market ord) =
        (set_core c3 (new_core e1 ord owner ?sym ?book), book2, ds3)"
      by (simp only: Engine_match_core [of ?bs "new_core e1 ord owner ?sym ?book"] tr m prod.case)
    have room: "length (opp (\<not> ?bs) book2) < maxRestingPerSymbol"
      using lim Engine_match_own [OF m] by (simp add: within_limits_def)
    have pn: "ProcessNew (as_mutex de) now ord owner = ProcessNew_locked e1 now ord owner ?sym ?book"
      using valid lim e1(1) by (simp add: ProcessNew_def within_limits_def target_symbol_def [symmetric])
    have e1f: "c_next e1 = ?a" "c_engineSeq e1 = c_engineSeq de" "e_broken e1 = d_broken de"
      by (simp_all add: e1(3) as_mutex_def e_broken_def d_broken_def)
    let ?rests = "0 < o_Qty (c_heap c3 ?a) \<and> \<not> is_market ord"
    let ?b3 = "set_opp (\<not> ?bs) book2 (insertSorted (c_heap c3) (opp (\<not> ?bs) book2) ?a ?bs (d_broken de))"
    let ?ack = "mkAck (no_ClientOrderID ord) ''accepted'' (c_engineSeq de + 1) now []"
    have D: "processNew de ?sh now ord owner =
        (if ?rests then (put_book ((set_core c3 de)\<lparr>c_index := (c_index c3)(no_ClientOrderID ord \<mapsto> ?a)\<rparr>) ?sh ?sym ?b3, ?ack, ds3)
         else (put_book (set_core c3 de) ?sh ?sym book2, ?ack, ds3))"
      unfolding processNew_eq [OF valid refl] Let_def md prod.case by (simp add: set_core_def)
    have M: "ProcessNew (as_mutex de) now ord owner =
        (if ?rests then ((set_core c3 (as_mutex de))\<lparr>c_index := (c_index c3)(no_ClientOrderID ord \<mapsto> ?a),
             e_books := (e_books (as_mutex de))(?sym \<mapsto> ?b3)\<rparr>, ?ack, ds3)
         else ((set_core c3 (as_mutex de))\<lparr>e_books := (e_books (as_mutex de))(?sym \<mapsto> book2)\<rparr>, ?ack, ds3))"
    proof -
      have "e_books (set_core c3 (new_core e1 ord owner ?sym ?book)) = e_books e1"
        "c_heap (set_core c3 (new_core e1 ord owner ?sym ?book)) = c_heap c3"
        by (simp_all add: set_core_def new_core_def)
      moreover have "(set_core c3 (new_core e1 ord owner ?sym ?book))\<lparr>e_books := x\<rparr> =
          (set_core c3 (as_mutex de))\<lparr>e_books := x\<rparr>" for x
        by (simp add: set_core_def new_core_def e1(3) as_mutex_def)
      ultimately show ?thesis
        unfolding pn ProcessNew_locked_eq Let_def e1f mm prod.case
        by (simp add: room e1(2)) (simp add: set_core_def new_core_def e1(3) as_mutex_def)
    qed
    have asm: "as_mutex (set_core c3 de) = set_core c3 (as_mutex de)"
      "e_books (set_core c3 (as_mutex de)) = e_books (as_mutex de)"
      by (simp_all add: as_mutex_def set_core_def)
    have "(case processNew de ?sh now ord owner of (d, k, f) \<Rightarrow> (as_mutex d, k, f)) =
        ProcessNew (as_mutex de) now ord owner"
      unfolding D M by (simp add: asm)
    moreover have "d_rings (set_core c3 de) = d_rings de" "d_out (set_core c3 de) = d_out de"
      "d_mode (set_core c3 de) = d_mode de"
      by (simp_all add: set_core_def)
    ultimately show ?thesis
      using new unfolding D by (auto simp: put_book_def split: if_splits)
  qed
  then show "ProcessNew (as_mutex de) now ord owner = (as_mutex de', ack, ds)"
    and "d_rings de' = d_rings de" "d_out de' = d_out de" "d_mode de' = d_mode de" by blast+
qed


text \<open>
  C8. The disruptor's lock-free matcher is the mutex engine: for an order within the mutex
  engine's two limits, processing it on the shard of its symbol gives the same ack, the same
  fills with the same recipients and sequence numbers, and the same books, orders and index
  as \<^verbatim>\<open>ProcessNew\<close>, and leaves the rings and the output alone.
\<close>

theorem disruptor_new_equals_mutex:
  assumes "within_limits de ord"
  shows "case processNew de (shardFor (target_symbol ord)) now ord owner of (de', ack, ds) \<Rightarrow>
    ProcessNew (as_mutex de) now ord owner = (as_mutex de', ack, ds) \<and>
    d_rings de' = d_rings de \<and> d_out de' = d_out de"
proof -
  obtain de' ack ds where r: "processNew de (shardFor (target_symbol ord)) now ord owner = (de', ack, ds)"
    using prod_cases3 by blast
  with processNew_as_mutex [OF assms r] show ?thesis by simp
qed

lemma demo_within_limits: "within_limits (NewDisruptorEngine []) demo_sell"
  by (simp add: within_limits_def demo_sell_def demo_new_def maxOrderFieldLen_def shard_book_def
      NewDisruptorEngine_def maxRestingPerSymbol_def newBook_def opp_def)

lemma disruptor_new_equals_mutex_witness:
  "case processNew (NewDisruptorEngine []) (shardFor (target_symbol demo_sell)) 1 demo_sell None of
     (de', ack, ds) \<Rightarrow> ack = mkAck ''s1'' ''accepted'' 1 1 [] \<and> ds = []"
proof -
  have "as_mutex (NewDisruptorEngine []) = newEngine []"
    by (simp add: as_mutex_def NewDisruptorEngine_def newEngine_def)
  then show ?thesis
    using disruptor_new_equals_mutex [OF demo_within_limits, of 1 None] demo_sell_rests(1)
    by (auto split: prod.splits)
qed



text \<open>
  Where the two engines differ: the disruptor has no bound on the identifier's length.  A
  valid order with an identifier over 256 bytes is accepted by the disruptor and rejected
  by the mutex engine.
\<close>

lemma disruptor_misses_field_limit:
  assumes "\<not> invalid_order ord" and "maxOrderFieldLen < length (no_ClientOrderID ord)"
  shows "(case processNew de (shardFor (target_symbol ord)) now ord owner of (de', ack, ds) \<Rightarrow>
       ack_Status ack = ''accepted'') \<and>
    (case ProcessNew (as_mutex de) now ord owner of (e', ack, ds) \<Rightarrow>
       ack_Status ack = ''rejected'' \<and> ack_Reason ack = ''field_too_long'' \<and> ds = [])"
  using assms
  by (auto simp: processNew_eq [OF assms(1) refl] ProcessNew_def nextSeq_def mkAck_def Let_def
      split: prod.splits)

lemma disruptor_misses_field_limit_witness:
  "case processNew (NewDisruptorEngine []) (shardFor ''DEFAULT'') 1
      (demo_sell\<lparr>no_ClientOrderID := replicate 300 CHR ''a''\<rparr>) None of (de', ack, ds) \<Rightarrow>
     ack_Status ack = ''accepted''"
proof -
  let ?o = "demo_sell\<lparr>no_ClientOrderID := replicate 300 CHR ''a''\<rparr>"
  have v: "\<not> invalid_order demo_sell" unfolding demo_sell_def by code_simp
  then have "\<not> invalid_order ?o" by (simp add: invalid_order_def Let_def)
  moreover have "maxOrderFieldLen < length (no_ClientOrderID ?o)" by (simp add: maxOrderFieldLen_def)
  moreover have "target_symbol ?o = ''DEFAULT''" by (simp add: target_symbol_def demo_sell_def demo_new_def)
  ultimately show ?thesis
    using disruptor_misses_field_limit [of ?o "NewDisruptorEngine []" 1 None] by simp
qed

lemma processNew_valid:
  assumes "\<not> invalid_order ord"
    and "processNew de (shardFor (target_symbol ord)) now ord owner = (de', ack, ds)"
  shows "ack = mkAck (no_ClientOrderID ord) ''accepted'' (c_engineSeq de + 1) now []"
    and "d_out de' = d_out de" and "d_rings de' = d_rings de"
proof -
  let ?book = "shard_book de (shardFor (target_symbol ord)) (target_symbol ord)"
  let ?d2 = "de\<lparr>c_engineSeq := c_engineSeq de + 1,
        c_heap := (c_heap de)(c_next de := new_active ord owner (target_symbol ord) ?book), c_next := c_next de + 1\<rparr>"
  obtain c3 book2 ds3 where m: "Engine_match (is_buy ord) (Core.truncate ?d2)
      (?book\<lparr>b_insertSeq := b_insertSeq ?book + 1\<rparr>) (c_next de) (is_market ord) = (c3, book2, ds3)"
    using prod_cases3 by blast
  have md: "Engine_match (is_buy ord) ?d2 (?book\<lparr>b_insertSeq := b_insertSeq ?book + 1\<rparr>)
      (c_next de) (is_market ord) = (set_core c3 ?d2, book2, ds3)"
    by (simp only: Engine_match_core [of "is_buy ord" ?d2] m prod.case)
  show "ack = mkAck (no_ClientOrderID ord) ''accepted'' (c_engineSeq de + 1) now []"
    and "d_out de' = d_out de" and "d_rings de' = d_rings de"
    using assms(2) unfolding processNew_eq [OF assms(1) refl] Let_def md prod.case
    by (auto simp: set_core_def put_book_def split: if_splits)
qed

lemma emit_out [simp]: "d_out (emit c p de) = d_out de @ [\<lparr>om_client = c, om_payload = p\<rparr>]"
  by (simp add: emit_def)

lemma emit_fills_out: "\<exists>rest. d_out (emit_fills ds de) = d_out de @ rest"
proof (induction ds arbitrary: de)
  case (Cons d ds)
  have "\<exists>rest. d_out (fold (\<lambda>c de. if c \<noteq> None then emit c (PFill (fd_Fill d)) de else de) cs de') = d_out de' @ rest"
    for cs de'
  proof (induction cs arbitrary: de')
    case (Cons c cs)
    then show ?case using Cons [of "if c \<noteq> None then emit c (PFill (fd_Fill d)) de' else de'"]
      by (cases c) (auto split: if_splits)
  qed simp
  then obtain rest where "d_out (fold (\<lambda>c de. if c \<noteq> None then emit c (PFill (fd_Fill d)) de else de)
      (fd_Recipients d) de) = d_out de @ rest" by blast
  with Cons.IH [of "fold (\<lambda>c de. if c \<noteq> None then emit c (PFill (fd_Fill d)) de else de) (fd_Recipients d) de"]
  show ?case by (auto simp: emit_fills_def)
qed (simp add: emit_fills_def)

text \<open>
  A cancel can overtake its order.  When a connection submits an order and then its
  cancel before the shard's matcher has taken the order from the ring, the cancel is answered
  \<^verbatim>\<open>not_found\<close> at once; the ring holds the order alone, and the matcher's next step accepts it.
\<close>

lemma cancel_overtakes_new:
  assumes "c_index de (no_ClientOrderID ord) = None" and "co_OrigClientOrderID c = no_ClientOrderID ord"
    and "d_rings de (shardFor (target_symbol ord)) = []" and "\<not> invalid_order ord"
  shows "case SubmitCancel (SubmitNew de ord client) now c client of de1 \<Rightarrow>
    d_out de1 = d_out de @ [\<lparr>om_client = client, om_payload =
      PAck (mkAck (co_ClientOrderID c) ''not_found'' (c_engineSeq de + 1) now [])\<rparr>] \<and>
    map rq_kind (d_rings de1 (shardFor (target_symbol ord))) = [reqNew] \<and>
    (\<exists>de2 rest. match_step (shardFor (target_symbol ord)) now' de1 = Some de2 \<and>
       d_out de2 = d_out de1 @ \<lparr>om_client = client, om_payload =
         PAck (mkAck (no_ClientOrderID ord) ''accepted'' (c_engineSeq de + 2) now' [])\<rparr> # rest)"
proof -
  let ?sh = "shardFor (target_symbol ord)"
  let ?req = "\<lparr>rq_kind = reqNew, rq_order = ord, rq_cancel = noCancel, rq_symbol = target_symbol ord,
     rq_client = client\<rparr>"
  define de1 where "de1 = SubmitCancel (SubmitNew de ord client) now c client"
  have out1: "d_out de1 = d_out de @ [\<lparr>om_client = client, om_payload =
      PAck (mkAck (co_ClientOrderID c) ''not_found'' (c_engineSeq de + 1) now [])\<rparr>]"
    and ring1: "d_rings de1 ?sh = [?req]" and seq1: "c_engineSeq de1 = c_engineSeq de + 1"
    using assms(1-3)
    by (simp_all add: de1_def SubmitNew_def SubmitCancel_def ring_put_def nextSeq_def Let_def emit_def
        target_symbol_def [symmetric])
  define d0 where "d0 = de1\<lparr>d_rings := (d_rings de1)(?sh := [])\<rparr>"
  obtain d1 ack ds where pn: "processNew d0 ?sh now' ord client = (d1, ack, ds)"
    using prod_cases3 by blast
  note pv = processNew_valid [OF assms(4) pn]
  obtain rest where "d_out (emit_fills ds (emit client (PAck ack) d1)) = d_out (emit client (PAck ack) d1) @ rest"
    using emit_fills_out by blast
  moreover have "match_step ?sh now' de1 = Some (emit_fills ds (emit client (PAck ack) d1))"
    using pn by (simp add: match_step_def ring1 d0_def)
  moreover have "c_engineSeq d0 + 1 = c_engineSeq de + 2" by (simp add: d0_def seq1)
  ultimately show ?thesis
    using out1 ring1 pv
    by (auto simp: de1_def [symmetric] d0_def add.commute [of "c_engineSeq de" 2])
qed

lemma cancel_overtakes_new_witness:
  "map rq_kind (d_rings (SubmitCancel (SubmitNew (NewDisruptorEngine []) demo_sell (Some 1)) 2
     (demo_cancel ''s1'') (Some 1)) (shardFor ''DEFAULT'')) = [reqNew]"
proof -
  have "\<not> invalid_order demo_sell" unfolding demo_sell_def by code_simp
  moreover have "target_symbol demo_sell = ''DEFAULT''"
    by (simp add: target_symbol_def demo_sell_def demo_new_def)
  moreover have "no_ClientOrderID demo_sell = ''s1''" by (simp add: demo_sell_def demo_new_def)
  ultimately show ?thesis
    using cancel_overtakes_new [of "NewDisruptorEngine []" demo_sell "demo_cancel ''s1''" "Some 1" 2 3]
    by (simp add: NewDisruptorEngine_def demo_cancel_def)
qed

section \<open>Shard isolation\<close>

datatype dis_event =
    DSubmitNew NewOrder "client option"
  | DSubmitCancel u64 CancelOrder "client option"
  | DReject u64 "client option" string
  | DMatch nat u64

fun dis_step :: "dis_event \<Rightarrow> DisruptorEngine \<Rightarrow> DisruptorEngine" where
  "dis_step (DSubmitNew ord client) de = SubmitNew de ord client"
| "dis_step (DSubmitCancel now c client) de = SubmitCancel de now c client"
| "dis_step (DReject now client reason) de = Reject de now client reason"
| "dis_step (DMatch sh now) de = (case match_step sh now de of None \<Rightarrow> de | Some de' \<Rightarrow> de')"

definition run_dis :: "dis_event list \<Rightarrow> string \<Rightarrow> DisruptorEngine" where
  "run_dis evs mode = fold dis_step evs (NewDisruptorEngine mode)"

definition routed :: "nat \<Rightarrow> orderReq \<Rightarrow> bool" where
  "routed sh req \<longleftrightarrow> shardFor (rq_symbol req) = sh \<and>
     (rq_kind req = reqNew \<longrightarrow> rq_symbol req = target_symbol (rq_order req))"

definition shards_ok :: "DisruptorEngine \<Rightarrow> bool" where
  "shards_ok de \<longleftrightarrow>
     (\<forall>sh symbol. d_books de sh symbol \<noteq> None \<longrightarrow> sh = shardFor symbol) \<and>
     (\<forall>sh. \<forall>req\<in>set (d_rings de sh). routed sh req)"

lemma emit_frame [simp]: "d_books (emit c p de) = d_books de" "d_rings (emit c p de) = d_rings de"
  by (simp_all add: emit_def)

lemma emit_fills_frame [simp]:
  "d_books (emit_fills ds de) = d_books de" "d_rings (emit_fills ds de) = d_rings de"
proof -
  have "d_books (fold (\<lambda>c de. if c \<noteq> None then emit c (PFill f) de else de) cs de') = d_books de' \<and>
    d_rings (fold (\<lambda>c de. if c \<noteq> None then emit c (PFill f) de else de) cs de') = d_rings de'" for cs de' f
    by (induction cs arbitrary: de') auto
  then have "d_books (emit_fills ds de) = d_books de \<and> d_rings (emit_fills ds de) = d_rings de"
    by (induction ds arbitrary: de) (simp_all add: emit_fills_def)
  then show "d_books (emit_fills ds de) = d_books de" "d_rings (emit_fills ds de) = d_rings de" by blast+
qed

lemma processNew_books:
  assumes "processNew de sh now ord owner = (de', ack, ds)" and "sh = shardFor (target_symbol ord)"
  shows "d_rings de' = d_rings de" and "\<exists>b. d_books de' = d_books de \<or>
    d_books de' = (d_books de)(sh := (d_books de sh)(target_symbol ord \<mapsto> b))"
proof -
  have "d_rings de' = d_rings de \<and> (\<exists>b. d_books de' = d_books de \<or>
    d_books de' = (d_books de)(sh := (d_books de sh)(target_symbol ord \<mapsto> b)))"
  proof (cases "invalid_order ord")
    case True
    with assms show ?thesis by (auto simp: processNew_def nextSeq_def)
  next
    case False
    let ?book = "shard_book de sh (target_symbol ord)"
    let ?d2 = "de\<lparr>c_engineSeq := c_engineSeq de + 1,
        c_heap := (c_heap de)(c_next de := new_active ord owner (target_symbol ord) ?book), c_next := c_next de + 1\<rparr>"
    obtain c3 book2 ds3 where m: "Engine_match (is_buy ord) (Core.truncate ?d2)
        (?book\<lparr>b_insertSeq := b_insertSeq ?book + 1\<rparr>) (c_next de) (is_market ord) = (c3, book2, ds3)"
      using prod_cases3 by blast
    have md: "Engine_match (is_buy ord) ?d2 (?book\<lparr>b_insertSeq := b_insertSeq ?book + 1\<rparr>)
        (c_next de) (is_market ord) = (set_core c3 ?d2, book2, ds3)"
      by (simp only: Engine_match_core [of "is_buy ord" ?d2] m prod.case)
    show ?thesis
      using assms(1) unfolding processNew_eq [OF False assms(2)] Let_def md prod.case
      by (auto simp: set_core_def put_book_def split: if_splits)
  qed
  then show "d_rings de' = d_rings de" and "\<exists>b. d_books de' = d_books de \<or>
    d_books de' = (d_books de)(sh := (d_books de sh)(target_symbol ord \<mapsto> b))" by blast+
qed

lemma processCancel_books:
  assumes "processCancel de sh now symbol c = (de', ack)"
  shows "d_rings de' = d_rings de" and "d_books de' s t \<noteq> None \<Longrightarrow> d_books de s t \<noteq> None"
  using assms
  by (auto simp: processCancel_def nextSeq_def Let_def put_book_def split: option.splits prod.splits if_splits)

lemma shards_ok_match:
  assumes "shards_ok de" and "match_step sh now de = Some de'"
  shows "shards_ok de'"
proof -
  obtain req rest where ring: "d_rings de sh = req # rest"
    using assms(2) by (auto simp: match_step_def split: list.splits)
  then have rt: "routed sh req" using assms(1) by (auto simp: shards_ok_def)
  define de0 where "de0 = de\<lparr>d_rings := (d_rings de)(sh := rest)\<rparr>"
  have ok0: "shards_ok de0" using assms(1) ring by (auto simp: shards_ok_def de0_def)
  show ?thesis
  proof (cases "rq_kind req")
    case reqNew
    obtain d1 ack ds where pn: "processNew de0 sh now (rq_order req) (rq_client req) = (d1, ack, ds)"
      using prod_cases3 by blast
    have sh: "sh = shardFor (target_symbol (rq_order req))" using rt reqNew by (auto simp: routed_def)
    have "de' = emit_fills ds (emit (rq_client req) (PAck ack) d1)"
      using assms(2) ring reqNew pn by (simp add: match_step_def de0_def)
    moreover have "d_rings d1 = d_rings de0" using processNew_books(1) [OF pn sh] .
    moreover obtain b where "d_books d1 = d_books de0 \<or>
        d_books d1 = (d_books de0)(sh := (d_books de0 sh)(target_symbol (rq_order req) \<mapsto> b))"
      using processNew_books(2) [OF pn sh] by blast
    ultimately show ?thesis using ok0 sh by (auto simp: shards_ok_def split: if_splits)
  next
    case reqCancel
    obtain d1 ack where pc: "processCancel de0 sh now (rq_symbol req) (rq_cancel req) = (d1, ack)"
      by (cases "processCancel de0 sh now (rq_symbol req) (rq_cancel req)")
    have "de' = emit (rq_client req) (PAck ack) d1"
      using assms(2) ring reqCancel pc by (simp add: match_step_def de0_def)
    then show ?thesis
      using ok0 processCancel_books [OF pc] unfolding shards_ok_def by auto
  qed
qed

lemma shards_ok_step: "shards_ok de \<Longrightarrow> shards_ok (dis_step ev de)"
proof (cases ev)
  case (DSubmitNew ord client)
  assume "shards_ok de"
  then show ?thesis
    by (auto simp: DSubmitNew SubmitNew_def ring_put_def shards_ok_def routed_def target_symbol_def Let_def)
next
  case (DSubmitCancel now c client)
  assume "shards_ok de"
  then show ?thesis
    by (auto simp: DSubmitCancel SubmitCancel_def ring_put_def shards_ok_def routed_def nextSeq_def Let_def
        split: option.split)
next
  case (DReject now client reason)
  assume "shards_ok de"
  then show ?thesis by (simp add: DReject Reject_def nextSeq_def shards_ok_def)
next
  case (DMatch sh now)
  assume "shards_ok de"
  then show ?thesis using shards_ok_match by (auto simp: DMatch split: option.split)
qed

text \<open>
  Over any interleaving of submissions and matcher steps a symbol lives on one shard only:
  every book is on the shard its symbol hashes to, and every request waiting in a ring is for
  a symbol of that shard, so one matcher handles a symbol's orders in the order of its ring.
\<close>

lemma symbol_has_one_shard:
  "{sh. d_books (run_dis evs mode) sh symbol \<noteq> None} \<subseteq> {shardFor symbol} \<and>
   {req. shardFor (rq_symbol req) \<noteq> sh} \<inter> set (d_rings (run_dis evs mode) sh) = {}"
proof -
  have "shards_ok (run_dis evs mode)"
    unfolding run_dis_def
  proof (induction evs rule: rev_induct)
    case Nil
    then show ?case by (simp add: shards_ok_def NewDisruptorEngine_def)
  next
    case (snoc ev evs)
    then show ?case using shards_ok_step by simp
  qed
  then show ?thesis by (auto simp: shards_ok_def routed_def)
qed


section \<open>The bounded outbound queue\<close>

text \<open>What may happen to one connection's queue: a payload is offered, or the writer writes.\<close>

datatype queue_event = Offer payload | WriterPass bool

fun queue_step :: "queue_event \<Rightarrow> ClientQ \<Rightarrow> ClientQ" where
  "queue_step (Offer p) c = enqueue p c"
| "queue_step (WriterPass ok) c = write_step ok c"

definition run_queue :: "queue_event list \<Rightarrow> ClientQ" where
  "run_queue evs = fold queue_step evs newClientQ"

fun offers :: "queue_event list \<Rightarrow> payload list" where
  "offers [] = []"
| "offers (Offer p # evs) = p # offers evs"
| "offers (WriterPass ok # evs) = offers evs"

lemma offers_append [simp]: "offers (xs @ ys) = offers xs @ offers ys"
  by (induction xs rule: offers.induct) auto

inductive subseq_of :: "payload list \<Rightarrow> payload list \<Rightarrow> bool" where
  subseq_nil: "subseq_of [] ys"
| subseq_keep: "subseq_of xs ys \<Longrightarrow> subseq_of (xs @ [y]) (ys @ [y])"
| subseq_skip: "subseq_of xs ys \<Longrightarrow> subseq_of xs (ys @ [y])"

lemma subseq_of_prefix: "subseq_of (xs @ zs) ys \<Longrightarrow> subseq_of xs ys"
proof (induction zs rule: rev_induct)
  case (snoc z zs)
  have "subseq_of ws ys \<Longrightarrow> ws = xs @ zs @ [z] \<Longrightarrow> subseq_of (xs @ zs) ys" for ws
    by (induction rule: subseq_of.induct) (auto intro: subseq_of.intros)
  then show ?case using snoc by simp
qed simp

definition queue_ok :: "queue_event list \<Rightarrow> ClientQ \<Rightarrow> bool" where
  "queue_ok evs c \<longleftrightarrow> length (cq_outQ c) \<le> clientOutQueue \<and>
     (\<not> cq_writerGone c \<longrightarrow> subseq_of (cq_written c @ cq_outQ c) (offers evs) \<and>
        of_nat (length (cq_written c) + length (cq_outQ c)) + cq_outDropped c = of_nat (length (offers evs))) \<and>
     subseq_of (cq_written c) (offers evs)"

lemma queue_ok_step: "queue_ok evs c \<Longrightarrow> queue_ok (evs @ [ev]) (queue_step ev c)"
proof (cases ev)
  case (Offer p)
  assume "queue_ok evs c"
  then show ?thesis
    using subseq_of.subseq_keep [of "cq_written c @ cq_outQ c" "offers evs" p]
    by (auto simp: Offer queue_ok_def enqueue_def ac_simps intro: subseq_of.intros)
next
  case (WriterPass ok)
  assume q: "queue_ok evs c"
  show ?thesis
  proof (cases "cq_writerGone c \<or> cq_outQ c = []")
    case True
    with q show ?thesis by (auto simp: WriterPass queue_ok_def write_step_def split: list.split)
  next
    case False
    then obtain p rest where c: "cq_outQ c = p # rest" "\<not> cq_writerGone c" by (cases "cq_outQ c") auto
    with q have "subseq_of (cq_written c @ [p]) (offers evs)"
      using subseq_of_prefix [of "cq_written c @ [p]" rest] by (simp add: queue_ok_def)
    with q c show ?thesis by (auto simp: WriterPass queue_ok_def write_step_def ac_simps)
  qed
qed

text \<open>
  A slow connection costs only its own messages: its queue never holds more than
  \<^verbatim>\<open>clientOutQueue\<close> payloads, what it receives is a subsequence of what was sent to it in the
  order sent, and until a write fails every payload is written, waiting or counted as dropped.
\<close>

lemma slow_client_is_bounded:
  "length (cq_outQ (run_queue evs)) \<le> clientOutQueue \<and>
   subseq_of (cq_written (run_queue evs)) (offers evs) \<and>
   (cq_writerGone (run_queue evs) \<or>
      of_nat (length (cq_written (run_queue evs)) + length (cq_outQ (run_queue evs)))
        + cq_outDropped (run_queue evs) = of_nat (length (offers evs)))"
proof -
  have "queue_ok evs (run_queue evs)"
    unfolding run_queue_def
  proof (induction evs rule: rev_induct)
    case Nil
    then show ?case by (auto simp: queue_ok_def newClientQ_def intro: subseq_of.intros)
  next
    case (snoc ev evs)
    then show ?case using queue_ok_step by simp
  qed
  then show ?thesis by (auto simp: queue_ok_def)
qed

end
