(* ===== verification/StubServer.thy ===== *)
theory StubServer
  imports Disruptor
begin

text \<open>
  The connection handling of \<^verbatim>\<open>examples/stub-engine/main.go\<close>: the one-pass decoding of an
  inbound message, the dispatch of the WebSocket loop, the REST handler, the origin guard, the
  audit log, and the start-up checks of \<^verbatim>\<open>main\<close>.

  JSON decoding is the library's: a frame arrives as its decoded value or as a decoding
  failure.  What the server sends is recorded in order, and so is what it logs.
\<close>

section \<open>Inbound messages\<close>

record Inbound =
  in_Type :: string
  in_RunID :: string
  in_ClientOrderID :: string
  in_Symbol :: string
  in_Side :: string
  in_Price :: int
  in_Qty :: int
  in_TsNs :: u64
  in_OrderType :: string
  in_OrigClientOrderID :: string

definition asNewOrder :: "Inbound \<Rightarrow> NewOrder" where
  "asNewOrder i =
     \<lparr>no_Type = in_Type i, no_RunID = in_RunID i, no_ClientOrderID = in_ClientOrderID i,
      no_Symbol = in_Symbol i, no_Side = in_Side i, no_Price = in_Price i, no_Qty = in_Qty i,
      no_TsNs = in_TsNs i, no_OrderType = in_OrderType i\<rparr>"

definition asCancel :: "Inbound \<Rightarrow> CancelOrder" where
  "asCancel i =
     \<lparr>co_Type = in_Type i, co_RunID = in_RunID i, co_ClientOrderID = in_ClientOrderID i,
      co_OrigClientOrderID = in_OrigClientOrderID i, co_TsNs = in_TsNs i\<rparr>"

section \<open>The audit log\<close>

definition auditBuffer :: nat where "auditBuffer = 65536"

datatype message = MRaw Inbound | MGarbage string | MAck Ack | MFill Fill

record auditEntry =
  ae_Direction :: string
  ae_Transport :: string
  ae_TsNs :: u64
  ae_Message :: message

record JSONLLogger =
  lg_ch :: "auditEntry list"
  lg_file :: "auditEntry list"
  lg_dropped :: u64
  lg_closed :: bool

definition NewJSONLLogger :: JSONLLogger where
  "NewJSONLLogger = \<lparr>lg_ch = [], lg_file = [], lg_dropped = 0, lg_closed = False\<rparr>"

definition Logger_Write :: "auditEntry \<Rightarrow> JSONLLogger option \<Rightarrow> JSONLLogger option" where
  "Logger_Write v lo =
     (case lo of
        None \<Rightarrow> None
      | Some l \<Rightarrow>
          Some (if length (lg_ch l) < auditBuffer then l\<lparr>lg_ch := lg_ch l @ [v]\<rparr>
                else l\<lparr>lg_dropped := lg_dropped l + 1\<rparr>))"

text \<open>One pass of the background writer, and the drain that \<^verbatim>\<open>Close\<close> waits for.\<close>

definition Logger_pump :: "JSONLLogger \<Rightarrow> JSONLLogger" where
  "Logger_pump l =
     (case lg_ch l of
        [] \<Rightarrow> l
      | v # rest \<Rightarrow> if lg_closed l then l else l\<lparr>lg_ch := rest, lg_file := lg_file l @ [v]\<rparr>)"

definition Logger_Close :: "JSONLLogger option \<Rightarrow> JSONLLogger option" where
  "Logger_Close lo =
     (case lo of
        None \<Rightarrow> None
      | Some l \<Rightarrow> Some (l\<lparr>lg_file := lg_file l @ lg_ch l, lg_ch := [], lg_closed := True\<rparr>))"

section \<open>The server\<close>

datatype engine_kind = Mutex Engine | Disruptor DisruptorEngine

record Server =
  sv_engine :: engine_kind
  sv_logger :: "JSONLLogger option"
  sv_sent :: "(client \<times> message) list"

definition logMsg :: "string \<Rightarrow> string \<Rightarrow> u64 \<Rightarrow> message \<Rightarrow> Server \<Rightarrow> Server" where
  "logMsg direction transport now msg s =
     s\<lparr>sv_logger := Logger_Write \<lparr>ae_Direction = direction, ae_Transport = transport, ae_TsNs = now,
        ae_Message = msg\<rparr> (sv_logger s)\<rparr>"

definition sendToClient :: "u64 \<Rightarrow> client \<Rightarrow> message \<Rightarrow> Server \<Rightarrow> Server" where
  "sendToClient now c msg s =
     (let s1 = logMsg ''out'' ''ws'' now msg s in s1\<lparr>sv_sent := sv_sent s1 @ [(c, msg)]\<rparr>)"

definition sendFill :: "u64 \<Rightarrow> FillDelivery \<Rightarrow> Server \<Rightarrow> Server" where
  "sendFill now d s =
     fold (\<lambda>c s. case c of None \<Rightarrow> s | Some cl \<Rightarrow> sendToClient now cl (MFill (fd_Fill d)) s) (fd_Recipients d) s"

definition Server_reject :: "u64 \<Rightarrow> client \<Rightarrow> string \<Rightarrow> Server \<Rightarrow> Server" where
  "Server_reject now c reason s =
     (case sv_engine s of
        Disruptor de \<Rightarrow> s\<lparr>sv_engine := Disruptor (Reject de now (Some c) reason)\<rparr>
      | Mutex e \<Rightarrow>
          (let (e', ack) = RejectAck e now reason
           in sendToClient now c (MAck ack) (s\<lparr>sv_engine := Mutex e'\<rparr>)))"

text \<open>One pass of the read loop of \<^verbatim>\<open>ws\<close>, after \<^verbatim>\<open>ReadMessage\<close> has returned a frame.\<close>

definition ws_frame :: "u64 \<Rightarrow> client \<Rightarrow> string + Inbound \<Rightarrow> Server \<Rightarrow> Server" where
  "ws_frame now c raw s0 =
     (let s = logMsg ''in'' ''ws'' now (case raw of Inl g \<Rightarrow> MGarbage g | Inr i \<Rightarrow> MRaw i) s0 in
      case raw of
        Inl _ \<Rightarrow> Server_reject now c ''invalid_json'' s
      | Inr i \<Rightarrow>
          if in_Type i = ''new_order''
          then (case sv_engine s of
                  Disruptor de \<Rightarrow> s\<lparr>sv_engine := Disruptor (SubmitNew de (asNewOrder i) (Some c))\<rparr>
                | Mutex e \<Rightarrow>
                    (let (e', ack, ds) = ProcessNew e now (asNewOrder i) (Some c)
                     in fold (sendFill now) ds (sendToClient now c (MAck ack) (s\<lparr>sv_engine := Mutex e'\<rparr>))))
          else if in_Type i = ''cancel_order''
          then (case sv_engine s of
                  Disruptor de \<Rightarrow> s\<lparr>sv_engine := Disruptor (SubmitCancel de now (asCancel i) (Some c))\<rparr>
                | Mutex e \<Rightarrow>
                    (let (e', ack) = ProcessCancel e now (asCancel i)
                     in sendToClient now c (MAck ack) (s\<lparr>sv_engine := Mutex e'\<rparr>)))
          else Server_reject now c ''unknown_type'' s)"

text \<open>
  The REST handler.  The body is decoded in up to three stages, each of which may fail; the
  response is the status with the ack and the fills, when there are any.
\<close>

datatype rest_body =
    RestUndecodable | RestNoType Inbound | RestBadFields Inbound | RestMessage Inbound

record rest_response =
  rr_Status :: nat
  rr_Ack :: "Ack option"
  rr_Fills :: "Fill list"

definition rest_error :: "nat \<Rightarrow> rest_response" where
  "rest_error code = \<lparr>rr_Status = code, rr_Ack = None, rr_Fills = []\<rparr>"

definition orders :: "u64 \<Rightarrow> rest_body \<Rightarrow> Server \<Rightarrow> Server \<times> rest_response" where
  "orders now body s =
     (case sv_engine s of
        Disruptor _ \<Rightarrow> (s, rest_error 501)
      | Mutex e \<Rightarrow>
          (let handle = (\<lambda>i ok.
             let s1 = logMsg ''in'' ''rest'' now (MRaw i) s in
             if in_Type i = ''new_order''
             then if \<not> ok then (s1, rest_error 400)
                  else let (e', ack, ds) = ProcessNew e now (asNewOrder i) None;
                           s2 = fold (sendFill now) ds (s1\<lparr>sv_engine := Mutex e'\<rparr>);
                           s3 = logMsg ''out'' ''rest'' now (MAck ack) s2
                       in (s3, \<lparr>rr_Status = 200, rr_Ack = Some ack, rr_Fills = map fd_Fill ds\<rparr>)
             else if in_Type i = ''cancel_order''
             then if \<not> ok then (s1, rest_error 400)
                  else let (e', ack) = ProcessCancel e now (asCancel i);
                           s3 = logMsg ''out'' ''rest'' now (MAck ack) (s1\<lparr>sv_engine := Mutex e'\<rparr>)
                       in (s3, \<lparr>rr_Status = 200, rr_Ack = Some ack, rr_Fills = []\<rparr>)
             else (s1, rest_error 400))
           in case body of
                RestUndecodable \<Rightarrow> (s, rest_error 400)
              | RestNoType _ \<Rightarrow> (s, rest_error 400)
              | RestBadFields i \<Rightarrow> handle i False
              | RestMessage i \<Rightarrow> handle i True))"

text \<open>
  The origin guard; \<open>hostname\<close> is \<^verbatim>\<open>url.Parse\<close> followed by \<^verbatim>\<open>Hostname()\<close>, \<^const>\<open>None\<close> for an
  unparsable origin.
\<close>

definition checkOrigin :: "(string \<Rightarrow> string option) \<Rightarrow> string \<Rightarrow> bool" where
  "checkOrigin hostname origin =
     (if origin = [] then True
      else case hostname origin of
        None \<Rightarrow> False
      | Some host \<Rightarrow> host = ''localhost'' \<or> host = ''127.0.0.1'' \<or> host = ''::1'' \<or> host = ''[::1]'')"

text \<open>The start-up of \<^verbatim>\<open>main\<close>: which server the flags give, or a fatal error.\<close>

definition start_server :: "string \<Rightarrow> string \<Rightarrow> string \<Rightarrow> bool \<Rightarrow> string + Server" where
  "start_server mode engineKind eventsPath createOK =
     (if mode \<noteq> ''normal'' \<and> mode \<noteq> ''broken-price-time-priority'' then Inl ''unsupported mode''
      else if eventsPath \<noteq> [] \<and> \<not> createOK then Inl ''open event log''
      else let lg = (if eventsPath = [] then None else Some NewJSONLLogger) in
        if engineKind = ''disruptor''
        then Inr \<lparr>sv_engine = Disruptor (NewDisruptorEngine mode), sv_logger = lg, sv_sent = []\<rparr>
        else if engineKind = ''mutex'' \<or> engineKind = []
        then Inr \<lparr>sv_engine = Mutex (newEngine mode), sv_logger = lg, sv_sent = []\<rparr>
        else Inl ''unknown --engine'')"

section \<open>Every frame is answered\<close>

lemma sv_sent_logMsg [simp]: "sv_sent (logMsg d t now m s) = sv_sent s"
  and sv_engine_logMsg [simp]: "sv_engine (logMsg d t now m s) = sv_engine s"
  by (simp_all add: logMsg_def)

lemma sv_sent_sendToClient [simp]: "sv_sent (sendToClient now c m s) = sv_sent s @ [(c, m)]"
  and sv_engine_sendToClient [simp]: "sv_engine (sendToClient now c m s) = sv_engine s"
  by (simp_all add: sendToClient_def Let_def)

definition fill_sends :: "FillDelivery \<Rightarrow> (client \<times> message) list" where
  "fill_sends d = map (\<lambda>c. (the c, MFill (fd_Fill d))) (filter (\<lambda>c. c \<noteq> None) (fd_Recipients d))"

lemma sv_sent_sendFill [simp]: "sv_sent (sendFill now d s) = sv_sent s @ fill_sends d"
  and sv_engine_sendFill [simp]: "sv_engine (sendFill now d s) = sv_engine s"
proof -
  have "sv_sent (fold (\<lambda>c s. case c of None \<Rightarrow> s | Some cl \<Rightarrow> sendToClient now cl m s) cs s) =
      sv_sent s @ map (\<lambda>c. (the c, m)) (filter (\<lambda>c. c \<noteq> None) cs) \<and>
    sv_engine (fold (\<lambda>c s. case c of None \<Rightarrow> s | Some cl \<Rightarrow> sendToClient now cl m s) cs s) = sv_engine s"
    for cs m
  proof (induction cs arbitrary: s)
    case (Cons c cs)
    then show ?case by (cases c) simp_all
  qed simp
  then show "sv_sent (sendFill now d s) = sv_sent s @ fill_sends d"
    and "sv_engine (sendFill now d s) = sv_engine s"
    by (simp_all add: sendFill_def fill_sends_def)
qed

lemma sv_sent_fills [simp]: "sv_sent (fold (sendFill now) ds s) = sv_sent s @ concat (map fill_sends ds)"
  and sv_engine_fills [simp]: "sv_engine (fold (sendFill now) ds s) = sv_engine s"
  by (induction ds arbitrary: s) simp_all

text \<open>The recipients of a fill, whichever loop pass made it.\<close>

lemma match_iter_recipients:
  "match_iter bs e book a mk = Some (e', book', d) \<Longrightarrow> \<exists>x y. fd_Recipients d = uniqueClients [x, y]"
  by (cases bs)
    (fastforce simp: match_iter_def matchBuy_iter_def matchSell_iter_def nextSeq_def Let_def
      simp del: uniqueClients.simps split: if_splits)+

lemma Engine_match_recipients:
  "Engine_match bs e book a mk = (e', book', ds) \<Longrightarrow>
     \<forall>d\<in>set ds. distinct (fd_Recipients d) \<and> None \<notin> set (fd_Recipients d)"
proof (induction "work (c_heap e) a (opp bs book)" arbitrary: e book ds rule: less_induct)
  case less
  show ?case
  proof (cases "match_iter bs e book a mk")
    case None
    with less.prems show ?thesis by (simp add: Engine_match_simps [of bs e])
  next
    case (Some x)
    obtain e1 b1 d where x: "x = (e1, b1, d)" by (cases x)
    obtain ds1 where ds1: "Engine_match bs e1 b1 a mk = (e', book', ds1)" "ds = d # ds1"
      using less.prems by (auto simp: Engine_match_simps [of bs e] Some x split: prod.splits)
    then have "\<forall>d\<in>set ds1. distinct (fd_Recipients d) \<and> None \<notin> set (fd_Recipients d)"
      using less.hyps match_iter_decreases [OF Some [unfolded x]] by blast
    moreover obtain y z where "fd_Recipients d = uniqueClients [y, z]"
      using match_iter_recipients [OF Some [unfolded x]] by blast
    moreover have "None \<notin> set (uniqueClients [y, z])" "distinct (uniqueClients [y, z])"
      using set_uniqueClients [of "[y, z]"] distinct_uniqueClients [of "[y, z]"] by blast+
    ultimately show ?thesis by (simp add: ds1(2) del: uniqueClients.simps)
  qed
qed

lemma ProcessNew_from_match:
  assumes "ProcessNew e now ord owner = (e', ack, ds)"
  shows "ack_Type ack = ''ack'' \<and>
    (ds = [] \<or> (\<exists>bs (e0 :: Engine) book a mk e3 book2. Engine_match bs e0 book a mk = (e3, book2, ds)))"
proof (cases "invalid_order ord \<or> length (no_ClientOrderID ord) > maxOrderFieldLen \<or>
    length (no_Symbol ord) > maxOrderFieldLen")
  case True
  with assms show ?thesis by (auto simp: ProcessNew_def nextSeq_def mkAck_def split: if_splits)
next
  case False
  obtain symbol book e1 where
    bf: "bookFor e (if no_Symbol ord = [] then ''DEFAULT'' else no_Symbol ord) = (symbol, book, e1)"
    using prod_cases3 by blast
  have new: "ProcessNew_locked e1 now ord owner symbol book = (e', ack, ds)"
    using False bf assms by (simp add: ProcessNew_def Let_def)
  obtain e3 book2 ds3 where m: "Engine_match (is_buy ord) (new_core e1 ord owner symbol book)
      (book\<lparr>b_insertSeq := b_insertSeq book + 1\<rparr>) (c_next e1) (is_market ord) = (e3, book2, ds3)"
    using prod_cases3 by blast
  have "ds = ds3" and "ack_Type ack = ''ack''"
    using new by (auto simp: ProcessNew_locked_eq Let_def m mkAck_def rejectResidual_def split: if_splits)
  with m show ?thesis by blast
qed

lemma ProcessNew_recipients:
  assumes "ProcessNew e now ord owner = (e', ack, ds)"
  shows "\<forall>d\<in>set ds. distinct (fill_sends d)"
proof
  fix d assume d: "d \<in> set ds"
  with ProcessNew_from_match [OF assms] obtain bs and e0 :: Engine and book a mk e3 book2
    where "Engine_match bs e0 book a mk = (e3, book2, ds)" by auto
  from Engine_match_recipients [OF this] d
  have "distinct (fd_Recipients d)" by blast
  then show "distinct (fill_sends d)"
    by (auto simp: fill_sends_def distinct_map inj_on_def)
qed

lemma ProcessCancel_ack:
  assumes "ProcessCancel e now c = (e', ack)"
  shows "ack_Type ack = ''ack'' \<and> ack_EngineSeq ack = c_engineSeq e + 1"
proof (cases "c_index e (co_OrigClientOrderID c)")
  case None
  with assms show ?thesis by (auto simp: ProcessCancel_def ProcessCancel_load_def nextSeq_def mkAck_def)
next
  case (Some r)
  then have "ProcessCancel_locked e now c r = (e', ack)"
    using assms by (simp add: ProcessCancel_def ProcessCancel_load_def)
  moreover from this have "ack_Type ack = ''ack''"
    by (auto simp: ProcessCancel_locked_def nextSeq_def mkAck_def Let_def split: prod.splits if_splits)
  ultimately show ?thesis using ProcessCancel_locked_seqs by blast
qed



section \<open>The audit log loses only what it counts\<close>

datatype log_event = LWrite auditEntry | LPump

fun log_step :: "log_event \<Rightarrow> JSONLLogger option \<Rightarrow> JSONLLogger option" where
  "log_step (LWrite v) lo = Logger_Write v lo"
| "log_step LPump lo = map_option Logger_pump lo"

definition run_log :: "log_event list \<Rightarrow> JSONLLogger option" where
  "run_log evs = fold log_step evs (Some NewJSONLLogger)"

fun log_writes :: "log_event list \<Rightarrow> nat" where
  "log_writes [] = 0"
| "log_writes (LWrite v # evs) = Suc (log_writes evs)"
| "log_writes (LPump # evs) = log_writes evs"

lemma log_writes_append [simp]: "log_writes (xs @ ys) = log_writes xs + log_writes ys"
  by (induction xs rule: log_writes.induct) auto

definition log_ok :: "nat \<Rightarrow> JSONLLogger option \<Rightarrow> bool" where
  "log_ok n lo \<longleftrightarrow> (case lo of None \<Rightarrow> False | Some l \<Rightarrow> \<not> lg_closed l \<and> length (lg_ch l) \<le> auditBuffer \<and>
     of_nat (length (lg_file l) + length (lg_ch l)) + lg_dropped l = of_nat n)"

lemma log_ok_run: "log_ok (log_writes evs) (run_log evs)"
proof (induction evs rule: rev_induct)
  case Nil
  then show ?case by (simp add: run_log_def log_ok_def NewJSONLLogger_def)
next
  case (snoc ev evs)
  obtain l where l: "run_log evs = Some l" using snoc by (cases "run_log evs") (simp_all add: log_ok_def)
  then have "run_log (evs @ [ev]) = log_step ev (Some l)" by (simp add: run_log_def)
  then show ?case
    using snoc l by (cases ev)
      (auto simp: log_ok_def Logger_Write_def Logger_pump_def ac_simps split: list.split)
qed

text \<open>
  After a graceful close the audit file holds every entry that was offered except those
  counted as dropped: nothing that was queued is lost, and the buffer bound is never exceeded.
\<close>

lemma audit_log_complete:
  "\<exists>l. Logger_Close (run_log evs) = Some l \<and> lg_ch l = [] \<and>
     of_nat (length (lg_file l)) + lg_dropped l = of_nat (log_writes evs) \<and>
     (\<exists>l0. run_log evs = Some l0 \<and> lg_file l = lg_file l0 @ lg_ch l0 \<and> length (lg_ch l0) \<le> auditBuffer)"
  using log_ok_run [of evs]
  by (auto simp: log_ok_def Logger_Close_def split: option.splits)

end
