(* ===== verification/RunModel.thy ===== *)
theory RunModel
  imports Complex_Main Prelude "HOL-Library.List_Lexorder"
begin

text \<open>
  The data of the orchestrator, \<^verbatim>\<open>services/orchestrator/internal/model\<close>: submissions, runs,
  metrics and results, the run status with its order along the pipeline, and the conversion to
  the wire types.

  A \<^verbatim>\<open>time.Time\<close> is a number of nanoseconds since the epoch; \<^verbatim>\<open>Unix()\<close> is its floor in
  seconds.  A \<^verbatim>\<open>float64\<close> is \<open>f64\<close>: not a number, an infinity, or a real value; how results are
  rounded to representable values is a parameter of the operations that compute with them
  (theory \<^verbatim>\<open>Scoring\<close>).
\<close>

section \<open>Floating-point values\<close>

datatype f64 = NaN | PInf | NInf | Fin real

fun f_less :: "f64 \<Rightarrow> f64 \<Rightarrow> bool" where
  "f_less NaN y = False"
| "f_less x NaN = False"
| "f_less PInf y = False"
| "f_less x NInf = False"
| "f_less NInf y = True"
| "f_less x PInf = True"
| "f_less (Fin a) (Fin b) = (a < b)"

definition f_eq :: "f64 \<Rightarrow> f64 \<Rightarrow> bool" where
  "f_eq x y \<longleftrightarrow> x \<noteq> NaN \<and> y \<noteq> NaN \<and> x = y"

definition f_le :: "f64 \<Rightarrow> f64 \<Rightarrow> bool" where
  "f_le x y \<longleftrightarrow> f_less x y \<or> f_eq x y"

definition IsNaN :: "f64 \<Rightarrow> bool" where "IsNaN x \<longleftrightarrow> x = NaN"
definition IsInf :: "f64 \<Rightarrow> bool" where "IsInf x \<longleftrightarrow> x = PInf \<or> x = NInf"

definition Unix :: "int \<Rightarrow> int" where "Unix t = t div 1000000000"

section \<open>Run status\<close>

text \<open>The status is a string type; any other string read from a file is \<open>OtherStatus\<close>.\<close>

datatype RunStatus =
    Queued | Building | SandboxStarting | HealthChecking | Benchmarking | Validating | Scoring
  | Finished | Failed | Cancelled | TimedOut | OtherStatus string

fun status_string :: "RunStatus \<Rightarrow> string" where
  "status_string Queued = ''QUEUED''"
| "status_string Building = ''BUILDING''"
| "status_string SandboxStarting = ''SANDBOX_STARTING''"
| "status_string HealthChecking = ''HEALTHCHECKING''"
| "status_string Benchmarking = ''BENCHMARKING''"
| "status_string Validating = ''VALIDATING''"
| "status_string Scoring = ''SCORING''"
| "status_string Finished = ''FINISHED''"
| "status_string Failed = ''FAILED''"
| "status_string Cancelled = ''CANCELLED''"
| "status_string TimedOut = ''TIMED_OUT''"
| "status_string (OtherStatus s) = s"

definition Terminal :: "RunStatus \<Rightarrow> bool" where
  "Terminal status \<longleftrightarrow> status = Finished \<or> status = Failed \<or> status = Cancelled \<or> status = TimedOut"

text \<open>Statuses are ordered by their place in the pipeline; the terminal ones come last.\<close>

fun status_rank :: "RunStatus \<Rightarrow> nat" where
  "status_rank Queued = 0"
| "status_rank Building = 1"
| "status_rank SandboxStarting = 2"
| "status_rank HealthChecking = 3"
| "status_rank Benchmarking = 4"
| "status_rank Validating = 5"
| "status_rank Scoring = 6"
| "status_rank Finished = 7"
| "status_rank Failed = 8"
| "status_rank Cancelled = 9"
| "status_rank TimedOut = 10"
| "status_rank (OtherStatus s) = 11"

definition status_of_rank :: "nat \<Rightarrow> string \<Rightarrow> RunStatus" where
  "status_of_rank n s =
     (if n < 11 then [Queued, Building, SandboxStarting, HealthChecking, Benchmarking, Validating,
        Scoring, Finished, Failed, Cancelled, TimedOut] ! n
      else OtherStatus s)"

lemma status_of_rank [simp]: "status_of_rank (status_rank a) (status_string a) = a"
  by (cases a) (simp_all add: status_of_rank_def)

lemma status_rank_inj:
  "status_rank a = status_rank b \<Longrightarrow> status_string a = status_string b \<Longrightarrow> a = b"
  by (metis status_of_rank)

instantiation RunStatus :: linorder
begin

definition less_eq_RunStatus :: "RunStatus \<Rightarrow> RunStatus \<Rightarrow> bool" where
  "less_eq_RunStatus a b \<longleftrightarrow> status_rank a < status_rank b \<or>
     status_rank a = status_rank b \<and> status_string a \<le> status_string b"

definition less_RunStatus :: "RunStatus \<Rightarrow> RunStatus \<Rightarrow> bool" where
  "less_RunStatus a b \<longleftrightarrow> (a :: RunStatus) \<le> b \<and> \<not> b \<le> a"

instance
proof
  fix x y z :: RunStatus
  show "x < y \<longleftrightarrow> x \<le> y \<and> \<not> y \<le> x" by (simp add: less_RunStatus_def)
  show "x \<le> x" by (simp add: less_eq_RunStatus_def)
  show "x \<le> z" if "x \<le> y" "y \<le> z"
    using that by (auto simp: less_eq_RunStatus_def)
  show "x = y" if "x \<le> y" "y \<le> x"
  proof (rule status_rank_inj)
    show "status_rank x = status_rank y" using that by (auto simp: less_eq_RunStatus_def)
    then show "status_string x = status_string y"
      using that unfolding less_eq_RunStatus_def by (intro order_antisym) auto
  qed
  show "x \<le> y \<or> y \<le> x"
    by (auto simp: less_eq_RunStatus_def)
qed

end

lemma status_le_rank: "status_rank a < status_rank b \<Longrightarrow> a < b"
  by (auto simp: less_RunStatus_def less_eq_RunStatus_def)

section \<open>Records\<close>

record SubmissionArtifact =
  sa_ArtifactID :: string
  sa_URI :: string
  sa_SHA256 :: string
  sa_SizeBytes :: int
  sa_Filename :: string
  sa_ContentType :: string

record Submission =
  sb_SubmissionID :: string
  sb_TeamID :: string
  sb_Language :: string
  sb_Protocol :: string
  sb_Artifact :: SubmissionArtifact
  sb_CreatedAtUnix :: int
  sb_CreatedAt :: int

record SandboxSpec =
  sx_CPULimit :: string
  sx_MemoryLimit :: string
  sx_NetworkEgress :: bool

record BenchmarkRunConfig =
  bc_BotCount :: int
  bc_RatePerBot :: int
  bc_DurationSec :: int
  bc_WarmupSec :: int
  bc_EngineEndpoint :: string

record BenchmarkRun =
  br_RunID :: string
  br_SubmissionID :: string
  br_TeamID :: string
  br_Status :: RunStatus
  br_BenchmarkSeed :: int
  br_Sandbox :: SandboxSpec
  br_Config :: BenchmarkRunConfig
  br_ArtifactDir :: string
  br_Valid :: "bool option"
  br_Score :: f64
  br_FailureStage :: string
  br_FailureReason :: string
  br_CreatedAtUnix :: int
  br_UpdatedAtUnix :: int
  br_FinishedAtUnix :: int
  br_CreatedAt :: int
  br_UpdatedAt :: int
  br_FinishedAt :: "int option"

record Metrics =
  mt_RunID :: string
  mt_Bots :: int
  mt_OrdersSent :: int
  mt_AcksReceived :: int
  mt_FillsReceived :: int
  mt_Timeouts :: int
  mt_ConnectErrors :: int
  mt_TPS :: f64
  mt_PeakTPS :: f64
  mt_P50MS :: f64
  mt_P90MS :: f64
  mt_P99MS :: f64
  mt_CPUPctPeak :: f64
  mt_MemMBPeak :: f64
  mt_EventsOut :: string
  mt_OutputsOut :: string
  mt_RawOutput :: string

record ValidationResult =
  vr_RunID :: string
  vr_Valid :: bool
  vr_FillsChecked :: int
  vr_Reason :: string
  vr_FirstBadSeq :: int

record ScoreResult =
  sr_RunID :: string
  sr_Score :: f64
  sr_Valid :: bool
  sr_LatencyScore :: f64
  sr_ThroughputScore :: f64
  sr_StabilityScore :: f64
  sr_ResourceScore :: f64
  sr_CorrectnessGate :: string
  sr_FailureReason :: string

record DirectBenchmarkRequest =
  dr_EndpointURL :: string
  dr_BenchmarkSeed :: int
  dr_Config :: BenchmarkRunConfig
  dr_TimeoutSec :: int

record DirectBenchmarkResult =
  dz_Run :: BenchmarkRun
  dz_Metrics :: "Metrics option"
  dz_Validation :: "ValidationResult option"
  dz_Score :: "ScoreResult option"

section \<open>Wire types\<close>

text \<open>
  The generated protobuf enum is a parameter: \<open>value_of\<close> is its name table, \<open>0\<close> the
  unspecified value.  \<^verbatim>\<open>int32(x)\<close> wraps.
\<close>

definition wrap32 :: "int \<Rightarrow> int" where
  "wrap32 x = (x + 2 ^ 31) mod 2 ^ 32 - 2 ^ 31"

record PConfig =
  pc_BotCount :: int
  pc_RatePerBot :: int
  pc_DurationSec :: int
  pc_WarmupSec :: int
  pc_EngineEndpoint :: string

record PArtifact =
  pa_ArtifactId :: string
  pa_Uri :: string
  pa_Sha256 :: string
  pa_SizeBytes :: int

record PSubmission =
  ps_SubmissionId :: string
  ps_TeamId :: string
  ps_Language :: string
  ps_Protocol :: string
  ps_Artifact :: PArtifact
  ps_CreatedAtUnix :: int

record PRun =
  pr_RunId :: string
  pr_SubmissionId :: string
  pr_TeamId :: string
  pr_Status :: int
  pr_BenchmarkSeed :: int
  pr_Sandbox :: SandboxSpec
  pr_Config :: PConfig
  pr_CreatedAtUnix :: int
  pr_UpdatedAtUnix :: int

record PScore =
  pz_RunId :: string
  pz_Valid :: bool
  pz_FinalScore :: f64
  pz_FailureReason :: string

definition runStatusToProto :: "(string \<Rightarrow> int option) \<Rightarrow> RunStatus \<Rightarrow> int" where
  "runStatusToProto value_of status =
     (case value_of (status_string status) of Some v \<Rightarrow> v | None \<Rightarrow> 0)"

definition Config_ToProto :: "BenchmarkRunConfig \<Rightarrow> PConfig" where
  "Config_ToProto c =
     \<lparr>pc_BotCount = wrap32 (bc_BotCount c), pc_RatePerBot = wrap32 (bc_RatePerBot c),
      pc_DurationSec = wrap32 (bc_DurationSec c), pc_WarmupSec = wrap32 (bc_WarmupSec c),
      pc_EngineEndpoint = bc_EngineEndpoint c\<rparr>"

definition Artifact_ToProto :: "SubmissionArtifact \<Rightarrow> PArtifact" where
  "Artifact_ToProto a =
     \<lparr>pa_ArtifactId = sa_ArtifactID a, pa_Uri = sa_URI a, pa_Sha256 = sa_SHA256 a,
      pa_SizeBytes = sa_SizeBytes a\<rparr>"

definition Submission_ToProto :: "Submission option \<Rightarrow> PSubmission option" where
  "Submission_ToProto so = map_option (\<lambda>s.
     \<lparr>ps_SubmissionId = sb_SubmissionID s, ps_TeamId = sb_TeamID s, ps_Language = sb_Language s,
      ps_Protocol = sb_Protocol s, ps_Artifact = Artifact_ToProto (sb_Artifact s),
      ps_CreatedAtUnix = sb_CreatedAtUnix s\<rparr>) so"

definition Run_ToProto :: "(string \<Rightarrow> int option) \<Rightarrow> BenchmarkRun option \<Rightarrow> PRun option" where
  "Run_ToProto value_of ro = map_option (\<lambda>r.
     \<lparr>pr_RunId = br_RunID r, pr_SubmissionId = br_SubmissionID r, pr_TeamId = br_TeamID r,
      pr_Status = runStatusToProto value_of (br_Status r), pr_BenchmarkSeed = br_BenchmarkSeed r,
      pr_Sandbox = br_Sandbox r, pr_Config = Config_ToProto (br_Config r),
      pr_CreatedAtUnix = br_CreatedAtUnix r, pr_UpdatedAtUnix = br_UpdatedAtUnix r\<rparr>) ro"

definition Score_ToProto :: "ScoreResult \<Rightarrow> PScore" where
  "Score_ToProto s =
     \<lparr>pz_RunId = sr_RunID s, pz_Valid = sr_Valid s, pz_FinalScore = sr_Score s,
      pz_FailureReason = sr_FailureReason s\<rparr>"

section \<open>Load ceilings\<close>

definition maxBotCount :: int where "maxBotCount = 5000"
definition maxRatePerBot :: int where "maxRatePerBot = 2000"
definition maxDurationSec :: int where "maxDurationSec = 300"

definition normalizeConfig :: "BenchmarkRunConfig \<Rightarrow> BenchmarkRunConfig" where
  "normalizeConfig c =
     (let c1 = (if bc_BotCount c \<le> 0 then c\<lparr>bc_BotCount := 10\<rparr> else c);
          c2 = (if bc_BotCount c1 > maxBotCount then c1\<lparr>bc_BotCount := maxBotCount\<rparr> else c1);
          c3 = (if bc_RatePerBot c2 \<le> 0 then c2\<lparr>bc_RatePerBot := 2\<rparr> else c2);
          c4 = (if bc_RatePerBot c3 > maxRatePerBot then c3\<lparr>bc_RatePerBot := maxRatePerBot\<rparr> else c3);
          c5 = (if bc_DurationSec c4 \<le> 0 then c4\<lparr>bc_DurationSec := 5\<rparr> else c4);
          c6 = (if bc_DurationSec c5 > maxDurationSec then c5\<lparr>bc_DurationSec := maxDurationSec\<rparr> else c5)
      in if bc_WarmupSec c6 < 0 then c6\<lparr>bc_WarmupSec := 0\<rparr> else c6)"

text \<open>The load a config asks for after clamping is within the ceilings.\<close>

definition load_ok :: "BenchmarkRunConfig \<Rightarrow> bool" where
  "load_ok c \<longleftrightarrow> 1 \<le> bc_BotCount c \<and> bc_BotCount c \<le> maxBotCount \<and>
     1 \<le> bc_RatePerBot c \<and> bc_RatePerBot c \<le> maxRatePerBot \<and>
     1 \<le> bc_DurationSec c \<and> bc_DurationSec c \<le> maxDurationSec \<and> 0 \<le> bc_WarmupSec c"

lemma normalizeConfig_load_ok: "load_ok (normalizeConfig c)"
  by (simp add: load_ok_def normalizeConfig_def Let_def maxBotCount_def maxRatePerBot_def
      maxDurationSec_def)

lemma normalizeConfig_id: "load_ok c \<Longrightarrow> normalizeConfig c = c"
  by (simp add: load_ok_def normalizeConfig_def Let_def)

lemma wrap32_id: "0 \<le> x \<Longrightarrow> x < 2 ^ 31 \<Longrightarrow> wrap32 x = x"
  by (simp add: wrap32_def)

text \<open>
  The clamp of a benchmark configuration always gives a load within the ceilings, leaves
  exactly the configurations that already are within them untouched, and so is idempotent;
  the clamped counts also survive the conversion to the 32-bit wire fields unchanged.
\<close>

lemma normalizeConfig_clamps:
  "load_ok (normalizeConfig c) \<and> (normalizeConfig c = c) = load_ok c \<and>
   normalizeConfig (normalizeConfig c) = normalizeConfig c \<and>
   (let p = Config_ToProto (normalizeConfig c) in
      pc_BotCount p = bc_BotCount (normalizeConfig c) \<and>
      pc_RatePerBot p = bc_RatePerBot (normalizeConfig c) \<and>
      pc_DurationSec p = bc_DurationSec (normalizeConfig c))"
proof -
  have ok: "load_ok (normalizeConfig c)" by (rule normalizeConfig_load_ok)
  moreover have "(normalizeConfig c = c) = load_ok c"
    using ok normalizeConfig_id by metis
  moreover have "normalizeConfig (normalizeConfig c) = normalizeConfig c"
    using ok by (rule normalizeConfig_id)
  moreover have "wrap32 (bc_BotCount (normalizeConfig c)) = bc_BotCount (normalizeConfig c)"
    "wrap32 (bc_RatePerBot (normalizeConfig c)) = bc_RatePerBot (normalizeConfig c)"
    "wrap32 (bc_DurationSec (normalizeConfig c)) = bc_DurationSec (normalizeConfig c)"
    using ok unfolding load_ok_def maxBotCount_def maxRatePerBot_def maxDurationSec_def
    by (auto intro!: wrap32_id)
  ultimately show ?thesis by (simp add: Config_ToProto_def Let_def)
qed

end
