(* ===== verification/RunStore.thy ===== *)
theory RunStore
  imports RunModel "HOL-Library.Multiset"
begin

text \<open>
  The JSON run store of the orchestrator, \<^verbatim>\<open>services/orchestrator/internal/store\<close>: one file
  that holds all submissions and runs, read and rewritten under a process lock and a file lock.

  An operation is one atomic step on the file, because the two locks are held from the read to
  the rename; the file is replaced by a rename, so a failed write leaves the old content.  The
  outcome of the system calls is an argument (\<open>StoreIO\<close>), and so is the clock.  \<^verbatim>\<open>sort.Slice\<close> is
  not stable, so the order it gives to runs created at the same time is not determined: the
  sorting function is a parameter \<open>srt\<close> of the operations that sort, and locale
  \<open>run_sorter\<close> is what the code relies on.
\<close>

section \<open>The file\<close>

record snapshot =
  sn_Submissions :: "Submission list"
  sn_Runs :: "BenchmarkRun list"

definition emptySnapshot :: snapshot where
  "emptySnapshot = \<lparr>sn_Submissions = [], sn_Runs = []\<rparr>"

datatype store_file = FileMissing | FileEmpty | FileCorrupt | FileSnap snapshot

datatype store_error = ErrNotFound | ErrIO | ErrInProgress RunStatus

text \<open>Whether the lock, the read, and each system call of the write succeed.\<close>

record StoreIO =
  io_lock :: bool
  io_read :: bool
  io_mkdir :: bool
  io_write :: bool
  io_rename :: bool

definition io_good :: StoreIO where
  "io_good = \<lparr>io_lock = True, io_read = True, io_mkdir = True, io_write = True, io_rename = True\<rparr>"

definition loadLocked :: "StoreIO \<Rightarrow> store_file \<Rightarrow> store_error + snapshot" where
  "loadLocked io f =
     (case f of
        FileMissing \<Rightarrow> Inr emptySnapshot
      | FileEmpty \<Rightarrow> if io_read io then Inr emptySnapshot else Inl ErrIO
      | FileCorrupt \<Rightarrow> Inl ErrIO
      | FileSnap s \<Rightarrow> if io_read io then Inr s else Inl ErrIO)"

definition writeLocked :: "StoreIO \<Rightarrow> snapshot \<Rightarrow> store_file \<Rightarrow> store_file \<times> store_error option" where
  "writeLocked io s f =
     (if \<not> io_mkdir io then (f, Some ErrIO)
      else if \<not> io_write io then (f, Some ErrIO)
      else if \<not> io_rename io then (f, Some ErrIO)
      else (FileSnap s, None))"

text \<open>A copy of a value is the value.\<close>

definition cloneRun :: "BenchmarkRun \<Rightarrow> BenchmarkRun" where "cloneRun run = run"

definition Touch :: "int \<Rightarrow> RunStatus \<Rightarrow> BenchmarkRun \<Rightarrow> BenchmarkRun" where
  "Touch now status run = run\<lparr>br_Status := status, br_UpdatedAt := now, br_UpdatedAtUnix := Unix now\<rparr>"

section \<open>Reads\<close>

definition GetSubmission :: "StoreIO \<Rightarrow> string \<Rightarrow> store_file \<Rightarrow> store_error + Submission" where
  "GetSubmission io sid f =
     (case loadLocked io f of
        Inl e \<Rightarrow> Inl e
      | Inr s \<Rightarrow> (case find (\<lambda>x. sb_SubmissionID x = sid) (sn_Submissions s) of
                   Some x \<Rightarrow> Inr x | None \<Rightarrow> Inl ErrNotFound))"

definition GetRun :: "StoreIO \<Rightarrow> string \<Rightarrow> store_file \<Rightarrow> store_error + BenchmarkRun" where
  "GetRun io rid f =
     (case loadLocked io f of
        Inl e \<Rightarrow> Inl e
      | Inr s \<Rightarrow> (case find (\<lambda>r. br_RunID r = rid) (sn_Runs s) of
                   Some r \<Rightarrow> Inr (cloneRun r) | None \<Rightarrow> Inl ErrNotFound))"

text \<open>\<open>srt\<close> sorts by creation time, oldest first; the list is shown newest first.\<close>

definition ListRuns ::
  "(BenchmarkRun list \<Rightarrow> BenchmarkRun list) \<Rightarrow> StoreIO \<Rightarrow> store_file \<Rightarrow> store_error + BenchmarkRun list" where
  "ListRuns srt io f =
     (case loadLocked io f of
        Inl e \<Rightarrow> Inl e
      | Inr s \<Rightarrow> Inr (rev (srt (map cloneRun (sn_Runs s)))))"

section \<open>Updates\<close>

fun save_first :: "BenchmarkRun \<Rightarrow> BenchmarkRun list \<Rightarrow> (bool \<times> BenchmarkRun list) option" where
  "save_first run [] = None"
| "save_first run (existing # rs) =
     (if br_RunID existing = br_RunID run
      then if Terminal (br_Status existing) \<and> Terminal (br_Status run) \<and> br_Status existing \<noteq> br_Status run
           then Some (False, existing # rs)
           else Some (True, cloneRun run # rs)
      else map_option (\<lambda>(w, rs'). (w, existing # rs')) (save_first run rs))"

definition SaveRun :: "StoreIO \<Rightarrow> BenchmarkRun \<Rightarrow> store_file \<Rightarrow> store_file \<times> store_error option" where
  "SaveRun io run f =
     (if \<not> io_lock io then (f, Some ErrIO)
      else case loadLocked io f of
        Inl e \<Rightarrow> (f, Some e)
      | Inr s \<Rightarrow>
          (case save_first run (sn_Runs s) of
             None \<Rightarrow> (f, Some ErrNotFound)
           | Some (False, _) \<Rightarrow> (f, None)
           | Some (True, rs) \<Rightarrow> writeLocked io (s\<lparr>sn_Runs := rs\<rparr>) f))"

text \<open>The claim of one run: the file, the run returned if any, the error if any.\<close>

fun claim_first :: "int \<Rightarrow> string \<Rightarrow> BenchmarkRun list \<Rightarrow>
    (BenchmarkRun \<times> (BenchmarkRun list) option \<times> store_error option) option" where
  "claim_first now rid [] = None"
| "claim_first now rid (r # rs) =
     (if br_RunID r \<noteq> rid
      then map_option (\<lambda>(x, rs', e). (x, map_option (\<lambda>l. r # l) rs', e)) (claim_first now rid rs)
      else if Terminal (br_Status r) then Some (cloneRun r, None, None)
      else if br_Status r \<noteq> Queued then Some (cloneRun r, None, Some (ErrInProgress (br_Status r)))
      else Some (Touch now Building r, Some (Touch now Building r # rs), None))"

definition ClaimRun :: "StoreIO \<Rightarrow> int \<Rightarrow> string \<Rightarrow> store_file \<Rightarrow>
    store_file \<times> BenchmarkRun option \<times> store_error option" where
  "ClaimRun io now rid f =
     (if \<not> io_lock io then (f, None, Some ErrIO)
      else case loadLocked io f of
        Inl e \<Rightarrow> (f, None, Some e)
      | Inr s \<Rightarrow>
          (case claim_first now rid (sn_Runs s) of
             None \<Rightarrow> (f, None, Some ErrNotFound)
           | Some (r, None, e) \<Rightarrow> (f, Some r, e)
           | Some (r, Some rs, _) \<Rightarrow>
               (case writeLocked io (s\<lparr>sn_Runs := rs\<rparr>) f of
                  (f', Some e) \<Rightarrow> (f', None, Some e)
                | (f', None) \<Rightarrow> (f', Some (cloneRun r), None))))"

fun claim_queued :: "int \<Rightarrow> BenchmarkRun list \<Rightarrow> (BenchmarkRun \<times> BenchmarkRun list) option" where
  "claim_queued now [] = None"
| "claim_queued now (r # rs) =
     (if br_Status r = Queued then Some (Touch now Building r, Touch now Building r # rs)
      else map_option (\<lambda>(x, rs'). (x, r # rs')) (claim_queued now rs))"

definition ClaimNextQueuedRun ::
  "(BenchmarkRun list \<Rightarrow> BenchmarkRun list) \<Rightarrow> StoreIO \<Rightarrow> int \<Rightarrow> store_file \<Rightarrow>
    store_file \<times> BenchmarkRun option \<times> store_error option" where
  "ClaimNextQueuedRun srt io now f =
     (if \<not> io_lock io then (f, None, Some ErrIO)
      else case loadLocked io f of
        Inl e \<Rightarrow> (f, None, Some e)
      | Inr s \<Rightarrow>
          (case claim_queued now (srt (sn_Runs s)) of
             None \<Rightarrow> (f, None, Some ErrNotFound)
           | Some (r, rs) \<Rightarrow>
               (case writeLocked io (s\<lparr>sn_Runs := rs\<rparr>) f of
                  (f', Some e) \<Rightarrow> (f', None, Some e)
                | (f', None) \<Rightarrow> (f', Some (cloneRun r), None))))"

section \<open>The file lock\<close>

text \<open>
  \<^verbatim>\<open>flock\<close> on the side-car file: any number of shared holders or one exclusive holder; a
  request that conflicts waits (\<^const>\<open>None\<close>).
\<close>

record flock_state =
  fk_shared :: nat
  fk_exclusive :: bool

definition acquireFileLock :: "bool \<Rightarrow> bool \<Rightarrow> flock_state \<Rightarrow> (flock_state + store_error) option" where
  "acquireFileLock opened exclusive k =
     (if \<not> opened then Some (Inr ErrIO)
      else if exclusive
           then if fk_exclusive k \<or> fk_shared k > 0 then None else Some (Inl (k\<lparr>fk_exclusive := True\<rparr>))
           else if fk_exclusive k then None else Some (Inl (k\<lparr>fk_shared := fk_shared k + 1\<rparr>)))"

definition releaseFileLock :: "bool \<Rightarrow> flock_state \<Rightarrow> flock_state" where
  "releaseFileLock exclusive k =
     (if exclusive then k\<lparr>fk_exclusive := False\<rparr> else k\<lparr>fk_shared := fk_shared k - 1\<rparr>)"

section \<open>What the code relies on when it sorts\<close>

locale run_sorter =
  fixes srt :: "BenchmarkRun list \<Rightarrow> BenchmarkRun list"
  assumes srt_mset: "mset (srt rs) = mset rs"
    and srt_sorted: "sorted_wrt (\<lambda>a b. br_CreatedAt a \<le> br_CreatedAt b) (srt rs)"
begin

lemma srt_set: "set (srt rs) = set rs"
  using srt_mset by (metis set_mset_mset)

lemma srt_ids: "mset (map br_RunID (srt rs)) = mset (map br_RunID rs)"
  by (metis mset_map srt_mset)

lemma srt_distinct: "distinct (map br_RunID (srt rs)) = distinct (map br_RunID rs)"
  using srt_ids mset_eq_imp_distinct_iff by blast

end

text \<open>The stable sort is one such function.\<close>

definition sort_runs :: "BenchmarkRun list \<Rightarrow> BenchmarkRun list" where
  "sort_runs rs = sort_key br_CreatedAt rs"

interpretation stable: run_sorter sort_runs
proof
  fix rs
  show "mset (sort_runs rs) = mset rs" by (simp add: sort_runs_def)
  have "sorted (map br_CreatedAt (sort_key br_CreatedAt rs))" by simp
  then show "sorted_wrt (\<lambda>a b. br_CreatedAt a \<le> br_CreatedAt b) (sort_runs rs)"
    by (simp add: sort_runs_def sorted_wrt_map)
qed


section \<open>The shape of the updates\<close>

definition runs_of :: "store_file \<Rightarrow> BenchmarkRun list" where
  "runs_of f = (case f of FileSnap s \<Rightarrow> sn_Runs s | _ \<Rightarrow> [])"

definition ids_ok :: "store_file \<Rightarrow> bool" where
  "ids_ok f \<longleftrightarrow> distinct (map br_RunID (runs_of f))"

definition run_in :: "store_file \<Rightarrow> string \<Rightarrow> BenchmarkRun option" where
  "run_in f rid = find (\<lambda>r. br_RunID r = rid) (runs_of f)"

lemma runs_of_load: "loadLocked io f = Inr s \<Longrightarrow> runs_of f = sn_Runs s"
  by (auto simp: loadLocked_def runs_of_def emptySnapshot_def split: store_file.splits if_splits)

lemma writeLocked_cases:
  assumes "writeLocked io s f = (f', e)"
  obtains "f' = f" "e = Some ErrIO" | "f' = FileSnap s" "e = None"
  using assms by (auto simp: writeLocked_def split: if_splits)

lemma Touch_id [simp]: "br_RunID (Touch now st r) = br_RunID r" "br_Status (Touch now st r) = st"
  "br_CreatedAt (Touch now st r) = br_CreatedAt r"
  by (simp_all add: Touch_def)

lemma save_first_ids: "save_first run rs = Some (w, rs') \<Longrightarrow> map br_RunID rs' = map br_RunID rs"
  by (induction rs arbitrary: w rs') (auto simp: cloneRun_def split: if_splits)

lemma save_first_find:
  "save_first run rs = Some (True, rs') \<Longrightarrow>
     find (\<lambda>r. br_RunID r = rid) rs' = (if rid = br_RunID run then Some run else find (\<lambda>r. br_RunID r = rid) rs)"
  by (induction rs arbitrary: rs') (auto simp: cloneRun_def split: if_splits)

lemma save_first_None: "save_first run rs = None \<longleftrightarrow> find (\<lambda>r. br_RunID r = br_RunID run) rs = None"
  by (induction rs) auto

text \<open>The guard: a terminal status is not replaced by a different terminal one.\<close>

definition refused :: "BenchmarkRun \<Rightarrow> BenchmarkRun \<Rightarrow> bool" where
  "refused old run \<longleftrightarrow>
     Terminal (br_Status old) \<and> Terminal (br_Status run) \<and> br_Status old \<noteq> br_Status run"

lemma save_first_refused:
  "find (\<lambda>r. br_RunID r = br_RunID run) rs = Some old \<Longrightarrow> refused old run \<Longrightarrow>
     save_first run rs = Some (False, rs)"
  by (induction rs) (auto simp: refused_def split: if_splits)

lemma save_first_accepted:
  "find (\<lambda>r. br_RunID r = br_RunID run) rs = Some old \<Longrightarrow> \<not> refused old run \<Longrightarrow>
     \<exists>rs'. save_first run rs = Some (True, rs')"
  by (induction rs) (auto simp: refused_def split: if_splits)

lemma claim_first_write:
  "claim_first now rid rs = Some (x, Some rs', e) \<Longrightarrow>
     e = None \<and> map br_RunID rs' = map br_RunID rs \<and>
     (\<exists>r. find (\<lambda>r. br_RunID r = rid) rs = Some r \<and> br_Status r = Queued \<and> x = Touch now Building r) \<and>
     (\<forall>i. find (\<lambda>r. br_RunID r = i) rs' = (if i = rid then Some x else find (\<lambda>r. br_RunID r = i) rs))"
  by (induction rs arbitrary: rs') (auto split: if_splits)

lemma claim_first_nowrite:
  "claim_first now rid rs = Some (x, None, e) \<Longrightarrow>
     find (\<lambda>r. br_RunID r = rid) rs = Some x \<and> br_Status x \<noteq> Queued \<and>
     (e = None \<longleftrightarrow> Terminal (br_Status x))"
  by (induction rs) (auto simp: cloneRun_def Terminal_def split: if_splits)

lemma claim_first_None: "claim_first now rid rs = None \<longleftrightarrow> find (\<lambda>r. br_RunID r = rid) rs = None"
  by (induction rs) auto

lemma claim_queued_Some:
  "claim_queued now rs = Some (x, rs') \<Longrightarrow> distinct (map br_RunID rs) \<Longrightarrow>
     map br_RunID rs' = map br_RunID rs \<and>
     (\<exists>pre r post. rs = pre @ r # post \<and> br_Status r = Queued \<and> (\<forall>q\<in>set pre. br_Status q \<noteq> Queued) \<and>
        x = Touch now Building r \<and> rs' = pre @ x # post)"
proof (induction rs arbitrary: rs')
  case (Cons r rs)
  show ?case
  proof (cases "br_Status r = Queued")
    case True
    with Cons.prems show ?thesis by (auto intro: exI [of _ "[]"])
  next
    case False
    then obtain rs1 where rs1: "claim_queued now rs = Some (x, rs1)" "rs' = r # rs1"
      using Cons.prems by auto
    from Cons.IH [OF rs1(1)] Cons.prems(2) obtain pre r0 post where
      "rs = pre @ r0 # post" "br_Status r0 = Queued" "\<forall>q\<in>set pre. br_Status q \<noteq> Queued"
      "x = Touch now Building r0" "rs1 = pre @ x # post" "map br_RunID rs1 = map br_RunID rs" by auto
    then show ?thesis using rs1(2) False by (auto intro!: exI [of _ "r # pre"])
  qed
qed simp

lemma claim_queued_None: "claim_queued now rs = None \<longleftrightarrow> (\<forall>r\<in>set rs. br_Status r \<noteq> Queued)"
  by (induction rs) auto

text \<open>With distinct identifiers, looking one up does not depend on the order of the runs.\<close>

lemma find_id_iff:
  assumes "distinct (map br_RunID rs)"
  shows "find (\<lambda>r. br_RunID r = rid) rs = Some r \<longleftrightarrow> r \<in> set rs \<and> br_RunID r = rid"
  using assms
proof (induction rs)
  case (Cons a rs)
  then show ?case by (cases "br_RunID a = rid") (auto simp: image_iff)
qed simp

lemma find_id_mset:
  assumes "distinct (map br_RunID rs)" and "mset rs' = mset rs"
  shows "find (\<lambda>r. br_RunID r = rid) rs' = find (\<lambda>r. br_RunID r = rid) rs"
proof -
  have d': "distinct (map br_RunID rs')"
    using assms by (metis mset_eq_imp_distinct_iff mset_map)
  have "set rs' = set rs" using assms(2) by (metis set_mset_mset)
  then have "find (\<lambda>r. br_RunID r = rid) rs' = Some r \<longleftrightarrow> find (\<lambda>r. br_RunID r = rid) rs = Some r" for r
    using find_id_iff [OF assms(1)] find_id_iff [OF d'] by simp
  then show ?thesis by (metis not_None_eq)
qed

section \<open>What each operation does to the runs\<close>

lemma SaveRun_result:
  assumes "SaveRun io run f = (f', e)"
  shows "map br_RunID (runs_of f') = map br_RunID (runs_of f)"
    and "e \<noteq> None \<Longrightarrow> f' = f"
    and "run_in f' rid = run_in f rid \<or> rid = br_RunID run \<and> run_in f' rid = Some run \<and> e = None"
    and "run_in f (br_RunID run) = Some old \<Longrightarrow> refused old run \<Longrightarrow> f' = f"
proof -
  have "map br_RunID (runs_of f') = map br_RunID (runs_of f) \<and> (e \<noteq> None \<longrightarrow> f' = f) \<and>
    (run_in f' rid = run_in f rid \<or> rid = br_RunID run \<and> run_in f' rid = Some run \<and> e = None) \<and>
    (run_in f (br_RunID run) = Some old \<longrightarrow> refused old run \<longrightarrow> f' = f)"
  proof (cases "io_lock io")
    case False
    with assms show ?thesis by (auto simp: SaveRun_def)
  next
    case lock: True
    show ?thesis
    proof (cases "loadLocked io f")
      case (Inl err)
      with assms lock show ?thesis by (auto simp: SaveRun_def)
    next
      case (Inr s)
      note rs = runs_of_load [OF Inr]
      show ?thesis
      proof (cases "save_first run (sn_Runs s)")
        case None
        with assms lock Inr show ?thesis by (auto simp: SaveRun_def)
      next
        case (Some p)
        obtain w rs' where p: "p = (w, rs')" by fastforce
        show ?thesis
        proof (cases w)
          case False
          with assms lock Inr Some p show ?thesis by (auto simp: SaveRun_def)
        next
          case True
          then have wr: "writeLocked io (s\<lparr>sn_Runs := rs'\<rparr>) f = (f', e)"
            using assms lock Inr Some p by (simp add: SaveRun_def)
          have sf: "save_first run (sn_Runs s) = Some (True, rs')" using Some p True by simp
          have guard: "\<not> refused old run" if "run_in f (br_RunID run) = Some old" for old
            using that save_first_refused [of run "sn_Runs s" old] sf rs by (auto simp: run_in_def)
          from wr show ?thesis
          proof (cases rule: writeLocked_cases)
            case 1
            then show ?thesis by simp
          next
            case 2
            then show ?thesis
              using save_first_ids [OF sf] save_first_find [OF sf, of rid] guard rs
              by (auto simp: runs_of_def run_in_def)
          qed
        qed
      qed
    qed
  qed
  then show "map br_RunID (runs_of f') = map br_RunID (runs_of f)"
    and "e \<noteq> None \<Longrightarrow> f' = f"
    and "run_in f' rid = run_in f rid \<or> rid = br_RunID run \<and> run_in f' rid = Some run \<and> e = None"
    and "run_in f (br_RunID run) = Some old \<Longrightarrow> refused old run \<Longrightarrow> f' = f"
    by blast+
qed

text \<open>A claim succeeded: the caller got the run and no error, and the run was not over.\<close>

definition claimed :: "store_file \<times> BenchmarkRun option \<times> store_error option \<Rightarrow> BenchmarkRun option" where
  "claimed res = (case res of
     (_, Some r, None) \<Rightarrow> if Terminal (br_Status r) then None else Some r | _ \<Rightarrow> None)"

lemma ClaimRun_result:
  assumes "ClaimRun io now rid f = (f', ro, e)"
  shows "map br_RunID (runs_of f') = map br_RunID (runs_of f)"
    and "claimed (f', ro, e) = None \<Longrightarrow> f' = f"
    and "claimed (f', ro, e) = Some r \<Longrightarrow>
      \<exists>r0. run_in f rid = Some r0 \<and> br_Status r0 = Queued \<and> r = Touch now Building r0 \<and>
        (\<forall>i. run_in f' i = (if i = rid then Some r else run_in f i))"
proof -
  have "map br_RunID (runs_of f') = map br_RunID (runs_of f) \<and> (claimed (f', ro, e) = None \<longrightarrow> f' = f) \<and>
    (claimed (f', ro, e) = Some r \<longrightarrow>
      (\<exists>r0. run_in f rid = Some r0 \<and> br_Status r0 = Queued \<and> r = Touch now Building r0 \<and>
        (\<forall>i. run_in f' i = (if i = rid then Some r else run_in f i))))"
  proof (cases "io_lock io")
    case False
    with assms show ?thesis by (auto simp: ClaimRun_def claimed_def)
  next
    case lock: True
    show ?thesis
    proof (cases "loadLocked io f")
      case (Inl err)
      with assms lock show ?thesis by (auto simp: ClaimRun_def claimed_def)
    next
      case (Inr s)
      note rs = runs_of_load [OF Inr]
      show ?thesis
      proof (cases "claim_first now rid (sn_Runs s)")
        case None
        with assms lock Inr show ?thesis by (auto simp: ClaimRun_def claimed_def)
      next
        case (Some p)
        obtain x w e1 where p: "p = (x, w, e1)" by (cases p)
        show ?thesis
        proof (cases w)
          case None
          have "f' = f" "ro = Some x" "e = e1"
            using assms lock Inr Some p None by (simp_all add: ClaimRun_def)
          moreover have "claimed (f, Some x, e1) = None"
            using claim_first_nowrite [of now rid "sn_Runs s" x e1] Some p None
            by (auto simp: claimed_def split: option.split)
          ultimately show ?thesis by simp
        next
          case w: (Some rs')
          have cf: "claim_first now rid (sn_Runs s) = Some (x, Some rs', e1)" using Some p w by simp
          note cw = claim_first_write [OF cf]
          obtain f2 e2 where wr: "writeLocked io (s\<lparr>sn_Runs := rs'\<rparr>) f = (f2, e2)" by fastforce
          from wr show ?thesis
          proof (cases rule: writeLocked_cases)
            case 1
            then have "f' = f" "e = Some ErrIO"
              using assms lock Inr cf wr by (auto simp: ClaimRun_def)
            then show ?thesis by (simp add: claimed_def split: option.split)
          next
            case 2
            then have f': "f' = FileSnap (s\<lparr>sn_Runs := rs'\<rparr>)" "ro = Some x" "e = None"
              using assms lock Inr cf wr by (auto simp: ClaimRun_def cloneRun_def)
            have "claimed (f', ro, e) = Some x"
              using f' cw by (auto simp: claimed_def Terminal_def)
            then show ?thesis
              using f' cw rs by (auto simp: runs_of_def run_in_def)
          qed
        qed
      qed
    qed
  qed
  then show "map br_RunID (runs_of f') = map br_RunID (runs_of f)"
    and "claimed (f', ro, e) = None \<Longrightarrow> f' = f"
    and "claimed (f', ro, e) = Some r \<Longrightarrow>
      \<exists>r0. run_in f rid = Some r0 \<and> br_Status r0 = Queued \<and> r = Touch now Building r0 \<and>
        (\<forall>i. run_in f' i = (if i = rid then Some r else run_in f i))"
    by blast+
qed


lemma SaveRun_good:
  assumes "io_lock io" "io_read io" "io_mkdir io" "io_write io" "io_rename io"
    and "run_in f (br_RunID run) = Some old" and "\<not> refused old run"
  shows "snd (SaveRun io run f) = None \<and> run_in (fst (SaveRun io run f)) (br_RunID run) = Some run"
proof -
  obtain s where f: "f = FileSnap s"
    using assms(6) by (cases f) (auto simp: run_in_def runs_of_def)
  have "find (\<lambda>r. br_RunID r = br_RunID run) (sn_Runs s) = Some old"
    using assms(6) f by (simp add: run_in_def runs_of_def)
  from save_first_accepted [OF this assms(7)] obtain rs' where
    sf: "save_first run (sn_Runs s) = Some (True, rs')" by blast
  with assms(1-5) f save_first_find [OF sf, of "br_RunID run"] show ?thesis
    by (simp add: SaveRun_def loadLocked_def writeLocked_def run_in_def runs_of_def)
qed

context run_sorter
begin

lemma ClaimNext_result:
  assumes c: "ClaimNextQueuedRun srt io now f = (f', ro, e)" and ids: "ids_ok f"
  shows "ids_ok f'" and "set (map br_RunID (runs_of f')) = set (map br_RunID (runs_of f))"
    and "claimed (f', ro, e) = None \<Longrightarrow> f' = f \<and> ro = None \<and> e \<noteq> None"
    and "claimed (f', ro, e) = Some r \<Longrightarrow>
      \<exists>r0. run_in f (br_RunID r) = Some r0 \<and> br_Status r0 = Queued \<and> r = Touch now Building r0 \<and>
        (\<forall>i. run_in f' i = (if i = br_RunID r then Some r else run_in f i)) \<and>
        (\<forall>q\<in>set (runs_of f). br_Status q = Queued \<longrightarrow> br_CreatedAt r0 \<le> br_CreatedAt q)"
proof -
  have "(ids_ok f' \<and> set (map br_RunID (runs_of f')) = set (map br_RunID (runs_of f))) \<and>
    (claimed (f', ro, e) = None \<longrightarrow> f' = f \<and> ro = None \<and> e \<noteq> None) \<and>
    (claimed (f', ro, e) = Some r \<longrightarrow>
      (\<exists>r0. run_in f (br_RunID r) = Some r0 \<and> br_Status r0 = Queued \<and> r = Touch now Building r0 \<and>
        (\<forall>i. run_in f' i = (if i = br_RunID r then Some r else run_in f i)) \<and>
        (\<forall>q\<in>set (runs_of f). br_Status q = Queued \<longrightarrow> br_CreatedAt r0 \<le> br_CreatedAt q)))"
  proof (cases "io_lock io")
    case False
    with c ids show ?thesis by (auto simp: ClaimNextQueuedRun_def claimed_def)
  next
    case lock: True
    show ?thesis
    proof (cases "loadLocked io f")
      case (Inl err)
      with c ids lock show ?thesis by (auto simp: ClaimNextQueuedRun_def claimed_def)
    next
      case (Inr s)
      note rs = runs_of_load [OF Inr]
      have d: "distinct (map br_RunID (srt (sn_Runs s)))" using ids rs srt_distinct by (simp add: ids_ok_def)
      show ?thesis
      proof (cases "claim_queued now (srt (sn_Runs s))")
        case None
        with c ids lock Inr show ?thesis by (auto simp: ClaimNextQueuedRun_def claimed_def)
      next
        case (Some p)
        obtain x rs' where p: "p = (x, rs')" by fastforce
        obtain f2 e2 where wr: "writeLocked io (s\<lparr>sn_Runs := rs'\<rparr>) f = (f2, e2)" by fastforce
        from wr show ?thesis
        proof (cases rule: writeLocked_cases)
          case 1
          then have "f' = f" "ro = None" "e = Some ErrIO"
            using c lock Inr Some p wr by (auto simp: ClaimNextQueuedRun_def)
          then show ?thesis using ids by (simp add: claimed_def)
        next
          case 2
          then have f': "f' = FileSnap (s\<lparr>sn_Runs := rs'\<rparr>)" "ro = Some x" "e = None"
            using c lock Inr Some p wr by (auto simp: ClaimNextQueuedRun_def cloneRun_def)
          from claim_queued_Some [of now "srt (sn_Runs s)" x rs'] Some p d obtain pre r0 post where
            ids': "map br_RunID rs' = map br_RunID (srt (sn_Runs s))" and
            split: "srt (sn_Runs s) = pre @ r0 # post" "br_Status r0 = Queued"
              "\<forall>q\<in>set pre. br_Status q \<noteq> Queued" "x = Touch now Building r0" "rs' = pre @ x # post"
            by blast
          have cl: "claimed (f', ro, e) = Some x"
            using f' split(4) by (auto simp: claimed_def Terminal_def)
          have old: "run_in f i = find (\<lambda>r. br_RunID r = i) (srt (sn_Runs s))" for i
            using find_id_mset [OF _ srt_mset [of "sn_Runs s"], of i] ids rs
            by (simp add: run_in_def ids_ok_def)
          have d': "distinct (map br_RunID rs')" using ids' d by simp
          have new: "run_in f' i = (if i = br_RunID x then Some x else run_in f i)" for i
          proof -
            have "find (\<lambda>r. br_RunID r = i) rs' = Some y \<longleftrightarrow>
                (if i = br_RunID x then y = x else find (\<lambda>r. br_RunID r = i) (srt (sn_Runs s)) = Some y)" for y
              unfolding find_id_iff [OF d'] find_id_iff [OF d]
              using d d' split by (auto simp: image_iff)
            then have "find (\<lambda>r. br_RunID r = i) rs' =
                (if i = br_RunID x then Some x else find (\<lambda>r. br_RunID r = i) (srt (sn_Runs s)))"
              by (metis not_None_eq)
            then show ?thesis using f' old by (simp add: run_in_def runs_of_def)
          qed
          have "run_in f (br_RunID x) = Some r0"
            unfolding old find_id_iff [OF d] using split by simp
          moreover have "br_CreatedAt r0 \<le> br_CreatedAt q" if "q \<in> set (runs_of f)" "br_Status q = Queued" for q
          proof -
            have "q \<in> set (pre @ r0 # post)" using that(1) rs srt_set [of "sn_Runs s"] split(1) by simp
            then have "q = r0 \<or> q \<in> set post" using that(2) split(3) by auto
            then show ?thesis using srt_sorted [of "sn_Runs s"] split(1) by (auto simp: sorted_wrt_append)
          qed
          moreover have "ids_ok f'" using d' f' by (simp add: ids_ok_def runs_of_def)
          moreover have "set (map br_RunID (runs_of f')) = set (map br_RunID (runs_of f))"
          proof -
            have "set (map br_RunID (runs_of f')) = br_RunID ` set (srt (sn_Runs s))"
              using ids' f' by (simp add: runs_of_def)
            then show ?thesis using srt_set rs by simp
          qed
          ultimately show ?thesis using cl new split(2,4) by auto
        qed
      qed
    qed
  qed
  then show "ids_ok f'" and "set (map br_RunID (runs_of f')) = set (map br_RunID (runs_of f))"
    and "claimed (f', ro, e) = None \<Longrightarrow> f' = f \<and> ro = None \<and> e \<noteq> None"
    and "claimed (f', ro, e) = Some r \<Longrightarrow>
      \<exists>r0. run_in f (br_RunID r) = Some r0 \<and> br_Status r0 = Queued \<and> r = Touch now Building r0 \<and>
        (\<forall>i. run_in f' i = (if i = br_RunID r then Some r else run_in f i)) \<and>
        (\<forall>q\<in>set (runs_of f). br_Status q = Queued \<longrightarrow> br_CreatedAt r0 \<le> br_CreatedAt q)"
    by blast+
qed

end

section \<open>Histories of the store\<close>

text \<open>Any sequence of updates, by either of the processes that share the file.\<close>

datatype store_op = OpSave StoreIO BenchmarkRun | OpClaim StoreIO int string | OpClaimNext StoreIO int

fun store_step :: "(BenchmarkRun list \<Rightarrow> BenchmarkRun list) \<Rightarrow> store_op \<Rightarrow> store_file \<Rightarrow>
    store_file \<times> BenchmarkRun option" where
  "store_step srt (OpSave io run) f = (fst (SaveRun io run f), None)"
| "store_step srt (OpClaim io now rid) f =
     (fst (ClaimRun io now rid f), claimed (ClaimRun io now rid f))"
| "store_step srt (OpClaimNext io now) f =
     (fst (ClaimNextQueuedRun srt io now f), claimed (ClaimNextQueuedRun srt io now f))"

fun store_run :: "(BenchmarkRun list \<Rightarrow> BenchmarkRun list) \<Rightarrow> store_op list \<Rightarrow> store_file \<Rightarrow>
    store_file \<times> BenchmarkRun list" where
  "store_run srt [] f = (f, [])"
| "store_run srt (op # ops) f =
     (let (f1, c) = store_step srt op f; (f2, cs) = store_run srt ops f1
      in (f2, (case c of None \<Rightarrow> cs | Some r \<Rightarrow> r # cs)))"

text \<open>No update in the history puts the run back into the queue.\<close>

definition no_requeue :: "string \<Rightarrow> store_op list \<Rightarrow> bool" where
  "no_requeue rid ops \<longleftrightarrow>
     (\<forall>io run. OpSave io run \<in> set ops \<longrightarrow> br_RunID run = rid \<longrightarrow> br_Status run \<noteq> Queued)"

definition queued :: "store_file \<Rightarrow> string \<Rightarrow> bool" where
  "queued f rid \<longleftrightarrow> (\<exists>r. run_in f rid = Some r \<and> br_Status r = Queued)"

context run_sorter
begin

lemma store_step_result:
  assumes "store_step srt op f = (f', c)" and "ids_ok f"
  shows "ids_ok f'"
    and "c = Some r \<Longrightarrow> queued f (br_RunID r) \<and> br_Status r = Building \<and> run_in f' (br_RunID r) = Some r"
    and "no_requeue rid [op] \<Longrightarrow> queued f' rid \<Longrightarrow> queued f rid"
proof -
  have "ids_ok f' \<and>
    (c = Some r \<longrightarrow> queued f (br_RunID r) \<and> br_Status r = Building \<and> run_in f' (br_RunID r) = Some r) \<and>
    (no_requeue rid [op] \<longrightarrow> queued f' rid \<longrightarrow> queued f rid)"
  proof (cases op)
    case (OpSave io run)
    obtain e where s: "SaveRun io run f = (f', e)"
      using assms(1) OpSave by (cases "SaveRun io run f") auto
    have "ids_ok f'" using SaveRun_result(1) [OF s] assms(2) by (simp add: ids_ok_def)
    moreover have "queued f rid" if "no_requeue rid [op]" "queued f' rid"
      using SaveRun_result(3) [OF s, of rid] that OpSave by (auto simp: queued_def no_requeue_def)
    ultimately show ?thesis using assms(1) OpSave by auto
  next
    case (OpClaim io now i)
    obtain ro e where s: "ClaimRun io now i f = (f', ro, e)"
      using assms(1) OpClaim by (cases "ClaimRun io now i f") auto
    have c: "c = claimed (f', ro, e)" using assms(1) OpClaim s by simp
    have "ids_ok f'" using ClaimRun_result(1) [OF s] assms(2) by (simp add: ids_ok_def)
    moreover have "queued f (br_RunID r) \<and> br_Status r = Building \<and> run_in f' (br_RunID r) = Some r"
      if cr: "c = Some r"
    proof -
      obtain r0 where "run_in f i = Some r0" "br_Status r0 = Queued" "r = Touch now Building r0"
        "run_in f' i = Some r" using ClaimRun_result(3) [OF s, of r] c cr by auto
      moreover from this(1) have "br_RunID r0 = i" by (auto simp: run_in_def find_Some_iff)
      ultimately show ?thesis by (auto simp: queued_def)
    qed
    moreover have "queued f rid" if "queued f' rid"
    proof (cases c)
      case None
      then show ?thesis using ClaimRun_result(2) [OF s] c that by simp
    next
      case (Some x)
      then obtain r0 where "br_Status (Touch now Building r0) = Building" "x = Touch now Building r0"
        "\<forall>j. run_in f' j = (if j = i then Some x else run_in f j)"
        using ClaimRun_result(3) [OF s] c by auto
      then show ?thesis using that by (auto simp: queued_def split: if_splits)
    qed
    ultimately show ?thesis by blast
  next
    case (OpClaimNext io now)
    obtain ro e where s: "ClaimNextQueuedRun srt io now f = (f', ro, e)"
      using assms(1) OpClaimNext by (cases "ClaimNextQueuedRun srt io now f") auto
    have c: "c = claimed (f', ro, e)" using assms(1) OpClaimNext s by simp
    note res = ClaimNext_result [OF s assms(2)]
    have "queued f (br_RunID r) \<and> br_Status r = Building \<and> run_in f' (br_RunID r) = Some r" if cr: "c = Some r"
    proof -
      have "claimed (f', ro, e) = Some r" using c cr by simp
      from res(4) [OF this] show ?thesis by (auto simp: queued_def)
    qed
    moreover have "queued f rid" if "queued f' rid"
    proof (cases c)
      case None
      then show ?thesis using res(3) c that by simp
    next
      case (Some x)
      then have "claimed (f', ro, e) = Some x" using c by simp
      from res(4) [OF this] obtain r0 where "x = Touch now Building r0"
        "\<forall>j. run_in f' j = (if j = br_RunID x then Some x else run_in f j)" by blast
      then show ?thesis using that by (auto simp: queued_def split: if_splits)
    qed
    ultimately show ?thesis using res(1) by blast
  qed
  then show "ids_ok f'"
    and "c = Some r \<Longrightarrow> queued f (br_RunID r) \<and> br_Status r = Building \<and> run_in f' (br_RunID r) = Some r"
    and "no_requeue rid [op] \<Longrightarrow> queued f' rid \<Longrightarrow> queued f rid" by blast+
qed

lemma claims_at_most_once:
  "ids_ok f \<Longrightarrow> no_requeue rid ops \<Longrightarrow> store_run srt ops f = (f', cs) \<Longrightarrow>
     length (filter (\<lambda>r. br_RunID r = rid) cs) \<le> (if queued f rid then 1 else 0)"
proof (induction ops arbitrary: f f' cs)
  case (Cons op ops)
  obtain f1 c where s: "store_step srt op f = (f1, c)" by fastforce
  obtain cs1 where r: "store_run srt ops f1 = (f', cs1)" "cs = (case c of None \<Rightarrow> cs1 | Some r \<Rightarrow> r # cs1)"
    using Cons.prems(3) s by (auto split: prod.splits)
  have nr: "no_requeue rid [op]" "no_requeue rid ops" using Cons.prems(2) by (auto simp: no_requeue_def)
  note st = store_step_result [OF s Cons.prems(1)]
  have IH: "length (filter (\<lambda>r. br_RunID r = rid) cs1) \<le> (if queued f1 rid then 1 else 0)"
    by (rule Cons.IH [OF st(1) nr(2) r(1)])
  show ?case
  proof (cases "\<exists>x. c = Some x \<and> br_RunID x = rid")
    case True
    then obtain x where x: "c = Some x" "br_RunID x = rid" by blast
    then have "queued f rid" "\<not> queued f1 rid" using st(2) by (auto simp: queued_def)
    with IH r(2) x show ?thesis by simp
  next
    case False
    then have "length (filter (\<lambda>r. br_RunID r = rid) cs) = length (filter (\<lambda>r. br_RunID r = rid) cs1)"
      using r(2) by (auto split: option.split)
    then show ?thesis using IH st(3) [OF nr(1)] by (auto split: if_splits)
  qed
qed simp

end


section \<open>What the store guarantees\<close>

definition demo_spec :: SandboxSpec where
  "demo_spec = \<lparr>sx_CPULimit = ''1'', sx_MemoryLimit = ''512m'', sx_NetworkEgress = False\<rparr>"

definition demo_cfg :: BenchmarkRunConfig where
  "demo_cfg = \<lparr>bc_BotCount = 10, bc_RatePerBot = 2, bc_DurationSec = 5, bc_WarmupSec = 0, bc_EngineEndpoint = []\<rparr>"

definition demo_bench_run :: "string \<Rightarrow> RunStatus \<Rightarrow> int \<Rightarrow> BenchmarkRun" where
  "demo_bench_run rid st t =
     \<lparr>br_RunID = rid, br_SubmissionID = ''s'', br_TeamID = ''t'', br_Status = st, br_BenchmarkSeed = 42,
      br_Sandbox = demo_spec, br_Config = demo_cfg, br_ArtifactDir = [], br_Valid = None,
      br_Score = Fin 0, br_FailureStage = [], br_FailureReason = [], br_CreatedAtUnix = 0,
      br_UpdatedAtUnix = 0, br_FinishedAtUnix = 0, br_CreatedAt = t, br_UpdatedAt = t,
      br_FinishedAt = None\<rparr>"

definition demo_file :: store_file where
  "demo_file = FileSnap \<lparr>sn_Submissions = [],
     sn_Runs = [demo_bench_run ''r2'' Queued 20, demo_bench_run ''r1'' Queued 10, demo_bench_run ''r0'' Finished 5]\<rparr>"

lemma demo_file_ids: "ids_ok demo_file"
  by (simp add: ids_ok_def demo_file_def runs_of_def demo_bench_run_def)



text \<open>
  The worker serves the queue in order: the run a successful \<^verbatim>\<open>ClaimNextQueuedRun\<close> returns
  was queued and none of the queued runs was created before it; it is now \<^verbatim>\<open>BUILDING\<close> in the
  file, and every other run is as it was.
\<close>

lemma oldest_queued_is_claimed:
  assumes "run_sorter srt" and "ids_ok f" and "claimed (ClaimNextQueuedRun srt io now f) = Some r"
  shows "\<exists>r0. run_in f (br_RunID r) = Some r0 \<and> br_Status r0 = Queued \<and> r = Touch now Building r0 \<and>
    (\<forall>i. run_in (fst (ClaimNextQueuedRun srt io now f)) i = (if i = br_RunID r then Some r else run_in f i)) \<and>
    (\<forall>q\<in>set (runs_of f). br_Status q = Queued \<longrightarrow> br_CreatedAt r0 \<le> br_CreatedAt q)"
proof -
  obtain f' ro e where c: "ClaimNextQueuedRun srt io now f = (f', ro, e)" using prod_cases3 by blast
  from run_sorter.ClaimNext_result(4) [OF assms(1) c assms(2)] assms(3) show ?thesis by (simp add: c)
qed

lemma oldest_queued_is_claimed_witness:
  "\<exists>r. claimed (ClaimNextQueuedRun sort_runs io_good 1 demo_file) = Some r \<and> br_CreatedAt r = 10"
proof -
  have "sort_runs (runs_of demo_file) =
      [demo_bench_run ''r0'' Finished 5, demo_bench_run ''r1'' Queued 10, demo_bench_run ''r2'' Queued 20]"
    by (simp add: sort_runs_def demo_file_def runs_of_def demo_bench_run_def)
  then have c: "claimed (ClaimNextQueuedRun sort_runs io_good 1 demo_file) =
      Some (Touch 1 Building (demo_bench_run ''r1'' Queued 10))"
    by (simp add: ClaimNextQueuedRun_def loadLocked_def writeLocked_def io_good_def demo_file_def
        runs_of_def demo_bench_run_def claimed_def cloneRun_def Terminal_def)
  from oldest_queued_is_claimed [OF stable.run_sorter_axioms demo_file_ids c] c show ?thesis
    by (simp add: demo_bench_run_def)
qed

lemma terminal_survives_step:
  assumes "run_sorter srt" and "ids_ok f"
    and "run_in f rid = Some r" and "Terminal (br_Status r)"
    and "\<forall>io run. op = OpSave io run \<longrightarrow> br_RunID run = rid \<longrightarrow> Terminal (br_Status run)"
    and "store_step srt op f = (f1, c)"
  shows "\<exists>r1. run_in f1 rid = Some r1 \<and> br_Status r1 = br_Status r"
proof (cases op)
  case (OpSave io run)
  then obtain e where sv: "SaveRun io run f = (f1, e)" using assms(6) by (cases "SaveRun io run f") auto
  have t: "br_RunID run = rid \<Longrightarrow> Terminal (br_Status run)" using assms(5) OpSave by auto
  show ?thesis
  proof (cases "br_RunID run = rid \<and> br_Status run \<noteq> br_Status r")
    case True
    then have "f1 = f"
      using SaveRun_result(4) [OF sv, of r] assms(3,4) t by (auto simp: refused_def)
    then show ?thesis using assms(3) by simp
  next
    case False
    then show ?thesis using SaveRun_result(3) [OF sv, of rid] assms(3) by auto
  qed
next
  case (OpClaim io now i)
  then obtain ro e where cl: "ClaimRun io now i f = (f1, ro, e)" "c = claimed (f1, ro, e)"
    using assms(6) by (cases "ClaimRun io now i f") auto
  show ?thesis
  proof (cases c)
    case None
    then show ?thesis using ClaimRun_result(2) [OF cl(1)] cl(2) assms(3) by simp
  next
    case (Some x)
    then obtain r0 where "run_in f i = Some r0" "br_Status r0 = Queued"
      "\<forall>j. run_in f1 j = (if j = i then Some x else run_in f j)"
      using ClaimRun_result(3) [OF cl(1), of x] cl(2) by auto
    then show ?thesis using assms(3,4) by (auto simp: Terminal_def)
  qed
next
  case (OpClaimNext io now)
  then obtain ro e where cl: "ClaimNextQueuedRun srt io now f = (f1, ro, e)" "c = claimed (f1, ro, e)"
    using assms(6) by (cases "ClaimNextQueuedRun srt io now f") auto
  note res = run_sorter.ClaimNext_result [OF assms(1) cl(1) assms(2)]
  show ?thesis
  proof (cases c)
    case None
    then show ?thesis using res(3) cl(2) assms(3) by simp
  next
    case (Some x)
    then have "claimed (f1, ro, e) = Some x" using cl(2) by simp
    from res(4) [OF this] assms(3,4) show ?thesis by (auto simp: Terminal_def)
  qed
qed

text \<open>
  C15. Between terminal outcomes the first one wins: once a run is in a terminal state in the
  file, no sequence of saves of terminal outcomes and of claims changes its state.
\<close>

theorem first_terminal_outcome_wins:
  assumes "run_sorter srt" and "ids_ok f"
    and "run_in f rid = Some r" and "Terminal (br_Status r)"
    and "\<forall>io run. OpSave io run \<in> set ops \<longrightarrow> br_RunID run = rid \<longrightarrow> Terminal (br_Status run)"
  shows "\<exists>r'. run_in (fst (store_run srt ops f)) rid = Some r' \<and> br_Status r' = br_Status r"
  using assms(2-5)
proof (induction ops arbitrary: f r)
  case (Cons op ops)
  obtain f1 c where s: "store_step srt op f = (f1, c)" by fastforce
  have ids1: "ids_ok f1" using run_sorter.store_step_result(1) [OF assms(1) s Cons.prems(1)] .
  have "\<forall>io run. op = OpSave io run \<longrightarrow> br_RunID run = rid \<longrightarrow> Terminal (br_Status run)"
    using Cons.prems(4) by simp
  from terminal_survives_step [OF assms(1) Cons.prems(1-3) this s]
  obtain r1 where r1: "run_in f1 rid = Some r1" "br_Status r1 = br_Status r" by blast
  have "\<forall>io run. OpSave io run \<in> set ops \<longrightarrow> br_RunID run = rid \<longrightarrow> Terminal (br_Status run)"
    using Cons.prems(4) by auto
  from Cons.IH [OF ids1 r1(1) _ this] r1(2) Cons.prems(3)
  have "\<exists>r'. run_in (fst (store_run srt ops f1)) rid = Some r' \<and> br_Status r' = br_Status r" by simp
  then show ?case using s by (simp add: case_prod_beta)
qed simp

lemma first_terminal_outcome_wins_witness:
  "\<exists>r'. run_in (fst (store_run sort_runs [OpSave io_good (demo_bench_run ''r0'' Cancelled 5)] demo_file)) ''r0'' = Some r' \<and>
     br_Status r' = Finished"
proof -
  have "run_in demo_file ''r0'' = Some (demo_bench_run ''r0'' Finished 5)"
    by (simp add: run_in_def runs_of_def demo_file_def demo_bench_run_def)
  from first_terminal_outcome_wins [OF stable.run_sorter_axioms demo_file_ids this,
      of "[OpSave io_good (demo_bench_run ''r0'' Cancelled 5)]"]
  show ?thesis by (simp add: Terminal_def demo_bench_run_def)
qed

text \<open>
  The guard covers only terminal outcomes: saving a run with a non-terminal status over
  its terminal record succeeds and reopens the run, so a recorded cancellation can be undone
  by a pipeline that saves its next stage.
\<close>

lemma terminal_run_can_be_reopened:
  assumes "run_in f (br_RunID run) = Some old" and "Terminal (br_Status old)"
    and "\<not> Terminal (br_Status run)"
  shows "run_in (fst (SaveRun io_good run f)) (br_RunID run) = Some run \<and> snd (SaveRun io_good run f) = None"
  using SaveRun_good [of io_good f run old] assms by (simp add: io_good_def refused_def)

lemma terminal_run_can_be_reopened_witness:
  "run_in (fst (SaveRun io_good (demo_bench_run ''r0'' Building 5) demo_file)) ''r0'' = Some (demo_bench_run ''r0'' Building 5)"
proof -
  have "run_in demo_file (br_RunID (demo_bench_run ''r0'' Building 5)) = Some (demo_bench_run ''r0'' Finished 5)"
    by (simp add: run_in_def runs_of_def demo_file_def demo_bench_run_def)
  from terminal_run_can_be_reopened [OF this] show ?thesis
    by (simp add: Terminal_def demo_bench_run_def)
qed

end
