(* ===== verification/Float64.thy ===== *)
theory Float64
  imports Complex_Main RunModel
begin

text \<open>
  Go's \<^verbatim>\<open>float64\<close> arithmetic on the values \<open>f64\<close>: every operation computes the exact real result
  and rounds it to binary64, to nearest with ties to even, with overflow to an infinity and
  gradual underflow.  The sign of a zero is not kept, and no product is fused into a sum.

  The locale \<open>rounding\<close> states what the scoring formulas rely on (rounding is monotone, exact on
  the integers up to \<open>2^53\<close>, and accurate to a relative \<open>2^-53\<close> off the subnormal range); it is
  interpreted on \<open>binary64\<close>.
\<close>

section \<open>Rounding to nearest, ties to even\<close>

definition rne :: "real \<Rightarrow> int" where
  "rne x = (let n = \<lfloor>x\<rfloor>; d = x - of_int n in
     if d < 1 / 2 then n else if d > 1 / 2 then n + 1 else if even n then n else n + 1)"

definition quantum_exp :: "real \<Rightarrow> int" where
  "quantum_exp x = max (\<lfloor>log 2 \<bar>x\<bar>\<rfloor> - 52) (-1074)"

definition quantum :: "real \<Rightarrow> real" where
  "quantum x = 2 powr of_int (quantum_exp x)"

definition round64 :: "real \<Rightarrow> real" where
  "round64 x = of_int (rne (x / quantum x)) * quantum x"

text \<open>Overflow starts at \<open>2^1024\<close>; half the smallest subnormal is the absolute error at zero.\<close>

definition f_limit :: real where "f_limit = 2 ^ 1024"
definition f_big :: real where "f_big = 2 ^ 1000"
definition f_tiny :: real where "f_tiny = 2 powr -1075"

definition binary64 :: "real \<Rightarrow> f64" where
  "binary64 x = (if x = 0 then Fin 0
     else if f_limit \<le> round64 x then PInf
     else if round64 x \<le> - f_limit then NInf
     else Fin (round64 x))"

lemma f_tiny_twice: "2 powr -1074 = 2 * f_tiny"
proof -
  have "2 powr -1074 = (2::real) powr (1 + - 1075)" by (rule arg_cong [where f = "\<lambda>e. 2 powr e"]) simp
  also have "\<dots> = 2 powr 1 * 2 powr -1075" by (rule powr_add)
  also have "(2::real) powr 1 = 2" by simp
  finally show ?thesis by (simp only: f_tiny_def)
qed

lemma f_tiny_small: "f_tiny \<le> 1 / 10 ^ 10" and f_tiny_pos: "0 < f_tiny"
proof -
  have "f_tiny \<le> 2 powr -40" unfolding f_tiny_def by (rule powr_mono) simp_all
  also have "(2::real) powr -40 = 1 / 2 powr 40" by (rule powr_minus_divide)
  also have "(2::real) powr 40 = 2 ^ 40" by (rule powr_numeral) simp
  finally show "f_tiny \<le> 1 / 10 ^ 10" by simp
  have "(2::real) \<noteq> 0" by simp
  then show "0 < f_tiny" unfolding f_tiny_def powr_gt_zero .
qed

lemma f_big_large: "2 ^ 53 \<le> f_big" "2 ^ 63 \<le> f_big" "1 \<le> f_big"
  unfolding f_big_def by (rule power_increasing, simp, simp)+ (rule one_le_power, simp)

lemma f_big_limit: "f_big + f_big < f_limit"
proof -
  have "f_big + f_big = 2 ^ Suc 1000" unfolding f_big_def power_Suc by (rule mult_2 [symmetric])
  also have "\<dots> < f_limit" unfolding f_limit_def by (rule power_strict_increasing) simp_all
  finally show ?thesis .
qed

lemma f_limit_large: "2 ^ 53 < f_limit" "2 ^ 63 < f_limit" "0 < f_limit"
  unfolding f_limit_def by (rule power_strict_increasing, simp, simp)+ (rule zero_less_power, simp)

lemma rne_of_int [simp]: "rne (of_int n) = n"
  by (simp add: rne_def)

lemma rne_near: "\<bar>of_int (rne x) - x\<bar> \<le> 1 / 2"
proof -
  have "of_int \<lfloor>x\<rfloor> \<le> x" "x < of_int \<lfloor>x\<rfloor> + 1" by linarith+
  then show ?thesis by (auto simp: rne_def Let_def abs_le_iff)
qed

lemma rne_minus: "rne (- x) = - rne x"
proof (cases "x \<in> \<int>")
  case True
  then obtain n where "x = of_int n" by (auto elim: Ints_cases)
  then show ?thesis using rne_of_int [of n] rne_of_int [of "- n"] by simp
next
  case False
  then have "of_int \<lfloor>x\<rfloor> \<noteq> x" by (metis Ints_of_int)
  then have f: "\<lfloor>- x\<rfloor> = - \<lfloor>x\<rfloor> - 1" by linarith
  show ?thesis unfolding rne_def Let_def f by auto
qed

lemma rne_mono: "x \<le> y \<Longrightarrow> rne x \<le> rne y"
proof -
  assume xy: "x \<le> y"
  show ?thesis
  proof (cases "\<lfloor>x\<rfloor> = \<lfloor>y\<rfloor>")
    case True
    then show ?thesis using xy by (auto simp: rne_def Let_def)
  next
    case False
    then have "\<lfloor>x\<rfloor> + 1 \<le> \<lfloor>y\<rfloor>" using floor_mono [OF xy] by simp
    moreover have "rne x \<le> \<lfloor>x\<rfloor> + 1" "\<lfloor>y\<rfloor> \<le> rne y" by (auto simp: rne_def Let_def)
    ultimately show ?thesis by linarith
  qed
qed

lemma quantum_pos [simp]: "0 < quantum x"
  by (simp add: quantum_def)

lemma quantum_nz [simp]: "quantum x \<noteq> 0"
  using quantum_pos [of x] by linarith

lemma quantum_abs [simp]: "\<bar>quantum x\<bar> = quantum x"
  using quantum_pos [of x] by linarith

lemma round64_zero [simp]: "round64 0 = 0"
  using rne_of_int [of 0] by (simp add: round64_def)

text \<open>The error is at most half a quantum.\<close>

lemma round64_near: "\<bar>round64 x - x\<bar> \<le> quantum x / 2"
proof -
  have "round64 x - x = (of_int (rne (x / quantum x)) - x / quantum x) * quantum x"
    using quantum_pos [of x] by (simp add: round64_def left_diff_distrib)
  also have "\<bar>\<dots>\<bar> = \<bar>of_int (rne (x / quantum x)) - x / quantum x\<bar> * quantum x"
    using quantum_pos [of x] by (simp add: abs_mult)
  also have "\<dots> \<le> 1 / 2 * quantum x" by (rule mult_right_mono [OF rne_near]) (simp add: less_imp_le)
  finally show ?thesis by simp
qed

lemma quantum_cases:
  obtains "quantum_exp x = \<lfloor>log 2 \<bar>x\<bar>\<rfloor> - 52" "-1022 \<le> \<lfloor>log 2 \<bar>x\<bar>\<rfloor>"
        | "quantum_exp x = -1074" "\<lfloor>log 2 \<bar>x\<bar>\<rfloor> < -1022"
proof -
  have "max (a - 52) (-1074) = a - 52 \<and> -1022 \<le> a \<or> max (a - 52) (-1074) = -1074 \<and> a < -1022" for a :: int
    by auto
  then show ?thesis using that unfolding quantum_exp_def by blast
qed

lemma floor_log_bounds:
  assumes "0 < (x :: real)"
  shows "2 powr of_int \<lfloor>log 2 x\<rfloor> \<le> x" and "x < 2 powr (of_int \<lfloor>log 2 x\<rfloor> + 1)"
proof -
  have "x = 2 powr (log 2 x)" using assms by simp
  moreover have "of_int \<lfloor>log 2 x\<rfloor> \<le> log 2 x" "log 2 x < of_int \<lfloor>log 2 x\<rfloor> + 1" by linarith+
  ultimately show "2 powr of_int \<lfloor>log 2 x\<rfloor> \<le> x" and "x < 2 powr (of_int \<lfloor>log 2 x\<rfloor> + 1)"
    by (metis powr_mono one_le_numeral, metis powr_less_mono one_less_numeral_iff semiring_norm(76))
qed

lemma quantum_small:
  assumes "x \<noteq> 0"
  shows "quantum x \<le> max (\<bar>x\<bar> / 2 ^ 52) (2 * f_tiny)"
proof (cases rule: quantum_cases [of x])
  case 1
  have "2 powr (of_int \<lfloor>log 2 \<bar>x\<bar>\<rfloor> - 52) = 2 powr of_int \<lfloor>log 2 \<bar>x\<bar>\<rfloor> / (2 ^ 52 :: real)"
    by (simp add: powr_diff powr_numeral)
  with 1 floor_log_bounds(1) [of "\<bar>x\<bar>"] assms have "quantum x \<le> \<bar>x\<bar> / 2 ^ 52"
    by (simp add: quantum_def divide_right_mono)
  then show ?thesis by simp
next
  case 2
  then have "quantum x = 2 powr -1074" by (simp only: quantum_def of_int_minus of_int_numeral)
  also have "\<dots> = 2 * f_tiny" by (rule f_tiny_twice)
  finally show ?thesis by simp
qed

text \<open>The rounded values are multiples of the quantum, and a multiple of it is left alone.\<close>

lemma round64_multiple:
  assumes "x = of_int m * quantum x"
  shows "round64 x = x"
proof -
  have "x / quantum x = of_int m" by (subst assms) (use quantum_pos [of x] in \<open>simp add: nonzero_eq_divide_eq\<close>)
  then show ?thesis using assms by (simp add: round64_def)
qed

lemma round64_grid:
  assumes "x = of_int m * 2 powr of_int k" and "quantum_exp x \<le> k"
  shows "round64 x = x"
proof (rule round64_multiple)
  have "2 powr of_int k = (2::real) powr of_int (k - quantum_exp x) * quantum x"
    by (simp add: quantum_def powr_add [symmetric])
  also have "(2::real) powr of_int (k - quantum_exp x) = of_int (2 ^ nat (k - quantum_exp x))"
    using assms(2) by (simp flip: powr_realpow)
  finally show "x = of_int (m * 2 ^ nat (k - quantum_exp x)) * quantum x"
    using assms(1) by simp
qed

lemma quantum_exp_int:
  assumes "\<bar>n\<bar> < 2 ^ 53"
  shows "quantum_exp (of_int n) \<le> 0"
proof (cases "n = 0")
  case False
  have "real_of_int \<bar>n\<bar> < of_int (2 ^ 53)" using assms by (simp only: of_int_less_iff)
  then have "log 2 \<bar>real_of_int n\<bar> < log 2 (2 ^ 53)" using False by simp
  also have "log 2 (2 ^ 53) = (53::real)" using log_pow_cancel [of 2 53] by simp
  finally have "\<lfloor>log 2 \<bar>real_of_int n\<bar>\<rfloor> \<le> 52" by linarith
  then show ?thesis by (simp add: quantum_exp_def)
qed (simp add: quantum_exp_def log_def)

lemma round64_int:
  assumes "\<bar>n\<bar> < 2 ^ 53"
  shows "round64 (of_int n) = of_int n"
  by (rule round64_grid [where k = 0 and m = n]) (use quantum_exp_int [OF assms] in simp_all)

section \<open>Monotonicity\<close>

lemma quantum_minus [simp]: "quantum (- x) = quantum x"
  by (simp add: quantum_def quantum_exp_def)

lemma round64_minus [simp]: "round64 (- x) = - round64 x"
  by (simp add: round64_def rne_minus)

lemma rne_nonneg: "0 \<le> x \<Longrightarrow> 0 \<le> rne x"
  using rne_mono [of 0 x] rne_of_int [of 0] by simp

lemma round64_nonneg: "0 \<le> x \<Longrightarrow> 0 \<le> round64 x"
  unfolding round64_def using quantum_pos [of x] rne_nonneg [of "x / quantum x"]
  by (simp add: less_imp_le)

text \<open>Across a power of two the two roundings stay on their sides of it.\<close>

lemma round64_below_pow:
  assumes "0 < x" "x \<le> 2 powr of_int k" "quantum_exp x \<le> k"
  shows "round64 x \<le> 2 powr of_int k"
proof -
  have "2 powr of_int k = of_int (2 ^ nat (k - quantum_exp x)) * quantum x"
    using assms(3) by (simp add: quantum_def powr_add [symmetric] flip: powr_realpow)
  then have "x / quantum x \<le> of_int (2 ^ nat (k - quantum_exp x))"
    using assms(2) quantum_pos [of x] by (simp add: pos_divide_le_eq)
  from rne_mono [OF this] have "real_of_int (rne (x / quantum x)) \<le> of_int (2 ^ nat (k - quantum_exp x))"
    by (simp only: rne_of_int of_int_le_iff)
  from mult_right_mono [OF this, of "quantum x"] show ?thesis
    using \<open>2 powr of_int k = of_int (2 ^ nat (k - quantum_exp x)) * quantum x\<close>
    by (simp add: round64_def less_imp_le)
qed

lemma round64_above_pow:
  assumes "0 < x" "2 powr of_int k \<le> x" "quantum_exp x \<le> k"
  shows "2 powr of_int k \<le> round64 x"
proof -
  have e: "2 powr of_int k = of_int (2 ^ nat (k - quantum_exp x)) * quantum x"
    using assms(3) by (simp add: quantum_def powr_add [symmetric] flip: powr_realpow)
  then have "of_int (2 ^ nat (k - quantum_exp x)) \<le> x / quantum x"
    using assms(2) quantum_pos [of x] by (simp add: pos_le_divide_eq)
  from rne_mono [OF this] have "of_int (2 ^ nat (k - quantum_exp x)) \<le> real_of_int (rne (x / quantum x))"
    by (simp only: rne_of_int of_int_le_iff)
  from mult_right_mono [OF this, of "quantum x"] show ?thesis
    using e by (simp add: round64_def less_imp_le)
qed

lemma round64_mono_pos:
  assumes "0 < x" "x \<le> y"
  shows "round64 x \<le> round64 y"
proof (cases "quantum_exp x = quantum_exp y")
  case True
  have "x / quantum x \<le> y / quantum x" using assms by (simp add: divide_right_mono less_imp_le)
  from mult_right_mono [OF _ less_imp_le [OF quantum_pos [of x]], of "of_int (rne (x / quantum x))" "of_int (rne (y / quantum x))"]
    rne_mono [OF this]
  show ?thesis using True by (simp add: round64_def quantum_def)
next
  case False
  have l: "\<lfloor>log 2 x\<rfloor> \<le> \<lfloor>log 2 y\<rfloor>" using assms by (intro floor_mono) simp
  have "a < b \<and> max (b - 52) (-1074) = b - 52 \<and> max (a - 52) (-1074) \<le> b"
    if "a \<le> b" "max (a - 52) (-1074) \<noteq> max (b - 52) (-1074)" for a b :: int
    using that by (auto simp: max_def split: if_splits)
  from this [OF l] have lt: "\<lfloor>log 2 x\<rfloor> < \<lfloor>log 2 y\<rfloor>" and qy: "quantum_exp y = \<lfloor>log 2 y\<rfloor> - 52"
    and qx: "quantum_exp x \<le> \<lfloor>log 2 y\<rfloor>"
    using False assms by (auto simp only: quantum_exp_def abs_of_pos order.strict_trans2)
  have "x < 2 powr (of_int \<lfloor>log 2 x\<rfloor> + 1)" using floor_log_bounds(2) assms by simp
  also have "\<dots> \<le> 2 powr of_int \<lfloor>log 2 y\<rfloor>" using lt by (intro powr_mono) linarith+
  finally have "round64 x \<le> 2 powr of_int \<lfloor>log 2 y\<rfloor>" using assms(1) qx by (intro round64_below_pow) simp_all
  also have "\<dots> \<le> round64 y" using floor_log_bounds(1) [of y] assms qy by (intro round64_above_pow) simp_all
  finally show ?thesis .
qed

lemma round64_mono: "x \<le> y \<Longrightarrow> round64 x \<le> round64 y"
proof -
  assume xy: "x \<le> y"
  consider "0 < x" | "x \<le> 0" "0 \<le> y" | "y < 0" by linarith
  then show ?thesis
  proof cases
    case 1
    then show ?thesis using xy by (rule round64_mono_pos)
  next
    case 2
    then show ?thesis using round64_nonneg [of y] round64_nonneg [of "- x"] by simp
  next
    case 3
    then show ?thesis using xy round64_mono_pos [of "- y" "- x"] by simp
  qed
qed

section \<open>The contract of rounding\<close>

locale rounding =
  fixes rnd :: "real \<Rightarrow> f64"
  assumes rnd_mono: "x \<le> y \<Longrightarrow> f_le (rnd x) (rnd y)"
    and rnd_int: "\<bar>n\<bar> < 2 ^ 53 \<Longrightarrow> rnd (of_int n) = Fin (of_int n)"
    and rnd_close: "\<bar>x\<bar> \<le> f_big \<Longrightarrow>
      \<exists>y. rnd x = Fin y \<and> \<bar>y - x\<bar> \<le> max (\<bar>x\<bar> / 2 ^ 53) f_tiny"
begin

lemma between:
  assumes "of_int m \<le> x" "x \<le> of_int n" "\<bar>m\<bar> < 2 ^ 53" "\<bar>n\<bar> < 2 ^ 53"
  obtains y where "rnd x = Fin y" "of_int m \<le> y" "y \<le> of_int n"
proof -
  have "f_le (Fin (of_int m)) (rnd x)" "f_le (rnd x) (Fin (of_int n))"
    using rnd_mono [OF assms(1)] rnd_mono [OF assms(2)] rnd_int assms(3,4) by simp_all
  then show ?thesis using that by (cases "rnd x") (auto simp: f_le_def f_eq_def)
qed

lemma near:
  assumes "\<bar>x\<bar> \<le> of_int (2 ^ 53)"
  obtains y where "rnd x = Fin y" "\<bar>y - x\<bar> \<le> max (\<bar>x\<bar> / 2 ^ 53) f_tiny"
proof -
  have "of_int (2 ^ 53) \<le> (f_big :: real)" by (simp only: of_int_power of_int_numeral f_big_large)
  with assms have "\<bar>x\<bar> \<le> f_big" by linarith
  from rnd_close [OF this] that show ?thesis by blast
qed

text \<open>An error bound that is convenient for values of moderate size.\<close>

lemma near_small:
  assumes "\<bar>x\<bar> \<le> 100000"
  obtains y where "rnd x = Fin y" "\<bar>y - x\<bar> \<le> 1 / 1000000000"
proof -
  obtain y where y: "rnd x = Fin y" "\<bar>y - x\<bar> \<le> max (\<bar>x\<bar> / 2 ^ 53) f_tiny"
    using assms by (auto intro: near [of x])
  have "\<bar>x\<bar> / 2 ^ 53 \<le> 100000 / 2 ^ 53" using assms by (intro divide_right_mono) simp_all
  also have "\<dots> \<le> 1 / 1000000000" by simp
  finally have "\<bar>x\<bar> / 2 ^ 53 \<le> 1 / 1000000000" .
  then have "max (\<bar>x\<bar> / 2 ^ 53) f_tiny \<le> 1 / 1000000000" using f_tiny_small by simp
  with y that show ?thesis by (meson order.trans)
qed

end

text \<open>Rounding to binary64 keeps the contract.\<close>

lemma binary64_cases:
  "binary64 z = (if f_limit \<le> round64 z then PInf else if round64 z \<le> - f_limit then NInf
    else Fin (round64 z))"
  using f_limit_large(3) by (simp add: binary64_def)

lemma binary64_mono: "x \<le> y \<Longrightarrow> f_le (binary64 x) (binary64 y)"
proof -
  assume "x \<le> y"
  then have "round64 x \<le> round64 y" by (rule round64_mono)
  then show ?thesis using f_limit_large(3) by (auto simp: binary64_cases f_le_def f_eq_def)
qed

lemma binary64_finite: "\<bar>round64 x\<bar> < f_limit \<Longrightarrow> binary64 x = Fin (round64 x)"
  by (simp add: binary64_cases abs_less_iff)

lemma round64_error: "\<bar>round64 x - x\<bar> \<le> max (\<bar>x\<bar> / 2 ^ 53) f_tiny"
proof (cases "x = 0")
  case False
  have "\<bar>round64 x - x\<bar> \<le> quantum x / 2" by (rule round64_near)
  also have "\<dots> \<le> max (\<bar>x\<bar> / 2 ^ 52) (2 * f_tiny) / 2"
    using quantum_small [OF False] by (rule divide_right_mono) simp
  also have "\<dots> = max (\<bar>x\<bar> / 2 ^ 53) f_tiny" by (simp add: max_def)
  finally show ?thesis .
qed (use f_tiny_pos in simp)

interpretation binary64: rounding binary64
proof
  fix x y :: real assume "x \<le> y"
  then show "f_le (binary64 x) (binary64 y)" by (rule binary64_mono)
next
  fix n :: int assume n: "\<bar>n\<bar> < 2 ^ 53"
  then have "\<bar>real_of_int n\<bar> < of_int (2 ^ 53)" by (simp only: of_int_less_iff flip: of_int_abs)
  then have "\<bar>real_of_int n\<bar> < f_limit" using f_limit_large(1) by simp
  then show "binary64 (of_int n) = Fin (of_int n)"
    using binary64_finite [of "of_int n"] round64_int [OF n] by simp
next
  fix x :: real assume x: "\<bar>x\<bar> \<le> f_big"
  have "max (\<bar>x\<bar> / 2 ^ 53) f_tiny \<le> f_big"
    using x f_tiny_small f_big_large(3) by (auto simp: divide_le_eq)
  then have "\<bar>round64 x\<bar> < f_limit" using x round64_error [of x] f_big_limit by linarith
  then show "\<exists>y. binary64 x = Fin y \<and> \<bar>y - x\<bar> \<le> max (\<bar>x\<bar> / 2 ^ 53) f_tiny"
    using binary64_finite round64_error by blast
qed

section \<open>The operations\<close>

fun f_neg :: "f64 \<Rightarrow> f64" where
  "f_neg NaN = NaN" | "f_neg PInf = NInf" | "f_neg NInf = PInf" | "f_neg (Fin a) = Fin (- a)"

fun f_sgn :: "f64 \<Rightarrow> real" where
  "f_sgn NaN = 0" | "f_sgn PInf = 1" | "f_sgn NInf = -1" | "f_sgn (Fin a) = sgn a"

definition f_inf :: "real \<Rightarrow> f64" where
  "f_inf s = (if s = 0 then NaN else if 0 < s then PInf else NInf)"

fun f_add :: "f64 \<Rightarrow> f64 \<Rightarrow> f64" where
  "f_add (Fin a) (Fin b) = binary64 (a + b)"
| "f_add (Fin a) y = y"
| "f_add x (Fin b) = x"
| "f_add x y = (if x = y then x else NaN)"

definition f_sub :: "f64 \<Rightarrow> f64 \<Rightarrow> f64" where
  "f_sub x y = f_add x (f_neg y)"

fun f_mul :: "f64 \<Rightarrow> f64 \<Rightarrow> f64" where
  "f_mul (Fin a) (Fin b) = binary64 (a * b)"
| "f_mul x y = f_inf (f_sgn x * f_sgn y)"

fun f_div :: "f64 \<Rightarrow> f64 \<Rightarrow> f64" where
  "f_div (Fin a) (Fin b) = (if b = 0 then f_inf (sgn a) else binary64 (a / b))"
| "f_div (Fin a) y = (if y = NaN then NaN else Fin 0)"
| "f_div x (Fin b) = f_inf (f_sgn x * (if b = 0 then 1 else sgn b))"
| "f_div x y = NaN"

definition float64 :: "int \<Rightarrow> f64" where "float64 n = binary64 (of_int n)"

text \<open>\<^verbatim>\<open>math.Min\<close>, \<^verbatim>\<open>math.Max\<close> and \<^verbatim>\<open>math.Round\<close>, which rounds halves away from zero.\<close>

definition math_Min :: "f64 \<Rightarrow> f64 \<Rightarrow> f64" where
  "math_Min x y = (if x = NInf \<or> y = NInf then NInf else if IsNaN x \<or> IsNaN y then NaN
     else if f_less x y then x else y)"

definition math_Max :: "f64 \<Rightarrow> f64 \<Rightarrow> f64" where
  "math_Max x y = (if x = PInf \<or> y = PInf then PInf else if IsNaN x \<or> IsNaN y then NaN
     else if f_less y x then x else y)"

fun math_Round :: "f64 \<Rightarrow> f64" where
  "math_Round (Fin a) = Fin (if 0 \<le> a then of_int \<lfloor>a + 1 / 2\<rfloor> else - of_int \<lfloor>- a + 1 / 2\<rfloor>)"
| "math_Round x = x"

lemma float64_small: "\<bar>n\<bar> < 2 ^ 53 \<Longrightarrow> float64 n = Fin (of_int n)"
  unfolding float64_def by (rule binary64.rnd_int)

text \<open>Every machine integer converts to a finite value, a positive one to at least \<open>1\<close>.\<close>

lemma float64_finite:
  assumes "\<bar>n\<bar> \<le> 2 ^ 63"
  obtains r where "float64 n = Fin r" "0 < n \<longrightarrow> 1 \<le> r" "0 \<le> n \<longrightarrow> 0 \<le> r"
proof -
  have "\<bar>real_of_int n\<bar> \<le> of_int (2 ^ 63)" using assms by (simp only: of_int_le_iff flip: of_int_abs)
  then have "\<bar>real_of_int n\<bar> \<le> f_big" using f_big_large(2) by simp
  then obtain r where r: "float64 n = Fin r" using binary64.rnd_close unfolding float64_def by blast
  moreover have "1 \<le> r" if "0 < n"
    using binary64.rnd_mono [of 1 "of_int n"] binary64.rnd_int [of 1] r that
    by (auto simp: float64_def f_le_def f_eq_def)
  moreover have "0 \<le> r" if "0 \<le> n"
    using binary64.rnd_mono [of 0 "of_int n"] binary64.rnd_int [of 0] r that
    by (auto simp: float64_def f_le_def f_eq_def)
  ultimately show ?thesis using that by blast
qed

end
