(* ===== verification/Scoring.thy ===== *)
theory Scoring
  imports Float64
begin

text \<open>
  The orchestrator's scorer, \<^verbatim>\<open>services/orchestrator/internal/executor/score.go\<close>: four sub-scores
  between 0 and 100, the completion ramp on the latency credit, and the weighted sum.

  \<^verbatim>\<open>math.Log10\<close> is the parameter \<open>Log10\<close>; what the range of the score needs of it is that it is the
  decimal logarithm up to \<open>10^-9\<close> where the ramp uses it (\<open>log10_accurate\<close>).  \<^verbatim>\<open>int\<close> is a 64-bit
  integer, so a sum of two counters wraps.  \<open>disk_ok\<close> is the outcome of \<^verbatim>\<open>os.WriteFile\<close>.
\<close>

section \<open>The formulas\<close>

definition round2 :: "f64 \<Rightarrow> f64" where
  "round2 v = f_div (math_Round (f_mul v (Fin 100))) (Fin 100)"

definition latencyFloorMS :: f64 where "latencyFloorMS = binary64 (1 / 10)"
definition latencyCapMS :: f64 where "latencyCapMS = binary64 50"

definition latencyScore :: "(f64 \<Rightarrow> f64) \<Rightarrow> f64 \<Rightarrow> f64" where
  "latencyScore Log10 p99MS =
     (if IsNaN p99MS \<or> IsInf p99MS then Fin 0
      else if f_le p99MS (Fin 0) then Fin 0
      else if f_le p99MS latencyFloorMS then Fin 100
      else if f_le latencyCapMS p99MS then Fin 0
      else let num = f_sub (Log10 latencyCapMS) (Log10 p99MS);
               den = f_sub (Log10 latencyCapMS) (Log10 latencyFloorMS)
           in round2 (f_div (f_mul (Fin 100) num) den))"

definition clamp_high :: "f64 \<Rightarrow> f64" where
  "clamp_high score = (if f_less (Fin 100) score then Fin 100 else score)"

definition clamp_low :: "f64 \<Rightarrow> f64" where
  "clamp_low score = (if f_less score (Fin 0) then Fin 0 else score)"

definition throughputScore :: "f64 \<Rightarrow> int \<Rightarrow> f64" where
  "throughputScore tps expected =
     (if IsNaN tps \<or> IsInf tps then Fin 0
      else if expected \<le> 0 then Fin 100
      else round2 (clamp_low (clamp_high (f_div (f_mul (Fin 100) tps) (float64 expected)))))"

definition stabilityScore :: "int \<Rightarrow> int \<Rightarrow> int \<Rightarrow> f64" where
  "stabilityScore ordersSent timeouts connectErrors =
     (if ordersSent \<le> 0 then if 0 < connectErrors then Fin 0 else Fin 100
      else round2 (clamp_low (f_mul (Fin 100)
        (f_sub (Fin 1) (f_div (float64 (wrap64 (timeouts + connectErrors))) (float64 ordersSent))))))"

definition resourceScore :: "f64 \<Rightarrow> f64 \<Rightarrow> f64" where
  "resourceScore cpuPct memMB =
     (if IsNaN cpuPct \<or> IsInf cpuPct then Fin 100
      else if f_le cpuPct (Fin 0) then Fin 100
      else
        let cpu = math_Min cpuPct (Fin 100);
            mem = (if IsNaN memMB \<or> IsInf memMB then Fin 0 else memMB);
            mem = clamp_low mem;
            cpuPenalty = f_mul (math_Max (f_sub cpu (Fin 50)) (Fin 0)) (binary64 (3 / 2));
            memPenalty = f_mul (math_Max (f_sub mem (Fin 512)) (Fin 0)) (binary64 (1 / 20))
        in round2 (clamp_high (clamp_low (f_sub (f_sub (Fin 100) cpuPenalty) memPenalty))))"

definition completionFraction :: "int \<Rightarrow> int \<Rightarrow> int \<Rightarrow> f64" where
  "completionFraction ordersSent timeouts connectErrors =
     (if ordersSent \<le> 0 then Fin 0
      else let c = f_sub (Fin 1) (f_div (float64 (wrap64 (timeouts + connectErrors))) (float64 ordersSent));
               c = clamp_low c
           in if f_less (Fin 1) c then Fin 1 else c)"

definition weighted_score :: "f64 \<Rightarrow> f64 \<Rightarrow> f64 \<Rightarrow> f64 \<Rightarrow> f64" where
  "weighted_score l t s r = round2
     (f_add (f_add (f_add (f_mul (binary64 (2 / 5)) l) (f_mul (binary64 (3 / 10)) t))
        (f_mul (binary64 (1 / 5)) s)) (f_mul (binary64 (1 / 10)) r))"

section \<open>The score of a run\<close>

text \<open>\<^verbatim>\<open>json.MarshalIndent\<close> fails on a value that is not finite.\<close>

definition marshal_ok :: "ScoreResult \<Rightarrow> bool" where
  "marshal_ok s \<longleftrightarrow> (\<forall>v \<in> {sr_Score s, sr_LatencyScore s, sr_ThroughputScore s, sr_StabilityScore s,
     sr_ResourceScore s}. \<not> IsNaN v \<and> \<not> IsInf v)"

definition writeScore :: "bool \<Rightarrow> ScoreResult \<Rightarrow> ScoreResult \<times> bool" where
  "writeScore disk_ok s = (s, marshal_ok s \<and> disk_ok)"

definition noScore :: "string \<Rightarrow> string \<Rightarrow> ScoreResult" where
  "noScore run_id reason = \<lparr>sr_RunID = run_id, sr_Score = Fin 0, sr_Valid = False,
     sr_LatencyScore = Fin 0, sr_ThroughputScore = Fin 0, sr_StabilityScore = Fin 0,
     sr_ResourceScore = Fin 0, sr_CorrectnessGate = ''failed'', sr_FailureReason = reason\<rparr>"

definition Score :: "(f64 \<Rightarrow> f64) \<Rightarrow> bool \<Rightarrow> BenchmarkRun \<Rightarrow> Metrics option \<Rightarrow>
    ValidationResult option \<Rightarrow> ScoreResult \<times> bool" where
  "Score Log10 disk_ok run metrics validation =
     (let valid = (case validation of None \<Rightarrow> False | Some v \<Rightarrow> vr_Valid v) in
      if \<not> valid then
        let run_id = (case validation of None \<Rightarrow> br_RunID run | Some v \<Rightarrow> vr_RunID v);
            reason = (case validation of None \<Rightarrow> [] | Some v \<Rightarrow> vr_Reason v);
            reason = (if reason = [] then ''validation failed'' else reason)
        in writeScore disk_ok (noScore run_id reason)
      else case metrics of
        None \<Rightarrow> writeScore disk_ok (noScore (br_RunID run) ''metrics missing'')
      | Some m \<Rightarrow>
          if mt_OrdersSent m \<le> 0
          then writeScore disk_ok (noScore (br_RunID run) ''no benchmark orders produced'')
          else
            let l = latencyScore Log10 (mt_P99MS m);
                t = throughputScore (mt_TPS m)
                      (wrap64 (bc_BotCount (br_Config run) * bc_RatePerBot (br_Config run)));
                s = stabilityScore (mt_OrdersSent m) (mt_Timeouts m) (mt_ConnectErrors m);
                r = resourceScore (mt_CPUPctPeak m) (mt_MemMBPeak m);
                completion = completionFraction (mt_OrdersSent m) (mt_Timeouts m) (mt_ConnectErrors m);
                factor = math_Min (f_div completion (binary64 (1 / 2))) (Fin 1);
                l = round2 (f_mul l factor)
            in writeScore disk_ok
                 \<lparr>sr_RunID = br_RunID run, sr_Score = weighted_score l t s r, sr_Valid = True,
                  sr_LatencyScore = l, sr_ThroughputScore = t, sr_StabilityScore = s,
                  sr_ResourceScore = r, sr_CorrectnessGate = ''passed'', sr_FailureReason = []\<rparr>)"

section \<open>Range and monotonicity of the formulas\<close>

definition in_band :: "f64 \<Rightarrow> real \<Rightarrow> real \<Rightarrow> bool" where
  "in_band v lo hi \<longleftrightarrow> (\<exists>r. v = Fin r \<and> lo \<le> r \<and> r \<le> hi)"

definition percentage :: "f64 \<Rightarrow> bool" where
  "percentage v \<longleftrightarrow> in_band v 0 100"

lemma in_bandI: "v = Fin r \<Longrightarrow> lo \<le> r \<Longrightarrow> r \<le> hi \<Longrightarrow> in_band v lo hi"
  by (simp add: in_band_def)

lemma in_bandE: "in_band v lo hi \<Longrightarrow> (\<And>r. v = Fin r \<Longrightarrow> lo \<le> r \<Longrightarrow> r \<le> hi \<Longrightarrow> P) \<Longrightarrow> P"
  by (auto simp: in_band_def)

lemma in_band_weaken: "in_band v a b \<Longrightarrow> c \<le> a \<Longrightarrow> b \<le> d \<Longrightarrow> in_band v c d"
  by (auto simp: in_band_def)

lemma f_le_Fin [simp]: "f_le (Fin a) (Fin b) \<longleftrightarrow> a \<le> b"
  by (auto simp: f_le_def f_eq_def)

lemma binary64_int: "binary64 0 = Fin 0" "binary64 1 = Fin 1" "binary64 50 = Fin 50" "binary64 100 = Fin 100"
  using binary64.rnd_int [of 0] binary64.rnd_int [of 1] binary64.rnd_int [of 50] binary64.rnd_int [of 100]
  by simp_all

lemma binary64_in_band:
  assumes "\<bar>x\<bar> \<le> 100000"
  shows "in_band (binary64 x) (x - 1 / 1000000000) (x + 1 / 1000000000)"
  using binary64.near_small [OF assms] by (metis abs_diff_le_iff in_band_def)

lemma math_Round_mono:
  assumes "a \<le> b"
  obtains k l where "math_Round (Fin a) = Fin (of_int k)" "math_Round (Fin b) = Fin (of_int l)" "k \<le> l"
proof -
  let ?k = "if 0 \<le> a then \<lfloor>a + 1 / 2\<rfloor> else - \<lfloor>- a + 1 / 2\<rfloor>"
  let ?l = "if 0 \<le> b then \<lfloor>b + 1 / 2\<rfloor> else - \<lfloor>- b + 1 / 2\<rfloor>"
  have "?k \<le> ?l" using assms by (auto intro: floor_mono) linarith+
  then show ?thesis using that [of ?k ?l] by simp
qed

lemma math_Round_in:
  assumes "- 1 / 2 < a" "a < of_int n + 1 / 2" "0 \<le> n"
  obtains k where "math_Round (Fin a) = Fin (of_int k)" "0 \<le> k" "k \<le> n"
proof -
  let ?k = "if 0 \<le> a then \<lfloor>a + 1 / 2\<rfloor> else - \<lfloor>- a + 1 / 2\<rfloor>"
  have "\<lfloor>- a + 1 / 2\<rfloor> = 0" if "a < 0" using assms that by linarith
  moreover have "0 \<le> \<lfloor>a + 1 / 2\<rfloor>" "\<lfloor>a + 1 / 2\<rfloor> \<le> n" if "0 \<le> a" using assms that by linarith+
  ultimately have "0 \<le> ?k" "?k \<le> n" using assms(3) by auto
  then show ?thesis using that [of ?k] by simp
qed

text \<open>Rounding to two decimals absorbs a small error at the ends of an integer range.\<close>

lemma round2_in_band:
  assumes "in_band v (- 1 / 1000) (of_int n + 1 / 1000)" "0 \<le> n" "n \<le> 900"
  shows "in_band (round2 v) 0 (of_int n)"
proof -
  obtain r where r: "v = Fin r" "- 1 / 1000 \<le> r" "r \<le> of_int n + 1 / 1000"
    using assms(1) by (rule in_bandE)
  have "real_of_int n \<le> 900" using assms(3) by simp
  then have "\<bar>r * 100\<bar> \<le> 100000" using r by (auto simp: abs_le_iff)
  then obtain y where y: "binary64 (r * 100) = Fin y" "\<bar>y - r * 100\<bar> \<le> 1 / 1000000000"
    by (rule binary64.near_small)
  have "- 1 / 1000 \<le> y - r * 100" "y - r * 100 \<le> 1 / 1000" using y(2) by linarith+
  then have "- 1 / 2 < y" "y < of_int (100 * n) + 1 / 2" using r by simp_all
  then obtain k where k: "math_Round (Fin y) = Fin (of_int k)" "0 \<le> k" "k \<le> 100 * n"
    using math_Round_in [of y "100 * n"] assms(2) by auto
  have "real_of_int k \<le> of_int (100 * n)" using k(3) by (simp only: of_int_le_iff)
  then have "of_int 0 \<le> of_int k / (100::real)" "of_int k / 100 \<le> (of_int n :: real)"
    using k(2) by simp_all
  then obtain z where "binary64 (of_int k / 100) = Fin z" "0 \<le> z" "z \<le> of_int n"
    using binary64.between [of 0 "of_int k / 100" n] assms(2,3) by auto
  then show ?thesis using r y k by (simp add: round2_def in_band_def)
qed

lemma round2_percentage: "in_band v (- 1 / 1000) (100 + 1 / 1000) \<Longrightarrow> percentage (round2 v)"
  using round2_in_band [of v 100] by (simp add: percentage_def)

lemma percentage_round2: "percentage v \<Longrightarrow> percentage (round2 v)"
  unfolding percentage_def [of v] by (rule round2_percentage, erule in_band_weaken) simp_all

lemma round2_mono:
  assumes "f_le (Fin a) (Fin b)" "\<bar>a\<bar> \<le> 900" "\<bar>b\<bar> \<le> 900"
  shows "f_le (round2 (Fin a)) (round2 (Fin b))"
proof -
  have "\<bar>a * 100\<bar> \<le> 100000" "\<bar>b * 100\<bar> \<le> 100000" using assms by (auto simp: abs_le_iff)
  then obtain y z where y: "binary64 (a * 100) = Fin y" and z: "binary64 (b * 100) = Fin z"
    using binary64.near_small by metis
  have "f_le (binary64 (a * 100)) (binary64 (b * 100))"
    using assms(1) by (intro binary64.rnd_mono) simp
  then have "y \<le> z" using y z by simp
  then obtain k l where "math_Round (Fin y) = Fin (of_int k)" "math_Round (Fin z) = Fin (of_int l)" "k \<le> l"
    by (rule math_Round_mono)
  then show ?thesis using y z binary64.rnd_mono [of "of_int k / 100" "of_int l / 100"]
    by (simp add: round2_def divide_right_mono)
qed

text \<open>The two clamps.\<close>

lemma clamp_low_percentage: "f_le v (Fin 100) \<Longrightarrow> percentage (clamp_low v)"
  by (cases v) (auto simp: f_le_def f_eq_def clamp_low_def percentage_def in_band_def)

lemma clamps_percentage:
  assumes "v \<noteq> NaN"
  shows "percentage (clamp_low (clamp_high v))" "percentage (clamp_high (clamp_low v))"
  using assms by (cases v; force simp: clamp_low_def clamp_high_def percentage_def in_band_def)+

lemma binary64_not_NaN [simp]: "binary64 x \<noteq> NaN"
  by (simp add: binary64_cases)

lemma binary64_nonneg: "0 \<le> x \<Longrightarrow> binary64 x = PInf \<or> (\<exists>z\<ge>0. binary64 x = Fin z)"
  using binary64.rnd_mono [of 0 x] by (cases "binary64 x") (auto simp: binary64_int f_le_def f_eq_def)

lemma binary64_le_int: "\<bar>n\<bar> < 2 ^ 53 \<Longrightarrow> x \<le> of_int n \<Longrightarrow> f_le (binary64 x) (Fin (of_int n))"
  using binary64.rnd_mono [of x "of_int n"] binary64.rnd_int [of n] by simp

lemma hundredfold: "f_le c (Fin 1) \<Longrightarrow> f_le (f_mul (Fin 100) c) (Fin 100)"
proof (cases c)
  case (Fin x4)
  assume "f_le c (Fin 1)"
  then show ?thesis using Fin binary64_le_int [of 100 "100 * x4"] by simp
qed (simp_all add: f_le_def f_eq_def f_inf_def)

lemma one_minus_ratio:
  assumes "0 \<le> (r::real)" "1 \<le> s"
  shows "f_le (f_sub (Fin 1) (f_div (Fin r) (Fin s))) (Fin 1)"
    and "f_le (f_mul (Fin 100) (f_sub (Fin 1) (f_div (Fin r) (Fin s)))) (Fin 100)"
proof -
  have s: "s \<noteq> 0" using assms(2) by linarith
  let ?c = "f_sub (Fin 1) (f_div (Fin r) (Fin s))"
  have "binary64 (r / s) = PInf \<or> (\<exists>z\<ge>0. binary64 (r / s) = Fin z)"
    using assms by (intro binary64_nonneg) simp
  then show 1: "f_le ?c (Fin 1)"
    using binary64_le_int [of 1 "1 - z" for z] s by (auto simp: f_sub_def) (simp_all add: f_le_def)
  then show "f_le (f_mul (Fin 100) ?c) (Fin 100)"
    by (rule hundredfold)
qed

lemma failures_ratio:
  assumes "0 < sent" "sent < 2 ^ 63" "0 \<le> t" "0 \<le> c" "t + c < 2 ^ 63"
  obtains r s where "float64 (wrap64 (t + c)) = Fin r" "float64 sent = Fin s" "0 \<le> r" "1 \<le> s"
proof -
  have "wrap64 (t + c) = t + c" using assms by (intro wrap64_in_range) (simp add: in_i64_def)
  moreover obtain r where "float64 (t + c) = Fin r" "0 \<le> r"
    using float64_finite [of "t + c"] assms by auto
  moreover obtain s where "float64 sent = Fin s" "1 \<le> s"
    using float64_finite [of sent] assms by auto
  ultimately show ?thesis using that by simp
qed

lemma stabilityScore_percentage:
  assumes "sent < 2 ^ 63" "0 \<le> t" "0 \<le> c" "t + c < 2 ^ 63"
  shows "percentage (stabilityScore sent t c)"
proof (cases "sent \<le> 0")
  case True
  then show ?thesis by (simp add: stabilityScore_def percentage_def in_band_def)
next
  case False
  then obtain r s where r: "float64 (wrap64 (t + c)) = Fin r" "float64 sent = Fin s" "0 \<le> r" "1 \<le> s"
    using failures_ratio assms by (metis not_le)
  show ?thesis
    using False percentage_round2 [OF clamp_low_percentage [OF one_minus_ratio(2) [OF r(3,4)]]]
    by (simp add: stabilityScore_def r)
qed

lemma completionFraction_unit:
  assumes "sent < 2 ^ 63" "0 \<le> t" "0 \<le> c" "t + c < 2 ^ 63"
  shows "in_band (completionFraction sent t c) 0 1"
proof (cases "sent \<le> 0")
  case True
  then show ?thesis by (simp add: completionFraction_def in_band_def)
next
  case False
  then obtain r s where r: "float64 (wrap64 (t + c)) = Fin r" "float64 sent = Fin s" "0 \<le> r" "1 \<le> s"
    using failures_ratio assms by (metis not_le)
  have "f_le (f_sub (Fin 1) (f_div (Fin r) (Fin s))) (Fin 1)" by (rule one_minus_ratio(1) [OF r(3,4)])
  then show ?thesis
    using False by (cases "f_sub (Fin 1) (f_div (Fin r) (Fin s))")
      (auto simp: completionFraction_def r Let_def clamp_low_def in_band_def f_le_def f_eq_def)
qed

lemma throughputScore_percentage:
  assumes "expected < 2 ^ 63"
  shows "percentage (throughputScore tps expected)"
proof (cases "IsNaN tps \<or> IsInf tps \<or> expected \<le> 0")
  case True
  then show ?thesis by (auto simp: throughputScore_def percentage_def in_band_def)
next
  case False
  then obtain t where t: "tps = Fin t" by (cases tps) (auto simp: IsNaN_def IsInf_def)
  obtain e where e: "float64 expected = Fin e" "1 \<le> e" using False assms float64_finite [of expected] by auto
  have "f_div (f_mul (Fin 100) tps) (float64 expected) \<noteq> NaN"
    using e by (cases "binary64 (100 * t)") (auto simp: t f_inf_def sgn_if)
  then show ?thesis
    using False percentage_round2 [OF clamps_percentage(1)] by (simp add: throughputScore_def)
qed

lemma penalty_cases:
  assumes "x \<noteq> NaN" "0 < y"
  obtains "f_mul (math_Max x (Fin 0)) (Fin y) = PInf"
        | z where "0 \<le> z" "f_mul (math_Max x (Fin 0)) (Fin y) = Fin z"
proof -
  have "math_Max x (Fin 0) = PInf \<or> (\<exists>w\<ge>0. math_Max x (Fin 0) = Fin w)"
    using assms(1) by (cases x) (auto simp: math_Max_def IsNaN_def)
  then show ?thesis
  proof
    assume "math_Max x (Fin 0) = PInf"
    then show ?thesis using assms(2) that(1) by (simp add: f_inf_def)
  next
    assume "\<exists>w\<ge>0. math_Max x (Fin 0) = Fin w"
    then obtain w where w: "0 \<le> w" "math_Max x (Fin 0) = Fin w" by blast
    then have "0 \<le> w * y" using assms(2) by simp
    from binary64_nonneg [OF this] w that show ?thesis by auto
  qed
qed

lemma f_sub_not_NaN: "v \<noteq> NaN \<Longrightarrow> f_sub v (Fin b) \<noteq> NaN"
  by (cases v) (simp_all add: f_sub_def)

lemma clamp_low_not_NaN: "v \<noteq> NaN \<Longrightarrow> clamp_low v \<noteq> NaN"
  by (simp add: clamp_low_def)

lemma two_penalties:
  assumes "p = PInf \<or> (\<exists>z\<ge>0. p = Fin z)" "q = PInf \<or> (\<exists>z\<ge>0. q = Fin z)"
  shows "f_sub (f_sub (Fin 100) p) q \<noteq> NaN"
proof -
  have "f_le (f_sub (Fin 100) p) (Fin 100)"
    using assms(1) binary64_le_int [of 100 "100 - z" for z] by (auto simp: f_sub_def) (simp add: f_le_def)
  then have "f_sub (Fin 100) p \<noteq> PInf" "f_sub (Fin 100) p \<noteq> NaN" by (auto simp: f_le_def f_eq_def)
  then show ?thesis using assms(2) by (cases "f_sub (Fin 100) p") (auto simp: f_sub_def)
qed

lemma resourceScore_percentage: "percentage (resourceScore cpu mem)"
proof (cases "IsNaN cpu \<or> IsInf cpu \<or> f_le cpu (Fin 0)")
  case True
  then show ?thesis by (auto simp: resourceScore_def percentage_def in_band_def)
next
  case False
  obtain y1 where y1: "binary64 (3 / 2) = Fin y1" "0 < y1"
    using binary64_in_band [of "3 / 2"] by (force elim!: in_bandE)
  obtain y2 where y2: "binary64 (1 / 20) = Fin y2" "0 < y2"
    using binary64_in_band [of "1 / 20"] by (force elim!: in_bandE)
  obtain c where c: "cpu = Fin c" using False by (cases cpu) (auto simp: IsNaN_def IsInf_def)
  let ?x = "f_sub (math_Min cpu (Fin 100)) (Fin 50)"
  let ?z = "f_sub (clamp_low (if IsNaN mem \<or> IsInf mem then Fin 0 else mem)) (Fin 512)"
  have n: "?x \<noteq> NaN" by (rule f_sub_not_NaN) (simp add: c math_Min_def IsNaN_def)
  have m: "?z \<noteq> NaN" by (rule f_sub_not_NaN, rule clamp_low_not_NaN) (simp add: IsNaN_def)
  have "f_sub (f_sub (Fin 100) (f_mul (math_Max ?x (Fin 0)) (Fin y1))) (f_mul (math_Max ?z (Fin 0)) (Fin y2)) \<noteq> NaN"
    by (rule two_penalties) (metis penalty_cases [OF n y1(2)], metis penalty_cases [OF m y2(2)])
  from percentage_round2 [OF clamps_percentage(2) [OF this]] show ?thesis
    using False by (simp add: resourceScore_def Let_def y1 y2)
qed

section \<open>The latency ramp\<close>

definition log10_accurate :: "(f64 \<Rightarrow> f64) \<Rightarrow> bool" where
  "log10_accurate Log10 \<longleftrightarrow>
     (\<forall>x. 1 / 20 \<le> x \<and> x \<le> 100 \<longrightarrow> in_band (Log10 (Fin x)) (log 10 x - 1 / 10 ^ 9) (log 10 x + 1 / 10 ^ 9))"

definition log10_monotone :: "(f64 \<Rightarrow> f64) \<Rightarrow> bool" where
  "log10_monotone Log10 \<longleftrightarrow>
     (\<forall>x y. 1 / 20 \<le> x \<and> x \<le> y \<and> y \<le> 100 \<longrightarrow> f_le (Log10 (Fin x)) (Log10 (Fin y)))"

lemma floor_value:
  obtains F where "latencyFloorMS = Fin F" "1 / 20 \<le> F" "F \<le> 1 / 5"
  using binary64_in_band [of "1 / 10"] that by (force simp: latencyFloorMS_def elim!: in_bandE)

lemma cap_value [simp]: "latencyCapMS = Fin 50"
  by (simp add: latencyCapMS_def binary64_int)

lemma log10_bounds: "1 \<le> log 10 (50::real)" "log 10 (50::real) \<le> 2"
    "1 / 20 \<le> F \<Longrightarrow> F \<le> 1 / 5 \<Longrightarrow> - 2 \<le> log 10 F \<and> log 10 F \<le> 0"
proof -
  have l: "log 10 (10::real) = 1" "log 10 (100::real) = 2" "log 10 (1 / 100) = (- 2 :: real)"
    using log_pow_cancel [of 10 2] by (simp_all add: log_divide)
  have "log 10 (10::real) \<le> log 10 50" "log 10 (50::real) \<le> log 10 100" by simp_all
  then show "1 \<le> log 10 (50::real)" "log 10 (50::real) \<le> 2" using l by simp_all
  assume F: "1 / 20 \<le> F" "F \<le> 1 / 5"
  then have "log 10 (1 / 100) \<le> log 10 F" "log 10 F \<le> log 10 1" by simp_all
  then show "- 2 \<le> log 10 F \<and> log 10 F \<le> 0" using l by simp
qed

text \<open>The ramp's numerator and quotient, as reals.\<close>

lemma ramp_parts:
  assumes "log10_accurate Log10" "latencyFloorMS = Fin F" "1 / 20 \<le> F" "F \<le> 1 / 5"
    and "F \<le> p" "p \<le> 50"
  obtains yc yp yf d n where "Log10 (Fin 50) = Fin yc" "Log10 (Fin p) = Fin yp" "Log10 (Fin F) = Fin yf"
    "binary64 (yc - yf) = Fin d" "1 / 2 \<le> d" "d \<le> 100" "binary64 (yc - yp) = Fin n"
    "- 1 / 10000000 \<le> n" "n \<le> d + 1 / 10000000"
proof -
  have acc: "1 / 20 \<le> x \<and> x \<le> 100 \<Longrightarrow> in_band (Log10 (Fin x)) (log 10 x - 1 / 1000000000) (log 10 x + 1 / 1000000000)" for x
    using assms(1) by (simp add: log10_accurate_def)
  obtain yc where yc: "Log10 (Fin 50) = Fin yc" "log 10 50 - 1 / 1000000000 \<le> yc" "yc \<le> log 10 50 + 1 / 1000000000"
    using acc [of 50] by (auto elim: in_bandE)
  obtain yp where yp: "Log10 (Fin p) = Fin yp" "log 10 p - 1 / 1000000000 \<le> yp" "yp \<le> log 10 p + 1 / 1000000000"
    using acc [of p] assms by (auto elim: in_bandE)
  obtain yf where yf: "Log10 (Fin F) = Fin yf" "log 10 F - 1 / 1000000000 \<le> yf" "yf \<le> log 10 F + 1 / 1000000000"
    using acc [of F] assms by (auto elim: in_bandE)
  note b = log10_bounds(1,2) log10_bounds(3) [OF assms(3,4)]
  have pl: "log 10 F \<le> log 10 p" "log 10 p \<le> log 10 50" using assms(3,5,6) by simp_all
  have "\<bar>yc - yf\<bar> \<le> 100000" "\<bar>yc - yp\<bar> \<le> 100000" using yc yp yf b pl by linarith+
  then obtain d n where d: "binary64 (yc - yf) = Fin d" "\<bar>d - (yc - yf)\<bar> \<le> 1 / 1000000000"
    and n: "binary64 (yc - yp) = Fin n" "\<bar>n - (yc - yp)\<bar> \<le> 1 / 1000000000"
    using binary64.near_small by metis
  have "1 / 2 \<le> d" "d \<le> 100" "- 1 / 10000000 \<le> n" "n \<le> d + 1 / 10000000" using d n yc yp yf b pl by linarith+
  with that yc(1) yp(1) yf(1) d(1) n(1) show ?thesis by blast
qed

lemma ramp_quotient:
  assumes "1 / 2 \<le> d" "d \<le> 100" "- 1 / 10000000 \<le> n" "n \<le> d + 1 / 10000000"
  obtains q where "f_div (f_mul (Fin 100) (Fin n)) (Fin d) = Fin q" "- 1 / 1000 \<le> q" "q \<le> 100 + 1 / 1000"
proof -
  have "\<bar>100 * n\<bar> \<le> 100000" using assms by linarith
  then obtain m where m: "binary64 (100 * n) = Fin m" "\<bar>m - 100 * n\<bar> \<le> 1 / 1000000000"
    by (rule binary64.near_small)
  have "m - 100 * n \<le> 1 / 1000000000" "- (1 / 1000000000) \<le> m - 100 * n" using m(2) by linarith+
  moreover have "- (d / 2000) \<le> - (1 / 4000)" "1 / 4000 \<le> d / 2000" using assms(1) by simp_all
  moreover have "- (1 / 100000) \<le> 100 * n" "100 * n \<le> 100 * d + 1 / 100000" using assms(3,4) by simp_all
  ultimately have up: "m \<le> 100 * d + d / 2000" and "- (1 / 4000) \<le> m" by linarith+
  moreover have "- (d / 2000) \<le> - (1 / 4000)" using assms(1) by simp
  ultimately have "- (d / 2000) \<le> m" by (meson order.trans)
  then have r: "- (1 / 2000) \<le> m / d" "m / d \<le> 100 + 1 / 2000"
    using assms(1) up by (simp_all add: pos_le_divide_eq pos_divide_le_eq distrib_right)
  then have "\<bar>m / d\<bar> \<le> 100000" by linarith
  then obtain q where q: "binary64 (m / d) = Fin q" "\<bar>q - m / d\<bar> \<le> 1 / 1000000000"
    by (rule binary64.near_small)
  have "- 1 / 1000 \<le> q" "q \<le> 100 + 1 / 1000" using q(2) r by linarith+
  with that q(1) m(1) assms(1) show ?thesis by simp
qed

lemma latencyScore_flat:
  "0 < x \<Longrightarrow> f_le (Fin x) latencyFloorMS \<Longrightarrow> latencyScore Log10 (Fin x) = Fin 100"
  "50 \<le> x \<Longrightarrow> latencyScore Log10 (Fin x) = Fin 0"
proof -
  show "0 < x \<Longrightarrow> f_le (Fin x) latencyFloorMS \<Longrightarrow> latencyScore Log10 (Fin x) = Fin 100"
    by (simp add: latencyScore_def IsNaN_def IsInf_def)
  obtain F where "latencyFloorMS = Fin F" "1 / 20 \<le> F" "F \<le> 1 / 5" by (rule floor_value)
  note F = this
  show "50 \<le> x \<Longrightarrow> latencyScore Log10 (Fin x) = Fin 0"
    using F(2,3) by (simp add: latencyScore_def IsNaN_def IsInf_def F(1))
qed

lemma latencyScore_ramp:
  assumes "latencyFloorMS = Fin F" "1 / 20 \<le> F" "F < x" "x < 50"
    and "Log10 (Fin 50) = Fin yc" "Log10 (Fin x) = Fin yp" "Log10 (Fin F) = Fin yf"
    and "binary64 (yc - yf) = Fin d" "binary64 (yc - yp) = Fin n"
  shows "latencyScore Log10 (Fin x) = round2 (f_div (f_mul (Fin 100) (Fin n)) (Fin d))"
  using assms(2-4)
  by (simp add: latencyScore_def IsNaN_def IsInf_def Let_def f_sub_def assms(1,5-) del: f_mul.simps f_div.simps)

lemma latencyScore_percentage:
  assumes "log10_accurate Log10"
  shows "percentage (latencyScore Log10 p)"
proof -
  obtain F where F: "latencyFloorMS = Fin F" "1 / 20 \<le> F" "F \<le> 1 / 5" by (rule floor_value)
  show ?thesis
  proof (cases "\<exists>x. p = Fin x \<and> F < x \<and> x < 50")
    case True
    then obtain x where x: "p = Fin x" "F < x" "x < 50" by blast
    obtain yc yp yf d n where r: "Log10 (Fin 50) = Fin yc" "Log10 (Fin x) = Fin yp" "Log10 (Fin F) = Fin yf"
      "binary64 (yc - yf) = Fin d" "1 / 2 \<le> d" "d \<le> 100" "binary64 (yc - yp) = Fin n"
      "- 1 / 10000000 \<le> n" "n \<le> d + 1 / 10000000"
      by (rule ramp_parts [OF assms F, of x]) (use x in auto)
    obtain q where q: "f_div (f_mul (Fin 100) (Fin n)) (Fin d) = Fin q" "- 1 / 1000 \<le> q" "q \<le> 100 + 1 / 1000"
      by (rule ramp_quotient [OF r(5,6,8,9)])
    have "latencyScore Log10 p = round2 (Fin q)"
      using latencyScore_ramp [OF F(1,2) x(2,3) r(1-4,7)] x(1) q(1) by simp
    then show ?thesis using round2_percentage [of "Fin q"] q(2,3) by (simp add: in_band_def)
  next
    case False
    then show ?thesis
      using F(2,3) by (cases p) (auto simp: latencyScore_def F(1) IsNaN_def IsInf_def percentage_def in_band_def not_less)
  qed
qed

text \<open>A lower latency never earns less.\<close>

lemma latencyScore_antimono:
  assumes "log10_accurate Log10" "log10_monotone Log10" "0 < x" "x \<le> y"
  shows "f_le (latencyScore Log10 (Fin y)) (latencyScore Log10 (Fin x))"
proof -
  obtain F where F: "latencyFloorMS = Fin F" "1 / 20 \<le> F" "F \<le> 1 / 5" by (rule floor_value)
  have pct: "f_le (Fin 0) (latencyScore Log10 p)" "f_le (latencyScore Log10 p) (Fin 100)" for p
    using latencyScore_percentage [OF assms(1), of p] by (auto simp: percentage_def in_band_def)
  consider "x \<le> F" | "50 \<le> y" | "F < x" "y < 50" by linarith
  then show ?thesis
  proof cases
    case 1
    then show ?thesis using latencyScore_flat(1) [of x] assms(3) pct by (simp add: F(1))
  next
    case 2
    then show ?thesis using latencyScore_flat(2) pct by simp
  next
    case 3
    obtain yc yx yf d n where r: "Log10 (Fin 50) = Fin yc" "Log10 (Fin x) = Fin yx" "Log10 (Fin F) = Fin yf"
      "binary64 (yc - yf) = Fin d" "1 / 2 \<le> d" "d \<le> 100" "binary64 (yc - yx) = Fin n"
      "- 1 / 10000000 \<le> n" "n \<le> d + 1 / 10000000"
      by (rule ramp_parts [OF assms(1) F, of x]) (use 3 assms(4) in auto)
    obtain yc' yy yf' d' n' where r': "Log10 (Fin 50) = Fin yc'" "Log10 (Fin y) = Fin yy" "Log10 (Fin F) = Fin yf'"
      "binary64 (yc' - yf') = Fin d'" "1 / 2 \<le> d'" "d' \<le> 100" "binary64 (yc' - yy) = Fin n'"
      "- 1 / 10000000 \<le> n'" "n' \<le> d' + 1 / 10000000"
      by (rule ramp_parts [OF assms(1) F, of y]) (use 3 assms(4) in auto)
    have same: "yc' = yc" "yf' = yf" "d' = d" using r r' by simp_all
    have "1 / 20 \<le> x \<and> x \<le> y \<and> y \<le> 100" using 3 F assms(4) by auto
    then have "f_le (Log10 (Fin x)) (Log10 (Fin y))" using assms(2) unfolding log10_monotone_def by blast
    then have "yx \<le> yy" using r(2) r'(2) by simp
    then have nn: "n' \<le> n" using binary64.rnd_mono [of "yc - yy" "yc - yx"] r(7) r'(7) same by simp
    obtain q where q: "f_div (f_mul (Fin 100) (Fin n)) (Fin d) = Fin q" "- 1 / 1000 \<le> q" "q \<le> 100 + 1 / 1000"
      by (rule ramp_quotient [OF r(5,6,8,9)])
    obtain q' where q': "f_div (f_mul (Fin 100) (Fin n')) (Fin d) = Fin q'" "- 1 / 1000 \<le> q'" "q' \<le> 100 + 1 / 1000"
      using ramp_quotient [OF r'(5,6,8,9)] same by blast
    have "q' \<le> q"
    proof -
      have "\<bar>100 * n\<bar> \<le> 100000" "\<bar>100 * n'\<bar> \<le> 100000" using r r' same by linarith+
      then obtain m m' where m: "binary64 (100 * n) = Fin m" "binary64 (100 * n') = Fin m'"
        using binary64.near_small by metis
      then have "m' \<le> m" using binary64.rnd_mono [of "100 * n'" "100 * n"] nn by simp
      then have "m' / d \<le> m / d" using r(5) by (intro divide_right_mono) linarith+
      from binary64.rnd_mono [OF this] show ?thesis using q(1) q'(1) m r(5) by simp
    qed
    then have "f_le (round2 (Fin q')) (round2 (Fin q))" using q q' by (intro round2_mono) auto
    moreover have "F < y" "x < 50" using 3 assms(4) by simp_all
    ultimately show ?thesis
      using latencyScore_ramp [OF F(1,2) \<open>F < x\<close> \<open>x < 50\<close> r(1-4,7)] q(1)
        latencyScore_ramp [OF F(1,2) \<open>F < y\<close> \<open>y < 50\<close> r'(1-4,7)] q'(1) same 3 by simp
  qed
qed

end
