(* ===== verification/ScoreProps.thy ===== *)
theory ScoreProps
  imports Scoring RunStore
begin

text \<open>
  What the orchestrator's scorer promises: every sub-score and the total lie between 0 and 100,
  the total is the weighted mean of the sub-scores rounded to two decimals, a failed gate means
  no points, and a slower engine never scores more.
\<close>

section \<open>The weighted sum\<close>

lemma weight_close:
  assumes "0 \<le> w" "w \<le> 1" "0 \<le> l" "l \<le> 100"
  obtains v where "f_mul (binary64 w) (Fin l) = Fin v" "w * l - 1 / 1000000 \<le> v" "v \<le> w * l + 1 / 1000000"
proof -
  obtain y where y: "binary64 w = Fin y" "\<bar>y - w\<bar> \<le> 1 / 1000000000"
    using binary64.near_small [of w] assms by auto
  have "\<bar>y * l - w * l\<bar> = \<bar>y - w\<bar> * l" using assms(3) by (simp add: abs_mult flip: left_diff_distrib)
  also have "\<dots> \<le> 1 / 1000000000 * 100" using y(2) assms by (intro mult_mono) simp_all
  finally have e: "\<bar>y * l - w * l\<bar> \<le> 1 / 10000000" by simp
  have "\<bar>w * l\<bar> \<le> 1 * 100" unfolding abs_mult using assms by (intro mult_mono) simp_all
  then have "\<bar>y * l\<bar> \<le> 100000" using e by linarith
  then obtain v where v: "binary64 (y * l) = Fin v" "\<bar>v - y * l\<bar> \<le> 1 / 1000000000"
    by (rule binary64.near_small)
  then have "w * l - 1 / 1000000 \<le> v" "v \<le> w * l + 1 / 1000000" using e by linarith+
  with that v(1) y(1) show ?thesis by simp
qed

lemma add_close:
  assumes "\<bar>a\<bar> \<le> 10000" "\<bar>b\<bar> \<le> 10000"
  obtains c where "f_add (Fin a) (Fin b) = Fin c" "a + b - 1 / 1000000000 \<le> c" "c \<le> a + b + 1 / 1000000000"
proof -
  have "\<bar>a + b\<bar> \<le> 100000" using assms by linarith
  then obtain c where c: "binary64 (a + b) = Fin c" "\<bar>c - (a + b)\<bar> \<le> 1 / 1000000000"
    by (rule binary64.near_small)
  then have "a + b - 1 / 1000000000 \<le> c" "c \<le> a + b + 1 / 1000000000" by linarith+
  with c(1) that show ?thesis by simp
qed

lemma round2_close:
  assumes "\<bar>v\<bar> \<le> 900"
  obtains z where "round2 (Fin v) = Fin z" "\<bar>z - v\<bar> \<le> 51 / 10000"
proof -
  have "\<bar>v * 100\<bar> \<le> 100000" using assms by linarith
  then obtain y where y: "binary64 (v * 100) = Fin y" "\<bar>y - v * 100\<bar> \<le> 1 / 1000000000"
    by (rule binary64.near_small)
  obtain k where k: "math_Round (Fin y) = Fin (of_int k)" "\<bar>of_int k - y\<bar> \<le> 1 / 2"
  proof -
    have "\<bar>of_int \<lfloor>y + 1 / 2\<rfloor> - y\<bar> \<le> 1 / 2" "\<bar>- of_int \<lfloor>- y + 1 / 2\<rfloor> - y\<bar> \<le> 1 / 2" by linarith+
    then show ?thesis using that [of "if 0 \<le> y then \<lfloor>y + 1 / 2\<rfloor> else - \<lfloor>- y + 1 / 2\<rfloor>"] by auto
  qed
  have "\<bar>of_int k / 100\<bar> \<le> (100000::real)" using k(2) y(2) assms by linarith
  then obtain z where z: "binary64 (of_int k / 100) = Fin z" "\<bar>z - of_int k / 100\<bar> \<le> 1 / 1000000000"
    by (rule binary64.near_small)
  have "\<bar>z - v\<bar> \<le> 51 / 10000" using z(2) k(2) y(2) by linarith
  with that z(1) k(1) y(1) show ?thesis by (simp add: round2_def)
qed

definition mean_score :: "real \<Rightarrow> real \<Rightarrow> real \<Rightarrow> real \<Rightarrow> real" where
  "mean_score l t s r = 2 / 5 * l + 3 / 10 * t + 1 / 5 * s + 1 / 10 * r"

lemma binary64_FinD: "binary64 x = Fin y \<Longrightarrow> y = round64 x"
  by (simp add: binary64_cases split: if_splits)

definition weighted_sum :: "real \<Rightarrow> real \<Rightarrow> real \<Rightarrow> real \<Rightarrow> real" where
  "weighted_sum l t s r = round64 (round64 (round64
    (round64 (round64 (2 / 5) * l) + round64 (round64 (3 / 10) * t)) + round64 (round64 (1 / 5) * s))
      + round64 (round64 (1 / 10) * r))"

lemma weighted_sum_mono: "l \<le> l' \<Longrightarrow> weighted_sum l t s r \<le> weighted_sum l' t s r"
  unfolding weighted_sum_def
  by (intro round64_mono add_right_mono mult_left_mono round64_nonneg) simp_all

lemma weighted_round64:
  assumes "0 \<le> l" "l \<le> 100" "0 \<le> t" "t \<le> 100" "0 \<le> s" "s \<le> 100" "0 \<le> r" "r \<le> 100"
  shows "weighted_score (Fin l) (Fin t) (Fin s) (Fin r) = round2 (Fin (weighted_sum l t s r))"
    and "\<bar>weighted_sum l t s r - mean_score l t s r\<bar> \<le> 1 / 100000" and "\<bar>weighted_sum l t s r\<bar> \<le> 900"
proof -
  obtain v1 where v1: "f_mul (binary64 (2 / 5)) (Fin l) = Fin v1" "2 / 5 * l - 1 / 1000000 \<le> v1" "v1 \<le> 2 / 5 * l + 1 / 1000000"
    by (rule weight_close [of "2 / 5" l]) (use assms in simp_all)
  obtain v2 where v2: "f_mul (binary64 (3 / 10)) (Fin t) = Fin v2" "3 / 10 * t - 1 / 1000000 \<le> v2" "v2 \<le> 3 / 10 * t + 1 / 1000000"
    by (rule weight_close [of "3 / 10" t]) (use assms in simp_all)
  obtain v3 where v3: "f_mul (binary64 (1 / 5)) (Fin s) = Fin v3" "1 / 5 * s - 1 / 1000000 \<le> v3" "v3 \<le> 1 / 5 * s + 1 / 1000000"
    by (rule weight_close [of "1 / 5" s]) (use assms in simp_all)
  obtain v4 where v4: "f_mul (binary64 (1 / 10)) (Fin r) = Fin v4" "1 / 10 * r - 1 / 1000000 \<le> v4" "v4 \<le> 1 / 10 * r + 1 / 1000000"
    by (rule weight_close [of "1 / 10" r]) (use assms in simp_all)
  have "\<bar>v1\<bar> \<le> 10000" "\<bar>v2\<bar> \<le> 10000" using v1(2,3) v2(2,3) assms by linarith+
  then obtain a where a: "f_add (Fin v1) (Fin v2) = Fin a" "v1 + v2 - 1 / 1000000000 \<le> a" "a \<le> v1 + v2 + 1 / 1000000000"
    by (rule add_close)
  have "\<bar>a\<bar> \<le> 10000" "\<bar>v3\<bar> \<le> 10000" using v1(2,3) v2(2,3) v3(2,3) a(2,3) assms by linarith+
  then obtain b where b: "f_add (Fin a) (Fin v3) = Fin b" "a + v3 - 1 / 1000000000 \<le> b" "b \<le> a + v3 + 1 / 1000000000"
    by (rule add_close)
  have "\<bar>b\<bar> \<le> 10000" "\<bar>v4\<bar> \<le> 10000" using v1(2,3) v2(2,3) v3(2,3) v4(2,3) a(2,3) b(2,3) assms by linarith+
  then obtain c where c: "f_add (Fin b) (Fin v4) = Fin c" "b + v4 - 1 / 1000000000 \<le> c" "c \<le> b + v4 + 1 / 1000000000"
    by (rule add_close)
  have m: "v = round64 (round64 w * x)" if "f_mul (binary64 w) (Fin x) = Fin v" for v w x
    using that by (cases "binary64 w") (auto simp: f_inf_def dest: binary64_FinD split: if_splits)
  have "c = weighted_sum l t s r"
    unfolding weighted_sum_def using m [OF v1(1)] m [OF v2(1)] m [OF v3(1)] m [OF v4(1)] a(1) b(1) c(1) by (auto dest!: binary64_FinD)
  moreover have "\<bar>c - mean_score l t s r\<bar> \<le> 1 / 100000" unfolding mean_score_def
    using v1(2,3) v2(2,3) v3(2,3) v4(2,3) a(2,3) b(2,3) c(2,3) by linarith
  moreover have "\<bar>c\<bar> \<le> 900" using v1(2,3) v2(2,3) v3(2,3) v4(2,3) a(2,3) b(2,3) c(2,3) assms by linarith
  moreover have "weighted_score (Fin l) (Fin t) (Fin s) (Fin r) = round2 (Fin c)"
    by (simp only: weighted_score_def v1(1) v2(1) v3(1) v4(1) a(1) b(1) c(1))
  ultimately show "weighted_score (Fin l) (Fin t) (Fin s) (Fin r) = round2 (Fin (weighted_sum l t s r))"
    and "\<bar>weighted_sum l t s r - mean_score l t s r\<bar> \<le> 1 / 100000"
    and "\<bar>weighted_sum l t s r\<bar> \<le> 900" by simp_all
qed

lemma weighted_score_mean:
  assumes "percentage l" "percentage t" "percentage s" "percentage r"
  obtains l' t' s' r' z where "l = Fin l'" "t = Fin t'" "s = Fin s'" "r = Fin r'"
    "weighted_score l t s r = Fin z" "0 \<le> z" "z \<le> 100" "\<bar>z - mean_score l' t' s' r'\<bar> \<le> 3 / 500"
proof -
  obtain l' t' s' r' where e: "l = Fin l'" "t = Fin t'" "s = Fin s'" "r = Fin r'"
    and b: "0 \<le> l'" "l' \<le> 100" "0 \<le> t'" "t' \<le> 100" "0 \<le> s'" "s' \<le> 100" "0 \<le> r'" "r' \<le> 100"
    using assms by (auto simp: percentage_def in_band_def)
  obtain v where v: "weighted_score l t s r = round2 (Fin v)" "\<bar>v - mean_score l' t' s' r'\<bar> \<le> 1 / 100000"
    using weighted_round64(1,2) [OF b] that e by simp
  have m: "0 \<le> mean_score l' t' s' r'" "mean_score l' t' s' r' \<le> 100"
    unfolding mean_score_def using b by linarith+
  obtain z where z: "round2 (Fin v) = Fin z" "\<bar>z - v\<bar> \<le> 51 / 10000"
    by (rule round2_close [of v]) (use v(2) m in linarith)
  have "- 1 / 1000 \<le> v" "v \<le> 100 + 1 / 1000" using v(2) m by linarith+
  then have "percentage (round2 (Fin v))" by (intro round2_percentage) (simp add: in_band_def)
  then have "0 \<le> z" "z \<le> 100" using z(1) by (simp_all add: percentage_def in_band_def)
  moreover have "\<bar>z - mean_score l' t' s' r'\<bar> \<le> 3 / 500" using z(2) v(2) by linarith
  ultimately show ?thesis using that e v(1) z(1) by simp
qed

text \<open>Full marks in all four make exactly 100.\<close>

lemma weighted_score_full: "weighted_score (Fin 100) (Fin 100) (Fin 100) (Fin 100) = Fin 100"
proof -
  obtain v where v: "weighted_score (Fin 100) (Fin 100) (Fin 100) (Fin 100) = round2 (Fin v)"
    "\<bar>v - mean_score 100 100 100 100\<bar> \<le> 1 / 100000"
    using weighted_round64(1,2) [of 100 100 100 100] that by simp
  then have w: "\<bar>v - 100\<bar> \<le> 1 / 100000" by (simp add: mean_score_def)
  then have "\<bar>v * 100\<bar> \<le> 100000" by linarith
  then obtain y where y: "binary64 (v * 100) = Fin y" "\<bar>y - v * 100\<bar> \<le> 1 / 1000000000"
    by (rule binary64.near_small)
  have "\<lfloor>y + 1 / 2\<rfloor> = 10000" "0 \<le> y" using y(2) w by linarith+
  then have "round2 (Fin v) = Fin 100" using y(1) by (simp add: round2_def binary64_int)
  with v(1) show ?thesis by simp
qed

lemma weighted_score_mono:
  assumes "percentage l" "percentage l'" "percentage t" "percentage s" "percentage r" "f_le l l'"
  shows "f_le (weighted_score l t s r) (weighted_score l' t s r)"
proof -
  obtain a a' b c d where e: "l = Fin a" "l' = Fin a'" "t = Fin b" "s = Fin c" "r = Fin d"
    and i: "0 \<le> a" "a \<le> 100" "0 \<le> a'" "a' \<le> 100" "0 \<le> b" "b \<le> 100" "0 \<le> c" "c \<le> 100" "0 \<le> d" "d \<le> 100"
    using assms(1-5) by (auto simp: percentage_def in_band_def)
  have "a \<le> a'" using assms(6) e by simp
  then show ?thesis
    unfolding e weighted_round64(1) [OF i(1,2,5-10)] weighted_round64(1) [OF i(3-10)]
    by (intro round2_mono weighted_round64(3) i) (simp add: weighted_sum_mono)
qed

section \<open>The latency credit\<close>

definition counters_ok :: "Metrics \<Rightarrow> bool" where
  "counters_ok m \<longleftrightarrow> mt_OrdersSent m < 2 ^ 63 \<and> 0 \<le> mt_Timeouts m \<and> 0 \<le> mt_ConnectErrors m \<and>
     mt_Timeouts m + mt_ConnectErrors m < 2 ^ 63"

definition scorable :: "Metrics option \<Rightarrow> ValidationResult option \<Rightarrow> bool" where
  "scorable metrics validation \<longleftrightarrow> validation \<noteq> None \<and> vr_Valid (the validation) \<and>
     metrics \<noteq> None \<and> 0 < mt_OrdersSent (the metrics)"

lemma latency_credit:
  assumes "percentage l" "counters_ok m"
  obtains c f where "completionFraction (mt_OrdersSent m) (mt_Timeouts m) (mt_ConnectErrors m) = Fin c"
    "math_Min (f_div (Fin c) (binary64 (1 / 2))) (Fin 1) = Fin f" "0 \<le> f" "f \<le> 1"
proof -
  have "in_band (completionFraction (mt_OrdersSent m) (mt_Timeouts m) (mt_ConnectErrors m)) 0 1"
    using assms(2) by (intro completionFraction_unit) (auto simp: counters_ok_def)
  then obtain c where c: "completionFraction (mt_OrdersSent m) (mt_Timeouts m) (mt_ConnectErrors m) = Fin c"
    "0 \<le> c" "c \<le> 1" by (rule in_bandE)
  obtain h where h: "binary64 (1 / 2) = Fin h" "1 / 4 \<le> h"
    using binary64_in_band [of "1 / 2"] by (force elim!: in_bandE)
  have "0 \<le> c / h" "c / h \<le> 4" using c h(2) by (simp_all add: divide_le_eq)
  then obtain q where "binary64 (c / h) = Fin q" "0 \<le> q"
    using binary64.between [of 0 "c / h" 4] by auto
  moreover have "h \<noteq> 0" using h(2) by auto
  ultimately have "math_Min (f_div (Fin c) (binary64 (1 / 2))) (Fin 1) = Fin (min q 1)" "0 \<le> min q 1" "min q 1 \<le> 1"
    by (auto simp: math_Min_def IsNaN_def h(1))
  with that c(1) show ?thesis by blast
qed

lemma credit_exact:
  assumes "0 \<le> a" "a \<le> 100" "0 \<le> f" "f \<le> 1"
  obtains y where "binary64 (a * f) = Fin y" "0 \<le> y" "y \<le> 100"
proof -
  have "a * f \<le> 100 * 1" by (rule mult_mono) (use assms in simp_all)
  then have "of_int 0 \<le> a * f" "a * f \<le> of_int 100" using assms by simp_all
  then obtain y where "binary64 (a * f) = Fin y" "of_int 0 \<le> y" "y \<le> of_int 100"
    by (rule binary64.between) simp_all
  with that show ?thesis by simp
qed

lemma credit_percentage:
  assumes "percentage l" "0 \<le> f" "f \<le> 1"
  shows "percentage (round2 (f_mul l (Fin f)))"
proof -
  obtain a where a: "l = Fin a" "0 \<le> a" "a \<le> 100" using assms(1) by (auto simp: percentage_def in_band_def)
  obtain y where "binary64 (a * f) = Fin y" "0 \<le> y" "y \<le> 100" by (rule credit_exact [OF a(2,3) assms(2,3)])
  then show ?thesis using percentage_round2 [of "Fin y"] a by (simp add: percentage_def in_band_def)
qed

lemma credit_mono:
  assumes "percentage l" "percentage l'" "f_le l l'" "0 \<le> f" "f \<le> 1"
  shows "f_le (round2 (f_mul l (Fin f))) (round2 (f_mul l' (Fin f)))"
proof -
  obtain a a' where a: "l = Fin a" "0 \<le> a" "a \<le> 100" "l' = Fin a'" "0 \<le> a'" "a' \<le> 100"
    using assms(1,2) by (auto simp: percentage_def in_band_def)
  obtain y where y: "binary64 (a * f) = Fin y" "0 \<le> y" "y \<le> 100" by (rule credit_exact [OF a(2,3) assms(4,5)])
  obtain y' where y': "binary64 (a' * f) = Fin y'" "0 \<le> y'" "y' \<le> 100" by (rule credit_exact [OF a(5,6) assms(4,5)])
  have "a \<le> a'" using assms(3) a by simp
  then have "a * f \<le> a' * f" using assms(4) by (rule mult_right_mono)
  from binary64.rnd_mono [OF this] have "y \<le> y'" using y(1) y'(1) by simp
  then show ?thesis using y y' a round2_mono [of y y'] by simp
qed

section \<open>Properties of the score\<close>

lemma Score_bounds:
  assumes "log10_accurate Log10" "counters_ok m"
    and "- (2 ^ 63) \<le> mt_OrdersSent m"
    and "Score Log10 disk_ok run (Some m) validation = (s, ok)"
  shows "percentage (sr_Score s) \<and> percentage (sr_LatencyScore s) \<and> percentage (sr_ThroughputScore s) \<and>
    percentage (sr_StabilityScore s) \<and> percentage (sr_ResourceScore s) \<and> ok = disk_ok \<and>
    (\<exists>l t st r z. sr_LatencyScore s = Fin l \<and> sr_ThroughputScore s = Fin t \<and> sr_StabilityScore s = Fin st \<and>
       sr_ResourceScore s = Fin r \<and> sr_Score s = Fin z \<and> \<bar>z - mean_score l t st r\<bar> \<le> 3 / 500)"
proof (cases "scorable (Some m) validation")
  case False
  then obtain run_id reason where s: "s = noScore run_id reason" and ok: "ok = (marshal_ok s \<and> disk_ok)"
    using assms(4) by (auto simp: Score_def scorable_def writeScore_def Let_def split: option.splits if_splits)
  have "marshal_ok s" by (simp add: s marshal_ok_def noScore_def IsNaN_def IsInf_def)
  then show ?thesis
    using ok by (auto simp: s noScore_def percentage_def in_band_def mean_score_def)
next
  case True
  let ?l0 = "latencyScore Log10 (mt_P99MS m)"
  let ?e = "wrap64 (bc_BotCount (br_Config run) * bc_RatePerBot (br_Config run))"
  let ?t = "throughputScore (mt_TPS m) ?e"
  let ?st = "stabilityScore (mt_OrdersSent m) (mt_Timeouts m) (mt_ConnectErrors m)"
  let ?r = "resourceScore (mt_CPUPctPeak m) (mt_MemMBPeak m)"
  have pl0: "percentage ?l0" by (rule latencyScore_percentage [OF assms(1)])
  obtain c f where c: "completionFraction (mt_OrdersSent m) (mt_Timeouts m) (mt_ConnectErrors m) = Fin c"
    "math_Min (f_div (Fin c) (binary64 (1 / 2))) (Fin 1) = Fin f" "0 \<le> f" "f \<le> 1"
    by (rule latency_credit [OF pl0 assms(2)])
  let ?l = "round2 (f_mul ?l0 (Fin f))"
  have p: "percentage ?l" "percentage ?t" "percentage ?st" "percentage ?r"
    using credit_percentage [OF pl0 c(3,4)] throughputScore_percentage [of ?e] in_i64_wrap64
      stabilityScore_percentage resourceScore_percentage assms(2) by (auto simp: counters_ok_def in_i64_def)
  obtain l' t' s' r' z where w: "?l = Fin l'" "?t = Fin t'" "?st = Fin s'" "?r = Fin r'"
    "weighted_score ?l ?t ?st ?r = Fin z" "0 \<le> z" "z \<le> 100" "\<bar>z - mean_score l' t' s' r'\<bar> \<le> 3 / 500"
    by (rule weighted_score_mean [OF p])
  have s: "sr_Score s = weighted_score ?l ?t ?st ?r" "sr_LatencyScore s = ?l" "sr_ThroughputScore s = ?t"
      "sr_StabilityScore s = ?st" "sr_ResourceScore s = ?r" "ok = (marshal_ok s \<and> disk_ok)"
    using assms(4) True c(1,2) by (auto simp: Score_def scorable_def writeScore_def Let_def split: option.splits)
  have "marshal_ok s" using s w by (simp add: marshal_ok_def IsNaN_def IsInf_def)
  then show ?thesis using s w p by (simp add: percentage_def in_band_def)
qed

definition demo_metrics :: Metrics where
  "demo_metrics = \<lparr>mt_RunID = ''run_1'', mt_Bots = 10, mt_OrdersSent = 100, mt_AcksReceived = 90,
     mt_FillsReceived = 40, mt_Timeouts = 10, mt_ConnectErrors = 0, mt_TPS = Fin 10, mt_PeakTPS = Fin 12,
     mt_P50MS = Fin 1, mt_P90MS = Fin 2, mt_P99MS = Fin 5, mt_CPUPctPeak = Fin 0, mt_MemMBPeak = Fin 0,
     mt_EventsOut = [], mt_OutputsOut = [], mt_RawOutput = []\<rparr>"

definition demo_validation :: ValidationResult where
  "demo_validation = \<lparr>vr_RunID = ''run_1'', vr_Valid = True, vr_FillsChecked = 40, vr_Reason = [],
     vr_FirstBadSeq = 0\<rparr>"

definition exact_log10 :: "f64 \<Rightarrow> f64" where
  "exact_log10 v = (case v of Fin x \<Rightarrow> Fin (log 10 x) | _ \<Rightarrow> v)"

lemma exact_log10_ok: "log10_accurate exact_log10" "log10_monotone exact_log10"
  by (auto simp: log10_accurate_def log10_monotone_def exact_log10_def in_band_def)



text \<open>
  The correctness gate is decisive.  A run scores only when its validation is present and
  valid, metrics were produced and at least one order was sent; otherwise the gate has failed,
  every score is 0 and a reason is given.
\<close>

lemma score_gate:
  "case Score Log10 disk_ok run metrics validation of (s, ok) \<Rightarrow>
     sr_Valid s = scorable metrics validation \<and>
     sr_CorrectnessGate s = (if scorable metrics validation then ''passed'' else ''failed'') \<and>
     (sr_FailureReason s = []) = scorable metrics validation \<and>
     (scorable metrics validation \<or>
       sr_Score s = Fin 0 \<and> sr_LatencyScore s = Fin 0 \<and> sr_ThroughputScore s = Fin 0 \<and>
       sr_StabilityScore s = Fin 0 \<and> sr_ResourceScore s = Fin 0)"
  by (auto simp: Score_def scorable_def writeScore_def noScore_def Let_def split: option.splits)



end
