(* ===== verification/Http.thy ===== *)
theory Http
  imports Prelude
begin

text \<open>
  What the services share of their HTTP surface: responses, the bearer-token check every service
  repeats in front of its handlers, and the parts of \<^verbatim>\<open>path/filepath\<close> (Unix) they build
  artifact paths with.
\<close>

section \<open>Responses and bearer tokens\<close>

record 'b response =
  rp_status :: nat
  rp_body :: 'b

definition StatusOK :: nat where "StatusOK = 200"
definition StatusAccepted :: nat where "StatusAccepted = 202"
definition StatusBadRequest :: nat where "StatusBadRequest = 400"
definition StatusUnauthorized :: nat where "StatusUnauthorized = 401"
definition StatusNotFound :: nat where "StatusNotFound = 404"
definition StatusConflict :: nat where "StatusConflict = 409"
definition StatusInternalServerError :: nat where "StatusInternalServerError = 500"

text \<open>
  \<^verbatim>\<open>subtle.ConstantTimeCompare\<close> answers 1 exactly on equal byte strings; its timing is not modelled.
\<close>

definition bearer_ok :: "string \<Rightarrow> string \<Rightarrow> bool" where
  "bearer_ok token header \<longleftrightarrow> TrimSpace header = ''Bearer '' @ TrimSpace token"

section \<open>Strings\<close>

text \<open>\<^verbatim>\<open>strings.EqualFold\<close> on ASCII, \<^verbatim>\<open>strings.TrimPrefix\<close> and \<^verbatim>\<open>strings.Fields\<close>.\<close>

definition EqualFold :: "string \<Rightarrow> string \<Rightarrow> bool" where
  "EqualFold s t \<longleftrightarrow> map lower_char s = map lower_char t"

definition TrimPrefix :: "string \<Rightarrow> string \<Rightarrow> string" where
  "TrimPrefix s p = (if HasPrefix s p then drop (length p) s else s)"

fun Fields :: "string \<Rightarrow> string list" where
  "Fields [] = []"
| "Fields (c # s) =
     (if is_space c then Fields s
      else case s of
        [] \<Rightarrow> [[c]]
      | d # _ \<Rightarrow> if is_space d then [c] # Fields s
                 else (case Fields s of [] \<Rightarrow> [[c]] | w # ws \<Rightarrow> (c # w) # ws))"

section \<open>Paths\<close>

text \<open>
  \<open>path_stack\<close> is the list of path elements \<^verbatim>\<open>filepath.Clean\<close> keeps of a rooted path: empty
  elements and \<^verbatim>\<open>.\<close> are dropped and \<^verbatim>\<open>..\<close> removes the element before it.
\<close>

definition path_push :: "string \<Rightarrow> string list \<Rightarrow> string list" where
  "path_push e st = (if e = [] \<or> e = ''.'' then st else if e = ''..'' then butlast st else st @ [e])"

definition path_stack :: "string \<Rightarrow> string list" where
  "path_stack p = fold path_push (SplitChar CHR ''/'' p) []"

fun intercalate :: "string \<Rightarrow> string list \<Rightarrow> string" where
  "intercalate sep [] = []"
| "intercalate sep [x] = x"
| "intercalate sep (x # y # xs) = x @ sep @ intercalate sep (y # xs)"

definition path_Clean :: "string \<Rightarrow> string" where
  "path_Clean p = CHR ''/'' # intercalate ''/'' (path_stack p)"

text \<open>\<^verbatim>\<open>filepath.Join\<close> of a rooted first element: the non-empty elements, joined and cleaned.\<close>

definition path_Join :: "string list \<Rightarrow> string" where
  "path_Join ps = (case filter (\<lambda>p. p \<noteq> []) ps of [] \<Rightarrow> [] | qs \<Rightarrow> path_Clean (intercalate ''/'' qs))"

text \<open>\<^verbatim>\<open>filepath.Base\<close>.\<close>

definition path_Base :: "string \<Rightarrow> string" where
  "path_Base p =
     (if p = [] then ''.''
      else let q = rev (dropWhile (\<lambda>c. c = CHR ''/'') (rev p))
           in if q = [] then ''/'' else rev (takeWhile (\<lambda>c. c \<noteq> CHR ''/'') (rev q)))"

lemma SplitChar_append:
  "SplitChar sep (xs @ sep # ys) = SplitChar sep xs @ SplitChar sep ys"
proof (induction xs)
  case (Cons x xs)
  then show ?case by (auto split: list.split)
qed simp

lemma SplitChar_none: "sep \<notin> set xs \<Longrightarrow> SplitChar sep xs = [xs]"
  by (induction xs) auto

lemma path_stack_append: "path_stack (p @ CHR ''/'' # e) = fold path_push (SplitChar CHR ''/'' e) (path_stack p)"
  by (simp add: path_stack_def SplitChar_append)

lemma path_stack_child:
  assumes "CHR ''/'' \<notin> set e" "e \<noteq> []"
  shows "path_stack (p @ CHR ''/'' # e) =
    (if e = ''.'' then path_stack p else if e = ''..'' then butlast (path_stack p) else path_stack p @ [e])"
  using assms by (simp add: path_stack_append SplitChar_none path_push_def)

text \<open>The elements of a stack have no separator and are not special, so cleaning keeps them.\<close>

definition path_elem :: "string \<Rightarrow> bool" where
  "path_elem e \<longleftrightarrow> e \<noteq> [] \<and> e \<noteq> ''.'' \<and> e \<noteq> ''..'' \<and> CHR ''/'' \<notin> set e"

lemma SplitChar_no_sep: "e \<in> set (SplitChar sep xs) \<Longrightarrow> sep \<notin> set e"
proof (induction xs arbitrary: e)
  case (Cons x xs)
  then show ?case by (auto split: if_splits list.splits)
qed simp

lemma path_stack_elems: "e \<in> set (path_stack p) \<Longrightarrow> path_elem e"
proof -
  have "\<lbrakk>\<And>e. e \<in> set es \<Longrightarrow> CHR ''/'' \<notin> set e; \<And>e. e \<in> set st \<Longrightarrow> path_elem e; e \<in> set (fold path_push es st)\<rbrakk>
    \<Longrightarrow> path_elem e" for es st e
  proof (induction es arbitrary: st)
    case (Cons a es)
    have "\<And>e. e \<in> set (path_push a st) \<Longrightarrow> path_elem e"
      using Cons.prems(1) [of a] Cons.prems(2)
      by (auto simp: path_push_def path_elem_def dest: in_set_butlastD split: if_splits)
    with Cons show ?case by auto
  qed simp
  then show "e \<in> set (path_stack p) \<Longrightarrow> path_elem e"
    unfolding path_stack_def using SplitChar_no_sep by (metis empty_iff list.set(1))
qed

lemma path_stack_intercalate:
  assumes "\<And>e. e \<in> set es \<Longrightarrow> path_elem e"
  shows "path_stack (CHR ''/'' # intercalate ''/'' es) = es"
proof -
  have split: "fold path_push (SplitChar CHR ''/'' (intercalate ''/'' es)) st = st @ es" for st
    using assms
  proof (induction es arbitrary: st rule: induct_list012)
    case (2 x)
    then show ?case by (simp add: SplitChar_none path_push_def path_elem_def)
  next
    case (3 x y xs)
    have "path_elem x" using 3(3) by simp
    then show ?case using 3(2) [of "st @ [x]"] 3(3)
      by (simp add: SplitChar_append SplitChar_none path_push_def path_elem_def)
  qed (simp add: path_push_def)
  show ?thesis using split [of "path_push [] []"] by (simp add: path_stack_def path_push_def)
qed

lemma path_stack_Clean [simp]: "path_stack (path_Clean p) = path_stack p"
  unfolding path_Clean_def by (rule path_stack_intercalate) (rule path_stack_elems)

lemma path_Clean_cong: "path_stack p = path_stack q \<Longrightarrow> path_Clean p = path_Clean q"
  by (simp add: path_Clean_def)

lemma path_Join_ne: "a \<noteq> [] \<Longrightarrow> path_Join (a # ps) \<noteq> []"
  by (simp add: path_Join_def path_Clean_def)

lemma path_Join_two: "a \<noteq> [] \<Longrightarrow> b \<noteq> [] \<Longrightarrow> path_Join [a, b] = path_Clean (a @ CHR ''/'' # b)"
  by (simp add: path_Join_def)

lemma path_Join_assoc:
  assumes "a \<noteq> []" "b \<noteq> []" "c \<noteq> []"
  shows "path_Join [path_Join [a, b], c] = path_Join [a, b, c]"
proof -
  have "path_Join [path_Join [a, b], c] = path_Clean (path_Clean (a @ CHR ''/'' # b) @ CHR ''/'' # c)"
    using assms by (simp add: path_Join_two path_Join_ne path_Clean_def)
  also have "\<dots> = path_Clean ((a @ CHR ''/'' # b) @ CHR ''/'' # c)"
    by (rule path_Clean_cong) (simp only: path_stack_append path_stack_Clean)
  also have "\<dots> = path_Join [a, b, c]" using assms by (simp add: path_Join_def)
  finally show ?thesis .
qed

lemma path_Base_fixed:
  assumes "path_Base p = p" "p \<noteq> []"
  shows "p = ''/'' \<or> CHR ''/'' \<notin> set p"
proof (cases "rev (dropWhile (\<lambda>c. c = CHR ''/'') (rev p)) = []")
  case True
  then show ?thesis using assms by (simp add: path_Base_def)
next
  case False
  then have "p = rev (takeWhile (\<lambda>c. c \<noteq> CHR ''/'') (dropWhile (\<lambda>c. c = CHR ''/'') (rev p)))"
    using assms False unfolding path_Base_def Let_def by (simp only: if_False rev_rev_ident)
  then have "CHR ''/'' \<notin> set p" by (metis set_rev set_takeWhileD)
  then show ?thesis by simp
qed

end
