(* ===== verification/ScoreEngine.thy ===== *)
theory ScoreEngine
  imports ScoreProps Http
begin

text \<open>
  The score engine, \<^verbatim>\<open>services/score-engine\<close>: its own copy of the scoring formulas, translated
  from its own source, and the HTTP service that scores a run's artifact directory.

  Files are a partial map from cleaned paths to contents.  The JSON codec of the service's types
  is the parameter \<open>Codec\<close>; \<open>writable\<close> says which files can be created.
\<close>

section \<open>Data\<close>

record ScoringConfig =
  sc_BotCount :: int
  sc_RatePerBot :: int
  sc_DurationSec :: int

record ScoringRunSpec =
  sp_RunID :: string
  sp_TeamID :: string
  sp_BenchmarkSeed :: int
  sp_Config :: ScoringConfig

record ScoringMetrics =
  sm_RunID :: string
  sm_OrdersSent :: int
  sm_Timeouts :: int
  sm_ConnectErrors :: int
  sm_TPS :: f64
  sm_P99MS :: f64
  sm_CPUPctPeak :: f64
  sm_MemMBPeak :: f64

record ScoringValidation =
  sv_RunID :: string
  sv_Valid :: bool
  sv_Reason :: string

record TeamScore =
  ts_RunID :: string
  ts_TeamID :: string
  ts_Score :: f64
  ts_Valid :: bool
  ts_LatencyScore :: f64
  ts_ThroughputScore :: f64
  ts_StabilityScore :: f64
  ts_ResourceScore :: f64
  ts_CorrectnessGate :: string
  ts_FailureReason :: string

record ScoreRequest =
  sq_RunID :: string
  sq_TeamID :: string
  sq_ArtifactDir :: string
  sq_Config :: ScoringConfig
  sq_Metrics :: "ScoringMetrics option"
  sq_Validation :: "ScoringValidation option"

definition noConfig :: ScoringConfig where
  "noConfig = \<lparr>sc_BotCount = 0, sc_RatePerBot = 0, sc_DurationSec = 0\<rparr>"

section \<open>The formulas\<close>

definition se_round2 :: "f64 \<Rightarrow> f64" where
  "se_round2 value = f_div (math_Round (f_mul value (Fin 100))) (Fin 100)"

definition se_latencyFloorMS :: f64 where "se_latencyFloorMS = binary64 (1 / 10)"
definition se_latencyCapMS :: f64 where "se_latencyCapMS = binary64 50"

definition se_latencyScore :: "(f64 \<Rightarrow> f64) \<Rightarrow> f64 \<Rightarrow> f64" where
  "se_latencyScore Log10 p99MS =
     (if IsNaN p99MS \<or> IsInf p99MS then Fin 0
      else if f_le p99MS (Fin 0) then Fin 0
      else if f_le p99MS se_latencyFloorMS then Fin 100
      else if f_le se_latencyCapMS p99MS then Fin 0
      else
        let num = f_sub (Log10 se_latencyCapMS) (Log10 p99MS);
            den = f_sub (Log10 se_latencyCapMS) (Log10 se_latencyFloorMS)
        in se_round2 (f_div (f_mul (Fin 100) num) den))"

definition se_throughputScore :: "f64 \<Rightarrow> int \<Rightarrow> f64" where
  "se_throughputScore tps expected =
     (if IsNaN tps \<or> IsInf tps then Fin 0
      else if expected \<le> 0 then Fin 100
      else
        let score = f_div (f_mul (Fin 100) tps) (float64 expected);
            score = (if f_less (Fin 100) score then Fin 100 else score);
            score = (if f_less score (Fin 0) then Fin 0 else score)
        in se_round2 score)"

definition se_stabilityScore :: "int \<Rightarrow> int \<Rightarrow> int \<Rightarrow> f64" where
  "se_stabilityScore ordersSent timeouts connectErrors =
     (if ordersSent \<le> 0 then (if connectErrors > 0 then Fin 0 else Fin 100)
      else
        let score = f_mul (Fin 100)
              (f_sub (Fin 1) (f_div (float64 (wrap64 (timeouts + connectErrors))) (float64 ordersSent)));
            score = (if f_less score (Fin 0) then Fin 0 else score)
        in se_round2 score)"

definition se_resourceScore :: "f64 \<Rightarrow> f64 \<Rightarrow> f64" where
  "se_resourceScore cpuPct memMB =
     (if IsNaN cpuPct \<or> IsInf cpuPct then Fin 100
      else if f_le cpuPct (Fin 0) then Fin 100
      else
        let cpu = math_Min cpuPct (Fin 100);
            mem = memMB;
            mem = (if IsNaN mem \<or> IsInf mem then Fin 0 else mem);
            mem = (if f_less mem (Fin 0) then Fin 0 else mem);
            cpuPenalty = f_mul (math_Max (f_sub cpu (Fin 50)) (Fin 0)) (binary64 (3 / 2));
            memPenalty = f_mul (math_Max (f_sub mem (Fin 512)) (Fin 0)) (binary64 (1 / 20));
            score = f_sub (f_sub (Fin 100) cpuPenalty) memPenalty;
            score = (if f_less score (Fin 0) then Fin 0 else score);
            score = (if f_less (Fin 100) score then Fin 100 else score)
        in se_round2 score)"

definition se_completionFraction :: "int \<Rightarrow> int \<Rightarrow> int \<Rightarrow> f64" where
  "se_completionFraction ordersSent timeouts connectErrors =
     (if ordersSent \<le> 0 then Fin 0
      else
        let c = f_sub (Fin 1) (f_div (float64 (wrap64 (timeouts + connectErrors))) (float64 ordersSent));
            c = (if f_less c (Fin 0) then Fin 0 else c);
            c = (if f_less (Fin 1) c then Fin 1 else c)
        in c)"

definition failed_score :: "string \<Rightarrow> string \<Rightarrow> string \<Rightarrow> TeamScore" where
  "failed_score run_id team reason = \<lparr>ts_RunID = run_id, ts_TeamID = team, ts_Score = Fin 0, ts_Valid = False,
     ts_LatencyScore = Fin 0, ts_ThroughputScore = Fin 0, ts_StabilityScore = Fin 0,
     ts_ResourceScore = Fin 0, ts_CorrectnessGate = ''failed'', ts_FailureReason = reason\<rparr>"

definition se_Score :: "(f64 \<Rightarrow> f64) \<Rightarrow> ScoreRequest \<Rightarrow> TeamScore" where
  "se_Score Log10 req =
     (let runID = sq_RunID req;
          runID = (case sq_Validation req of Some v \<Rightarrow> if runID = [] then sv_RunID v else runID | None \<Rightarrow> runID);
          runID = (case sq_Metrics req of Some m \<Rightarrow> if runID = [] then sm_RunID m else runID | None \<Rightarrow> runID);
          team = sq_TeamID req;
          valid = (case sq_Validation req of Some v \<Rightarrow> sv_Valid v | None \<Rightarrow> False)
      in if \<not> valid then
           let reason = (case sq_Validation req of Some v \<Rightarrow> sv_Reason v | None \<Rightarrow> []) in
           failed_score runID team (if reason = [] then ''validation failed'' else reason)
         else case sq_Metrics req of
           None \<Rightarrow> failed_score runID team ''metrics missing''
         | Some m \<Rightarrow>
             if sm_OrdersSent m \<le> 0 then failed_score runID team ''no benchmark orders produced''
             else
               let latency = se_latencyScore Log10 (sm_P99MS m);
                   throughput = se_throughputScore (sm_TPS m)
                     (wrap64 (sc_BotCount (sq_Config req) * sc_RatePerBot (sq_Config req)));
                   stability = se_stabilityScore (sm_OrdersSent m) (sm_Timeouts m) (sm_ConnectErrors m);
                   resource = se_resourceScore (sm_CPUPctPeak m) (sm_MemMBPeak m);
                   completion = se_completionFraction (sm_OrdersSent m) (sm_Timeouts m) (sm_ConnectErrors m);
                   factor = math_Min (f_div completion (binary64 (1 / 2))) (Fin 1);
                   latency = se_round2 (f_mul latency factor)
               in \<lparr>ts_RunID = runID, ts_TeamID = team,
                   ts_Score = se_round2 (f_add (f_add (f_add
                     (f_mul (binary64 (2 / 5)) latency)
                     (f_mul (binary64 (3 / 10)) throughput))
                     (f_mul (binary64 (1 / 5)) stability))
                     (f_mul (binary64 (1 / 10)) resource)),
                   ts_Valid = True, ts_LatencyScore = latency, ts_ThroughputScore = throughput,
                   ts_StabilityScore = stability, ts_ResourceScore = resource,
                   ts_CorrectnessGate = ''passed'', ts_FailureReason = []\<rparr>)"

section \<open>The service\<close>

type_synonym files = "string \<Rightarrow> string option"

record Codec =
  cd_request :: "string \<Rightarrow> ScoreRequest option"
  cd_spec :: "string \<Rightarrow> ScoringRunSpec option"
  cd_metrics :: "string \<Rightarrow> ScoringMetrics option"
  cd_validation :: "string \<Rightarrow> ScoringValidation option"
  cd_score :: "string \<Rightarrow> TeamScore option"
  cd_encode :: "TeamScore \<Rightarrow> string option"

datatype score_body = ScoreStatus | ScoreResultBody TeamScore | ScoreError string

definition readJSON :: "(string \<Rightarrow> 'a option) \<Rightarrow> files \<Rightarrow> string \<Rightarrow> string + 'a" where
  "readJSON decode fs path =
     (case fs path of None \<Rightarrow> Inl (''open '' @ path)
      | Some data \<Rightarrow> (case decode data of None \<Rightarrow> Inl ''invalid json'' | Some v \<Rightarrow> Inr v))"

definition writeJSONFile :: "Codec \<Rightarrow> (string \<Rightarrow> bool) \<Rightarrow> string \<Rightarrow> TeamScore \<Rightarrow> files \<Rightarrow> files \<times> string option" where
  "writeJSONFile cd writable path value fs =
     (case cd_encode cd value of
        None \<Rightarrow> (fs, Some ''json: unsupported value'')
      | Some data \<Rightarrow>
          if writable path then (fs(path \<mapsto> data @ [CHR 0x0A]), None) else (fs, Some (''open '' @ path)))"

definition firstNonEmpty :: "string list \<Rightarrow> string" where
  "firstNonEmpty values = (case filter (\<lambda>v. v \<noteq> []) values of [] \<Rightarrow> [] | v # _ \<Rightarrow> v)"

definition hydrateFromArtifacts :: "Codec \<Rightarrow> files \<Rightarrow> ScoreRequest \<Rightarrow> string + ScoreRequest" where
  "hydrateFromArtifacts cd fs req =
     (let dir = sq_ArtifactDir req in
      if dir = [] then Inr req
      else case readJSON (cd_spec cd) fs (path_Join [dir, ''run_spec.json'']) of
        Inl e \<Rightarrow> Inl e
      | Inr run \<Rightarrow>
          let req = req\<lparr>sq_RunID := firstNonEmpty [sq_RunID req, sp_RunID run],
                        sq_TeamID := firstNonEmpty [sq_TeamID req, sp_TeamID run]\<rparr>;
              req = (if sc_BotCount (sq_Config req) = 0 then req\<lparr>sq_Config := sp_Config run\<rparr> else req);
              with_metrics = (case sq_Metrics req of
                  Some _ \<Rightarrow> Inr req
                | None \<Rightarrow> (case readJSON (cd_metrics cd) fs (path_Join [dir, ''metrics.json'']) of
                             Inl e \<Rightarrow> Inl e | Inr m \<Rightarrow> Inr (req\<lparr>sq_Metrics := Some m\<rparr>)))
          in case with_metrics of
               Inl e \<Rightarrow> Inl e
             | Inr req \<Rightarrow> (case sq_Validation req of
                  Some _ \<Rightarrow> Inr req
                | None \<Rightarrow> (case readJSON (cd_validation cd) fs (path_Join [dir, ''validation.json'']) of
                             Inl e \<Rightarrow> Inl e | Inr v \<Rightarrow> Inr (req\<lparr>sq_Validation := Some v\<rparr>))))"

definition scoreRequest :: "(f64 \<Rightarrow> f64) \<Rightarrow> Codec \<Rightarrow> (string \<Rightarrow> bool) \<Rightarrow> ScoreRequest \<Rightarrow> files \<Rightarrow>
    files \<times> (string + TeamScore)" where
  "scoreRequest Log10 cd writable req fs =
     (case (if sq_ArtifactDir req \<noteq> [] then hydrateFromArtifacts cd fs req else Inr req) of
        Inl e \<Rightarrow> (fs, Inl e)
      | Inr req \<Rightarrow>
          let result = se_Score Log10 req in
          if sq_ArtifactDir req \<noteq> [] then
            (case writeJSONFile cd writable (path_Join [sq_ArtifactDir req, ''score.json'']) result fs of
               (fs, Some e) \<Rightarrow> (fs, Inl e)
             | (fs, None) \<Rightarrow> (fs, Inr result))
          else (fs, Inr result))"

definition safeRunID :: "string \<Rightarrow> string option" where
  "safeRunID run_id = (if run_id = [] \<or> path_Base run_id \<noteq> run_id then None else Some run_id)"

definition score_error :: "nat \<Rightarrow> string \<Rightarrow> score_body response" where
  "score_error status message = \<lparr>rp_status = status, rp_body = ScoreError message\<rparr>"

text \<open>\<^verbatim>\<open>MaxBytesReader\<close> cuts the body at 64 KiB.\<close>

definition se_handle_Score :: "(f64 \<Rightarrow> f64) \<Rightarrow> Codec \<Rightarrow> (string \<Rightarrow> bool) \<Rightarrow> string \<Rightarrow> files \<Rightarrow>
    files \<times> score_body response" where
  "se_handle_Score Log10 cd writable body fs =
     (case cd_request cd (take 65536 body) of
        None \<Rightarrow> (fs, score_error StatusBadRequest ''invalid json'')
      | Some req \<Rightarrow> (case scoreRequest Log10 cd writable req fs of
            (fs, Inl e) \<Rightarrow> (fs, score_error StatusBadRequest e)
          | (fs, Inr result) \<Rightarrow> (fs, \<lparr>rp_status = StatusOK, rp_body = ScoreResultBody result\<rparr>)))"

definition se_ScoreRun :: "(f64 \<Rightarrow> f64) \<Rightarrow> Codec \<Rightarrow> (string \<Rightarrow> bool) \<Rightarrow> string \<Rightarrow> string \<Rightarrow> files \<Rightarrow>
    files \<times> score_body response" where
  "se_ScoreRun Log10 cd writable runRoot run_id fs =
     (case safeRunID run_id of
        None \<Rightarrow> (fs, score_error StatusBadRequest ''invalid run_id'')
      | Some run_id \<Rightarrow>
          (case scoreRequest Log10 cd writable
              \<lparr>sq_RunID = run_id, sq_TeamID = [], sq_ArtifactDir = path_Join [runRoot, run_id],
               sq_Config = noConfig, sq_Metrics = None, sq_Validation = None\<rparr> fs of
             (fs, Inl e) \<Rightarrow> (fs, score_error StatusBadRequest e)
           | (fs, Inr result) \<Rightarrow> (fs, \<lparr>rp_status = StatusOK, rp_body = ScoreResultBody result\<rparr>)))"

definition se_GetRunScore :: "Codec \<Rightarrow> string \<Rightarrow> string \<Rightarrow> files \<Rightarrow> score_body response" where
  "se_GetRunScore cd runRoot run_id fs =
     (case safeRunID run_id of
        None \<Rightarrow> score_error StatusBadRequest ''invalid run_id''
      | Some run_id \<Rightarrow>
          (case readJSON (cd_score cd) fs (path_Join [runRoot, run_id, ''score.json'']) of
             Inl e \<Rightarrow> score_error StatusNotFound e
           | Inr result \<Rightarrow> \<lparr>rp_status = StatusOK, rp_body = ScoreResultBody result\<rparr>))"

text \<open>Without a configured token the check is absent.\<close>

definition se_requireServiceAuth :: "string \<Rightarrow> string \<Rightarrow> 'a \<Rightarrow> 'a \<Rightarrow> 'a" where
  "se_requireServiceAuth token header unauthorized next =
     (if TrimSpace token = [] then next else if bearer_ok token header then next else unauthorized)"

section \<open>Agreement with the orchestrator\<close>

definition se_metrics :: "Metrics \<Rightarrow> ScoringMetrics" where
  "se_metrics m = \<lparr>sm_RunID = mt_RunID m, sm_OrdersSent = mt_OrdersSent m, sm_Timeouts = mt_Timeouts m,
     sm_ConnectErrors = mt_ConnectErrors m, sm_TPS = mt_TPS m, sm_P99MS = mt_P99MS m,
     sm_CPUPctPeak = mt_CPUPctPeak m, sm_MemMBPeak = mt_MemMBPeak m\<rparr>"

definition se_validation :: "ValidationResult \<Rightarrow> ScoringValidation" where
  "se_validation v = \<lparr>sv_RunID = vr_RunID v, sv_Valid = vr_Valid v, sv_Reason = vr_Reason v\<rparr>"

definition se_config :: "BenchmarkRunConfig \<Rightarrow> ScoringConfig" where
  "se_config c = \<lparr>sc_BotCount = bc_BotCount c, sc_RatePerBot = bc_RatePerBot c, sc_DurationSec = bc_DurationSec c\<rparr>"

text \<open>The score engine's result without the two fields it fills differently.\<close>

definition as_result :: "string \<Rightarrow> TeamScore \<Rightarrow> ScoreResult" where
  "as_result run_id t = \<lparr>sr_RunID = run_id, sr_Score = ts_Score t, sr_Valid = ts_Valid t,
     sr_LatencyScore = ts_LatencyScore t, sr_ThroughputScore = ts_ThroughputScore t,
     sr_StabilityScore = ts_StabilityScore t, sr_ResourceScore = ts_ResourceScore t,
     sr_CorrectnessGate = ts_CorrectnessGate t, sr_FailureReason = ts_FailureReason t\<rparr>"

lemma se_formulas:
  "se_round2 v = round2 v" "se_latencyScore Log10 p = latencyScore Log10 p"
  "se_throughputScore tps e = throughputScore tps e" "se_stabilityScore n t c = stabilityScore n t c"
  "se_resourceScore cpu mem = resourceScore cpu mem" "se_completionFraction n t c = completionFraction n t c"
proof -
  show r: "se_round2 v = round2 v" for v by (simp add: se_round2_def round2_def)
  show "se_latencyScore Log10 p = latencyScore Log10 p"
    unfolding se_latencyScore_def latencyScore_def r se_latencyFloorMS_def se_latencyCapMS_def
      latencyFloorMS_def latencyCapMS_def by (rule refl)
  show "se_throughputScore tps e = throughputScore tps e"
    unfolding se_throughputScore_def throughputScore_def clamp_high_def clamp_low_def Let_def r by (rule refl)
  show "se_stabilityScore n t c = stabilityScore n t c"
    unfolding se_stabilityScore_def stabilityScore_def clamp_low_def Let_def r by (rule refl)
  show "se_resourceScore cpu mem = resourceScore cpu mem"
    unfolding se_resourceScore_def resourceScore_def clamp_high_def clamp_low_def Let_def r by (rule refl)
  show "se_completionFraction n t c = completionFraction n t c"
    unfolding se_completionFraction_def completionFraction_def clamp_low_def Let_def by (rule refl)
qed

lemma se_Score_agrees:
  "as_result run_id (se_Score Log10 \<lparr>sq_RunID = br_RunID run, sq_TeamID = team, sq_ArtifactDir = dir,
     sq_Config = se_config (br_Config run), sq_Metrics = map_option se_metrics metrics,
     sq_Validation = map_option se_validation validation\<rparr>) =
   (fst (Score Log10 disk_ok run metrics validation))\<lparr>sr_RunID := run_id\<rparr>"
proof (cases validation)
  case None
  then show ?thesis
    by (simp add: se_Score_def Score_def as_result_def failed_score_def noScore_def writeScore_def Let_def)
next
  case (Some v)
  show ?thesis
  proof (cases "vr_Valid v")
    case False
    then show ?thesis
      by (simp add: Some se_Score_def Score_def as_result_def failed_score_def noScore_def writeScore_def
          se_validation_def Let_def)
  next
    case True
    show ?thesis
    proof (cases metrics)
      case None
      then show ?thesis
        using True by (simp add: Some se_Score_def Score_def as_result_def failed_score_def noScore_def
            writeScore_def se_validation_def Let_def)
    next
      case (Some m)
      then show ?thesis
        using True by (simp add: \<open>validation = Some v\<close> se_Score_def Score_def as_result_def failed_score_def
            noScore_def writeScore_def se_validation_def se_metrics_def se_config_def se_formulas
            weighted_score_def Let_def)
    qed
  qed
qed

section \<open>Properties of the service\<close>

lemma hydrate_dir: "hydrateFromArtifacts cd fs req = Inr req' \<Longrightarrow> sq_ArtifactDir req' = sq_ArtifactDir req"
  by (auto simp: hydrateFromArtifacts_def Let_def split: if_splits sum.splits option.splits)

lemma scoreRequest_written:
  assumes "scoreRequest Log10 cd writable req fs = (fs', Inr s)" "sq_ArtifactDir req \<noteq> []"
  obtains data where "cd_encode cd s = Some data"
    "fs' = fs(path_Join [sq_ArtifactDir req, ''score.json''] \<mapsto> data @ [CHR 0x0A])"
proof -
  obtain req' where h: "hydrateFromArtifacts cd fs req = Inr req'"
    using assms by (cases "hydrateFromArtifacts cd fs req") (auto simp: scoreRequest_def)
  then have "sq_ArtifactDir req' = sq_ArtifactDir req" by (rule hydrate_dir)
  then show ?thesis
    using assms h that
    by (auto simp: scoreRequest_def writeJSONFile_def Let_def split: option.splits if_splits)
qed

text \<open>
  A score that was computed can be read back: when \<^verbatim>\<open>POST /runs/{id}/score\<close> answers with a
  result, \<^verbatim>\<open>GET /runs/{id}/score\<close> on the resulting files answers with the same result, for any
  JSON codec that decodes what it encodes.
\<close>

lemma score_read_back:
  assumes "\<And>s data. cd_encode cd s = Some data \<Longrightarrow> cd_score cd (data @ [CHR 0x0A]) = Some s"
    and "runRoot \<noteq> []"
    and "se_ScoreRun Log10 cd writable runRoot run_id fs = (fs', resp)"
    and "rp_body resp = ScoreResultBody s"
  shows "rp_status resp = StatusOK \<and> se_GetRunScore cd runRoot run_id fs' = resp"
proof -
  obtain ok: "safeRunID run_id = Some run_id" and ne: "run_id \<noteq> []"
    using assms(3,4) by (auto simp: se_ScoreRun_def score_error_def safeRunID_def split: option.splits if_splits)
  let ?dir = "path_Join [runRoot, run_id]"
  have dir: "?dir \<noteq> []" using assms(2) by (rule path_Join_ne)
  let ?req = "\<lparr>sq_RunID = run_id, sq_TeamID = [], sq_ArtifactDir = ?dir, sq_Config = noConfig,
      sq_Metrics = None, sq_Validation = None\<rparr>"
  have sc: "scoreRequest Log10 cd writable ?req fs = (fs', Inr s)"
    and resp: "resp = \<lparr>rp_status = StatusOK, rp_body = ScoreResultBody s\<rparr>"
    using assms(3,4) ok by (auto simp: se_ScoreRun_def score_error_def split: prod.splits sum.splits)
  obtain data where d: "cd_encode cd s = Some data"
    and fs': "fs' = fs(path_Join [?dir, ''score.json''] \<mapsto> data @ [CHR 0x0A])"
    by (rule scoreRequest_written [OF sc]) (use dir in simp_all)
  have "path_Join [?dir, ''score.json''] = path_Join [runRoot, run_id, ''score.json'']"
    using assms(2) ne by (intro path_Join_assoc) simp_all
  then show ?thesis using assms(1) [OF d] fs' resp ok
    by (simp add: se_GetRunScore_def readJSON_def)
qed

definition demo_codec :: Codec where
  "demo_codec = \<lparr>cd_request = (\<lambda>d. None),
     cd_spec = (\<lambda>d. Some \<lparr>sp_RunID = ''r1'', sp_TeamID = ''t'', sp_BenchmarkSeed = 42, sp_Config = noConfig\<rparr>),
     cd_metrics = (\<lambda>d. Some (se_metrics demo_metrics)),
     cd_validation = (\<lambda>d. Some \<lparr>sv_RunID = ''r1'', sv_Valid = False, sv_Reason = ''bad''\<rparr>),
     cd_score = (\<lambda>d. if d = [CHR 0x0A] then Some (failed_score ''r1'' ''t'' ''bad'') else None),
     cd_encode = (\<lambda>s. if s = failed_score ''r1'' ''t'' ''bad'' then Some [] else None)\<rparr>"

lemma score_read_back_witness:
  "se_GetRunScore demo_codec ''/srv'' ''r1''
     (fst (se_ScoreRun exact_log10 demo_codec (\<lambda>p. True) ''/srv'' ''r1'' (\<lambda>p. Some []))) =
   \<lparr>rp_status = StatusOK, rp_body = ScoreResultBody (failed_score ''r1'' ''t'' ''bad'')\<rparr>"
proof -
  have enc: "cd_encode demo_codec s = Some data \<Longrightarrow> cd_score demo_codec (data @ [CHR 0x0A]) = Some s" for s data
    by (simp add: demo_codec_def split: if_splits)
  have safe: "safeRunID ''r1'' = Some ''r1''" and dir: "path_Join [''/srv'', ''r1''] = ''/srv/r1''" by code_simp+
  have "se_Score exact_log10 \<lparr>sq_RunID = ''r1'', sq_TeamID = ''t'', sq_ArtifactDir = d, sq_Config = c,
      sq_Metrics = m, sq_Validation = Some \<lparr>sv_RunID = ''r1'', sv_Valid = False, sv_Reason = ''bad''\<rparr>\<rparr> =
      failed_score ''r1'' ''t'' ''bad''" for d c m
    by (cases m) (simp_all add: se_Score_def Let_def)
  then have "\<exists>fs'. se_ScoreRun exact_log10 demo_codec (\<lambda>p. True) ''/srv'' ''r1'' (\<lambda>p. Some []) =
      (fs', \<lparr>rp_status = StatusOK, rp_body = ScoreResultBody (failed_score ''r1'' ''t'' ''bad'')\<rparr>)"
    by (simp add: se_ScoreRun_def safe dir scoreRequest_def hydrateFromArtifacts_def readJSON_def
        firstNonEmpty_def demo_codec_def noConfig_def writeJSONFile_def Let_def)
  then show ?thesis using score_read_back [OF enc] by fastforce
qed

text \<open>
  What the identifier check keeps out: an accepted run identifier names a direct child of
  the run root, so no separator can leave it; but \<^verbatim>\<open>.\<close>, \<^verbatim>\<open>/\<close> and \<^verbatim>\<open>..\<close> are accepted too, and the
  last one names the parent of the run root, which the check's comment says it rejects.
\<close>

lemma safe_run_id_confines:
  assumes "safeRunID run_id = Some i" and "runRoot \<noteq> []"
  shows "path_stack (path_Join [runRoot, i]) =
    (if i = ''..'' then butlast (path_stack runRoot)
     else if i = ''.'' \<or> i = ''/'' then path_stack runRoot
     else path_stack runRoot @ [i])"
proof -
  have i: "i \<noteq> []" "path_Base i = i" using assms(1) by (auto simp: safeRunID_def split: if_splits)
  have s: "path_stack (path_Join [runRoot, i]) = path_stack (runRoot @ CHR ''/'' # i)"
    using assms(2) i(1) by (simp add: path_Join_two)
  from path_Base_fixed [OF i(2,1)] show ?thesis
  proof
    assume "i = ''/''"
    then show ?thesis using s by (simp add: path_stack_append path_push_def)
  next
    assume "CHR ''/'' \<notin> set i"
    then show ?thesis unfolding s using path_stack_child [OF _ i(1)] by auto
  qed
qed

lemma safe_run_id_confines_witness:
  "safeRunID ''..'' = Some ''..'' \<and> path_stack (path_Join [''/srv/.runs'', ''..'']) = [''srv'']"
proof -
  have a: "safeRunID ''..'' = Some ''..''" and r: "path_stack ''/srv/.runs'' = [''srv'', ''.runs'']" by code_simp+
  show ?thesis using safe_run_id_confines [OF a, of "''/srv/.runs''"] a r by simp
qed

end
