(* ===== verification/Pipeline.thy ===== *)
theory Pipeline
  imports ScoreProps Http
begin

text \<open>
  One run's goroutine, \<^verbatim>\<open>Manager.execute\<close> of \<^verbatim>\<open>services/orchestrator/internal/orchestrator\<close>, as
  a step function over its program point.  A step does at most one operation on the shared
  store, so that other goroutines and the submission API can act between any two.

  The collaborators behind interfaces (engine, bot fleet, validator, publisher), the file
  system and the clock answer through the \<open>Env\<close> of the step.  A call that panics is a step
  whose \<open>en_panic\<close> is set; it is taken before the step's own effect.
\<close>

section \<open>State\<close>

datatype run_ctx = CtxLive | CtxCanceled | CtxDeadline

datatype engine_state = EngNone | EngUp | EngStopped

datatype stage =
    PPrepare | PLoad | PTransition RunStatus | PSave RunStatus | PBuild | PStart | PBots | PStop
  | PValidate | PScore | PRecheck | PCommit | PPublish
  | PFail string string | PFailSave | PPanic string | PUnwind | PCleanup | PDone

record Exec =
  x_run :: BenchmarkRun
  x_pc :: stage
  x_ctx :: run_ctx
  x_submission :: "Submission option"
  x_engine :: engine_state
  x_metrics :: "Metrics option"
  x_validation :: "ValidationResult option"
  x_score :: "ScoreResult option"
  x_spec :: "BenchmarkRun option"
  x_published :: bool

record Env =
  en_now :: int
  en_io :: StoreIO
  en_prepare :: "string option"
  en_spec :: "string option"
  en_build :: "string option"
  en_start :: "string + string"
  en_bots :: "string + Metrics option"
  en_sample :: "(f64 \<times> f64) option"
  en_validate :: "string + ValidationResult"
  en_disk :: bool
  en_panic :: "string option"

record Setup =
  su_runRoot :: string
  su_Log10 :: "f64 \<Rightarrow> f64"
  su_sort :: "BenchmarkRun list \<Rightarrow> BenchmarkRun list"
  su_publisher :: bool

definition newExec :: "BenchmarkRun \<Rightarrow> Exec" where
  "newExec run = \<lparr>x_run = run, x_pc = PPrepare, x_ctx = CtxLive, x_submission = None, x_engine = EngNone,
     x_metrics = None, x_validation = None, x_score = None, x_spec = None, x_published = False\<rparr>"

section \<open>Helpers of the manager\<close>

definition ctx_Err :: "run_ctx \<Rightarrow> string option" where
  "ctx_Err c = (case c of CtxLive \<Rightarrow> None | CtxCanceled \<Rightarrow> Some ''context canceled''
     | CtxDeadline \<Rightarrow> Some ''context deadline exceeded'')"

definition store_Error :: "store_error \<Rightarrow> string" where
  "store_Error e = (case e of ErrNotFound \<Rightarrow> ''record not found'' | ErrIO \<Rightarrow> ''store i/o error''
     | ErrInProgress s \<Rightarrow> ''run is already '' @ status_string s)"

definition failed_run :: "int \<Rightarrow> run_ctx \<Rightarrow> string \<Rightarrow> string \<Rightarrow> BenchmarkRun \<Rightarrow> BenchmarkRun" where
  "failed_run now ctx stage err run =
     (let run = (case ctx of
          CtxCanceled \<Rightarrow> run\<lparr>br_Status := Cancelled, br_FailureReason := ''cancelled''\<rparr>
        | CtxDeadline \<Rightarrow> run\<lparr>br_Status := TimedOut, br_FailureReason := ''run timed out''\<rparr>
        | CtxLive \<Rightarrow> run\<lparr>br_Status := Failed, br_FailureReason := err\<rparr>)
      in run\<lparr>br_FailureStage := stage, br_UpdatedAt := now, br_UpdatedAtUnix := Unix now,
             br_FinishedAt := Some now, br_FinishedAtUnix := Unix now\<rparr>)"

definition finished_run :: "int \<Rightarrow> RunStatus \<Rightarrow> BenchmarkRun \<Rightarrow> BenchmarkRun" where
  "finished_run now status run = run\<lparr>br_Status := status, br_UpdatedAt := now, br_UpdatedAtUnix := Unix now,
     br_FinishedAt := Some now, br_FinishedAtUnix := Unix now\<rparr>"

definition validResourceValue :: "f64 \<Rightarrow> bool" where
  "validResourceValue v \<longleftrightarrow> \<not> IsNaN v \<and> \<not> IsInf v \<and> f_le (Fin 0) v"

text \<open>The sample is what \<^verbatim>\<open>resource.json\<close> decodes to, if it can be read at all.\<close>

definition mergeResourceSample :: "string \<Rightarrow> (f64 \<times> f64) option \<Rightarrow> Metrics option \<Rightarrow> Metrics option" where
  "mergeResourceSample artifactDir sample metrics =
     (case metrics of None \<Rightarrow> None
      | Some m \<Rightarrow>
          if artifactDir = [] then Some m
          else (case sample of None \<Rightarrow> Some m
                | Some (cpu, mem) \<Rightarrow>
                    if validResourceValue cpu \<and> validResourceValue mem
                    then Some (m\<lparr>mt_CPUPctPeak := cpu, mt_MemMBPeak := mem\<rparr>) else Some m))"

definition snapshotRun :: "BenchmarkRun \<Rightarrow> BenchmarkRun" where "snapshotRun run = run"

section \<open>One step of \<^verbatim>\<open>execute\<close>\<close>

text \<open>Where \<^verbatim>\<open>transition\<close> returns to once the new status is saved.\<close>

fun after_save :: "RunStatus \<Rightarrow> stage" where
  "after_save Building = PBuild"
| "after_save SandboxStarting = PStart"
| "after_save HealthChecking = PTransition Benchmarking"
| "after_save Benchmarking = PBots"
| "after_save Validating = PValidate"
| "after_save Scoring = PScore"
| "after_save _ = PUnwind"

definition stop_engine :: "Exec \<Rightarrow> Exec" where
  "stop_engine x = (if x_engine x = EngUp then x\<lparr>x_engine := EngStopped\<rparr> else x)"

definition unwinding :: "stage \<Rightarrow> bool" where
  "unwinding p \<longleftrightarrow> (case p of PFail _ _ \<Rightarrow> True | PFailSave \<Rightarrow> True | PPanic _ \<Rightarrow> True | PUnwind \<Rightarrow> True
     | PCleanup \<Rightarrow> True | PDone \<Rightarrow> True | _ \<Rightarrow> False)"

definition with_spec :: "Env \<Rightarrow> Exec \<Rightarrow> Exec" where
  "with_spec env x = (if en_spec env = None then x\<lparr>x_spec := Some (x_run x)\<rparr> else x)"

fun stage_step :: "Setup \<Rightarrow> Env \<Rightarrow> stage \<Rightarrow> Exec \<Rightarrow> store_file \<Rightarrow> Exec \<times> store_file" where
  "stage_step su env PPrepare x f =
     (let run = x_run x; x = x\<lparr>x_run := run\<lparr>br_ArtifactDir := path_Join [su_runRoot su, br_RunID run]\<rparr>\<rparr>
      in case en_prepare env of
           Some e \<Rightarrow> (x\<lparr>x_pc := PFail ''PREPARE_ARTIFACTS'' e\<rparr>, f)
         | None \<Rightarrow> (x\<lparr>x_pc := PLoad\<rparr>, f))"
| "stage_step su env PLoad x f =
     (case GetSubmission (en_io env) (br_SubmissionID (x_run x)) f of
        Inl e \<Rightarrow> (x\<lparr>x_pc := PFail ''LOAD_SUBMISSION'' (store_Error e)\<rparr>, f)
      | Inr sub \<Rightarrow> (x\<lparr>x_submission := Some sub, x_pc := PTransition Building\<rparr>, f))"
| "stage_step su env (PTransition st) x f =
     (case ctx_Err (x_ctx x) of
        Some e \<Rightarrow> (x\<lparr>x_pc := PFail (status_string st) e\<rparr>, f)
      | None \<Rightarrow>
          let x = x\<lparr>x_run := Touch (en_now env) st (x_run x)\<rparr> in
          (case en_spec env of
             Some e \<Rightarrow> (x\<lparr>x_pc := PFail (status_string st) e\<rparr>, f)
           | None \<Rightarrow> (x\<lparr>x_spec := Some (x_run x), x_pc := PSave st\<rparr>, f)))"
| "stage_step su env (PSave st) x f =
     (case SaveRun (en_io env) (x_run x) f of
        (f, Some e) \<Rightarrow> (x\<lparr>x_pc := PFail (status_string st) (store_Error e)\<rparr>, f)
      | (f, None) \<Rightarrow> (x\<lparr>x_pc := after_save st\<rparr>, f))"
| "stage_step su env PBuild x f =
     (case en_build env of
        Some e \<Rightarrow> (x\<lparr>x_pc := PFail ''BUILDING'' e\<rparr>, f)
      | None \<Rightarrow> (x\<lparr>x_pc := PTransition SandboxStarting\<rparr>, f))"
| "stage_step su env PStart x f =
     (case en_start env of
        Inl e \<Rightarrow> (x\<lparr>x_pc := PFail ''SANDBOX_STARTING'' e\<rparr>, f)
      | Inr endpoint \<Rightarrow>
          (x\<lparr>x_engine := EngUp,
             x_run := (x_run x)\<lparr>br_Config := (br_Config (x_run x))\<lparr>bc_EngineEndpoint := endpoint\<rparr>\<rparr>,
             x_pc := PTransition HealthChecking\<rparr>, f))"
| "stage_step su env PBots x f =
     (case en_bots env of
        Inl e \<Rightarrow> (x\<lparr>x_pc := PFail ''BENCHMARKING'' e\<rparr>, f)
      | Inr m \<Rightarrow> (x\<lparr>x_metrics := m, x_pc := PStop\<rparr>, f))"
| "stage_step su env PStop x f =
     (let x = stop_engine x in
      (x\<lparr>x_metrics := mergeResourceSample (br_ArtifactDir (x_run x)) (en_sample env) (x_metrics x),
         x_pc := PTransition Validating\<rparr>, f))"
| "stage_step su env PValidate x f =
     (case en_validate env of
        Inl e \<Rightarrow> (x\<lparr>x_pc := PFail ''VALIDATING'' e\<rparr>, f)
      | Inr v \<Rightarrow> (x\<lparr>x_validation := Some v, x_run := (x_run x)\<lparr>br_Valid := Some (vr_Valid v)\<rparr>,
                  x_pc := PTransition Scoring\<rparr>, f))"
| "stage_step su env PScore x f =
     (case Score (su_Log10 su) (en_disk env) (x_run x) (x_metrics x) (x_validation x) of
        (s, False) \<Rightarrow> (x\<lparr>x_pc := PFail ''SCORING'' ''write score''\<rparr>, f)
      | (s, True) \<Rightarrow> (x\<lparr>x_score := Some s, x_run := (x_run x)\<lparr>br_Score := sr_Score s\<rparr>, x_pc := PRecheck\<rparr>, f))"
| "stage_step su env PRecheck x f =
     (case ctx_Err (x_ctx x) of
        Some e \<Rightarrow> (x\<lparr>x_pc := PFail ''SCORING'' e\<rparr>, f)
      | None \<Rightarrow>
          let x = with_spec env (x\<lparr>x_run := finished_run (en_now env) Finished (x_run x)\<rparr>)
          in (x\<lparr>x_pc := PCommit\<rparr>, f))"
| "stage_step su env PCommit x f =
     (x\<lparr>x_pc := PPublish\<rparr>, fst (SaveRun (en_io env) (x_run x) f))"
| "stage_step su env PPublish x f =
     (x\<lparr>x_published := su_publisher su, x_pc := PUnwind\<rparr>, f)"
| "stage_step su env (PFail stage err) x f =
     (let x = with_spec env (x\<lparr>x_run := failed_run (en_now env) (x_ctx x) stage err (x_run x)\<rparr>)
      in (x\<lparr>x_pc := PFailSave\<rparr>, f))"
| "stage_step su env PFailSave x f =
     (x\<lparr>x_pc := PUnwind\<rparr>, fst (SaveRun (en_io env) (x_run x) f))"
| "stage_step su env (PPanic msg) x f =
     ((stop_engine x)\<lparr>x_pc := PFail ''PANIC'' (''panic on execute path: '' @ msg)\<rparr>, f)"
| "stage_step su env PUnwind x f = ((stop_engine x)\<lparr>x_pc := PCleanup\<rparr>, f)"
| "stage_step su env PCleanup x f = (x, f)"
| "stage_step su env PDone x f = (x, f)"

definition exec_step :: "Setup \<Rightarrow> Env \<Rightarrow> Exec \<Rightarrow> store_file \<Rightarrow> Exec \<times> store_file" where
  "exec_step su env x f =
     (case en_panic env of
        Some msg \<Rightarrow> if unwinding (x_pc x) then stage_step su env (x_pc x) x f else (x\<lparr>x_pc := PPanic msg\<rparr>, f)
      | None \<Rightarrow> stage_step su env (x_pc x) x f)"

text \<open>
  Between the steps the run's context may end (by \<open>CancelRun\<close>, \<open>Shutdown\<close> or the run timeout)
  and other processes may change the file.
\<close>

definition end_ctx :: "run_ctx \<Rightarrow> Exec \<Rightarrow> Exec" where
  "end_ctx c x = (if x_ctx x = CtxLive then x\<lparr>x_ctx := c\<rparr> else x)"

datatype happening = Step Env | CtxEnds run_ctx | FileBecomes store_file

fun happen :: "Setup \<Rightarrow> happening \<Rightarrow> Exec \<times> store_file \<Rightarrow> Exec \<times> store_file" where
  "happen su (Step env) (x, f) = exec_step su env x f"
| "happen su (CtxEnds c) (x, f) = (end_ctx c x, f)"
| "happen su (FileBecomes f') (x, f) = (x, f')"

definition execute :: "Setup \<Rightarrow> happening list \<Rightarrow> BenchmarkRun \<Rightarrow> store_file \<Rightarrow> Exec \<times> store_file" where
  "execute su hs run f = fold (happen su) hs (newExec run, f)"

section \<open>The invariant of a run's goroutine\<close>

fun engine_at :: "stage \<Rightarrow> engine_state set" where
  "engine_at PPrepare = {EngNone}"
| "engine_at PLoad = {EngNone}"
| "engine_at (PTransition st) =
     (if st \<in> {Building, SandboxStarting} then {EngNone}
      else if st \<in> {HealthChecking, Benchmarking} then {EngUp}
      else if st \<in> {Validating, Scoring} then {EngStopped} else {})"
| "engine_at (PSave st) =
     (if st \<in> {Building, SandboxStarting} then {EngNone}
      else if st \<in> {HealthChecking, Benchmarking} then {EngUp}
      else if st \<in> {Validating, Scoring} then {EngStopped} else {})"
| "engine_at PBuild = {EngNone}"
| "engine_at PStart = {EngNone}"
| "engine_at PBots = {EngUp}"
| "engine_at PStop = {EngUp}"
| "engine_at PValidate = {EngStopped}"
| "engine_at PScore = {EngStopped}"
| "engine_at PRecheck = {EngStopped}"
| "engine_at PCommit = {EngStopped}"
| "engine_at PPublish = {EngStopped}"
| "engine_at PCleanup = {EngNone, EngStopped}"
| "engine_at PDone = {EngNone, EngStopped}"
| "engine_at _ = UNIV"

definition validated :: "Exec \<Rightarrow> bool" where
  "validated x \<longleftrightarrow> (\<exists>v. x_validation x = Some v \<and> br_Valid (x_run x) = Some (vr_Valid v))"

definition scored :: "Setup \<Rightarrow> Exec \<Rightarrow> bool" where
  "scored su x \<longleftrightarrow> validated x \<and> x_engine x = EngStopped \<and>
     (\<exists>s. x_score x = Some s \<and> br_Score (x_run x) = sr_Score s \<and>
        s = fst (Score (su_Log10 su) True (x_run x) (x_metrics x) (x_validation x)))"

text \<open>What the run's data have to be at each point of the pipeline.\<close>

fun data_at :: "Setup \<Rightarrow> stage \<Rightarrow> Exec \<Rightarrow> bool" where
  "data_at su (PTransition st) x = (st = Scoring \<longrightarrow> validated x)"
| "data_at su (PSave st) x = (br_Status (x_run x) = st \<and> (st = Scoring \<longrightarrow> validated x))"
| "data_at su PScore x = validated x"
| "data_at su PRecheck x = scored su x"
| "data_at su PCommit x = (br_Status (x_run x) = Finished)"
| "data_at su PPublish x = (br_Status (x_run x) = Finished)"
| "data_at su PFailSave x = (br_Status (x_run x) \<in> {Failed, Cancelled, TimedOut})"
| "data_at su PUnwind x = Terminal (br_Status (x_run x))"
| "data_at su PCleanup x = Terminal (br_Status (x_run x))"
| "data_at su PDone x = Terminal (br_Status (x_run x))"
| "data_at su _ x = True"

fun may_be_finished :: "stage \<Rightarrow> bool" where
  "may_be_finished PCommit = True"
| "may_be_finished PPublish = True"
| "may_be_finished (PFail _ _) = True"
| "may_be_finished (PPanic _) = True"
| "may_be_finished PUnwind = True"
| "may_be_finished PCleanup = True"
| "may_be_finished PDone = True"
| "may_be_finished _ = False"

definition exec_ok :: "Setup \<Rightarrow> Exec \<Rightarrow> bool" where
  "exec_ok su x \<longleftrightarrow> x_engine x \<in> engine_at (x_pc x) \<and> data_at su (x_pc x) x \<and>
     br_Status (x_run x) \<noteq> Queued \<and>
     (br_Status (x_run x) = Finished \<longrightarrow> may_be_finished (x_pc x) \<and> scored su x)"

lemma Score_run_cong:
  "br_RunID r = br_RunID r' \<Longrightarrow> br_Config r = br_Config r' \<Longrightarrow> Score lg d r m v = Score lg d r' m v"
  by (simp only: Score_def)

lemma Score_fst_disk: "fst (Score lg d r m v) = fst (Score lg True r m v)"
  by (simp add: Score_def writeScore_def Let_def split: option.split)

lemma exec_ok_new: "br_Status run = Building \<Longrightarrow> exec_ok su (newExec run)"
  by (simp add: exec_ok_def newExec_def)

lemma failed_run_simps [simp]:
  "br_Status (failed_run now ctx stage err run) =
     (case ctx of CtxCanceled \<Rightarrow> Cancelled | CtxDeadline \<Rightarrow> TimedOut | CtxLive \<Rightarrow> Failed)"
  "br_RunID (failed_run now ctx stage err run) = br_RunID run"
  by (simp_all add: failed_run_def Let_def split: run_ctx.split)

lemma finished_run_simps [simp]:
  "br_Status (finished_run now st run) = st" "br_RunID (finished_run now st run) = br_RunID run"
  "br_Valid (finished_run now st run) = br_Valid run" "br_Score (finished_run now st run) = br_Score run"
  "br_Config (finished_run now st run) = br_Config run"
  by (simp_all add: finished_run_def)

lemma Touch_simps [simp]:
  "br_Valid (Touch now st run) = br_Valid run" "br_Score (Touch now st run) = br_Score run"
  "br_Config (Touch now st run) = br_Config run"
  by (simp_all add: Touch_def)

lemma with_spec_simps [simp]:
  "x_run (with_spec env x) = x_run x" "x_engine (with_spec env x) = x_engine x"
  "x_metrics (with_spec env x) = x_metrics x" "x_validation (with_spec env x) = x_validation x"
  "x_score (with_spec env x) = x_score x" "x_ctx (with_spec env x) = x_ctx x"
  by (simp_all add: with_spec_def)

lemma stop_engine_simps [simp]:
  "x_run (stop_engine x) = x_run x" "x_metrics (stop_engine x) = x_metrics x"
  "x_validation (stop_engine x) = x_validation x" "x_score (stop_engine x) = x_score x"
  "x_ctx (stop_engine x) = x_ctx x" "x_engine (stop_engine x) \<noteq> EngUp"
  "x_engine x = EngStopped \<Longrightarrow> x_engine (stop_engine x) = EngStopped"
  "x_engine x = EngUp \<Longrightarrow> x_engine (stop_engine x) = EngStopped"
  by (simp_all add: stop_engine_def)

lemma after_save_ok: "st \<in> {Building, SandboxStarting, HealthChecking, Benchmarking, Validating, Scoring} \<Longrightarrow>
    e \<in> engine_at (PSave st) \<Longrightarrow> e \<in> engine_at (after_save st)"
  by auto

lemma validated_cong:
  "x_validation x = x_validation y \<Longrightarrow> br_Valid (x_run x) = br_Valid (x_run y) \<Longrightarrow> validated x = validated y"
  by (simp add: validated_def)

lemma scored_cong:
  assumes "x_validation x = x_validation y" "br_Valid (x_run x) = br_Valid (x_run y)"
    "br_Score (x_run x) = br_Score (x_run y)" "br_Config (x_run x) = br_Config (x_run y)"
    "br_RunID (x_run x) = br_RunID (x_run y)" "x_score x = x_score y" "x_metrics x = x_metrics y"
    "x_engine x = EngStopped" "x_engine y = EngStopped"
  shows "scored su x = scored su y"
  using assms Score_run_cong [of "x_run x" "x_run y"] by (simp add: scored_def validated_def)

lemma scored_pc [simp]:
  "scored su (x\<lparr>x_pc := p\<rparr>) = scored su x" "scored su (x\<lparr>x_published := b\<rparr>) = scored su x"
  "validated (x\<lparr>x_pc := p\<rparr>) = validated x"
  by (simp_all add: scored_def validated_def)

lemma stop_engine_id: "x_engine x \<noteq> EngUp \<Longrightarrow> stop_engine x = x"
  by (simp add: stop_engine_def)

lemma scored_engine: "scored su x \<Longrightarrow> x_engine x = EngStopped"
  by (simp add: scored_def)

lemma exec_ok_PTransition:
  assumes "exec_ok su x" "x_pc x = PTransition st"
  shows "exec_ok su (fst (stage_step su env (PTransition st) x f))"
proof (cases "ctx_Err (x_ctx x)")
  case None
  show ?thesis
  proof (cases "en_spec env")
    case (Some e)
    then show ?thesis using assms None by (auto simp: exec_ok_def split: if_splits)
  next
    case None
    have "validated (x\<lparr>x_run := Touch (en_now env) st (x_run x), x_spec := z, x_pc := p\<rparr>) = validated x" for z p
      by (simp add: validated_def)
    then show ?thesis using assms None \<open>ctx_Err (x_ctx x) = None\<close>
      by (auto simp: exec_ok_def split: if_splits)
  qed
next
  case (Some e)
  then show ?thesis using assms by (auto simp: exec_ok_def split: if_splits)
qed

lemma exec_ok_PSave:
  assumes "exec_ok su x" "x_pc x = PSave st"
  shows "exec_ok su (fst (stage_step su env (PSave st) x f))"
proof -
  have "x_engine x \<in> engine_at (PSave st)" using assms by (simp add: exec_ok_def)
  then have st: "st \<in> {Building, SandboxStarting, HealthChecking, Benchmarking, Validating, Scoring}"
    by (auto split: if_splits)
  obtain f' e where s: "SaveRun (en_io env) (x_run x) f = (f', e)" by fastforce
  show ?thesis
    by (cases e) (use assms st s in \<open>auto simp: exec_ok_def\<close>)
qed

lemma exec_ok_PScore:
  assumes "exec_ok su x" "x_pc x = PScore"
  shows "exec_ok su (fst (stage_step su env PScore x f))"
proof -
  obtain s ok where s: "Score (su_Log10 su) (en_disk env) (x_run x) (x_metrics x) (x_validation x) = (s, ok)"
    by fastforce
  show ?thesis
  proof (cases ok)
    case True
    let ?r = "(x_run x)\<lparr>br_Score := sr_Score s\<rparr>"
    have "Score (su_Log10 su) True ?r (x_metrics x) (x_validation x) =
        Score (su_Log10 su) True (x_run x) (x_metrics x) (x_validation x)"
      by (rule Score_run_cong) simp_all
    moreover have "fst (Score (su_Log10 su) True (x_run x) (x_metrics x) (x_validation x)) = s"
      using Score_fst_disk s by (metis fst_conv)
    ultimately have "scored su (x\<lparr>x_score := Some s, x_run := ?r, x_pc := PRecheck\<rparr>)"
      using assms by (auto simp: exec_ok_def scored_def validated_def)
    then show ?thesis using assms s True by (simp add: exec_ok_def scored_engine)
  next
    case False
    then show ?thesis using assms s by (simp add: exec_ok_def)
  qed
qed

lemma exec_ok_PRecheck:
  assumes "exec_ok su x" "x_pc x = PRecheck"
  shows "exec_ok su (fst (stage_step su env PRecheck x f))"
proof (cases "ctx_Err (x_ctx x)")
  case None
  let ?y = "with_spec env (x\<lparr>x_run := finished_run (en_now env) Finished (x_run x)\<rparr>)"
  have "scored su ?y = scored su x"
    using assms by (intro scored_cong) (simp_all add: exec_ok_def scored_engine)
  then show ?thesis using assms None by (simp add: exec_ok_def Let_def)
next
  case (Some e)
  then show ?thesis using assms by (simp add: exec_ok_def)
qed

lemma exec_ok_stage:
  assumes "exec_ok su x"
  shows "exec_ok su (fst (stage_step su env (x_pc x) x f))"
proof (cases "x_pc x")
  case (PTransition st)
  with exec_ok_PTransition [OF assms] show ?thesis by simp
next
  case (PSave st)
  with exec_ok_PSave [OF assms] show ?thesis by simp
next
  case PScore
  with exec_ok_PScore [OF assms] show ?thesis by simp
next
  case PRecheck
  with exec_ok_PRecheck [OF assms] show ?thesis by simp
next
  case PPrepare
  with assms show ?thesis by (simp add: exec_ok_def Let_def split: option.split)
next
  case PLoad
  with assms show ?thesis by (simp add: exec_ok_def split: sum.split)
next
  case PBuild
  with assms show ?thesis by (simp add: exec_ok_def split: option.split)
next
  case PStart
  with assms show ?thesis by (simp add: exec_ok_def split: sum.split)
next
  case PBots
  with assms show ?thesis by (simp add: exec_ok_def split: sum.split)
next
  case PStop
  with assms show ?thesis by (simp add: exec_ok_def Let_def)
next
  case PValidate
  with assms show ?thesis by (simp add: exec_ok_def validated_def split: sum.split)
next
  case PCommit
  with assms show ?thesis by (simp add: exec_ok_def)
next
  case PPublish
  with assms show ?thesis by (simp add: exec_ok_def Terminal_def)
next
  case (PFail s e)
  with assms show ?thesis by (simp add: exec_ok_def Let_def split: run_ctx.split)
next
  case PFailSave
  with assms show ?thesis by (auto simp: exec_ok_def Terminal_def)
next
  case (PPanic msg)
  with assms show ?thesis by (auto simp: exec_ok_def stop_engine_id scored_engine)
next
  case PUnwind
  have "x_engine (stop_engine x) \<in> {EngNone, EngStopped}"
    by (cases "x_engine x") (auto simp: stop_engine_def)
  moreover have "scored su x \<Longrightarrow> stop_engine x = x" using scored_engine stop_engine_id by fastforce
  ultimately show ?thesis using assms PUnwind by (auto simp: exec_ok_def)
qed (use assms in simp_all)

lemma exec_ok_step: "exec_ok su x \<Longrightarrow> exec_ok su (fst (exec_step su env x f))"
proof (cases "en_panic env = None \<or> unwinding (x_pc x)")
  case True
  moreover assume "exec_ok su x"
  ultimately show ?thesis using exec_ok_stage by (auto simp: exec_step_def split: option.split)
next
  case False
  moreover assume "exec_ok su x"
  ultimately show ?thesis by (auto simp: exec_step_def exec_ok_def)
qed

lemma exec_ok_end_ctx: "exec_ok su x \<Longrightarrow> exec_ok su (end_ctx c x)"
proof -
  have "scored su (x\<lparr>x_ctx := c\<rparr>) = scored su x" "validated (x\<lparr>x_ctx := c\<rparr>) = validated x"
    by (simp_all add: scored_def validated_def)
  moreover have "data_at su p (x\<lparr>x_ctx := c\<rparr>) = data_at su p x" for p
    using calculation by (cases p) simp_all
  moreover assume "exec_ok su x"
  ultimately show ?thesis by (simp add: exec_ok_def end_ctx_def)
qed

lemma exec_ok_happen: "exec_ok su x \<Longrightarrow> exec_ok su (fst (happen su h (x, f)))"
  by (cases h) (simp_all add: exec_ok_step exec_ok_end_ctx)

lemma exec_ok_execute:
  assumes "br_Status run = Building"
  shows "exec_ok su (fst (execute su hs run f))"
proof (induction hs rule: rev_induct)
  case Nil
  then show ?case by (simp add: execute_def exec_ok_new [OF assms])
next
  case (snoc h hs)
  obtain x g where "execute su hs run f = (x, g)" by fastforce
  then show ?case using snoc exec_ok_happen [of su x h g] by (simp add: execute_def)
qed

section \<open>Progress\<close>

text \<open>How many steps are left at most.\<close>

fun rank_of :: "stage \<Rightarrow> nat" where
  "rank_of PPrepare = 27"
| "rank_of PLoad = 26"
| "rank_of (PTransition st) =
     (case st of Building \<Rightarrow> 25 | SandboxStarting \<Rightarrow> 22 | HealthChecking \<Rightarrow> 19 | Benchmarking \<Rightarrow> 17
      | Validating \<Rightarrow> 13 | Scoring \<Rightarrow> 10 | _ \<Rightarrow> 7)"
| "rank_of (PSave st) =
     (case st of Building \<Rightarrow> 24 | SandboxStarting \<Rightarrow> 21 | HealthChecking \<Rightarrow> 20 - 2 | Benchmarking \<Rightarrow> 16
      | Validating \<Rightarrow> 12 | Scoring \<Rightarrow> 9 | _ \<Rightarrow> 6)"
| "rank_of PBuild = 23"
| "rank_of PStart = 20"
| "rank_of PBots = 15"
| "rank_of PStop = 14"
| "rank_of PValidate = 11"
| "rank_of PScore = 8"
| "rank_of PRecheck = 7"
| "rank_of PCommit = 6"
| "rank_of PPublish = 5"
| "rank_of (PPanic _) = 4"
| "rank_of (PFail _ _) = 3"
| "rank_of PFailSave = 2"
| "rank_of PUnwind = 1"
| "rank_of PCleanup = 0"
| "rank_of PDone = 0"

lemma rank_stage:
  assumes "rank_of p \<noteq> 0"
  shows "rank_of (x_pc (fst (stage_step su env p x f))) < rank_of p"
proof (cases p)
  case (PTransition st)
  then show ?thesis
    by (cases st) (auto simp: Let_def split: option.split)
next
  case (PSave st)
  obtain g e where "SaveRun (en_io env) (x_run x) f = (g, e)" by fastforce
  then show ?thesis using PSave by (cases st; cases e) simp_all
next
  case PScore
  obtain s ok where "Score (su_Log10 su) (en_disk env) (x_run x) (x_metrics x) (x_validation x) = (s, ok)"
    by fastforce
  then show ?thesis using PScore by (cases ok) simp_all
qed (use assms in \<open>auto simp: Let_def split: option.split sum.split\<close>)

lemma rank_pos: "\<not> unwinding p \<Longrightarrow> 4 < rank_of p"
  by (cases p) (auto simp: unwinding_def split: RunStatus.split)

lemma rank_step:
  assumes "rank_of (x_pc x) \<noteq> 0"
  shows "rank_of (x_pc (fst (exec_step su env x f))) < rank_of (x_pc x)"
  using rank_stage [OF assms, of su env x f] rank_pos [of "x_pc x"]
  by (auto simp: exec_step_def split: option.split)

lemma rank_zero: "rank_of p = 0 \<longleftrightarrow> p = PCleanup \<or> p = PDone"
  by (cases p) (auto split: RunStatus.split)

lemma zero_step: "rank_of (x_pc x) = 0 \<Longrightarrow> exec_step su env x f = (x, f)"
  by (auto simp: rank_zero exec_step_def unwinding_def split: option.split)

fun steps_in :: "happening list \<Rightarrow> nat" where
  "steps_in [] = 0"
| "steps_in (Step env # hs) = Suc (steps_in hs)"
| "steps_in (h # hs) = steps_in hs"

lemma end_ctx_pc [simp]: "x_pc (end_ctx c x) = x_pc x" "x_run (end_ctx c x) = x_run x"
  by (simp_all add: end_ctx_def)

lemma rank_step_weak:
  "rank_of (x_pc (fst (exec_step su env x f))) \<le> rank_of (x_pc x) - 1"
  using rank_step [of x su env f] zero_step [of x su env f]
  by (cases "rank_of (x_pc x) = 0") auto

lemma rank_fold: "rank_of (x_pc (fst (fold (happen su) hs (x, f)))) \<le> rank_of (x_pc x) - steps_in hs"
proof (induction hs arbitrary: x f)
  case (Cons h hs)
  show ?case
  proof (cases h)
    case (Step env)
    obtain y g where s: "exec_step su env x f = (y, g)" by fastforce
    then have "rank_of (x_pc y) \<le> rank_of (x_pc x) - 1"
      using rank_step_weak [of su env x f] by simp
    then show ?thesis using Cons [of y g] s Step by simp
  next
    case (CtxEnds c)
    then show ?thesis using Cons [of "end_ctx c x" f] by simp
  next
    case (FileBecomes f')
    then show ?thesis using Cons [of x f'] by simp
  qed
qed simp

lemma not_done_step: "x_pc x \<noteq> PDone \<Longrightarrow> x_pc (fst (exec_step su env x f)) \<noteq> PDone"
proof -
  have "x_pc (fst (stage_step su env p x f)) \<noteq> PDone" if "p \<noteq> PDone" "x_pc x \<noteq> PDone" for p
  proof (cases p)
    case (PSave st)
    obtain g e where "SaveRun (en_io env) (x_run x) f = (g, e)" by fastforce
    then show ?thesis using PSave by (cases st; cases e) simp_all
  next
    case PScore
    obtain s ok where "Score (su_Log10 su) (en_disk env) (x_run x) (x_metrics x) (x_validation x) = (s, ok)"
      by fastforce
    then show ?thesis using PScore by (cases ok) simp_all
  qed (use that in \<open>auto simp: Let_def split: option.split sum.split\<close>)
  then show "x_pc x \<noteq> PDone \<Longrightarrow> x_pc (fst (exec_step su env x f)) \<noteq> PDone"
    by (auto simp: exec_step_def split: option.split)
qed

lemma not_done_fold: "x_pc x \<noteq> PDone \<Longrightarrow> x_pc (fst (fold (happen su) hs (x, f))) \<noteq> PDone"
proof (induction hs arbitrary: x f)
  case (Cons h hs)
  obtain y g where "happen su h (x, f) = (y, g)" by fastforce
  moreover have "x_pc y \<noteq> PDone" using calculation Cons.prems not_done_step [of x su _ f]
    by (cases h) (auto, metis fst_conv)
  ultimately show ?case using Cons.IH by simp
qed simp

lemma execute_ends: "27 \<le> steps_in hs \<Longrightarrow> x_pc (fst (execute su hs run f)) = PCleanup"
  using rank_fold [of su hs "newExec run" f] not_done_fold [of "newExec run" su hs f] rank_zero
  by (simp add: execute_def newExec_def)

section \<open>Runs whose context has ended\<close>

definition outcome :: "run_ctx \<Rightarrow> RunStatus" where
  "outcome c = (case c of CtxCanceled \<Rightarrow> Cancelled | CtxDeadline \<Rightarrow> TimedOut | CtxLive \<Rightarrow> Failed)"

fun past_recheck :: "stage \<Rightarrow> bool" where
  "past_recheck PCommit = True" | "past_recheck PPublish = True" | "past_recheck PFailSave = True"
| "past_recheck PUnwind = True" | "past_recheck PCleanup = True" | "past_recheck PDone = True"
| "past_recheck _ = False"

definition doomed :: "Exec \<Rightarrow> bool" where
  "doomed x \<longleftrightarrow> x_ctx x \<noteq> CtxLive \<and>
     (past_recheck (x_pc x) \<longrightarrow> x_pc x \<notin> {PCommit, PPublish} \<and> br_Status (x_run x) = outcome (x_ctx x))"

lemma stage_ctx: "x_ctx (fst (stage_step su env p x f)) = x_ctx x"
proof (cases p)
  case (PSave st)
  obtain g e where "SaveRun (en_io env) (x_run x) f = (g, e)" by fastforce
  then show ?thesis using PSave by (cases e) simp_all
next
  case PScore
  obtain s ok where "Score (su_Log10 su) (en_disk env) (x_run x) (x_metrics x) (x_validation x) = (s, ok)"
    by fastforce
  then show ?thesis using PScore by (cases ok) simp_all
qed (auto simp: Let_def split: option.split sum.split)

lemma exec_ctx [simp]: "x_ctx (fst (exec_step su env x f)) = x_ctx x"
  by (simp add: exec_step_def stage_ctx split: option.split)

lemma doomed_stage:
  assumes "exec_ok su x" "doomed x"
  shows "doomed (fst (stage_step su env (x_pc x) x f))"
proof -
  have c: "x_ctx x \<noteq> CtxLive" and e: "ctx_Err (x_ctx x) \<noteq> None"
    using assms(2) by (auto simp: doomed_def ctx_Err_def split: run_ctx.split)
  show ?thesis
  proof (cases "x_pc x")
    case (PTransition st)
    then show ?thesis using c e by (auto simp: doomed_def)
  next
    case (PSave st)
    have "x_engine x \<in> engine_at (PSave st)" using assms(1) PSave by (simp add: exec_ok_def)
    then have st: "st \<in> {Building, SandboxStarting, HealthChecking, Benchmarking, Validating, Scoring}"
      by (auto split: if_splits)
    obtain g r where "SaveRun (en_io env) (x_run x) f = (g, r)" by fastforce
    then show ?thesis using PSave c st by (cases r) (auto simp: doomed_def)
  next
    case PScore
    obtain s ok where "Score (su_Log10 su) (en_disk env) (x_run x) (x_metrics x) (x_validation x) = (s, ok)"
      by fastforce
    then show ?thesis using PScore c by (cases ok) (simp_all add: doomed_def)
  next
    case PRecheck
    then show ?thesis using c e by (auto simp: doomed_def)
  next
    case PCommit
    then show ?thesis using assms(2) by (simp add: doomed_def)
  next
    case PPublish
    then show ?thesis using assms(2) by (simp add: doomed_def)
  qed (use assms(2) c in \<open>auto simp: doomed_def Let_def outcome_def split: option.split sum.split run_ctx.split\<close>)
qed

lemma doomed_happen:
  assumes "exec_ok su x" "doomed x"
  shows "doomed (fst (happen su h (x, f)))"
proof (cases h)
  case (Step env)
  have "doomed (x\<lparr>x_pc := PPanic msg\<rparr>)" for msg using assms(2) by (simp add: doomed_def)
  then show ?thesis using doomed_stage [OF assms, of env f] Step by (simp add: exec_step_def split: option.split)
next
  case (CtxEnds c)
  then show ?thesis using assms(2) by (simp add: doomed_def end_ctx_def)
next
  case (FileBecomes g)
  then show ?thesis using assms(2) by simp
qed

lemma doomed_fold:
  "exec_ok su x \<Longrightarrow> doomed x \<Longrightarrow>
    doomed (fst (fold (happen su) hs (x, f))) \<and> x_ctx (fst (fold (happen su) hs (x, f))) = x_ctx x"
proof (induction hs arbitrary: x f)
  case (Cons h hs)
  obtain y g where y: "happen su h (x, f) = (y, g)" by fastforce
  have "exec_ok su y" "doomed y"
    using exec_ok_happen [OF Cons.prems(1), of h f] doomed_happen [OF Cons.prems, of h f] y by simp_all
  moreover have "x_ctx (fst (happen su h (x, f))) = x_ctx x"
    using Cons.prems(2) by (cases h) (simp_all add: end_ctx_def doomed_def)
  then have "x_ctx y = x_ctx x" using y by simp
  ultimately show ?case using Cons.IH y by simp
qed simp

section \<open>Properties of a run\<close>

definition good_env :: Env where
  "good_env = \<lparr>en_now = 7, en_io = io_good, en_prepare = None, en_spec = None, en_build = None,
     en_start = Inr ''ws://127.0.0.1:9/ws'', en_bots = Inr None, en_sample = None,
     en_validate = Inr \<lparr>vr_RunID = ''r1'', vr_Valid = False, vr_FillsChecked = 0, vr_Reason = ''bad'', vr_FirstBadSeq = 1\<rparr>,
     en_disk = True, en_panic = None\<rparr>"

definition demo_setup :: Setup where
  "demo_setup = \<lparr>su_runRoot = ''/runs'', su_Log10 = exact_log10, su_sort = sort_runs, su_publisher = True\<rparr>"

definition demo_submission :: Submission where
  "demo_submission = \<lparr>sb_SubmissionID = ''s'', sb_TeamID = ''t'', sb_Language = ''go'', sb_Protocol = ''ws'',
     sb_Artifact = \<lparr>sa_ArtifactID = [], sa_URI = [], sa_SHA256 = [], sa_SizeBytes = 0, sa_Filename = [],
       sa_ContentType = []\<rparr>, sb_CreatedAtUnix = 0, sb_CreatedAt = 0\<rparr>"

definition demo_store :: store_file where
  "demo_store = FileSnap \<lparr>sn_Submissions = [demo_submission], sn_Runs = [demo_bench_run ''r1'' Building 10]\<rparr>"

text \<open>
  Every run ends.  From a claimed run, whatever its collaborators answer, whatever panics
  and however the context and the file change in between, at most 27 steps of the goroutine
  take it to its cleanup, with the run in a terminal status and its engine stopped if it was
  ever started, so no engine outlives its run.
\<close>

lemma run_always_ends:
  assumes "br_Status run = Building" and "27 \<le> steps_in hs"
    and "execute su hs run f = (x, f')"
  shows "x_pc x = PCleanup \<and> Terminal (br_Status (x_run x)) \<and> x_engine x \<in> {EngNone, EngStopped}"
  using execute_ends [OF assms(2), of su run f] exec_ok_execute [OF assms(1), of su hs f] assms(3)
  by (simp add: exec_ok_def)

lemma steps_in_replicate [simp]: "steps_in (replicate n (Step env)) = n"
  by (induction n) simp_all

lemma run_always_ends_witness:
  "x_pc (fst (execute demo_setup (replicate 30 (Step good_env)) (demo_bench_run ''r1'' Building 10) demo_store)) = PCleanup"
proof -
  obtain x f' where e: "execute demo_setup (replicate 30 (Step good_env)) (demo_bench_run ''r1'' Building 10) demo_store = (x, f')"
    by fastforce
  have "br_Status (demo_bench_run ''r1'' Building 10) = Building" by (simp add: demo_bench_run_def)
  from run_always_ends [OF this _ e] show ?thesis by (simp add: e)
qed

text \<open>A run of the pipeline in which nothing fails, evaluated step by step.\<close>

lemma demo_execution:
  "br_Status (x_run (fst (execute demo_setup (replicate 24 (Step good_env)) (demo_bench_run ''r1'' Building 10) demo_store)))
     = Finished"
  by (simp add: execute_def numeral_eq_Suc exec_step_def newExec_def good_env_def demo_setup_def demo_store_def
      demo_submission_def demo_bench_run_def io_good_def GetSubmission_def loadLocked_def SaveRun_def writeLocked_def
      Terminal_def Touch_def ctx_Err_def stop_engine_def mergeResourceSample_def Score_def writeScore_def
      marshal_ok_def noScore_def IsNaN_def IsInf_def with_spec_def finished_run_def cloneRun_def Let_def)



text \<open>
  C20. A cancelled or timed-out run does not finish: if the context ends before the goroutine
  has passed its last check, the run ends as \<^verbatim>\<open>CANCELLED\<close> or \<^verbatim>\<open>TIMED_OUT\<close> accordingly, whatever
  happens afterwards.
\<close>

theorem ended_context_never_finishes:
  assumes "br_Status run = Building" and "c \<noteq> CtxLive"
    and "execute su before run f = (x, f')" and "x_ctx x = CtxLive" and "\<not> past_recheck (x_pc x)"
    and "27 \<le> steps_in later"
    and "execute su (before @ CtxEnds c # later) run f = (y, f'')"
  shows "br_Status (x_run y) = outcome c \<and> x_pc y = PCleanup"
proof -
  let ?z = "x\<lparr>x_ctx := c\<rparr>"
  have z: "end_ctx c x = ?z" using assms(4) by (simp add: end_ctx_def)
  have ok: "exec_ok su ?z"
    using exec_ok_execute [OF assms(1), of su before f] assms(3) exec_ok_end_ctx [of su x c] z by simp
  have "doomed ?z" using assms(2,5) by (simp add: doomed_def)
  from doomed_fold [OF ok this, of later f'] have "doomed y" "x_ctx y = c"
    using assms(3,7) z by (simp_all add: execute_def)
  moreover have "27 \<le> steps_in (before @ CtxEnds c # later)"
  proof -
    have "steps_in (as @ bs) = steps_in as + steps_in bs" for as bs
      by (induction as rule: steps_in.induct) simp_all
    then show ?thesis using assms(6) by simp
  qed
  from execute_ends [OF this, of su run f] have "x_pc y = PCleanup" using assms(7) by simp
  ultimately show ?thesis by (simp add: doomed_def)
qed

lemma ended_context_never_finishes_witness:
  "br_Status (x_run (fst (execute demo_setup ([] @ CtxEnds CtxCanceled # replicate 27 (Step good_env))
     (demo_bench_run ''r1'' Building 10) demo_store))) = Cancelled"
proof -
  let ?run = "demo_bench_run ''r1'' Building 10"
  obtain y f'' where e: "execute demo_setup ([] @ CtxEnds CtxCanceled # replicate 27 (Step good_env)) ?run demo_store = (y, f'')"
    by fastforce
  have b: "br_Status ?run = Building" by (simp add: demo_bench_run_def)
  have s: "execute demo_setup [] ?run demo_store = (newExec ?run, demo_store)" by (simp add: execute_def)
  from ended_context_never_finishes [OF b _ s _ _ _ e] show ?thesis
    unfolding e by (simp add: newExec_def outcome_def)
qed

end
