(* ===== verification/Orchestrator.thy ===== *)
theory Orchestrator
  imports Pipeline
begin

text \<open>
  The orchestrator's \<^verbatim>\<open>Manager\<close>: claiming runs under a bounded number of slots, the map of cancel
  functions, cancellation and shutdown, and any number of run goroutines (theory
  \<^verbatim>\<open>Pipeline\<close>) interleaved with them and with the submission API, which appends queued runs to
  the same file.

  A request is split where other goroutines can act: \<^verbatim>\<open>StartRun\<close> claims and then registers its
  cancel function, \<^verbatim>\<open>CancelRun\<close> reads the run, signals, and saves.  Taking a slot and claiming
  is one step, since a slot that is given back without a claim has no other effect.  An event
  whose guard does not hold leaves the state as it is.
\<close>

section \<open>State\<close>

datatype cancel_request = CancelRead BenchmarkRun | CancelSignalled BenchmarkRun | CancelAnswered BenchmarkRun

record Manager =
  m_file :: store_file
  m_cap :: nat
  m_slots :: nat
  m_cancels :: "string \<Rightarrow> nat option"
  m_claimed :: "BenchmarkRun list"
  m_execs :: "Exec list"
  m_requests :: "cancel_request list"

text \<open>\<open>cpus\<close> is the host's CPU count; \<open>parsed\<close> the parsed environment variable, if it is set.\<close>

definition buildConcurrency :: "int \<Rightarrow> int option \<Rightarrow> int" where
  "buildConcurrency cpus parsed =
     (let n = (case parsed of Some p \<Rightarrow> if 0 < p then p else cpus | None \<Rightarrow> cpus)
      in if n < 1 then 1 else n)"

definition NewManager :: "store_file \<Rightarrow> int \<Rightarrow> int option \<Rightarrow> Manager" where
  "NewManager f cpus parsed = \<lparr>m_file = f, m_cap = nat (buildConcurrency cpus parsed), m_slots = 0,
     m_cancels = (\<lambda>_. None), m_claimed = [], m_execs = [], m_requests = []\<rparr>"

section \<open>Operations\<close>

definition StartRun_claim :: "Env \<Rightarrow> string \<Rightarrow> Manager \<Rightarrow> Manager" where
  "StartRun_claim env runID m =
     (if m_slots m < m_cap m then
        (case ClaimRun (en_io env) (en_now env) runID (m_file m) of
           (f, Some run, None) \<Rightarrow>
             if Terminal (br_Status run) then m\<lparr>m_file := f\<rparr>
             else m\<lparr>m_file := f, m_slots := m_slots m + 1, m_claimed := m_claimed m @ [run]\<rparr>
         | (f, _, _) \<Rightarrow> m\<lparr>m_file := f\<rparr>)
      else m)"

definition StartNextQueued_claim :: "Setup \<Rightarrow> Env \<Rightarrow> Manager \<Rightarrow> Manager" where
  "StartNextQueued_claim su env m =
     (if m_slots m < m_cap m then
        (case ClaimNextQueuedRun (su_sort su) (en_io env) (en_now env) (m_file m) of
           (f, Some run, None) \<Rightarrow> m\<lparr>m_file := f, m_slots := m_slots m + 1, m_claimed := m_claimed m @ [run]\<rparr>
         | (f, _, _) \<Rightarrow> m\<lparr>m_file := f\<rparr>)
      else m)"

text \<open>The claimed run gets its cancel function and its goroutine.\<close>

definition register_run :: "nat \<Rightarrow> Manager \<Rightarrow> Manager" where
  "register_run i m =
     (if i < length (m_claimed m) then
        let run = m_claimed m ! i in
        m\<lparr>m_claimed := take i (m_claimed m) @ drop (Suc i) (m_claimed m),
          m_cancels := (m_cancels m)(br_RunID run := Some (length (m_execs m))),
          m_execs := m_execs m @ [newExec run]\<rparr>
      else m)"

definition signal_exec :: "run_ctx \<Rightarrow> nat \<Rightarrow> Manager \<Rightarrow> Manager" where
  "signal_exec c k m =
     (if k < length (m_execs m) then m\<lparr>m_execs := (m_execs m)[k := end_ctx c (m_execs m ! k)]\<rparr> else m)"

definition run_step :: "Setup \<Rightarrow> Env \<Rightarrow> nat \<Rightarrow> Manager \<Rightarrow> Manager" where
  "run_step su env k m =
     (if k < length (m_execs m) then
        (case exec_step su env (m_execs m ! k) (m_file m) of
           (x, f) \<Rightarrow> m\<lparr>m_execs := (m_execs m)[k := x], m_file := f\<rparr>)
      else m)"

text \<open>The deferred cleanup of \<^verbatim>\<open>execute\<close>: drop and call the cancel function, release the slot.\<close>

definition run_cleanup :: "nat \<Rightarrow> Manager \<Rightarrow> Manager" where
  "run_cleanup k m =
     (if k < length (m_execs m) \<and> x_pc (m_execs m ! k) = PCleanup then
        let runID = br_RunID (x_run (m_execs m ! k));
            m1 = (case m_cancels m runID of None \<Rightarrow> m | Some j \<Rightarrow> signal_exec CtxCanceled j m)
        in m1\<lparr>m_cancels := (m_cancels m1)(runID := None), m_slots := m_slots m1 - 1,
              m_execs := (m_execs m1)[k := (m_execs m1 ! k)\<lparr>x_pc := PDone\<rparr>]\<rparr>
      else m)"

definition cancel_read :: "Env \<Rightarrow> string \<Rightarrow> Manager \<Rightarrow> Manager" where
  "cancel_read env runID m =
     (case GetRun (en_io env) runID (m_file m) of
        Inl e \<Rightarrow> m
      | Inr run \<Rightarrow> if Terminal (br_Status run) then m\<lparr>m_requests := m_requests m @ [CancelAnswered run]\<rparr>
                   else m\<lparr>m_requests := m_requests m @ [CancelRead run]\<rparr>)"

definition cancel_signal :: "nat \<Rightarrow> Manager \<Rightarrow> Manager" where
  "cancel_signal i m =
     (if i < length (m_requests m) then
        (case m_requests m ! i of
           CancelRead run \<Rightarrow>
             let m1 = (case m_cancels m (br_RunID run) of None \<Rightarrow> m | Some k \<Rightarrow> signal_exec CtxCanceled k m)
             in m1\<lparr>m_requests := (m_requests m1)[i := CancelSignalled run]\<rparr>
         | _ \<Rightarrow> m)
      else m)"

text \<open>The answer is the run as the handler changed it, whatever the store did with the save.\<close>

definition cancel_save :: "Env \<Rightarrow> nat \<Rightarrow> Manager \<Rightarrow> Manager" where
  "cancel_save env i m =
     (if i < length (m_requests m) then
        (case m_requests m ! i of
           CancelSignalled run \<Rightarrow>
             let run = finished_run (en_now env) Cancelled run in
             m\<lparr>m_file := fst (SaveRun (en_io env) run (m_file m)),
               m_requests := (m_requests m)[i := CancelAnswered run]\<rparr>
         | _ \<Rightarrow> m)
      else m)"

text \<open>Under the manager's lock every registered cancel function is called.\<close>

definition Shutdown :: "Manager \<Rightarrow> Manager" where
  "Shutdown m = m\<lparr>m_execs := map (\<lambda>(k, x). if m_cancels m (br_RunID (x_run x)) = Some k
     then end_ctx CtxCanceled x else x) (enumerate 0 (m_execs m))\<rparr>"

text \<open>The submission API appends a queued run with an identifier that is not in use.\<close>

definition submit_run :: "BenchmarkRun \<Rightarrow> Manager \<Rightarrow> Manager" where
  "submit_run run m =
     (if br_Status run = Queued \<and> run_in (m_file m) (br_RunID run) = None then
        (case m_file m of
           FileSnap s \<Rightarrow> m\<lparr>m_file := FileSnap (s\<lparr>sn_Runs := sn_Runs s @ [run]\<rparr>)\<rparr>
         | FileCorrupt \<Rightarrow> m
         | _ \<Rightarrow> m\<lparr>m_file := FileSnap \<lparr>sn_Submissions = [], sn_Runs = [run]\<rparr>\<rparr>)
      else m)"

section \<open>The manager's events\<close>

datatype event =
    EvStart Env string | EvStartNext Env | EvRegister nat | EvRun Env nat | EvCleanup nat | EvTimeout nat
  | EvCancelRead Env string | EvCancelSignal nat | EvCancelSave Env nat | EvShutdown | EvSubmit BenchmarkRun

fun mgr_step :: "Setup \<Rightarrow> event \<Rightarrow> Manager \<Rightarrow> Manager" where
  "mgr_step su (EvStart env runID) m = StartRun_claim env runID m"
| "mgr_step su (EvStartNext env) m = StartNextQueued_claim su env m"
| "mgr_step su (EvRegister i) m = register_run i m"
| "mgr_step su (EvRun env k) m = run_step su env k m"
| "mgr_step su (EvCleanup k) m = run_cleanup k m"
| "mgr_step su (EvTimeout k) m = signal_exec CtxDeadline k m"
| "mgr_step su (EvCancelRead env runID) m = cancel_read env runID m"
| "mgr_step su (EvCancelSignal i) m = cancel_signal i m"
| "mgr_step su (EvCancelSave env i) m = cancel_save env i m"
| "mgr_step su EvShutdown m = Shutdown m"
| "mgr_step su (EvSubmit run) m = submit_run run m"

definition run_mgr :: "Setup \<Rightarrow> event list \<Rightarrow> Manager \<Rightarrow> Manager" where
  "run_mgr su evs m = fold (mgr_step su) evs m"

section \<open>The manager's invariant\<close>

abbreviation live :: "Exec \<Rightarrow> bool" where "live x \<equiv> x_pc x \<noteq> PDone"

abbreviation run_id :: "Exec \<Rightarrow> string" where "run_id x \<equiv> br_RunID (x_run x)"

definition live_ids :: "Exec list \<Rightarrow> string multiset" where
  "live_ids xs = mset (map run_id (filter live xs))"

definition active :: "Manager \<Rightarrow> string multiset" where
  "active m = mset (map br_RunID (m_claimed m)) + live_ids (m_execs m)"

definition registered :: "Manager \<Rightarrow> bool" where
  "registered m \<longleftrightarrow>
     (\<forall>k < length (m_execs m). live (m_execs m ! k) \<longrightarrow> m_cancels m (run_id (m_execs m ! k)) = Some k) \<and>
     (\<forall>rid k. m_cancels m rid = Some k \<longrightarrow> k < length (m_execs m) \<and> live (m_execs m ! k) \<and> run_id (m_execs m ! k) = rid)"

definition mgr_ok :: "Setup \<Rightarrow> Manager \<Rightarrow> bool" where
  "mgr_ok su m \<longleftrightarrow> m_slots m = size (active m) \<and> m_slots m \<le> m_cap m \<and> ids_ok (m_file m) \<and>
     (\<forall>rid. count (active m) rid \<le> 1) \<and>
     (\<forall>rid \<in># active m. \<exists>r. run_in (m_file m) rid = Some r \<and> br_Status r \<noteq> Queued) \<and>
     (\<forall>x \<in> set (m_execs m). exec_ok su x) \<and> (\<forall>r \<in> set (m_claimed m). br_Status r = Building) \<and>
     registered m"

lemma live_ids_snoc [simp]: "live_ids (xs @ [x]) = live_ids xs + (if live x then {#run_id x#} else {#})"
  by (simp add: live_ids_def)

lemma live_ids_append: "live_ids (as @ x # bs) = live_ids as + live_ids [x] + live_ids bs"
  by (simp add: live_ids_def)

lemma live_ids_one: "live_ids [x] = (if live x then {#run_id x#} else {#})"
  by (simp add: live_ids_def)

lemma live_ids_nth:
  assumes "k < length xs"
  shows "live_ids xs = live_ids (take k xs) + live_ids [xs ! k] + live_ids (drop (Suc k) xs)"
  using arg_cong [OF id_take_nth_drop [OF assms], of live_ids] live_ids_append by (rule trans)

lemma live_ids_upd:
  assumes "k < length xs"
  shows "live_ids (xs[k := y]) = live_ids (take k xs) + live_ids [y] + live_ids (drop (Suc k) xs)"
  using assms live_ids_append by (simp add: upd_conv_take_nth_drop)

lemma live_ids_same:
  assumes "k < length xs" "live y = live (xs ! k)" "run_id y = run_id (xs ! k)"
  shows "live_ids (xs[k := y]) = live_ids xs"
  using live_ids_nth [OF assms(1)] live_ids_upd [OF assms(1), of y] assms(2,3) by (simp add: live_ids_one)

lemma live_ids_done:
  assumes "k < length xs" "live (xs ! k)" "\<not> live y"
  shows "live_ids xs = add_mset (run_id (xs ! k)) (live_ids (xs[k := y]))"
  using live_ids_nth [OF assms(1)] live_ids_upd [OF assms(1), of y] assms(2,3) by (simp add: live_ids_one)

text \<open>A goroutine keeps its run's identifier, and only its own step changes it.\<close>

lemma stage_run_id: "run_id (fst (stage_step su env p x f)) = run_id x"
proof (cases p)
  case (PSave st)
  obtain g e where "SaveRun (en_io env) (x_run x) f = (g, e)" by fastforce
  then show ?thesis using PSave by (cases e) simp_all
next
  case PScore
  obtain s ok where "Score (su_Log10 su) (en_disk env) (x_run x) (x_metrics x) (x_validation x) = (s, ok)"
    by fastforce
  then show ?thesis using PScore by (cases ok) simp_all
qed (auto simp: Let_def Touch_def split: option.split sum.split)

lemma exec_run_id [simp]: "run_id (fst (exec_step su env x f)) = run_id x"
  by (simp add: exec_step_def stage_run_id split: option.split)

lemma exec_live [simp]: "live (fst (exec_step su env x f)) = live x"
  using not_done_step [of x su env f] zero_step [of x su env f] by (cases "x_pc x = PDone") simp_all

text \<open>A goroutine's save is not queued, so the file keeps every run that is not queued so.\<close>

definition kept :: "store_file \<Rightarrow> store_file \<Rightarrow> bool" where
  "kept f g \<longleftrightarrow> (ids_ok f \<longrightarrow> ids_ok g) \<and>
     (\<forall>rid r. run_in f rid = Some r \<and> br_Status r \<noteq> Queued \<longrightarrow>
        (\<exists>r'. run_in g rid = Some r' \<and> br_Status r' \<noteq> Queued))"

lemma kept_refl [simp]: "kept f f"
  by (simp add: kept_def)

lemma SaveRun_kept:
  assumes "SaveRun io run f = (g, e)" "br_Status run \<noteq> Queued"
  shows "kept f g"
  using SaveRun_result(1) [OF assms(1)] SaveRun_result(3) [OF assms(1)] assms(2)
  unfolding kept_def ids_ok_def by metis

lemma stage_kept:
  assumes "br_Status (x_run x) \<noteq> Queued"
  shows "kept f (snd (stage_step su env p x f))"
proof (cases p)
  case (PSave st)
  obtain g e where "SaveRun (en_io env) (x_run x) f = (g, e)" by fastforce
  then show ?thesis using PSave SaveRun_kept [of "en_io env" "x_run x" f g e] assms by (cases e) simp_all
next
  case PScore
  obtain s ok where "Score (su_Log10 su) (en_disk env) (x_run x) (x_metrics x) (x_validation x) = (s, ok)"
    by fastforce
  then show ?thesis using PScore by (cases ok) simp_all
next
  case PCommit
  obtain g e where s: "SaveRun (en_io env) (x_run x) f = (g, e)" by fastforce
  show ?thesis using PCommit SaveRun_kept [OF s assms] s by simp
next
  case PFailSave
  obtain g e where s: "SaveRun (en_io env) (x_run x) f = (g, e)" by fastforce
  show ?thesis using PFailSave SaveRun_kept [OF s assms] s by simp
qed (auto simp: Let_def split: option.split sum.split)

lemma exec_kept: "exec_ok su x \<Longrightarrow> kept f (snd (exec_step su env x f))"
  using stage_kept [of x f su env "x_pc x"] by (auto simp: exec_step_def exec_ok_def split: option.split)

section \<open>Every event keeps the invariant\<close>

lemma mgr_ok_requests [simp]: "mgr_ok su (m\<lparr>m_requests := r\<rparr>) = mgr_ok su m"
  by (simp add: mgr_ok_def active_def registered_def)

lemma mgr_ok_exec:
  assumes "mgr_ok su m" "k < length (m_execs m)" "live y = live (m_execs m ! k)"
    "run_id y = run_id (m_execs m ! k)" "exec_ok su y" "kept (m_file m) g"
  shows "mgr_ok su (m\<lparr>m_execs := (m_execs m)[k := y], m_file := g\<rparr>)" (is "mgr_ok su ?m")
proof -
  have a: "active ?m = active m"
    using live_ids_same [OF assms(2-4)] by (simp add: active_def)
  have nth: "live ((m_execs m)[k := y] ! j) = live (m_execs m ! j)"
    "run_id ((m_execs m)[k := y] ! j) = run_id (m_execs m ! j)" for j
    using assms(2-4) by (cases "j = k"; simp)+
  have "registered ?m" using assms(1) nth by (simp add: mgr_ok_def registered_def)
  moreover have "\<forall>z\<in>set ((m_execs m)[k := y]). exec_ok su z"
    using assms(1,5) set_update_subset_insert [of "m_execs m" k y] by (auto simp: mgr_ok_def)
  ultimately show ?thesis using assms(1,6) a unfolding mgr_ok_def kept_def by auto
qed

lemma mgr_ok_file: "mgr_ok su m \<Longrightarrow> kept (m_file m) g \<Longrightarrow> mgr_ok su (m\<lparr>m_file := g\<rparr>)"
  by (auto simp: mgr_ok_def kept_def active_def registered_def)

lemma mgr_ok_signal: "mgr_ok su m \<Longrightarrow> mgr_ok su (signal_exec c k m)"
proof (cases "k < length (m_execs m)")
  case True
  assume ok: "mgr_ok su m"
  then have "exec_ok su (m_execs m ! k)" using True by (simp add: mgr_ok_def)
  then have "mgr_ok su (m\<lparr>m_execs := (m_execs m)[k := end_ctx c (m_execs m ! k)], m_file := m_file m\<rparr>)"
    by (intro mgr_ok_exec [OF ok True] exec_ok_end_ctx) simp_all
  then show ?thesis using True by (simp add: signal_exec_def)
qed (simp add: signal_exec_def)

lemma signal_exec_frame [simp]:
  "m_slots (signal_exec c k m) = m_slots m" "m_cancels (signal_exec c k m) = m_cancels m"
  "m_claimed (signal_exec c k m) = m_claimed m" "m_cap (signal_exec c k m) = m_cap m"
  "m_requests (signal_exec c k m) = m_requests m" "length (m_execs (signal_exec c k m)) = length (m_execs m)"
  "m_file (signal_exec c k m) = m_file m"
  by (simp_all add: signal_exec_def)

lemma signal_exec_nth:
  "j < length (m_execs m) \<Longrightarrow> x_pc (m_execs (signal_exec c k m) ! j) = x_pc (m_execs m ! j) \<and>
     x_run (m_execs (signal_exec c k m) ! j) = x_run (m_execs m ! j)"
  by (cases "j = k") (simp_all add: signal_exec_def)

lemma mgr_ok_run_step: "mgr_ok su m \<Longrightarrow> mgr_ok su (run_step su env k m)"
proof (cases "k < length (m_execs m)")
  case True
  assume ok: "mgr_ok su m"
  then have e: "exec_ok su (m_execs m ! k)" using True by (simp add: mgr_ok_def)
  let ?s = "exec_step su env (m_execs m ! k) (m_file m)"
  have "mgr_ok su (m\<lparr>m_execs := (m_execs m)[k := fst ?s], m_file := snd ?s\<rparr>)"
    using e by (intro mgr_ok_exec [OF ok True] exec_ok_step exec_kept) simp_all
  then show ?thesis using True by (simp add: run_step_def case_prod_beta)
qed (simp add: run_step_def)

lemma mgr_ok_claim:
  assumes "mgr_ok su m" "m_slots m < m_cap m" "ids_ok g"
    and "run_in (m_file m) (br_RunID run) = Some r0" "br_Status r0 = Queued" "br_Status run = Building"
    and "\<And>i. run_in g i = (if i = br_RunID run then Some run else run_in (m_file m) i)"
  shows "mgr_ok su (m\<lparr>m_file := g, m_slots := m_slots m + 1, m_claimed := m_claimed m @ [run]\<rparr>)"
proof -
  define m' where "m' = m\<lparr>m_file := g, m_slots := m_slots m + 1, m_claimed := m_claimed m @ [run]\<rparr>"
  have f: "m_file m' = g" "m_slots m' = m_slots m + 1" "m_claimed m' = m_claimed m @ [run]"
    "m_execs m' = m_execs m" "m_cap m' = m_cap m" "m_cancels m' = m_cancels m"
    by (simp_all add: m'_def)
  have a: "active m' = add_mset (br_RunID run) (active m)" by (simp add: active_def f)
  have "br_RunID run \<notin># active m" using assms(1,4,5) unfolding mgr_ok_def by force
  then have "count (active m) (br_RunID run) = 0" by (simp add: not_in_iff)
  then have "\<forall>rid. count (active m') rid \<le> 1" using assms(1) by (simp add: mgr_ok_def a)
  moreover have "registered m'" using assms(1) by (simp add: mgr_ok_def registered_def f)
  moreover have "\<forall>rid \<in># active m'. \<exists>r. run_in g rid = Some r \<and> br_Status r \<noteq> Queued"
    using assms(1,6,7) by (auto simp: mgr_ok_def a)
  moreover have "m_slots m' = size (active m')" "m_slots m' \<le> m_cap m'"
    using assms(1,2) by (simp_all add: mgr_ok_def a f)
  ultimately have "mgr_ok su m'" using assms(1,3,6) by (simp add: mgr_ok_def f)
  then show ?thesis by (simp add: m'_def)
qed

lemma mgr_ok_start: "mgr_ok su m \<Longrightarrow> mgr_ok su (StartRun_claim env runID m)"
proof -
  assume ok: "mgr_ok su m"
  obtain f ro e where c: "ClaimRun (en_io env) (en_now env) runID (m_file m) = (f, ro, e)" using prod_cases3 by blast
  have ids: "ids_ok f" using ClaimRun_result(1) [OF c] ok by (simp add: ids_ok_def mgr_ok_def)
  show ?thesis
  proof (cases "claimed (f, ro, e)")
    case None
    then have "f = m_file m" using ClaimRun_result(2) [OF c] by simp
    then show ?thesis using None ok c
      by (auto simp: StartRun_claim_def claimed_def split: option.splits if_splits)
  next
    case (Some run)
    then obtain r0 where r: "run_in (m_file m) runID = Some r0" "br_Status r0 = Queued"
      "run = Touch (en_now env) Building r0" "\<And>i. run_in f i = (if i = runID then Some run else run_in (m_file m) i)"
      using ClaimRun_result(3) [OF c] by blast
    have "br_RunID r0 = runID" using r(1) by (auto simp: run_in_def find_Some_iff)
    then have id: "br_RunID run = runID" using r(3) by simp
    have "ro = Some run" "e = None" "\<not> Terminal (br_Status run)"
      using Some by (auto simp: claimed_def split: option.splits if_splits)
    then show ?thesis
      using mgr_ok_claim [OF ok _ ids, of run r0] r id c ok by (auto simp: StartRun_claim_def)
  qed
qed

lemma mgr_ok_start_next:
  assumes "run_sorter (su_sort su)" "mgr_ok su m"
  shows "mgr_ok su (StartNextQueued_claim su env m)"
proof -
  obtain f ro e where c: "ClaimNextQueuedRun (su_sort su) (en_io env) (en_now env) (m_file m) = (f, ro, e)"
    using prod_cases3 by blast
  have ids: "ids_ok (m_file m)" using assms(2) by (simp add: mgr_ok_def)
  note res = run_sorter.ClaimNext_result [OF assms(1) c ids]
  show ?thesis
  proof (cases "claimed (f, ro, e)")
    case None
    then show ?thesis using res(3) assms(2) c by (auto simp: StartNextQueued_claim_def)
  next
    case (Some run)
    then obtain r0 where r: "run_in (m_file m) (br_RunID run) = Some r0" "br_Status r0 = Queued"
      "run = Touch (en_now env) Building r0" "\<And>i. run_in f i = (if i = br_RunID run then Some run else run_in (m_file m) i)"
      using res(4) by blast
    have "ro = Some run" "e = None" using Some by (auto simp: claimed_def split: option.splits if_splits)
    moreover have "br_Status run = Building" by (simp add: r(3))
    ultimately show ?thesis
      using mgr_ok_claim [OF assms(2) _ res(1) r(1,2) _ r(4)] assms(2) c by (auto simp: StartNextQueued_claim_def)
  qed
qed

lemma claimed_nth: "i < length rs \<Longrightarrow> mset (map br_RunID rs) =
    add_mset (br_RunID (rs ! i)) (mset (map br_RunID (take i rs @ drop (Suc i) rs)))"
  using arg_cong [OF id_take_nth_drop [of i rs], of "\<lambda>rs. mset (map br_RunID rs)"] by simp

lemma mgr_ok_register: "mgr_ok su m \<Longrightarrow> mgr_ok su (register_run i m)"
proof (cases "i < length (m_claimed m)")
  case True
  assume ok: "mgr_ok su m"
  let ?run = "m_claimed m ! i"
  define m' where "m' = register_run i m"
  have f: "m_file m' = m_file m" "m_slots m' = m_slots m" "m_cap m' = m_cap m"
    "m_claimed m' = take i (m_claimed m) @ drop (Suc i) (m_claimed m)"
    "m_execs m' = m_execs m @ [newExec ?run]"
    "m_cancels m' = (m_cancels m)(br_RunID ?run := Some (length (m_execs m)))"
    using True by (simp_all add: m'_def register_run_def Let_def)
  have n: "live (newExec ?run)" "x_run (newExec ?run) = ?run" by (simp_all add: newExec_def)
  have a: "active m' = active m"
    using claimed_nth [OF True] by (simp add: active_def f n)
  have b: "br_Status ?run = Building" using ok True by (simp add: mgr_ok_def)
  have fresh: "\<not> (live (m_execs m ! k) \<and> run_id (m_execs m ! k) = br_RunID ?run)" if "k < length (m_execs m)" for k
  proof
    assume "live (m_execs m ! k) \<and> run_id (m_execs m ! k) = br_RunID ?run"
    then have "br_RunID ?run \<in># live_ids (m_execs m)"
      using that by (auto simp: live_ids_def intro!: image_eqI [where x = "m_execs m ! k"])
    then obtain c where "count (live_ids (m_execs m)) (br_RunID ?run) = Suc c"
      using count_greater_zero_iff gr0_implies_Suc by metis
    then have "2 \<le> count (active m) (br_RunID ?run)"
      unfolding active_def claimed_nth [OF True] by simp
    moreover have "count (active m) (br_RunID ?run) \<le> 1" using ok by (simp add: mgr_ok_def)
    ultimately show False by simp
  qed
  have "registered m'"
    unfolding registered_def f
  proof (intro conjI allI impI)
    fix k assume k: "k < length (m_execs m @ [newExec ?run])" "live ((m_execs m @ [newExec ?run]) ! k)"
    show "((m_cancels m)(br_RunID ?run := Some (length (m_execs m)))) (run_id ((m_execs m @ [newExec ?run]) ! k)) = Some k"
      using k ok fresh n by (cases "k < length (m_execs m)") (auto simp: nth_append mgr_ok_def registered_def less_Suc_eq)
  next
    fix rid k assume r: "((m_cancels m)(br_RunID ?run := Some (length (m_execs m)))) rid = Some k"
    then show "k < length (m_execs m @ [newExec ?run])" "live ((m_execs m @ [newExec ?run]) ! k)"
        "run_id ((m_execs m @ [newExec ?run]) ! k) = rid"
      using ok n by (auto simp: nth_append mgr_ok_def registered_def less_Suc_eq split: if_splits)
  qed
  then have "mgr_ok su m'"
    using ok b exec_ok_new [OF b] by (auto simp: mgr_ok_def a f dest: in_set_takeD in_set_dropD)
  then show ?thesis by (simp add: m'_def)
qed (simp add: register_run_def)

lemma mgr_ok_cleanup: "mgr_ok su m \<Longrightarrow> mgr_ok su (run_cleanup k m)"
proof (cases "k < length (m_execs m) \<and> x_pc (m_execs m ! k) = PCleanup")
  case True
  assume ok: "mgr_ok su m"
  then have k: "k < length (m_execs m)" and pc: "x_pc (m_execs m ! k) = PCleanup" using True by simp_all
  let ?rid = "run_id (m_execs m ! k)"
  have c: "m_cancels m ?rid = Some k" using ok k pc by (simp add: mgr_ok_def registered_def)
  define m1 where "m1 = signal_exec CtxCanceled k m"
  have ok1: "mgr_ok su m1" using mgr_ok_signal [OF ok] by (simp add: m1_def)
  have m1: "k < length (m_execs m1)" "x_pc (m_execs m1 ! k) = PCleanup" "run_id (m_execs m1 ! k) = ?rid"
    using k pc signal_exec_nth [OF k, of CtxCanceled k] by (simp_all add: m1_def)
  let ?y = "(m_execs m1 ! k)\<lparr>x_pc := PDone\<rparr>"
  define m' where "m' = run_cleanup k m"
  have f: "m_file m' = m_file m1" "m_slots m' = m_slots m1 - 1" "m_cap m' = m_cap m1" "m_claimed m' = m_claimed m1"
    "m_execs m' = (m_execs m1)[k := ?y]" "m_cancels m' = (m_cancels m1)(?rid := None)"
    using k pc c by (simp_all add: m'_def run_cleanup_def Let_def m1_def)
  have a: "active m1 = add_mset ?rid (active m')"
    using live_ids_done [OF m1(1), of ?y] m1(2,3) by (simp add: active_def f)
  have "count (active m1) rid \<le> 1" for rid using ok1 by (simp add: mgr_ok_def)
  then have cnt: "count (active m') rid \<le> 1" for rid using a by (metis count_add_mset le_SucI Suc_le_mono)
  have e: "exec_ok su (m_execs m1 ! k)" using ok1 m1(1) by (simp add: mgr_ok_def)
  then have "exec_ok su ?y" using m1(2) by (auto simp: exec_ok_def)
  then have es: "\<forall>z\<in>set ((m_execs m1)[k := ?y]). exec_ok su z"
    using ok1 set_update_subset_insert [of "m_execs m1" k ?y] by (auto simp: mgr_ok_def)
  have "registered m'"
    unfolding registered_def f
  proof (intro conjI allI impI)
    fix j assume j: "j < length ((m_execs m1)[k := ?y])" "live ((m_execs m1)[k := ?y] ! j)"
    then have "j \<noteq> k" "live (m_execs m1 ! j)" "j < length (m_execs m1)"
      using m1(1) by (auto simp: nth_list_update split: if_splits)
    moreover from this have "m_cancels m1 (run_id (m_execs m1 ! j)) = Some j"
      using ok1 by (simp add: mgr_ok_def registered_def)
    moreover have "run_id (m_execs m1 ! j) \<noteq> ?rid" using calculation c by (auto simp: m1_def)
    ultimately show "((m_cancels m1)(?rid := None)) (run_id ((m_execs m1)[k := ?y] ! j)) = Some j" by simp
  next
    fix rid j assume r: "((m_cancels m1)(?rid := None)) rid = Some j"
    then have "rid \<noteq> ?rid" "m_cancels m1 rid = Some j" by (auto split: if_splits)
    then have "j < length (m_execs m1)" "live (m_execs m1 ! j)" "run_id (m_execs m1 ! j) = rid" "j \<noteq> k"
      using ok1 m1(3) by (auto simp: mgr_ok_def registered_def)
    then show "j < length ((m_execs m1)[k := ?y])" "live ((m_execs m1)[k := ?y] ! j)"
        "run_id ((m_execs m1)[k := ?y] ! j) = rid" by simp_all
  qed
  moreover have "m_slots m' = size (active m')" "m_slots m' \<le> m_cap m'" using ok1 a by (simp_all add: mgr_ok_def f)
  moreover have "\<forall>rid \<in># active m'. \<exists>r. run_in (m_file m') rid = Some r \<and> br_Status r \<noteq> Queued"
    using ok1 a by (simp add: mgr_ok_def f)
  ultimately have "mgr_ok su m'" using ok1 cnt es by (simp add: mgr_ok_def f)
  then show ?thesis by (simp add: m'_def)
qed (auto simp: run_cleanup_def)

lemma mgr_ok_cancel_read: "mgr_ok su m \<Longrightarrow> mgr_ok su (cancel_read env runID m)"
  by (simp add: cancel_read_def split: sum.split)

lemma mgr_ok_cancel_signal: "mgr_ok su m \<Longrightarrow> mgr_ok su (cancel_signal i m)"
  by (simp add: cancel_signal_def Let_def mgr_ok_signal split: cancel_request.split option.split)

lemma mgr_ok_cancel_save: "mgr_ok su m \<Longrightarrow> mgr_ok su (cancel_save env i m)"
proof -
  assume ok: "mgr_ok su m"
  have "mgr_ok su (m\<lparr>m_file := fst (SaveRun (en_io env) (finished_run (en_now env) Cancelled run) (m_file m)),
      m_requests := r\<rparr>)" for run r
  proof -
    obtain g e where s: "SaveRun (en_io env) (finished_run (en_now env) Cancelled run) (m_file m) = (g, e)" by fastforce
    have "mgr_ok su (m\<lparr>m_file := g\<rparr>)" by (rule mgr_ok_file [OF ok SaveRun_kept [OF s]]) simp
    then show ?thesis using mgr_ok_requests [where m = "m\<lparr>m_file := g\<rparr>" and r = r] s by simp
  qed
  then show ?thesis using ok by (simp add: cancel_save_def Let_def split: cancel_request.split)
qed

lemma mgr_ok_shutdown: "mgr_ok su m \<Longrightarrow> mgr_ok su (Shutdown m)"
proof -
  assume ok: "mgr_ok su m"
  define g where "g = (\<lambda>(k, x). if m_cancels m (run_id x) = Some k then end_ctx CtxCanceled x else x)"
  define ys where "ys = map g (enumerate 0 (m_execs m))"
  have s: "Shutdown m = m\<lparr>m_execs := ys\<rparr>" by (simp add: Shutdown_def ys_def g_def)
  have len: "length ys = length (m_execs m)" by (simp add: ys_def)
  have nth: "x_pc (ys ! k) = x_pc (m_execs m ! k) \<and> x_run (ys ! k) = x_run (m_execs m ! k)" if "k < length (m_execs m)" for k
    using that by (simp add: ys_def g_def nth_enumerate_eq)
  have "x_pc (g p) = x_pc (snd p) \<and> x_run (g p) = x_run (snd p)" for p by (cases p) (simp add: g_def)
  then have "map run_id (filter live (map g ps)) = map run_id (filter live (map snd ps))" for ps
    by (induction ps) simp_all
  then have "live_ids ys = live_ids (m_execs m)" by (simp add: live_ids_def ys_def flip: map_map)
  moreover have "registered (m\<lparr>m_execs := ys\<rparr>)" using ok nth len by (simp add: mgr_ok_def registered_def)
  moreover have "\<forall>x\<in>set ys. exec_ok su x"
    using ok exec_ok_end_ctx by (auto simp: ys_def g_def mgr_ok_def in_set_enumerate_eq)
  ultimately show ?thesis using ok by (simp add: s mgr_ok_def active_def)
qed

lemma mgr_ok_submit: "mgr_ok su m \<Longrightarrow> mgr_ok su (submit_run run m)"
proof -
  assume ok: "mgr_ok su m"
  have fresh: "kept (m_file m) (FileSnap \<lparr>sn_Submissions = subs, sn_Runs = runs_of (m_file m) @ [run]\<rparr>)"
    if "run_in (m_file m) (br_RunID run) = None" for subs
  proof -
    have "br_RunID run \<notin> set (map br_RunID (runs_of (m_file m)))"
      using that by (auto simp: run_in_def find_None_iff)
    moreover have "find P (xs @ [z]) = Some r" if "find P xs = Some r" for P r and xs :: "BenchmarkRun list" and z
      using that by (induction xs) auto
    ultimately show ?thesis by (auto simp: kept_def ids_ok_def run_in_def runs_of_def)
  qed
  show ?thesis
  proof (cases "br_Status run = Queued \<and> run_in (m_file m) (br_RunID run) = None")
    case True
    have snap: "s\<lparr>sn_Runs := rs\<rparr> = \<lparr>sn_Submissions = sn_Submissions s, sn_Runs = rs\<rparr>" for s :: snapshot and rs
      by (cases s) simp
    show ?thesis
      using True ok mgr_ok_file [OF ok fresh]
      by (cases "m_file m") (auto simp: submit_run_def runs_of_def snap)
  next
    case False
    then show ?thesis using ok by (auto simp: submit_run_def)
  qed
qed

lemma mgr_ok_step: "run_sorter (su_sort su) \<Longrightarrow> mgr_ok su m \<Longrightarrow> mgr_ok su (mgr_step su ev m)"
  by (cases ev) (simp_all add: mgr_ok_start mgr_ok_start_next mgr_ok_register mgr_ok_run_step mgr_ok_cleanup
      mgr_ok_signal mgr_ok_cancel_read mgr_ok_cancel_signal mgr_ok_cancel_save mgr_ok_shutdown mgr_ok_submit)

lemma mgr_ok_run: "run_sorter (su_sort su) \<Longrightarrow> mgr_ok su m \<Longrightarrow> mgr_ok su (run_mgr su evs m)"
  unfolding run_mgr_def by (induction evs arbitrary: m) (simp_all add: mgr_ok_step)

lemma mgr_ok_new: "ids_ok f \<Longrightarrow> mgr_ok su (NewManager f cpus parsed)"
  by (simp add: mgr_ok_def NewManager_def active_def live_ids_def registered_def)

lemma mgr_step_cap: "m_cap (mgr_step su ev m) = m_cap m"
  by (cases ev) (auto simp: StartRun_claim_def StartNextQueued_claim_def register_run_def run_step_def run_cleanup_def
      cancel_read_def cancel_signal_def cancel_save_def Shutdown_def submit_run_def Let_def
      split: prod.splits option.splits sum.splits cancel_request.splits store_file.splits)

lemma run_mgr_cap: "m_cap (run_mgr su evs m) = m_cap m"
  unfolding run_mgr_def by (induction evs arbitrary: m) (simp_all add: mgr_step_cap)

section \<open>Properties of the manager\<close>

text \<open>
  C21. Whatever the manager is asked to do and however its goroutines, the submission API and
  the run timeouts interleave with it: the slots taken are exactly the runs claimed or still
  executing, there are never more of them than the configured concurrency, and no run is
  executed twice at the same time.
\<close>

theorem runs_are_bounded_and_exclusive:
  assumes "run_sorter (su_sort su)" and "ids_ok f"
    and "m = run_mgr su evs (NewManager f cpus parsed)"
  shows "m_slots m = length (m_claimed m) + length (filter live (m_execs m)) \<and>
    int (m_slots m) \<le> buildConcurrency cpus parsed \<and>
    distinct (map br_RunID (m_claimed m) @ map run_id (filter live (m_execs m)))"
proof -
  have ok: "mgr_ok su m" using mgr_ok_run [OF assms(1) mgr_ok_new [OF assms(2)]] assms(3) by simp
  have "m_cap m = nat (buildConcurrency cpus parsed)" using assms(3) by (simp add: run_mgr_cap NewManager_def)
  moreover have "1 \<le> buildConcurrency cpus parsed" by (simp add: buildConcurrency_def Let_def)
  ultimately have cap: "int (m_cap m) = buildConcurrency cpus parsed" by simp
  let ?ids = "map br_RunID (m_claimed m) @ map run_id (filter live (m_execs m))"
  have a: "active m = mset ?ids" by (simp add: active_def live_ids_def)
  have "count (mset ?ids) rid \<le> 1" for rid using ok unfolding mgr_ok_def a by blast
  then have "distinct ?ids"
    by (metis (no_types, lifting) distinct_count_atmost_1 count_eq_zero_iff le_less_linear less_one le_antisym not_less set_mset_mset Suc_leI count_greater_zero_iff One_nat_def)
  moreover have "m_slots m = length ?ids" using ok unfolding mgr_ok_def a size_mset by blast
  moreover have "m_slots m \<le> m_cap m" using ok by (simp add: mgr_ok_def)
  ultimately show ?thesis using cap by simp
qed

lemma runs_are_bounded_and_exclusive_witness:
  "int (m_slots (run_mgr demo_setup [EvStartNext good_env, EvStart good_env ''r2'', EvRegister 0]
     (NewManager demo_file 1 None))) \<le> 1"
proof -
  have s: "run_sorter (su_sort demo_setup)" by (simp add: demo_setup_def stable.run_sorter_axioms)
  from runs_are_bounded_and_exclusive [OF s demo_file_ids refl,
      of "[EvStartNext good_env, EvStart good_env ''r2'', EvRegister 0]" 1 None]
  show ?thesis by (simp add: buildConcurrency_def)
qed

text \<open>
  A cancellation can be lost: between the claim of a run and the registration of its cancel
  function, \<^verbatim>\<open>CancelRun\<close> finds nothing to signal.  It answers \<^verbatim>\<open>CANCELLED\<close>, and the run is then
  executed from the start under a context nobody has cancelled.
\<close>

lemma cancel_before_registration_is_lost:
  assumes "i < length (m_claimed m)" and "m_cancels m (br_RunID (m_claimed m ! i)) = None"
    and "GetRun (en_io env) (br_RunID (m_claimed m ! i)) (m_file m) = Inr run" and "\<not> Terminal (br_Status run)"
    and "m' = run_mgr su [EvCancelRead env (br_RunID (m_claimed m ! i)), EvCancelSignal (length (m_requests m)),
      EvCancelSave env (length (m_requests m)), EvRegister i] m"
  shows "m_requests m' = m_requests m @ [CancelAnswered (finished_run (en_now env) Cancelled run)] \<and>
    m_execs m' = m_execs m @ [newExec (m_claimed m ! i)] \<and> x_ctx (last (m_execs m')) = CtxLive"
proof -
  have "br_RunID run = br_RunID (m_claimed m ! i)"
    using assms(3) by (auto simp: GetRun_def cloneRun_def find_Some_iff split: sum.splits option.splits)
  then show ?thesis
    using assms by (simp add: run_mgr_def cancel_read_def cancel_signal_def cancel_save_def register_run_def
        newExec_def Let_def)
qed

definition queued_store :: store_file where
  "queued_store = FileSnap \<lparr>sn_Submissions = [demo_submission], sn_Runs = [demo_bench_run ''r1'' Queued 10]\<rparr>"

definition claimed_mgr :: Manager where
  "claimed_mgr = run_mgr demo_setup [EvStart good_env ''r1''] (NewManager queued_store 4 None)"

lemma claimed_mgr_eq:
  "claimed_mgr = \<lparr>m_file = FileSnap \<lparr>sn_Submissions = [demo_submission],
       sn_Runs = [Touch 7 Building (demo_bench_run ''r1'' Queued 10)]\<rparr>,
     m_cap = 4, m_slots = 1, m_cancels = (\<lambda>_. None),
     m_claimed = [Touch 7 Building (demo_bench_run ''r1'' Queued 10)], m_execs = [], m_requests = []\<rparr>"
  by (simp add: claimed_mgr_def run_mgr_def StartRun_claim_def NewManager_def buildConcurrency_def ClaimRun_def
      good_env_def io_good_def queued_store_def loadLocked_def writeLocked_def demo_bench_run_def Terminal_def
      cloneRun_def Touch_def)

text \<open>The cancelled run of this trace goes on to finish, and the file says so.\<close>

lemma cancel_before_registration_is_lost_witness:
  "let m = run_mgr demo_setup [EvCancelRead good_env ''r1'', EvCancelSignal 0, EvCancelSave good_env 0, EvRegister 0] claimed_mgr
   in map_option br_Status (run_in (m_file m) ''r1'') = Some Cancelled \<and> x_ctx (last (m_execs m)) = CtxLive \<and>
      map_option br_Status (run_in (m_file (run_mgr demo_setup (replicate 24 (EvRun good_env 0)) m)) ''r1'') = Some Finished"
proof -
  let ?run = "Touch 7 Building (demo_bench_run ''r1'' Queued 10)"
  let ?m = "run_mgr demo_setup [EvCancelRead good_env ''r1'', EvCancelSignal 0, EvCancelSave good_env 0, EvRegister 0] claimed_mgr"
  have e: "0 < length (m_claimed claimed_mgr)" "m_cancels claimed_mgr (br_RunID (m_claimed claimed_mgr ! 0)) = None"
    "GetRun (en_io good_env) (br_RunID (m_claimed claimed_mgr ! 0)) (m_file claimed_mgr) = Inr ?run"
    "\<not> Terminal (br_Status ?run)"
    by (simp_all add: claimed_mgr_eq GetRun_def good_env_def io_good_def loadLocked_def demo_bench_run_def cloneRun_def
        Terminal_def)
  have id: "br_RunID (m_claimed claimed_mgr ! 0) = ''r1''" "m_requests claimed_mgr = []" "m_execs claimed_mgr = []"
    by (simp_all add: claimed_mgr_eq demo_bench_run_def)
  have "x_ctx (last (m_execs ?m)) = CtxLive"
    using cancel_before_registration_is_lost [OF e refl, of demo_setup] unfolding id list.size by blast
  moreover have m: "?m = \<lparr>m_file = FileSnap \<lparr>sn_Submissions = [demo_submission],
       sn_Runs = [finished_run 7 Cancelled ?run]\<rparr>, m_cap = 4, m_slots = 1,
     m_cancels = (\<lambda>_. None)(''r1'' := Some 0), m_claimed = [], m_execs = [newExec ?run],
     m_requests = [CancelAnswered (finished_run 7 Cancelled ?run)]\<rparr>"
    by (simp add: run_mgr_def claimed_mgr_eq cancel_read_def cancel_signal_def cancel_save_def register_run_def
        GetRun_def SaveRun_def loadLocked_def writeLocked_def good_env_def io_good_def demo_bench_run_def
        cloneRun_def Terminal_def finished_run_def Touch_def Let_def)
  moreover have "map_option br_Status (run_in (m_file (run_mgr demo_setup (replicate 24 (EvRun good_env 0)) ?m)) ''r1'')
      = Some Finished"
    unfolding m
    by (simp add: run_mgr_def run_step_def numeral_eq_Suc exec_step_def newExec_def good_env_def demo_setup_def
        demo_submission_def demo_bench_run_def io_good_def GetSubmission_def loadLocked_def SaveRun_def writeLocked_def
        Terminal_def Touch_def ctx_Err_def stop_engine_def mergeResourceSample_def Score_def writeScore_def
        marshal_ok_def noScore_def IsNaN_def IsInf_def with_spec_def finished_run_def cloneRun_def run_in_def runs_of_def
        Let_def)
  ultimately show ?thesis
    by (simp add: run_in_def runs_of_def demo_bench_run_def finished_run_def Touch_def Let_def)
qed

end
