(* ===== verification/Strconv.thy ===== *)
theory Strconv
  imports Float64
begin

text \<open>
  The parts of Go's \<^verbatim>\<open>strconv\<close> the services read and write numbers with, on bytes.

  A parser answers its value and whether it succeeded, because several callers drop the error
  and keep the value: \<^verbatim>\<open>Atoi\<close> of an integer out of range is the nearest \<^verbatim>\<open>int\<close>, of anything else
  that is not an integer it is 0.  \<^verbatim>\<open>ParseFloat\<close> is modelled on decimal notation, infinities and
  not-a-number; hexadecimal floating-point literals are outside the model.
\<close>

section \<open>Digits\<close>

definition is_digit :: "char \<Rightarrow> bool" where
  "is_digit c \<longleftrightarrow> CHR ''0'' \<le> c \<and> c \<le> CHR ''9''"

definition digit_val :: "char \<Rightarrow> nat" where
  "digit_val c = of_char c - 48"

definition digit_char :: "nat \<Rightarrow> char" where
  "digit_char d = char_of (48 + d)"

definition nat_of_digits :: "string \<Rightarrow> nat" where
  "nat_of_digits ds = fold (\<lambda>c n. 10 * n + digit_val c) ds 0"

fun digits_of :: "nat \<Rightarrow> string" where
  "digits_of n = (if n < 10 then [digit_char n] else digits_of (n div 10) @ [digit_char (n mod 10)])"

declare digits_of.simps [simp del]

lemma digit_char [simp]: "d < 10 \<Longrightarrow> digit_val (digit_char d) = d" "d < 10 \<Longrightarrow> is_digit (digit_char d)"
proof -
  assume d: "d < 10"
  then have m: "(48 + d) mod 256 = 48 + d" by simp
  then show "digit_val (digit_char d) = d"
    by (simp add: digit_val_def digit_char_def)
  from d m show "is_digit (digit_char d)"
    by (simp add: is_digit_def digit_char_def less_eq_char_def)
qed

lemma digits_of_ne [simp]: "digits_of n \<noteq> []"
  by (subst digits_of.simps) simp

lemma digits_of_digits: "c \<in> set (digits_of n) \<Longrightarrow> is_digit c"
proof (induction n rule: digits_of.induct)
  case (1 n)
  then show ?case by (subst (asm) (2) digits_of.simps) (auto split: if_splits)
qed

lemma nat_of_digits_snoc: "nat_of_digits (ds @ [c]) = 10 * nat_of_digits ds + digit_val c"
  by (simp add: nat_of_digits_def)

lemma nat_of_digits_of [simp]: "nat_of_digits (digits_of n) = n"
proof (induction n rule: digits_of.induct)
  case (1 n)
  show ?case
  proof (cases "n < 10")
    case True
    then show ?thesis by (subst digits_of.simps) (simp add: nat_of_digits_def)
  next
    case False
    then show ?thesis using 1 by (subst digits_of.simps) (simp add: nat_of_digits_snoc)
  qed
qed

section \<open>Integers\<close>

definition Itoa :: "int \<Rightarrow> string" where
  "Itoa n = (if n < 0 then CHR ''-'' # digits_of (nat (- n)) else digits_of (nat n))"

text \<open>
  \<^verbatim>\<open>ParseUint\<close> reads digit by digit and stops at the first one that overflows, before it looks at
  what follows; \<^verbatim>\<open>None\<close> is a syntax error.
\<close>

fun parse_uint :: "string \<Rightarrow> nat \<Rightarrow> nat option" where
  "parse_uint [] n = Some n"
| "parse_uint (c # cs) n =
     (if \<not> is_digit c then None
      else if 2 ^ 64 div 10 + 1 \<le> n then Some (2 ^ 64 - 1)
      else if 2 ^ 64 \<le> 10 * n + digit_val c then Some (2 ^ 64 - 1)
      else parse_uint cs (10 * n + digit_val c))"

definition split_sign :: "string \<Rightarrow> bool \<times> string" where
  "split_sign s = (case s of [] \<Rightarrow> (False, [])
     | c # cs \<Rightarrow> if c = CHR ''-'' then (True, cs) else if c = CHR ''+'' then (False, cs) else (False, s))"

definition Atoi :: "string \<Rightarrow> int \<times> bool" where
  "Atoi s =
     (let (neg, ds) = split_sign s in
      if ds = [] then (0, False)
      else case parse_uint ds 0 of
        None \<Rightarrow> (0, False)
      | Some un \<Rightarrow>
          if \<not> neg \<and> 2 ^ 63 \<le> un then (2 ^ 63 - 1, False)
          else if neg \<and> 2 ^ 63 < un then (- (2 ^ 63), False)
          else (if neg then - int un else int un, True))"

lemma nat_of_digits_Cons: "fold (\<lambda>c n. 10 * n + digit_val c) ds n = 10 ^ length ds * n + nat_of_digits ds"
proof (induction ds arbitrary: n)
  case (Cons c ds)
  have "fold (\<lambda>c n. 10 * n + digit_val c) (c # ds) n = 10 ^ length ds * (10 * n + digit_val c) + nat_of_digits ds"
    using Cons [of "10 * n + digit_val c"] by simp
  moreover have "nat_of_digits (c # ds) = 10 ^ length ds * digit_val c + nat_of_digits ds"
    using Cons [of "digit_val c"] by (simp add: nat_of_digits_def)
  ultimately show ?case by (simp add: algebra_simps)
qed (simp add: nat_of_digits_def)

lemma parse_uint_small:
  assumes "\<And>c. c \<in> set ds \<Longrightarrow> is_digit c" "10 ^ length ds * n + nat_of_digits ds < 2 ^ 64"
  shows "parse_uint ds n = Some (10 ^ length ds * n + nat_of_digits ds)"
  using assms
proof (induction ds arbitrary: n)
  case (Cons c ds)
  have eq: "10 ^ length (c # ds) * n + nat_of_digits (c # ds)
      = 10 ^ length ds * (10 * n + digit_val c) + nat_of_digits ds"
    using nat_of_digits_Cons [of "c # ds" n] nat_of_digits_Cons [of ds "10 * n + digit_val c"] by simp
  have grow: "x \<le> 10 ^ length ds * x" for x :: nat by simp
  have "10 ^ length ds * (10 * n + digit_val c) + nat_of_digits ds < 2 ^ 64"
    using Cons.prems(2) unfolding eq .
  then have "10 * n + digit_val c < 2 ^ 64"
    using grow [of "10 * n + digit_val c"] add_lessD1 le_less_trans by blast
  moreover from this have "\<not> 2 ^ 64 div 10 + 1 \<le> n" by auto
  ultimately show ?case
    using Cons.IH [of "10 * n + digit_val c"] Cons.prems eq by simp
qed (simp add: nat_of_digits_def)

lemma parse_uint_digits_of: "n < 2 ^ 64 \<Longrightarrow> parse_uint (digits_of n) 0 = Some n"
  using parse_uint_small [of "digits_of n" 0] digits_of_digits by simp

lemma split_sign_digits: "split_sign (digits_of n) = (False, digits_of n)"
proof -
  obtain c cs where d: "digits_of n = c # cs" using digits_of_ne by (meson neq_Nil_conv)
  then have "is_digit c" using digits_of_digits [of c n] by simp
  then have "c \<noteq> CHR ''-'' \<and> c \<noteq> CHR ''+''" by (auto simp: is_digit_def less_eq_char_def)
  then show ?thesis by (simp add: split_sign_def d)
qed

lemma Atoi_Itoa: "in_i64 n \<Longrightarrow> Atoi (Itoa n) = (n, True)"
proof (cases "n < 0")
  case True
  moreover assume "in_i64 n"
  ultimately have "nat (- n) \<le> 2 ^ 63" by (simp add: in_i64_def)
  then show ?thesis using True
    by (simp add: Atoi_def Itoa_def split_sign_def parse_uint_digits_of)
next
  case False
  moreover assume "in_i64 n"
  ultimately have "nat n < 2 ^ 63" by (simp add: in_i64_def)
  then show ?thesis using False
    by (simp add: Atoi_def Itoa_def split_sign_digits parse_uint_digits_of)
qed

lemma Atoi_range: "in_i64 (fst (Atoi s))"
  by (auto simp: Atoi_def in_i64_def Let_def split: option.split prod.split)

section \<open>Floating-point numbers\<close>

definition take_digits :: "string \<Rightarrow> string \<times> string" where
  "take_digits s = (takeWhile is_digit s, dropWhile is_digit s)"

text \<open>The exponent stops growing at \<open>10000\<close>, as in \<^verbatim>\<open>readFloat\<close>.\<close>

definition exponent_of :: "string \<Rightarrow> nat" where
  "exponent_of ds = fold (\<lambda>c e. if e < 10000 then 10 * e + digit_val c else e) ds 0"

definition parse_exponent :: "string \<Rightarrow> int option" where
  "parse_exponent s =
     (case s of [] \<Rightarrow> Some 0
      | c # cs \<Rightarrow>
          if c = CHR ''e'' \<or> c = CHR ''E'' then
            let (neg, ds) = split_sign cs in
            if ds = [] \<or> \<not> list_all is_digit ds then None
            else Some (if neg then - int (exponent_of ds) else int (exponent_of ds))
          else None)"

definition parse_decimal :: "string \<Rightarrow> real option" where
  "parse_decimal s =
     (let (whole, rest) = take_digits s;
          (frac, rest) = (case rest of c # cs \<Rightarrow> if c = CHR ''.'' then take_digits cs else ([], rest)
                          | [] \<Rightarrow> ([], []))
      in if whole = [] \<and> frac = [] then None
         else case parse_exponent rest of
           None \<Rightarrow> None
         | Some e \<Rightarrow> Some (real (nat_of_digits (whole @ frac)) * 10 powi (e - int (length frac))))"

definition ParseFloat :: "string \<Rightarrow> f64 \<times> bool" where
  "ParseFloat s =
     (let (neg, body) = split_sign s; word = map lower_char body in
      if word = ''inf'' \<or> word = ''infinity'' then (if neg then NInf else PInf, True)
      else if map lower_char s = ''nan'' then (NaN, True)
      else case parse_decimal body of
        None \<Rightarrow> (Fin 0, False)
      | Some r \<Rightarrow> let v = binary64 (if neg then - r else r) in (v, \<not> IsInf v))"

lemma takeWhile_digits [simp]: "takeWhile is_digit (digits_of n) = digits_of n"
  by (rule takeWhile_eq_all_conv [THEN iffD2]) (simp add: digits_of_digits)

lemma dropWhile_digits [simp]: "dropWhile is_digit (digits_of n) = []"
  by (simp add: digits_of_digits)

lemma parse_decimal_digits: "parse_decimal (digits_of n) = Some (real n)"
  by (simp add: parse_decimal_def take_digits_def parse_exponent_def)

lemma ParseFloat_digits:
  assumes "n < 2 ^ 53"
  shows "ParseFloat (digits_of n) = (Fin (real n), True)"
proof -
  obtain c cs where d: "digits_of n = c # cs" using digits_of_ne by (meson neq_Nil_conv)
  then have "is_digit c" using digits_of_digits [of c n] by simp
  then have "lower_char c \<noteq> CHR ''i'' \<and> lower_char c \<noteq> CHR ''n''"
    by (auto simp: is_digit_def lower_char_def less_eq_char_def)
  then have "map lower_char (digits_of n) \<notin> {''inf'', ''infinity'', ''nan''}" by (simp add: d)
  moreover have "binary64 (real n) = Fin (real n)"
    using float64_small [of "int n"] assms by (simp add: float64_def)
  ultimately show ?thesis
    by (simp add: ParseFloat_def split_sign_digits parse_decimal_digits IsInf_def)
qed

end
