(* ===== verification/Executor.thy ===== *)
theory Executor
  imports Strconv ScoreEngine
begin

text \<open>
  The orchestrator's spawned tools, \<^verbatim>\<open>services/orchestrator/internal/executor\<close>: the bot fleet and
  the validator run as processes over the files of the run's artifact directory.

  The processes, the environment variables and the JSON codecs answer through a \<open>Machine\<close>.  A
  file is written completely or not at all.  The text appended to \<^verbatim>\<open>run.log\<close> and the raw JSON
  kept beside a validation result are not modelled.
\<close>

section \<open>The machine the tools run on\<close>

datatype json = JNull | JBool bool | JNumber f64 | JString string | JArray "json list"
  | JObject "(string \<times> json) list"

record CommandOutput =
  co_Stdout :: string
  co_Err :: "string option"

text \<open>
  \<open>mc_output\<close> decodes a line of the engine's outputs to its event type, message type and status;
  \<open>mc_sample\<close> decodes \<^verbatim>\<open>resource.json\<close>.
\<close>

record Machine =
  mc_Getenv :: "string \<Rightarrow> string"
  mc_exists :: "string \<Rightarrow> bool"
  mc_writable :: "string \<Rightarrow> bool"
  mc_run :: "string \<Rightarrow> string \<Rightarrow> string list \<Rightarrow> files \<Rightarrow> files \<times> CommandOutput"
  mc_metrics :: "Metrics \<Rightarrow> string option"
  mc_output :: "string \<Rightarrow> (string \<times> string \<times> string) option"
  mc_validation :: "string \<Rightarrow> (string \<times> json) list option"
  mc_sample :: "string \<Rightarrow> (f64 \<times> f64) option"

definition WriteFile :: "Machine \<Rightarrow> string \<Rightarrow> string \<Rightarrow> files \<Rightarrow> files \<times> string option" where
  "WriteFile M path data fs =
     (if mc_writable M path then (fs(path \<mapsto> data), None) else (fs, Some (''open '' @ path)))"

definition runLoggedCommand :: "Machine \<Rightarrow> BenchmarkRun \<Rightarrow> string \<Rightarrow> string \<Rightarrow> string list \<Rightarrow> files \<Rightarrow>
    files \<times> CommandOutput" where
  "runLoggedCommand M run dir name args fs =
     (let log = path_Join [br_ArtifactDir run, ''run.log''] in
      if mc_writable M log then mc_run M dir name args fs
      else (fs, \<lparr>co_Stdout = [], co_Err = Some (''open '' @ log)\<rparr>))"

text \<open>A packaged or pre-built binary is preferred over a build by \<^verbatim>\<open>cargo\<close>.\<close>

definition tool_command :: "Machine \<Rightarrow> string \<Rightarrow> string \<Rightarrow> string \<Rightarrow> string list \<Rightarrow> string list \<Rightarrow>
    string \<times> string list" where
  "tool_command M var repoRoot binary cargo_args args =
     (let command = TrimSpace (mc_Getenv M var);
          command = (if command = [] then path_Join [repoRoot, ''target'', ''release'', binary] else command)
      in if mc_exists M command then (command, args) else (''cargo'', cargo_args @ args))"

section \<open>Parsing the fleet's summary\<close>

definition TrimSuffix :: "string \<Rightarrow> string \<Rightarrow> string" where
  "TrimSuffix s p = (if HasSuffix s p then take (length s - length p) s else s)"

definition atoi :: "string \<Rightarrow> int" where "atoi value = fst (Atoi (TrimSpace value))"

definition atof :: "string \<Rightarrow> f64" where "atof value = fst (ParseFloat (TrimSpace value))"

definition parseMS :: "string \<Rightarrow> f64" where
  "parseMS value =
     (let value = TrimSpace (TrimSuffix value ''ms'') in
      if value = ''n/a'' \<or> value = [] then Fin 0 else atof value)"

definition zeroMetrics :: Metrics where
  "zeroMetrics = \<lparr>mt_RunID = [], mt_Bots = 0, mt_OrdersSent = 0, mt_AcksReceived = 0,
     mt_FillsReceived = 0, mt_Timeouts = 0, mt_ConnectErrors = 0, mt_TPS = Fin 0, mt_PeakTPS = Fin 0,
     mt_P50MS = Fin 0, mt_P90MS = Fin 0, mt_P99MS = Fin 0, mt_CPUPctPeak = Fin 0, mt_MemMBPeak = Fin 0,
     mt_EventsOut = [], mt_OutputsOut = [], mt_RawOutput = []\<rparr>"

definition metric_field :: "string \<Rightarrow> string \<Rightarrow> Metrics \<Rightarrow> Metrics" where
  "metric_field key value m =
     (if key = ''run_id'' then m\<lparr>mt_RunID := value\<rparr>
      else if key = ''bots'' then m\<lparr>mt_Bots := atoi value\<rparr>
      else if key = ''orders_sent'' then m\<lparr>mt_OrdersSent := atoi value\<rparr>
      else if key = ''acks_received'' then m\<lparr>mt_AcksReceived := atoi value\<rparr>
      else if key = ''fills_received'' then m\<lparr>mt_FillsReceived := atoi value\<rparr>
      else if key = ''timeouts'' then m\<lparr>mt_Timeouts := atoi value\<rparr>
      else if key = ''connect_errors'' then m\<lparr>mt_ConnectErrors := atoi value\<rparr>
      else if key = ''tps'' then m\<lparr>mt_TPS := atof value\<rparr>
      else if key = ''peak_tps'' then m\<lparr>mt_PeakTPS := atof value\<rparr>
      else if key = ''p50'' then m\<lparr>mt_P50MS := parseMS value\<rparr>
      else if key = ''p90'' then m\<lparr>mt_P90MS := parseMS value\<rparr>
      else if key = ''p99'' then m\<lparr>mt_P99MS := parseMS value\<rparr>
      else if key = ''events_out'' then m\<lparr>mt_EventsOut := value\<rparr>
      else if key = ''outputs_out'' then m\<lparr>mt_OutputsOut := value\<rparr>
      else m)"

definition metric_line :: "string \<Rightarrow> Metrics \<Rightarrow> Metrics" where
  "metric_line line m =
     (case CutChar CHR '':'' line of None \<Rightarrow> m
      | Some (key, value) \<Rightarrow> metric_field (TrimSpace key) (TrimSpace value) m)"

definition parseMetrics :: "string \<Rightarrow> Metrics" where
  "parseMetrics text = fold metric_line (SplitChar CHR 0x0A text) zeroMetrics"

definition validateBenchmarkLoad :: "Metrics \<Rightarrow> string option" where
  "validateBenchmarkLoad m =
     (if mt_OrdersSent m \<le> 0 then
        (if mt_ConnectErrors m > 0
         then Some (''bot fleet produced no orders; connect_errors='' @ Itoa (mt_ConnectErrors m))
         else Some ''bot fleet produced no orders'')
      else None)"

section \<open>Splitting the engine's outputs\<close>

text \<open>
  \<^verbatim>\<open>bufio.Scanner\<close> with its default buffer: lines without their end, and failure at the first
  line that does not fit into 64 KiB.
\<close>

definition MaxScanTokenSize :: nat where "MaxScanTokenSize = 65536"

definition dropCR :: "string \<Rightarrow> string" where
  "dropCR l = (if l \<noteq> [] \<and> last l = CHR 0x0D then butlast l else l)"

fun scan_pieces :: "string list \<Rightarrow> string list \<times> bool" where
  "scan_pieces [] = ([], True)"
| "scan_pieces [l] =
     (if l = [] then ([], True) else if MaxScanTokenSize \<le> length l then ([], False) else ([dropCR l], True))"
| "scan_pieces (l # k # ls) =
     (if MaxScanTokenSize \<le> length l then ([], False)
      else (dropCR l # fst (scan_pieces (k # ls)), snd (scan_pieces (k # ls))))"

definition Scan :: "string \<Rightarrow> string list \<times> bool" where
  "Scan data = scan_pieces (SplitChar CHR 0x0A data)"

definition outputKind :: "Machine \<Rightarrow> string \<Rightarrow> string" where
  "outputKind M line =
     (case mc_output M line of
        None \<Rightarrow> []
      | Some (event_type, typ, status) \<Rightarrow>
          if Contains event_type ''ack'' \<or> typ = ''ack'' then (if status = ''canceled'' then ''cancel'' else ''ack'')
          else if Contains event_type ''fill'' \<or> typ = ''fill'' then ''fill''
          else if Contains event_type ''cancel'' \<or> typ = ''cancel_order'' then ''cancel''
          else [])"

definition split_line :: "Machine \<Rightarrow> string \<Rightarrow> string \<times> string \<times> string \<Rightarrow> string \<times> string \<times> string" where
  "split_line M line = (\<lambda>(acks, fills, cancels).
     let kind = outputKind M line in
     if kind = ''ack'' then (acks @ line @ [CHR 0x0A], fills, cancels)
     else if kind = ''fill'' then (acks, fills @ line @ [CHR 0x0A], cancels)
     else if kind = ''cancel'' then (acks, fills, cancels @ line @ [CHR 0x0A])
     else (acks, fills, cancels))"

text \<open>
  A \<^verbatim>\<open>bufio.Writer\<close> of 64 KiB hands full buffers to the file when more comes in; what it still
  holds is lost unless it is flushed.
\<close>

definition handed_over :: "string \<Rightarrow> string" where
  "handed_over s = take (65536 * ((length s - 1) div 65536)) s"

definition splitOutputs :: "Machine \<Rightarrow> string \<Rightarrow> string \<Rightarrow> files \<Rightarrow> files \<times> string option" where
  "splitOutputs M outputsPath artifactDir fs =
     (let acks = path_Join [artifactDir, ''acks.jsonl'']; fills = path_Join [artifactDir, ''fills.jsonl''];
          cancels = path_Join [artifactDir, ''cancels.jsonl''] in
      case fs outputsPath of
        None \<Rightarrow> (fs, Some (''open '' @ outputsPath))
      | Some _ \<Rightarrow>
          (case WriteFile M acks [] fs of (fs, Some e) \<Rightarrow> (fs, Some e) | (fs, None) \<Rightarrow>
          (case WriteFile M fills [] fs of (fs, Some e) \<Rightarrow> (fs, Some e) | (fs, None) \<Rightarrow>
          (case WriteFile M cancels [] fs of (fs, Some e) \<Rightarrow> (fs, Some e) | (fs, None) \<Rightarrow>
             let data = (case fs outputsPath of Some d \<Rightarrow> d | None \<Rightarrow> []);
                 (lines, ok) = Scan data; (a, f, c) = fold (split_line M) lines ([], [], []) in
             if ok then (fs(acks \<mapsto> a, fills \<mapsto> f, cancels \<mapsto> c), None)
             else (fs(acks \<mapsto> handed_over a, fills \<mapsto> handed_over f, cancels \<mapsto> handed_over c),
                   Some ''bufio.Scanner: token too long'')))))"

definition copyFile :: "Machine \<Rightarrow> string \<Rightarrow> string \<Rightarrow> files \<Rightarrow> files \<times> string option" where
  "copyFile M src dst fs =
     (case fs src of None \<Rightarrow> (fs, Some (''open '' @ src)) | Some data \<Rightarrow> WriteFile M dst (if src = dst then [] else data) fs)"

definition writeSplitArtifacts :: "Machine \<Rightarrow> string \<Rightarrow> string \<Rightarrow> string \<Rightarrow> files \<Rightarrow> files \<times> string option" where
  "writeSplitArtifacts M eventsPath outputsPath artifactDir fs =
     (case copyFile M eventsPath (path_Join [artifactDir, ''orders.jsonl'']) fs of
        (fs, Some e) \<Rightarrow> (fs, Some e)
      | (fs, None) \<Rightarrow> splitOutputs M outputsPath artifactDir fs)"

section \<open>The bot fleet\<close>

definition bot_conns :: "int \<Rightarrow> int" where
  "bot_conns bots = (let c = (if bots > 8 then 8 else bots) in if c < 1 then 1 else c)"

text \<open>Go's division truncates towards zero; the quotient of a negative count is below 1 either way.\<close>

definition bot_symbols :: "int \<Rightarrow> int" where
  "bot_symbols bots = (let s = (if bots < 0 then - (- bots div 4) else bots div 4) in if s < 1 then 1 else s)"

definition fleet_args :: "BenchmarkRun \<Rightarrow> string \<Rightarrow> string list" where
  "fleet_args run endpoint =
     [''--target'', endpoint,
      ''--bots'', Itoa (bc_BotCount (br_Config run)),
      ''--orders-per-sec'', Itoa (bc_RatePerBot (br_Config run)),
      ''--duration-sec'', Itoa (bc_DurationSec (br_Config run)),
      ''--seed'', Itoa (br_BenchmarkSeed run),
      ''--run-id'', br_RunID run,
      ''--ws-connections'', Itoa (bot_conns (bc_BotCount (br_Config run))),
      ''--symbols'', Itoa (bot_symbols (bc_BotCount (br_Config run))),
      ''--price-levels'', ''5'', ''--qty-max'', ''10'',
      ''--market-per-mille'', ''100'', ''--cancel-per-mille'', ''100'',
      ''--events-out'', path_Join [br_ArtifactDir run, ''events.jsonl''],
      ''--outputs-out'', path_Join [br_ArtifactDir run, ''contestant_outputs.jsonl''],
      ''--telemetry-out'', path_Join [br_ArtifactDir run, ''telemetry.jsonl'']]"

definition fleet_metrics :: "BenchmarkRun \<Rightarrow> CommandOutput \<Rightarrow> Metrics" where
  "fleet_metrics run output =
     (let m = (parseMetrics (co_Stdout output))\<lparr>mt_RawOutput := co_Stdout output\<rparr>
      in if mt_RunID m = [] then m\<lparr>mt_RunID := br_RunID run\<rparr> else m)"

definition store_fleet :: "Machine \<Rightarrow> string \<Rightarrow> Metrics \<Rightarrow> files \<Rightarrow> files \<times> string option" where
  "store_fleet M dir m fs =
     (case mc_metrics M m of
        None \<Rightarrow> (fs, Some ''json: unsupported value'')
      | Some data \<Rightarrow>
          (case WriteFile M (path_Join [dir, ''metrics.json'']) (data @ [CHR 0x0A]) fs of
             (fs, Some e) \<Rightarrow> (fs, Some e)
           | (fs, None) \<Rightarrow> writeSplitArtifacts M (path_Join [dir, ''events.jsonl''])
               (path_Join [dir, ''contestant_outputs.jsonl'']) dir fs))"

definition fleet_command :: "Machine \<Rightarrow> string \<Rightarrow> BenchmarkRun \<Rightarrow> string \<Rightarrow> string \<times> string list" where
  "fleet_command M repoRoot run endpoint =
     tool_command M ''BOT_FLEET_BIN'' repoRoot ''bot-fleet''
       [''run'', ''-p'', ''bot-fleet'', ''--bin'', ''bot-fleet'', ''--''] (fleet_args run endpoint)"

text \<open>The answer is the metrics, if there are any, and the error, if there is one.\<close>

definition BotFleet_Run :: "Machine \<Rightarrow> string \<Rightarrow> BenchmarkRun \<Rightarrow> string \<Rightarrow> files \<Rightarrow>
    files \<times> Metrics option \<times> string option" where
  "BotFleet_Run M repoRoot run endpoint fs =
     (let (command, args) = fleet_command M repoRoot run endpoint;
          (fs, output) = runLoggedCommand M run repoRoot command args fs
      in case co_Err output of
           Some e \<Rightarrow> (fs, None, Some (''bot fleet failed: '' @ e))
         | None \<Rightarrow>
             let m = fleet_metrics run output in
             (case store_fleet M (br_ArtifactDir run) m fs of
                (fs, Some e) \<Rightarrow> (fs, None, Some e)
              | (fs, None) \<Rightarrow> (fs, Some m, validateBenchmarkLoad m)))"

section \<open>The validator\<close>

text \<open>
  Conversion of a \<^verbatim>\<open>float64\<close> to \<^verbatim>\<open>int\<close> truncates; outside the range of \<^verbatim>\<open>int\<close> it is the least
  \<^verbatim>\<open>int\<close> on amd64.
\<close>

definition f_trunc :: "f64 \<Rightarrow> int" where
  "f_trunc x = (case x of
     Fin r \<Rightarrow> let n = (if r < 0 then - \<lfloor>- r\<rfloor> else \<lfloor>r\<rfloor>) in if in_i64 n then n else - (2 ^ 63)
   | _ \<Rightarrow> - (2 ^ 63))"

definition parseValidation :: "Machine \<Rightarrow> string \<Rightarrow> string + ValidationResult" where
  "parseValidation M text =
     (case mc_validation M text of
        None \<Rightarrow> Inl ''invalid json''
      | Some raw \<Rightarrow> Inr
          \<lparr>vr_RunID = (case map_of raw ''run_id'' of Some (JString s) \<Rightarrow> s | _ \<Rightarrow> []),
           vr_Valid = (case map_of raw ''valid'' of Some (JBool b) \<Rightarrow> b | _ \<Rightarrow> False),
           vr_FillsChecked = (case map_of raw ''fills_checked'' of Some (JNumber x) \<Rightarrow> f_trunc x | _ \<Rightarrow> 0),
           vr_Reason = (case map_of raw ''reason'' of Some (JString s) \<Rightarrow> s | _ \<Rightarrow> []),
           vr_FirstBadSeq = (case map_of raw ''first_bad_seq'' of Some (JNumber x) \<Rightarrow> f_trunc x | _ \<Rightarrow> 0)\<rparr>)"

definition Validator_Run :: "Machine \<Rightarrow> string \<Rightarrow> BenchmarkRun \<Rightarrow> files \<Rightarrow> files \<times> (string + ValidationResult)" where
  "Validator_Run M repoRoot run fs =
     (let dir = br_ArtifactDir run;
          (command, args) = tool_command M ''VALIDATOR_BIN'' repoRoot ''validator''
            [''run'', ''-p'', ''validator'', ''--'']
            [''--events'', path_Join [dir, ''events.jsonl''],
             ''--contestant-outputs'', path_Join [dir, ''contestant_outputs.jsonl'']];
          (fs, output) = runLoggedCommand M run repoRoot command args fs;
          stdout = TrimSpace (co_Stdout output)
      in if stdout = [] then
           (fs, Inl (case co_Err output of Some e \<Rightarrow> ''validator failed: '' @ e | None \<Rightarrow> ''validator produced no JSON''))
         else case WriteFile M (path_Join [dir, ''validation.json'']) (stdout @ [CHR 0x0A]) fs of
           (fs, Some e) \<Rightarrow> (fs, Inl e)
         | (fs, None) \<Rightarrow>
             (case parseValidation M stdout of
                Inl e \<Rightarrow> (fs, Inl (case co_Err output of Some x \<Rightarrow> ''validator failed: '' @ x @ '': '' @ e | None \<Rightarrow> e))
              | Inr v \<Rightarrow> (fs, Inr (if vr_RunID v = [] then v\<lparr>vr_RunID := br_RunID run\<rparr> else v))))"

section \<open>What a run of the fleet leaves behind\<close>

definition unlines :: "string list \<Rightarrow> string" where
  "unlines ls = concat (map (\<lambda>l. l @ [CHR 0x0A]) ls)"

lemma split_lines:
  "fold (split_line M) lines (a, f, c) =
     (a @ unlines (filter (\<lambda>l. outputKind M l = ''ack'') lines),
      f @ unlines (filter (\<lambda>l. outputKind M l = ''fill'') lines),
      c @ unlines (filter (\<lambda>l. outputKind M l = ''cancel'') lines))"
  by (induction lines arbitrary: a f c) (simp_all add: unlines_def split_line_def Let_def)

lemma WriteFile_ok: "WriteFile M p d fs = (fs', None) \<longleftrightarrow> mc_writable M p \<and> fs' = fs(p \<mapsto> d)"
  by (auto simp: WriteFile_def)

lemma splitOutputs_ok:
  assumes "splitOutputs M out dir fs = (fs', None)"
    and "out \<notin> {path_Join [dir, ''acks.jsonl''], path_Join [dir, ''fills.jsonl''], path_Join [dir, ''cancels.jsonl'']}"
  shows "\<exists>data lines. fs out = Some data \<and> Scan data = (lines, True) \<and>
    fs' = fs(path_Join [dir, ''acks.jsonl''] \<mapsto> unlines (filter (\<lambda>l. outputKind M l = ''ack'') lines),
             path_Join [dir, ''fills.jsonl''] \<mapsto> unlines (filter (\<lambda>l. outputKind M l = ''fill'') lines),
             path_Join [dir, ''cancels.jsonl''] \<mapsto> unlines (filter (\<lambda>l. outputKind M l = ''cancel'') lines))"
proof -
  obtain data where d: "fs out = Some data"
    using assms(1) by (auto simp: splitOutputs_def Let_def split: option.splits)
  obtain lines ok where s: "Scan data = (lines, ok)" by fastforce
  show ?thesis
    using assms d s
    by (auto simp: splitOutputs_def Let_def WriteFile_def split_lines split: if_splits)
qed

lemma path_Join_child:
  assumes "dir \<noteq> []" "path_elem a"
  shows "path_stack (path_Join [dir, a]) = path_stack dir @ [a]"
  using assms by (simp add: path_Join_two path_elem_def path_stack_child)

lemma path_Join_inj:
  assumes "dir \<noteq> []" "path_elem a" "path_elem b"
  shows "path_Join [dir, a] = path_Join [dir, b] \<longleftrightarrow> a = b"
proof
  assume "path_Join [dir, a] = path_Join [dir, b]"
  then have "path_stack (path_Join [dir, a]) = path_stack (path_Join [dir, b])" by (rule arg_cong)
  then have "path_stack dir @ [a] = path_stack dir @ [b]"
    unfolding path_Join_child [OF assms(1,2)] path_Join_child [OF assms(1,3)] .
  then show "a = b" by simp
qed (rule arg_cong)

definition artifact_names :: "string set" where
  "artifact_names = {''metrics.json'', ''events.jsonl'', ''contestant_outputs.jsonl'', ''orders.jsonl'',
     ''acks.jsonl'', ''fills.jsonl'', ''cancels.jsonl'', ''validation.json'', ''run_spec.json'', ''config.json'',
     ''resource.json'', ''run.log'', ''score.json''}"

lemma artifact_path_inj:
  assumes "dir \<noteq> []" "a \<in> artifact_names" "b \<in> artifact_names"
  shows "path_Join [dir, a] = path_Join [dir, b] \<longleftrightarrow> a = b"
  using assms(2,3) by (intro path_Join_inj assms(1)) (auto simp: artifact_names_def path_elem_def)

lemma BotFleet_Run_ok:
  assumes "BotFleet_Run M repo run endpoint fs = (fs', Some m, None)"
  shows "\<exists>fs1 out.
    runLoggedCommand M run repo (fst (fleet_command M repo run endpoint))
      (snd (fleet_command M repo run endpoint)) fs = (fs1, out) \<and> co_Err out = None \<and>
    m = fleet_metrics run out \<and> validateBenchmarkLoad m = None \<and>
    store_fleet M (br_ArtifactDir run) m fs1 = (fs', None)"
proof -
  obtain command args where c: "fleet_command M repo run endpoint = (command, args)" by fastforce
  obtain fs1 out where r: "runLoggedCommand M run repo command args fs = (fs1, out)" by fastforce
  obtain fs2 e where s: "store_fleet M (br_ArtifactDir run) (fleet_metrics run out) fs1 = (fs2, e)" by fastforce
  have "co_Err out = None"
    using assms c r by (cases "co_Err out") (auto simp: BotFleet_Run_def)
  moreover from this have "e = None"
    using assms c r s by (cases e) (auto simp: BotFleet_Run_def)
  ultimately show ?thesis using assms c r s by (auto simp: BotFleet_Run_def Let_def)
qed

lemma store_fleet_ok:
  assumes "store_fleet M dir m fs = (fs', None)" "dir \<noteq> []"
  shows "\<exists>data events outputs lines.
    mc_metrics M m = Some data \<and> fs (path_Join [dir, ''events.jsonl'']) = Some events \<and>
    fs (path_Join [dir, ''contestant_outputs.jsonl'']) = Some outputs \<and> Scan outputs = (lines, True) \<and>
    fs' = fs(path_Join [dir, ''metrics.json''] \<mapsto> data @ [CHR 0x0A],
             path_Join [dir, ''orders.jsonl''] \<mapsto> events,
             path_Join [dir, ''acks.jsonl''] \<mapsto> unlines (filter (\<lambda>l. outputKind M l = ''ack'') lines),
             path_Join [dir, ''fills.jsonl''] \<mapsto> unlines (filter (\<lambda>l. outputKind M l = ''fill'') lines),
             path_Join [dir, ''cancels.jsonl''] \<mapsto> unlines (filter (\<lambda>l. outputKind M l = ''cancel'') lines))"
proof -
  have inj: "path_Join [dir, a] = path_Join [dir, b] \<longleftrightarrow> a = b" if "a \<in> artifact_names" "b \<in> artifact_names" for a b
    using assms(2) that by (rule artifact_path_inj)
  obtain data where d: "mc_metrics M m = Some data"
    using assms(1) by (auto simp: store_fleet_def split: option.splits)
  let ?f = "fs(path_Join [dir, ''metrics.json''] \<mapsto> data @ [CHR 0x0A])"
  have w: "writeSplitArtifacts M (path_Join [dir, ''events.jsonl'']) (path_Join [dir, ''contestant_outputs.jsonl'']) dir ?f
      = (fs', None)"
    using assms(1) d by (auto simp: store_fleet_def WriteFile_def split: if_splits)
  obtain f2 where f2: "copyFile M (path_Join [dir, ''events.jsonl'']) (path_Join [dir, ''orders.jsonl'']) ?f = (f2, None)"
    "splitOutputs M (path_Join [dir, ''contestant_outputs.jsonl'']) dir f2 = (fs', None)"
    using w by (auto simp: writeSplitArtifacts_def split: prod.splits option.splits)
  have ev: "?f (path_Join [dir, ''events.jsonl'']) = fs (path_Join [dir, ''events.jsonl''])"
    using inj [of "''events.jsonl''" "''metrics.json''"] by (simp add: artifact_names_def)
  obtain events where e: "fs (path_Join [dir, ''events.jsonl'']) = Some events"
      "f2 = ?f(path_Join [dir, ''orders.jsonl''] \<mapsto> events)"
    using f2(1) ev inj [of "''events.jsonl''" "''orders.jsonl''"]
    by (auto simp: copyFile_def WriteFile_ok artifact_names_def split: option.splits)
  have out: "f2 (path_Join [dir, ''contestant_outputs.jsonl'']) = fs (path_Join [dir, ''contestant_outputs.jsonl''])"
    using inj [of "''contestant_outputs.jsonl''" "''metrics.json''"]
      inj [of "''contestant_outputs.jsonl''" "''orders.jsonl''"] by (simp add: e artifact_names_def)
  have other: "path_Join [dir, ''contestant_outputs.jsonl''] \<notin>
      {path_Join [dir, ''acks.jsonl''], path_Join [dir, ''fills.jsonl''], path_Join [dir, ''cancels.jsonl'']}"
    by (simp add: inj artifact_names_def)
  obtain outputs lines where o: "f2 (path_Join [dir, ''contestant_outputs.jsonl'']) = Some outputs"
    "Scan outputs = (lines, True)"
    "fs' = f2(path_Join [dir, ''acks.jsonl''] \<mapsto> unlines (filter (\<lambda>l. outputKind M l = ''ack'') lines),
              path_Join [dir, ''fills.jsonl''] \<mapsto> unlines (filter (\<lambda>l. outputKind M l = ''fill'') lines),
              path_Join [dir, ''cancels.jsonl''] \<mapsto> unlines (filter (\<lambda>l. outputKind M l = ''cancel'') lines))"
    using splitOutputs_ok [OF f2(2) other] by blast
  show ?thesis
    using d e(1) o(1) [unfolded out] o(2) o(3) [unfolded e(2)] by blast
qed

end
