(* ===== verification/Clients.thy ===== *)
theory Clients
  imports Strconv ScoreEngine Pipeline
begin

text \<open>
  The orchestrator's HTTP clients and its own HTTP surface: the sandbox-runner client
  (\<^verbatim>\<open>executor/sandbox_engine.go\<close>), the leaderboard publisher (\<^verbatim>\<open>executor/leaderboard.go\<close>) and the
  handlers of \<^verbatim>\<open>internal/api\<close>.

  What the other service answers is an \<open>answer\<close>: no response, or a status with the error message
  of an error body and the decoded body of a successful one.
\<close>

section \<open>Requests and answers\<close>

datatype 'a answer = NoAnswer string | Answer nat string "string option" "'a option"

fun postJSON :: "'a answer \<Rightarrow> string + 'a" where
  "postJSON (NoAnswer e) = Inl e"
| "postJSON (Answer code status message body) =
     (if code < 200 \<or> 300 \<le> code then
        (case message of
           Some msg \<Rightarrow> if msg = [] then Inl (''sandbox-runner returned '' @ status)
                       else Inl (''sandbox-runner '' @ status @ '': '' @ msg)
         | None \<Rightarrow> Inl (''sandbox-runner returned '' @ status))
      else (case body of None \<Rightarrow> Inl ''invalid json'' | Some b \<Rightarrow> Inr b))"

text \<open>A post whose answer is not decoded.\<close>

fun postNil :: "unit answer \<Rightarrow> string option" where
  "postNil (NoAnswer e) = Some e"
| "postNil (Answer code status message body) =
     (if code < 200 \<or> 300 \<le> code then
        (case postJSON (Answer code status message body) of Inl e \<Rightarrow> Some e | Inr _ \<Rightarrow> None)
      else None)"

definition firstEnv :: "(string \<Rightarrow> string) \<Rightarrow> string list \<Rightarrow> string" where
  "firstEnv getenv names = firstNonEmpty (map getenv names)"

section \<open>The sandbox-runner client\<close>

record sandboxBuildRequest =
  rq_SubmissionID :: string
  rq_ArtifactURI :: string
  rq_Language :: string

record sandboxImageRef =
  im_ImageRef :: string
  im_SubmissionID :: string
  im_ArtifactURI :: string
  im_Language :: string

record sandboxStartRequest =
  st_RunID :: string
  st_ImageRef :: string
  st_EngineMode :: string
  st_EventsPath :: string
  st_Spec :: SandboxSpec

record sandboxHandle =
  hd_SandboxID :: string
  hd_RunID :: string
  hd_ImageRef :: string
  hd_Endpoint :: string
  hd_HealthURL :: string

record EngineHandle =
  eh_Endpoint :: string
  eh_cleanup :: "string option"

text \<open>\<open>eh_cleanup\<close> is the path the handle's cleanup posts to, if it has anything to clean up.\<close>

type_synonym imageRefs = "string \<Rightarrow> string"

definition SandboxEngine_Build :: "(string \<Rightarrow> sandboxBuildRequest \<Rightarrow> sandboxImageRef answer) \<Rightarrow>
    (string \<Rightarrow> sandboxImageRef \<Rightarrow> bool) \<Rightarrow> BenchmarkRun \<Rightarrow> Submission \<Rightarrow> imageRefs \<Rightarrow>
    imageRefs \<times> string option" where
  "SandboxEngine_Build post writeJSON run submission refs =
     (case postJSON (post ''/sandboxes/build''
         \<lparr>rq_SubmissionID = sb_SubmissionID submission, rq_ArtifactURI = sa_URI (sb_Artifact submission),
          rq_Language = sb_Language submission\<rparr>) of
        Inl e \<Rightarrow> (refs, Some e)
      | Inr img \<Rightarrow>
          if im_ImageRef img = [] then (refs, Some ''sandbox-runner returned empty image_ref'')
          else (refs(br_RunID run := im_ImageRef img),
                if writeJSON (path_Join [br_ArtifactDir run, ''build.json'']) img then None
                else Some ''write build.json''))"

definition SandboxEngine_Start :: "(string \<Rightarrow> sandboxStartRequest \<Rightarrow> sandboxHandle answer) \<Rightarrow>
    (string \<Rightarrow> sandboxHandle \<Rightarrow> bool) \<Rightarrow> BenchmarkRun \<Rightarrow> imageRefs \<Rightarrow> string + EngineHandle" where
  "SandboxEngine_Start post writeJSON run refs =
     (let imageRef = refs (br_RunID run) in
      if imageRef = [] then Inl (''missing image ref for run '' @ br_RunID run)
      else case postJSON (post ''/sandboxes/start''
          \<lparr>st_RunID = br_RunID run, st_ImageRef = imageRef, st_EngineMode = ''normal'',
           st_EventsPath = path_Join [br_ArtifactDir run, ''engine_outputs.jsonl''],
           st_Spec = br_Sandbox run\<rparr>) of
        Inl e \<Rightarrow> Inl e
      | Inr handle \<Rightarrow>
          if hd_Endpoint handle = [] then Inl ''sandbox-runner returned empty endpoint''
          else if \<not> writeJSON (path_Join [br_ArtifactDir run, ''sandbox.json'']) handle then Inl ''write sandbox.json''
          else Inr \<lparr>eh_Endpoint = hd_Endpoint handle,
                    eh_cleanup = (if hd_SandboxID handle = [] then None
                                  else Some (''/sandboxes/'' @ hd_SandboxID handle @ ''/stop''))\<rparr>)"

definition EngineHandle_Stop :: "(string \<Rightarrow> unit answer) \<Rightarrow> EngineHandle \<Rightarrow> string option" where
  "EngineHandle_Stop post h = (case eh_cleanup h of None \<Rightarrow> None | Some path \<Rightarrow> postNil (post path))"

text \<open>
  The engine of a run is only started from the image built for that run; the handle stops exactly
  the sandbox the runner started.
\<close>

lemma start_after_build:
  assumes "SandboxEngine_Build post w run submission refs = (refs', None)"
    and "SandboxEngine_Start post' w' run refs' = Inr h"
  shows "\<exists>img handle. postJSON (post ''/sandboxes/build''
      \<lparr>rq_SubmissionID = sb_SubmissionID submission, rq_ArtifactURI = sa_URI (sb_Artifact submission),
       rq_Language = sb_Language submission\<rparr>) = Inr img \<and>
    postJSON (post' ''/sandboxes/start''
      \<lparr>st_RunID = br_RunID run, st_ImageRef = im_ImageRef img, st_EngineMode = ''normal'',
       st_EventsPath = path_Join [br_ArtifactDir run, ''engine_outputs.jsonl''], st_Spec = br_Sandbox run\<rparr>) = Inr handle \<and>
    eh_Endpoint h = hd_Endpoint handle \<and> eh_Endpoint h \<noteq> []"
  using assms
  by (auto simp: SandboxEngine_Build_def SandboxEngine_Start_def Let_def split: sum.splits if_splits)

text \<open>
  A sandbox that was started is abandoned when the client cannot write \<^verbatim>\<open>sandbox.json\<close>: the
  caller gets an error and no handle to stop it with.
\<close>

lemma start_abandons_sandbox:
  assumes "refs (br_RunID run) \<noteq> []" and "\<And>h. w (path_Join [br_ArtifactDir run, ''sandbox.json'']) h = False"
  shows "\<exists>e. SandboxEngine_Start post w run refs = Inl e"
  using assms by (auto simp: SandboxEngine_Start_def Let_def split: sum.split)

section \<open>The leaderboard publisher\<close>

record leaderboardEntry =
  le_RunID :: string
  le_TeamID :: string
  le_Score :: f64
  le_Valid :: bool
  le_Status :: string
  le_FailureReason :: string
  le_OrdersSent :: int
  le_AcksReceived :: int
  le_FillsReceived :: int
  le_Timeouts :: int
  le_ConnectErrors :: int
  le_FillsChecked :: int
  le_P50MS :: f64
  le_P90MS :: f64
  le_P99MS :: f64
  le_TPS :: f64
  le_PeakTPS :: f64
  le_LatencyScore :: f64
  le_ThroughputScore :: f64
  le_StabilityScore :: f64
  le_ResourceScore :: f64
  le_CorrectnessGate :: string
  le_ArtifactDir :: string
  le_UpdatedAt :: int

definition publish_entry :: "int \<Rightarrow> BenchmarkRun \<Rightarrow> Metrics option \<Rightarrow> ValidationResult option \<Rightarrow>
    ScoreResult \<Rightarrow> leaderboardEntry" where
  "publish_entry now run metrics validation score =
     (let e = \<lparr>le_RunID = br_RunID run, le_TeamID = br_TeamID run, le_Score = sr_Score score,
               le_Valid = sr_Valid score, le_Status = status_string (br_Status run), le_FailureReason = [],
               le_OrdersSent = 0, le_AcksReceived = 0, le_FillsReceived = 0, le_Timeouts = 0,
               le_ConnectErrors = 0, le_FillsChecked = 0, le_P50MS = Fin 0, le_P90MS = Fin 0,
               le_P99MS = Fin 0, le_TPS = Fin 0, le_PeakTPS = Fin 0,
               le_LatencyScore = sr_LatencyScore score, le_ThroughputScore = sr_ThroughputScore score,
               le_StabilityScore = sr_StabilityScore score, le_ResourceScore = sr_ResourceScore score,
               le_CorrectnessGate = sr_CorrectnessGate score, le_ArtifactDir = br_ArtifactDir run,
               le_UpdatedAt = now\<rparr>;
          e = (case validation of None \<Rightarrow> e
               | Some v \<Rightarrow> e\<lparr>le_FailureReason := vr_Reason v, le_FillsChecked := vr_FillsChecked v\<rparr>);
          e = (if br_FailureReason run \<noteq> [] then e\<lparr>le_FailureReason := br_FailureReason run\<rparr> else e)
      in case metrics of None \<Rightarrow> e
         | Some m \<Rightarrow> e\<lparr>le_OrdersSent := mt_OrdersSent m, le_AcksReceived := mt_AcksReceived m,
             le_FillsReceived := mt_FillsReceived m, le_Timeouts := mt_Timeouts m,
             le_ConnectErrors := mt_ConnectErrors m, le_P50MS := mt_P50MS m, le_P90MS := mt_P90MS m,
             le_P99MS := mt_P99MS m, le_TPS := mt_TPS m,
             le_PeakTPS := (if f_eq (mt_PeakTPS m) (Fin 0) then mt_TPS m else mt_PeakTPS m)\<rparr>)"

text \<open>Publishing is off without a base URL; otherwise anything but a 2xx answer is an error.\<close>

definition Publish :: "(string \<Rightarrow> leaderboardEntry \<Rightarrow> unit answer) \<Rightarrow> string \<Rightarrow> int \<Rightarrow> BenchmarkRun \<Rightarrow>
    Metrics option \<Rightarrow> ValidationResult option \<Rightarrow> ScoreResult \<Rightarrow> string option" where
  "Publish post baseURL now run metrics validation score =
     (if baseURL = [] then None
      else case post (baseURL @ ''/leaderboard/runs'') (publish_entry now run metrics validation score) of
        NoAnswer e \<Rightarrow> Some e
      | Answer code status _ _ \<Rightarrow>
          if code < 200 \<or> 300 \<le> code then Some (''leaderboard returned '' @ status) else None)"

section \<open>The orchestrator's HTTP surface\<close>

datatype orch_body = OrchStatus | OrchRuns "BenchmarkRun list" | OrchRun BenchmarkRun
  | OrchResult DirectBenchmarkResult | OrchError string

definition writeJSON :: "nat \<Rightarrow> orch_body \<Rightarrow> orch_body response" where
  "writeJSON status body = \<lparr>rp_status = status, rp_body = body\<rparr>"

definition writeError :: "nat \<Rightarrow> string \<Rightarrow> orch_body response" where
  "writeError status message = writeJSON status (OrchError message)"

definition handleStoreError :: "store_error \<Rightarrow> orch_body response" where
  "handleStoreError err =
     (if err = ErrNotFound then writeError StatusNotFound (store_Error err)
      else writeError StatusBadRequest (store_Error err))"

definition handle_ListRuns :: "store_error + BenchmarkRun list \<Rightarrow> orch_body response" where
  "handle_ListRuns r = (case r of
     Inl e \<Rightarrow> writeError StatusInternalServerError (store_Error e)
   | Inr runs \<Rightarrow> writeJSON StatusOK (OrchRuns runs))"

text \<open>\<^verbatim>\<open>GetRun\<close> and \<^verbatim>\<open>CancelRun\<close> answer 200, \<^verbatim>\<open>StartRun\<close> and \<^verbatim>\<open>StartNextQueued\<close> answer 202.\<close>

definition handle_GetRun :: "store_error + BenchmarkRun \<Rightarrow> orch_body response" where
  "handle_GetRun r = (case r of Inl e \<Rightarrow> handleStoreError e | Inr run \<Rightarrow> writeJSON StatusOK (OrchRun run))"

definition handle_StartRun :: "store_error + BenchmarkRun \<Rightarrow> orch_body response" where
  "handle_StartRun r = (case r of Inl e \<Rightarrow> handleStoreError e | Inr run \<Rightarrow> writeJSON StatusAccepted (OrchRun run))"

definition handle_CancelRun :: "store_error + BenchmarkRun \<Rightarrow> orch_body response" where
  "handle_CancelRun r = (case r of Inl e \<Rightarrow> handleStoreError e | Inr run \<Rightarrow> writeJSON StatusOK (OrchRun run))"

definition handle_BenchmarkEndpoint :: "(string \<Rightarrow> DirectBenchmarkRequest option) \<Rightarrow> string \<Rightarrow>
    (DirectBenchmarkRequest \<Rightarrow> string + DirectBenchmarkResult) \<Rightarrow> orch_body response" where
  "handle_BenchmarkEndpoint decode body benchmark =
     (case decode body of
        None \<Rightarrow> writeError StatusBadRequest ''invalid json''
      | Some req \<Rightarrow> (case benchmark req of
            Inl e \<Rightarrow> writeError StatusBadRequest e
          | Inr result \<Rightarrow> writeJSON StatusOK (OrchResult result)))"

record http_request =
  hr_Method :: string
  hr_Path :: string
  hr_Authorization :: string

text \<open>Only the health probe is served without the token.\<close>

definition RequireServiceAuth :: "(http_request \<Rightarrow> 'a) \<Rightarrow> 'a \<Rightarrow> string \<Rightarrow> http_request \<Rightarrow> 'a" where
  "RequireServiceAuth next unauthorized token r =
     (if TrimSpace token = [] then next r
      else if hr_Method r = ''GET'' \<and> hr_Path r = ''/health'' then next r
      else if bearer_ok token (hr_Authorization r) then next r
      else unauthorized)"

end
