(* ===== verification/Direct.thy ===== *)
theory Direct
  imports Executor Clients
begin

text \<open>
  The direct benchmark, \<^verbatim>\<open>Manager.BenchmarkEndpoint\<close>: a caller names a WebSocket endpoint and the
  orchestrator points the bot fleet at it.  The theory holds the guard that keeps the fleet away
  from internal addresses and the whole request, composed with the fleet, the validator, the
  scorer and the publisher.

  Name resolution and \<^verbatim>\<open>url.Parse\<close> answer through \<open>Net\<close>.  A \<^verbatim>\<open>net.IP\<close> is its bytes: 4, 16, or
  none for the nil address.
\<close>

section \<open>Addresses\<close>

type_synonym IP = "8 word list"

definition To4 :: "IP \<Rightarrow> IP option" where
  "To4 ip =
     (if length ip = 4 then Some ip
      else if length ip = 16 \<and> take 10 ip = replicate 10 0 \<and> ip ! 10 = 0xFF \<and> ip ! 11 = 0xFF
      then Some (drop 12 ip) else None)"

definition IPv6loopback :: IP where "IPv6loopback = replicate 15 0 @ [1]"
definition IPv6zero :: IP where "IPv6zero = replicate 16 0"

definition IsLoopback :: "IP \<Rightarrow> bool" where
  "IsLoopback ip = (case To4 ip of Some a \<Rightarrow> a ! 0 = 127 | None \<Rightarrow> ip = IPv6loopback)"

definition IsPrivate :: "IP \<Rightarrow> bool" where
  "IsPrivate ip = (case To4 ip of
     Some a \<Rightarrow> a ! 0 = 10 \<or> a ! 0 = 172 \<and> and (a ! 1) 0xF0 = 16 \<or> a ! 0 = 192 \<and> a ! 1 = 168
   | None \<Rightarrow> length ip = 16 \<and> and (ip ! 0) 0xFE = 0xFC)"

definition IsMulticast :: "IP \<Rightarrow> bool" where
  "IsMulticast ip = (case To4 ip of
     Some a \<Rightarrow> and (a ! 0) 0xF0 = 0xE0
   | None \<Rightarrow> length ip = 16 \<and> ip ! 0 = 0xFF)"

definition IsLinkLocalMulticast :: "IP \<Rightarrow> bool" where
  "IsLinkLocalMulticast ip = (case To4 ip of
     Some a \<Rightarrow> a ! 0 = 224 \<and> a ! 1 = 0 \<and> a ! 2 = 0
   | None \<Rightarrow> length ip = 16 \<and> ip ! 0 = 0xFF \<and> and (ip ! 1) 0x0F = 0x02)"

definition IsLinkLocalUnicast :: "IP \<Rightarrow> bool" where
  "IsLinkLocalUnicast ip = (case To4 ip of
     Some a \<Rightarrow> a ! 0 = 169 \<and> a ! 1 = 254
   | None \<Rightarrow> length ip = 16 \<and> ip ! 0 = 0xFE \<and> and (ip ! 1) 0xC0 = 0x80)"

definition IsUnspecified :: "IP \<Rightarrow> bool" where
  "IsUnspecified ip = (case To4 ip of Some a \<Rightarrow> a = [0, 0, 0, 0] | None \<Rightarrow> ip = IPv6zero)"

definition isBlockedIP :: "IP \<Rightarrow> bool" where
  "isBlockedIP ip =
     (if ip = [] then True
      else if IsLoopback ip \<or> IsLinkLocalUnicast ip \<or> IsLinkLocalMulticast ip \<or> IsUnspecified ip \<or>
        IsMulticast ip \<or> IsPrivate ip then True
      else False)"

text \<open>
  The ranges the guard is documented to keep out, as prefixes: the leading bits of an address of
  four or sixteen bytes.
\<close>

definition bits_of :: "8 word \<Rightarrow> bool list" where
  "bits_of w = map (bit w) [7, 6, 5, 4, 3, 2, 1, 0]"

definition in_cidr :: "8 word list \<Rightarrow> IP \<times> nat \<Rightarrow> bool" where
  "in_cidr ip = (\<lambda>(net, len). length ip = length net \<and>
     take len (concat (map bits_of ip)) = take len (concat (map bits_of net)))"

definition blocked_v4 :: "(IP \<times> nat) list" where
  "blocked_v4 = [([127, 0, 0, 0], 8), ([169, 254, 0, 0], 16), ([0, 0, 0, 0], 32), ([224, 0, 0, 0], 4),
     ([10, 0, 0, 0], 8), ([172, 16, 0, 0], 12), ([192, 168, 0, 0], 16)]"

definition blocked_v6 :: "(IP \<times> nat) list" where
  "blocked_v6 = [(IPv6loopback, 128), (IPv6zero, 128), (0xFF # replicate 15 0, 8),
     (0xFE # 0x80 # replicate 14 0, 10), (0xFC # replicate 15 0, 7)]"

definition internal_address :: "IP \<Rightarrow> bool" where
  "internal_address ip \<longleftrightarrow> (case To4 ip of
     Some a \<Rightarrow> (\<exists>r \<in> set blocked_v4. in_cidr a r)
   | None \<Rightarrow> (\<exists>r \<in> set blocked_v6. in_cidr ip r))"

lemma bits_of_inj: "bits_of a = bits_of b \<longleftrightarrow> a = b"
proof
  assume b: "bits_of a = bits_of b"
  have "bit a n = bit b n" if "n < 8" for n
  proof -
    have "n \<in> {7, 6, 5, 4, 3, 2, 1, 0}" using that by auto
    then show ?thesis using b by (auto simp: bits_of_def)
  qed
  then show "a = b" by (intro bit_word_eqI) simp
qed simp

lemma in_cidr_simps [simp]:
  "in_cidr ip (net, len) \<longleftrightarrow> length ip = length net \<and>
     take len (concat (map bits_of ip)) = take len (concat (map bits_of net))"
  by (simp add: in_cidr_def)

lemma bits_of_length [simp]: "length (bits_of w) = 8"
  by (simp add: bits_of_def)

text \<open>Comparing a masked byte is comparing its leading bits.\<close>

lemma masked:
  "and a 0xF0 = 16 \<longleftrightarrow> take 4 (bits_of a) = take 4 (bits_of 16)"
  "and a 0xF0 = 0xE0 \<longleftrightarrow> take 4 (bits_of a) = take 4 (bits_of 0xE0)"
  "and a 0xFE = 0xFC \<longleftrightarrow> take 7 (bits_of a) = take 7 (bits_of 0xFC)"
  "and a 0xC0 = 0x80 \<longleftrightarrow> take 2 (bits_of a) = take 2 (bits_of 0x80)"
  for a :: "8 word"
  by (simp_all flip: bits_of_inj) (simp_all add: bits_of_def bit_and_iff)

lemma v4_ranges:
  "in_cidr [a, b, c, d] ([127, 0, 0, 0], 8) \<longleftrightarrow> a = 127"
  "in_cidr [a, b, c, d] ([169, 254, 0, 0], 16) \<longleftrightarrow> a = 169 \<and> b = 254"
  "in_cidr [a, b, c, d] ([0, 0, 0, 0], 32) \<longleftrightarrow> a = 0 \<and> b = 0 \<and> c = 0 \<and> d = 0"
  "in_cidr [a, b, c, d] ([224, 0, 0, 0], 4) \<longleftrightarrow> and a 0xF0 = 0xE0"
  "in_cidr [a, b, c, d] ([10, 0, 0, 0], 8) \<longleftrightarrow> a = 10"
  "in_cidr [a, b, c, d] ([172, 16, 0, 0], 12) \<longleftrightarrow> a = 172 \<and> and b 0xF0 = 16"
  "in_cidr [a, b, c, d] ([192, 168, 0, 0], 16) \<longleftrightarrow> a = 192 \<and> b = 168"
  by (simp_all add: masked bits_of_inj)

lemma bits_length: "length (concat (map bits_of ip)) = 8 * length ip"
  by (induction ip) simp_all

lemma concat_bits_inj:
  "length ip = length net \<Longrightarrow> concat (map bits_of ip) = concat (map bits_of net) \<longleftrightarrow> ip = net"
  by (induction ip net rule: list_induct2) (simp_all add: bits_of_inj)

lemma in_cidr_all:
  "length net = 16 \<Longrightarrow> in_cidr ip (net, 128) \<longleftrightarrow> ip = net"
  using concat_bits_inj [of ip net] by (auto simp: bits_length)

lemma v6_ranges:
  "in_cidr (a # b # ip) (0xFF # replicate 15 0, 8) \<longleftrightarrow> length ip = 14 \<and> a = 0xFF"
  "in_cidr (a # b # ip) (0xFE # 0x80 # replicate 14 0, 10) \<longleftrightarrow> length ip = 14 \<and> a = 0xFE \<and> and b 0xC0 = 0x80"
  "in_cidr (a # b # ip) (0xFC # replicate 15 0, 7) \<longleftrightarrow> length ip = 14 \<and> and a 0xFE = 0xFC"
  by (simp_all add: masked bits_of_inj)

lemma isBlockedIP_internal:
  assumes "ip \<noteq> []"
  shows "isBlockedIP ip = internal_address ip"
proof (cases "To4 ip")
  case (Some v)
  then have "length v = 4" by (auto simp: To4_def split: if_splits)
  then obtain a b c d where v: "v = [a, b, c, d]"
    by (auto simp: numeral_eq_Suc length_Suc_conv)
  show ?thesis using assms
    by (auto simp: isBlockedIP_def IsLoopback_def IsLinkLocalUnicast_def IsLinkLocalMulticast_def
        IsUnspecified_def IsMulticast_def IsPrivate_def internal_address_def blocked_v4_def Some v
        v4_ranges simp del: in_cidr_simps)
next
  case None
  have all: "in_cidr ip (IPv6loopback, 128) \<longleftrightarrow> ip = IPv6loopback" "in_cidr ip (IPv6zero, 128) \<longleftrightarrow> ip = IPv6zero"
    by (rule in_cidr_all, simp add: IPv6loopback_def) (rule in_cidr_all, simp add: IPv6zero_def)
  show ?thesis
  proof (cases "length ip = 16")
    case True
    then obtain a b rest where ip: "ip = a # b # rest" "length rest = 14"
      by (auto simp: numeral_eq_Suc length_Suc_conv)
    have "internal_address ip \<longleftrightarrow> ip = IPv6loopback \<or> ip = IPv6zero \<or> a = 0xFF \<or>
        a = 0xFE \<and> and b 0xC0 = 0x80 \<or> and a 0xFE = 0xFC"
      using all ip v6_ranges [of a b rest] None
      by (simp add: internal_address_def blocked_v6_def del: in_cidr_simps)
    moreover have "isBlockedIP ip \<longleftrightarrow> ip = IPv6loopback \<or> ip = IPv6zero \<or> a = 0xFF \<or>
        a = 0xFE \<and> and b 0xC0 = 0x80 \<or> and a 0xFE = 0xFC"
      using True ip None by (auto simp: isBlockedIP_def IsLoopback_def IsLinkLocalUnicast_def
        IsLinkLocalMulticast_def IsUnspecified_def IsMulticast_def IsPrivate_def)
    ultimately show ?thesis by simp
  next
    case False
    then show ?thesis using assms
      by (auto simp: isBlockedIP_def IsLoopback_def IsLinkLocalUnicast_def IsLinkLocalMulticast_def
        IsUnspecified_def IsMulticast_def IsPrivate_def internal_address_def None blocked_v6_def
        IPv6loopback_def IPv6zero_def)
  qed
qed

section \<open>The guard\<close>

text \<open>\<^verbatim>\<open>nt_Parse\<close> gives the scheme and the host name of a URL, \<^verbatim>\<open>nt_LookupIP\<close> the addresses of a host.\<close>

record Net =
  nt_Parse :: "string \<Rightarrow> (string \<times> string) option"
  nt_LookupIP :: "string \<Rightarrow> IP list option"

definition validateBenchmarkEndpoint :: "Net \<Rightarrow> (string \<Rightarrow> string) \<Rightarrow> string \<Rightarrow> string option" where
  "validateBenchmarkEndpoint net getenv endpoint =
     (case nt_Parse net endpoint of
        None \<Rightarrow> Some ''invalid endpoint_url''
      | Some (scheme, host) \<Rightarrow>
          if scheme \<noteq> ''ws'' \<and> scheme \<noteq> ''wss''
          then Some (''endpoint_url must use ws:// or wss:// scheme, got '' @ scheme)
          else if host = [] then Some ''endpoint_url is missing a host''
          else
            let allowed = TrimSpace (getenv ''ORCHESTRATOR_BENCHMARK_ALLOWED_HOSTS'') in
            if allowed \<noteq> [] then
              (if list_ex (\<lambda>h. EqualFold (TrimSpace h) host) (SplitChar CHR '','' allowed) then None
               else Some (''endpoint host '' @ host @ '' is not in ORCHESTRATOR_BENCHMARK_ALLOWED_HOSTS''))
            else (case nt_LookupIP net host of
                None \<Rightarrow> Some (''could not resolve endpoint host '' @ host)
              | Some ips \<Rightarrow>
                  if ips = [] then Some (''endpoint host '' @ host @ '' resolved to no addresses'')
                  else if list_ex isBlockedIP ips
                  then Some (''endpoint host '' @ host @ '' resolves to a disallowed address'')
                  else None))"

text \<open>What the guard lets through.\<close>

definition trusted_host :: "(string \<Rightarrow> string) \<Rightarrow> string \<Rightarrow> bool" where
  "trusted_host getenv host \<longleftrightarrow>
     (\<exists>h \<in> set (SplitChar CHR '','' (TrimSpace (getenv ''ORCHESTRATOR_BENCHMARK_ALLOWED_HOSTS''))). EqualFold (TrimSpace h) host)"

definition external_host :: "Net \<Rightarrow> string \<Rightarrow> bool" where
  "external_host net host \<longleftrightarrow> (\<exists>ips. nt_LookupIP net host = Some ips \<and> ips \<noteq> [] \<and>
     (\<forall>ip \<in> set ips. ip \<noteq> [] \<and> \<not> internal_address ip))"

lemma validate_ok_iff:
  "validateBenchmarkEndpoint net getenv endpoint = None \<longleftrightarrow>
     (\<exists>scheme host. nt_Parse net endpoint = Some (scheme, host) \<and> scheme \<in> {''ws'', ''wss''} \<and> host \<noteq> [] \<and>
        (if TrimSpace (getenv ''ORCHESTRATOR_BENCHMARK_ALLOWED_HOSTS'') \<noteq> [] then trusted_host getenv host
         else external_host net host))"
proof -
  have "list_ex isBlockedIP ips \<longleftrightarrow> (\<exists>ip \<in> set ips. ip = [] \<or> internal_address ip)" for ips
    using isBlockedIP_internal by (auto simp: list_ex_iff isBlockedIP_def)
  then show ?thesis
    by (auto simp: validateBenchmarkEndpoint_def trusted_host_def external_host_def list_ex_iff Let_def
        split: option.splits if_splits)
qed

section \<open>The request\<close>

text \<open>
  \<open>de_ctx\<close> is the state of the request's context when the stage of that name has returned,
  \<open>de_now\<close> the successive clock readings.
\<close>

record Direct =
  de_net :: Net
  de_machine :: Machine
  de_runRoot :: string
  de_repoRoot :: string
  de_runTimeout :: int
  de_Log10 :: "f64 \<Rightarrow> f64"
  de_mkdir :: "string \<Rightarrow> string option"
  de_spec :: "BenchmarkRun \<Rightarrow> string option"
  de_config :: "DirectBenchmarkRequest \<Rightarrow> string option"
  de_score :: "ScoreResult \<Rightarrow> string"
  de_ctx :: "string \<Rightarrow> run_ctx"
  de_now :: "nat \<Rightarrow> int"
  de_publisher :: bool

definition direct_timeout :: "int \<Rightarrow> int \<Rightarrow> int" where
  "direct_timeout runTimeout sec =
     (if sec > 0 then wrap64 ((if sec > maxDurationSec then maxDurationSec else sec) * 1000000000)
      else runTimeout)"

definition placeholder_names :: "string list" where
  "placeholder_names = [''config.json'', ''orders.jsonl'', ''acks.jsonl'', ''fills.jsonl'', ''cancels.jsonl'',
     ''run_spec.json'', ''build.json'', ''sandbox.json'', ''engine_outputs.jsonl'', ''events.jsonl'',
     ''contestant_outputs.jsonl'', ''metrics.json'', ''validation.json'', ''score.json'', ''run.log'']"

fun create_placeholders :: "Machine \<Rightarrow> string \<Rightarrow> string list \<Rightarrow> files \<Rightarrow> files \<times> string option" where
  "create_placeholders M dir [] fs = (fs, None)"
| "create_placeholders M dir (name # names) fs =
     (let path = path_Join [dir, name] in
      if fs path \<noteq> None then create_placeholders M dir names fs
      else case WriteFile M path [] fs of
        (fs, Some e) \<Rightarrow> (fs, Some e)
      | (fs, None) \<Rightarrow> create_placeholders M dir names fs)"

definition createArtifactPlaceholders :: "Machine \<Rightarrow> string \<Rightarrow> files \<Rightarrow> files \<times> string option" where
  "createArtifactPlaceholders M dir fs = create_placeholders M dir placeholder_names fs"

definition write_json :: "Machine \<Rightarrow> string \<Rightarrow> string option \<Rightarrow> files \<Rightarrow> files \<times> string option" where
  "write_json M path data fs = (case data of None \<Rightarrow> (fs, Some ''json: unsupported value'')
     | Some d \<Rightarrow> WriteFile M path (d @ [CHR 0x0A]) fs)"

definition writeRunSpec :: "Direct \<Rightarrow> BenchmarkRun \<Rightarrow> files \<Rightarrow> files \<times> string option" where
  "writeRunSpec D run fs =
     write_json (de_machine D) (path_Join [br_ArtifactDir run, ''run_spec.json'']) (de_spec D run) fs"

definition direct_request :: "DirectBenchmarkRequest \<Rightarrow> DirectBenchmarkRequest" where
  "direct_request req =
     (let req = (if dr_BenchmarkSeed req = 0 then req\<lparr>dr_BenchmarkSeed := 42\<rparr> else req)
      in req\<lparr>dr_Config := normalizeConfig (dr_Config req)\<rparr>)"

definition direct_run :: "Direct \<Rightarrow> DirectBenchmarkRequest \<Rightarrow> string \<Rightarrow> BenchmarkRun" where
  "direct_run D req endpoint =
     (let now = de_now D 0; run_id = ''direct_'' @ Itoa now in
      \<lparr>br_RunID = run_id, br_SubmissionID = [], br_TeamID = ''direct'',
       br_Status = Benchmarking, br_BenchmarkSeed = dr_BenchmarkSeed req,
       br_Sandbox = \<lparr>sx_CPULimit = [], sx_MemoryLimit = [], sx_NetworkEgress = False\<rparr>,
       br_Config = (dr_Config req)\<lparr>bc_EngineEndpoint := endpoint\<rparr>,
       br_ArtifactDir = path_Join [de_runRoot D, run_id], br_Valid = None, br_Score = Fin 0,
       br_FailureStage = [], br_FailureReason = [],
       br_CreatedAtUnix = Unix now, br_UpdatedAtUnix = Unix now, br_FinishedAtUnix = 0,
       br_CreatedAt = now, br_UpdatedAt = now, br_FinishedAt = None\<rparr>)"

definition direct_prepare :: "Direct \<Rightarrow> DirectBenchmarkRequest \<Rightarrow> BenchmarkRun \<Rightarrow> files \<Rightarrow> files \<times> string option" where
  "direct_prepare D req run fs =
     (case de_mkdir D (br_ArtifactDir run) of
        Some e \<Rightarrow> (fs, Some e)
      | None \<Rightarrow>
          (case createArtifactPlaceholders (de_machine D) (br_ArtifactDir run) fs of
             (fs, Some e) \<Rightarrow> (fs, Some e)
           | (fs, None) \<Rightarrow>
               (case writeRunSpec D run fs of
                  (fs, Some e) \<Rightarrow> (fs, Some e)
                | (fs, None) \<Rightarrow>
                    write_json (de_machine D) (path_Join [br_ArtifactDir run, ''config.json'']) (de_config D req) fs)))"

definition finishDirectFailure :: "Direct \<Rightarrow> int \<Rightarrow> string \<Rightarrow> string \<Rightarrow> BenchmarkRun \<Rightarrow> Metrics option \<Rightarrow>
    ValidationResult option \<Rightarrow> files \<Rightarrow> files \<times> DirectBenchmarkResult" where
  "finishDirectFailure D now stage err run metrics validation fs =
     (let run = failed_run now (de_ctx D stage) stage err run in
      (fst (writeRunSpec D run fs),
       \<lparr>dz_Run = run, dz_Metrics = metrics, dz_Validation = validation, dz_Score = None\<rparr>))"

text \<open>\<^verbatim>\<open>executor.Score\<close> on the files: the result is in \<^verbatim>\<open>score.json\<close> when it succeeds.\<close>

definition direct_score :: "Direct \<Rightarrow> BenchmarkRun \<Rightarrow> Metrics option \<Rightarrow> ValidationResult \<Rightarrow> files \<Rightarrow>
    files \<times> ScoreResult \<times> bool" where
  "direct_score D run m v fs =
     (let path = path_Join [br_ArtifactDir run, ''score.json''];
          (s, ok) = Score (de_Log10 D) (mc_writable (de_machine D) path) run m (Some v)
      in (if ok then fs(path \<mapsto> de_score D s @ [CHR 0x0A]) else fs, s, ok))"

definition read_sample :: "Machine \<Rightarrow> BenchmarkRun \<Rightarrow> files \<Rightarrow> (f64 \<times> f64) option" where
  "read_sample M run fs = (case fs (path_Join [br_ArtifactDir run, ''resource.json'']) of
     None \<Rightarrow> None | Some data \<Rightarrow> mc_sample M data)"

definition direct_validate :: "Direct \<Rightarrow> BenchmarkRun \<Rightarrow> Metrics option \<Rightarrow> files \<Rightarrow>
    files \<times> DirectBenchmarkResult \<times> leaderboardEntry option" where
  "direct_validate D run m fs =
     (let run = Touch (de_now D 1) Validating run; fs = fst (writeRunSpec D run fs) in
      case Validator_Run (de_machine D) (de_repoRoot D) run fs of
        (fs, Inl e) \<Rightarrow>
          (case finishDirectFailure D (de_now D 2) ''VALIDATING'' e run m None fs of (fs, r) \<Rightarrow> (fs, r, None))
      | (fs, Inr v) \<Rightarrow>
          let run = Touch (de_now D 2) Scoring (run\<lparr>br_Valid := Some (vr_Valid v)\<rparr>);
              fs = fst (writeRunSpec D run fs)
          in (case direct_score D run m v fs of
               (fs, s, False) \<Rightarrow>
                 (case finishDirectFailure D (de_now D 3) ''SCORING'' ''write score'' run m (Some v) fs of
                    (fs, r) \<Rightarrow> (fs, r, None))
             | (fs, s, True) \<Rightarrow>
                 let run = finished_run (de_now D 3) Finished (run\<lparr>br_Score := sr_Score s\<rparr>);
                     fs = fst (writeRunSpec D run fs)
                 in (fs, \<lparr>dz_Run = run, dz_Metrics = m, dz_Validation = Some v, dz_Score = Some s\<rparr>,
                     if de_publisher D then Some (publish_entry (de_now D 4) run m (Some v) s) else None)))"

text \<open>The third component is the entry handed to the leaderboard publisher.\<close>

definition BenchmarkEndpoint :: "Direct \<Rightarrow> DirectBenchmarkRequest \<Rightarrow> files \<Rightarrow>
    files \<times> (string + DirectBenchmarkResult) \<times> leaderboardEntry option" where
  "BenchmarkEndpoint D req fs =
     (let endpoint = TrimSpace (dr_EndpointURL req); M = de_machine D in
      if endpoint = [] then (fs, Inl ''endpoint_url is required'', None)
      else case validateBenchmarkEndpoint (de_net D) (mc_Getenv M) endpoint of
        Some e \<Rightarrow> (fs, Inl e, None)
      | None \<Rightarrow>
          let req = direct_request req; run = direct_run D req endpoint in
          (case direct_prepare D req run fs of
             (fs, Some e) \<Rightarrow> (fs, Inl e, None)
           | (fs, None) \<Rightarrow>
               (case BotFleet_Run M (de_repoRoot D) run endpoint fs of
                  (fs, m, Some e) \<Rightarrow>
                    (case finishDirectFailure D (de_now D 1) ''BENCHMARKING'' e run m None fs of
                       (fs, r) \<Rightarrow> (fs, Inr r, None))
                | (fs, metrics, None) \<Rightarrow>
                    let metrics = mergeResourceSample (br_ArtifactDir run) (read_sample M run fs) metrics in
                    (case direct_validate D run metrics fs of (fs, r, p) \<Rightarrow> (fs, Inr r, p)))))"

section \<open>What a direct benchmark answers\<close>

text \<open>
  C24. A direct benchmark is only run against an admitted target: either the request's endpoint
  is a \<^verbatim>\<open>ws\<close> or \<^verbatim>\<open>wss\<close> URL whose host is on the operator's allowlist or, without an allowlist,
  resolves to at least one address and to none in the loopback, link-local, multicast,
  unspecified or private ranges (IPv4, IPv4-mapped and IPv6, given as prefixes), or the request
  is answered with an error, no file is touched and nothing is published, whatever the bot
  fleet, the validator and the disk would have done.
\<close>

theorem direct_benchmark_is_guarded:
  "(\<exists>scheme host. nt_Parse (de_net D) (TrimSpace (dr_EndpointURL req)) = Some (scheme, host) \<and>
      scheme \<in> {''ws'', ''wss''} \<and> host \<noteq> [] \<and>
      (if TrimSpace (mc_Getenv (de_machine D) ''ORCHESTRATOR_BENCHMARK_ALLOWED_HOSTS'') \<noteq> []
       then trusted_host (mc_Getenv (de_machine D)) host else external_host (de_net D) host)) \<or>
   (\<exists>e. BenchmarkEndpoint D req fs = (fs, Inl e, None))"
proof (cases "validateBenchmarkEndpoint (de_net D) (mc_Getenv (de_machine D)) (TrimSpace (dr_EndpointURL req))")
  case None
  then show ?thesis using validate_ok_iff by blast
next
  case (Some e)
  then have "\<exists>e. BenchmarkEndpoint D req fs = (fs, Inl e, None)"
    by (simp add: BenchmarkEndpoint_def Let_def)
  then show ?thesis ..
qed

lemma fleet_orders:
  assumes "BotFleet_Run M repo run endpoint fs = (fs', metrics, None)"
  shows "\<exists>m. metrics = Some m \<and> 0 < mt_OrdersSent m"
proof -
  obtain command args where c: "fleet_command M repo run endpoint = (command, args)" by fastforce
  obtain fs1 out where r: "runLoggedCommand M run repo command args fs = (fs1, out)" by fastforce
  obtain fs2 e where st: "store_fleet M (br_ArtifactDir run) (fleet_metrics run out) fs1 = (fs2, e)" by fastforce
  have "co_Err out = None"
    using assms c r by (cases "co_Err out") (auto simp: BotFleet_Run_def)
  moreover from this have "e = None"
    using assms c r st by (cases e) (auto simp: BotFleet_Run_def)
  ultimately have "metrics = Some (fleet_metrics run out)" "validateBenchmarkLoad (fleet_metrics run out) = None"
    using assms c r st by (auto simp: BotFleet_Run_def Let_def)
  then show ?thesis by (auto simp: validateBenchmarkLoad_def split: if_splits)
qed

lemma mergeResourceSample_Some:
  "\<exists>m'. mergeResourceSample dir sample (Some m) = Some m' \<and> mt_OrdersSent m' = mt_OrdersSent m"
  by (auto simp: mergeResourceSample_def split: option.split)

lemma load_ok_endpoint [simp]: "load_ok (c\<lparr>bc_EngineEndpoint := e\<rparr>) = load_ok c"
  by (simp add: load_ok_def)

definition earned :: "Direct \<Rightarrow> files \<Rightarrow> DirectBenchmarkResult \<Rightarrow> bool" where
  "earned D fs r \<longleftrightarrow> (\<exists>m v s. dz_Metrics r = Some m \<and> dz_Validation r = Some v \<and> dz_Score r = Some s \<and>
     0 < mt_OrdersSent m \<and> br_Valid (dz_Run r) = Some (vr_Valid v) \<and> br_Score (dz_Run r) = sr_Score s \<and>
     s = fst (Score (de_Log10 D) True (dz_Run r) (Some m) (Some v)) \<and>
     fs (path_Join [br_ArtifactDir (dz_Run r), ''score.json'']) = Some (de_score D s @ [CHR 0x0A]))"

lemma finishDirectFailure_simps:
  "br_Status (dz_Run (snd (finishDirectFailure D now stage e run m v fs))) \<in> {Failed, Cancelled, TimedOut}"
  "dz_Score (snd (finishDirectFailure D now stage e run m v fs)) = None"
  "br_Config (dz_Run (snd (finishDirectFailure D now stage e run m v fs))) = br_Config run"
  by (auto simp: finishDirectFailure_def Let_def failed_run_def split: run_ctx.split)

lemma writeRunSpec_other:
  assumes "br_ArtifactDir run \<noteq> []" "name \<in> artifact_names" "name \<noteq> ''run_spec.json''"
  shows "fst (writeRunSpec D run fs) (path_Join [br_ArtifactDir run, name]) = fs (path_Join [br_ArtifactDir run, name])"
  using artifact_path_inj [OF assms(1,2), of "''run_spec.json''"] assms(3)
  by (auto simp: writeRunSpec_def write_json_def WriteFile_def artifact_names_def split: option.split)

lemma direct_score_ok:
  assumes "direct_score D run m v fs = (fs', s, True)"
  shows "s = fst (Score (de_Log10 D) True run m (Some v)) \<and>
    fs' (path_Join [br_ArtifactDir run, ''score.json'']) = Some (de_score D s @ [CHR 0x0A])"
  using assms Score_fst_disk [of "de_Log10 D" _ run m "Some v"]
  by (auto simp: direct_score_def Let_def split: prod.splits) (metis fst_conv)

lemma direct_validate_result:
  assumes "direct_validate D run (Some m) fs = (fs', r, p)"
    and "0 < mt_OrdersSent m" and "br_ArtifactDir run \<noteq> []"
  shows "br_Config (dz_Run r) = br_Config run \<and>
    (if br_Status (dz_Run r) = Finished then earned D fs' r
     else br_Status (dz_Run r) \<in> {Failed, Cancelled, TimedOut} \<and> dz_Score r = None \<and> p = None)"
proof -
  define run1 where "run1 = Touch (de_now D 1) Validating run"
  define fs1 where "fs1 = fst (writeRunSpec D run1 fs)"
  obtain fs2 vr where v: "Validator_Run (de_machine D) (de_repoRoot D) run1 fs1 = (fs2, vr)" by fastforce
  have cfg1: "br_Config run1 = br_Config run" by (simp add: run1_def)
  show ?thesis
  proof (cases vr)
    case (Inl e)
    obtain fs3 r' where f: "finishDirectFailure D (de_now D 2) ''VALIDATING'' e run1 (Some m) None fs2 = (fs3, r')"
      by fastforce
    then have "r = r'" "p = None" using assms(1) v Inl
      by (simp_all add: direct_validate_def run1_def fs1_def)
    then show ?thesis using finishDirectFailure_simps [of D "de_now D 2" "''VALIDATING''" e run1 "Some m" None fs2] f cfg1
      by auto
  next
    case (Inr w)
    define run2 where "run2 = Touch (de_now D 2) Scoring (run1\<lparr>br_Valid := Some (vr_Valid w)\<rparr>)"
    define fs3 where "fs3 = fst (writeRunSpec D run2 fs2)"
    obtain fs4 s ok where sc: "direct_score D run2 (Some m) w fs3 = (fs4, s, ok)" by (metis prod_cases3)
    have cfg2: "br_Config run2 = br_Config run" by (simp add: run2_def cfg1)
    show ?thesis
    proof (cases ok)
      case False
      obtain fs5 r' where f: "finishDirectFailure D (de_now D 3) ''SCORING'' ''write score'' run2 (Some m) (Some w) fs4 = (fs5, r')"
        by fastforce
      then have "r = r'" "p = None" using assms(1) v Inr sc False
        by (simp_all add: direct_validate_def run1_def fs1_def run2_def fs3_def)
      then show ?thesis
        using finishDirectFailure_simps [of D "de_now D 3" "''SCORING''" "''write score''" run2 "Some m" "Some w" fs4] f cfg2
        by auto
    next
      case True
      define run3 where "run3 = finished_run (de_now D 3) Finished (run2\<lparr>br_Score := sr_Score s\<rparr>)"
      have r: "r = \<lparr>dz_Run = run3, dz_Metrics = Some m, dz_Validation = Some w, dz_Score = Some s\<rparr>"
        "fs' = fst (writeRunSpec D run3 fs4)"
        using assms(1) v Inr sc True
        by (simp_all add: direct_validate_def run1_def fs1_def run2_def fs3_def run3_def Let_def)
      have dir: "br_ArtifactDir run3 = br_ArtifactDir run" "br_ArtifactDir run2 = br_ArtifactDir run"
        by (simp_all add: run3_def run2_def run1_def finished_run_def Touch_def)
      have sc': "s = fst (Score (de_Log10 D) True run2 (Some m) (Some w))"
          "fs4 (path_Join [br_ArtifactDir run, ''score.json'']) = Some (de_score D s @ [CHR 0x0A])"
        using direct_score_ok sc True dir(2) by (metis (full_types))+
      have "fs' (path_Join [br_ArtifactDir run, ''score.json'']) = Some (de_score D s @ [CHR 0x0A])"
        using writeRunSpec_other [of run3 "''score.json''" D fs4] assms(3) dir sc' r(2)
        by (simp add: artifact_names_def)
      moreover have "Score (de_Log10 D) True run3 (Some m) (Some w) = Score (de_Log10 D) True run2 (Some m) (Some w)"
        by (rule Score_run_cong) (simp_all add: run3_def)
      ultimately have "earned D fs' r"
        using assms(2) sc'(1) dir(1) by (simp add: earned_def r(1)) (simp add: run3_def run2_def)
      then show ?thesis by (simp add: r run3_def cfg2)
    qed
  qed
qed

lemma direct_run_simps [simp]:
  "br_ArtifactDir (direct_run D req e) \<noteq> []" "load_ok (br_Config (direct_run D (direct_request req) e))"
  by (simp_all add: direct_run_def Let_def direct_request_def normalizeConfig_load_ok path_Join_def path_Clean_def)

text \<open>
  A direct benchmark that answers with a result always reports a terminal run whose load is
  within the ceilings.  It is FINISHED exactly when it carries a score, and then everything
  behind the score is there: the fleet sent orders, the validator gave the verdict the run
  carries, the score is what the formulas give for this run, and \<^verbatim>\<open>score.json\<close> in the run's
  directory holds it.  A result that is not FINISHED has no score and is not published.
\<close>

lemma direct_result_is_earned:
  assumes "BenchmarkEndpoint D req fs = (fs', Inr r, p)"
  shows "load_ok (br_Config (dz_Run r)) \<and>
    (if br_Status (dz_Run r) = Finished then earned D fs' r
     else br_Status (dz_Run r) \<in> {Failed, Cancelled, TimedOut} \<and> dz_Score r = None \<and> p = None)"
proof -
  let ?M = "de_machine D" and ?e = "TrimSpace (dr_EndpointURL req)"
  let ?req = "direct_request req"
  let ?run = "direct_run D ?req ?e"
  have ok: "?e \<noteq> []" "validateBenchmarkEndpoint (de_net D) (mc_Getenv ?M) ?e = None"
    using assms by (auto simp: BenchmarkEndpoint_def Let_def split: if_splits option.splits)
  obtain fs1 where prep: "direct_prepare D ?req ?run fs = (fs1, None)"
    using assms ok by (auto simp: BenchmarkEndpoint_def Let_def split: prod.splits option.splits)
  obtain fs2 metrics err where fl: "BotFleet_Run ?M (de_repoRoot D) ?run ?e fs1 = (fs2, metrics, err)"
    by (metis prod_cases3)
  show ?thesis
  proof (cases err)
    case (Some e)
    obtain fs3 r' where f: "finishDirectFailure D (de_now D 1) ''BENCHMARKING'' e ?run metrics None fs2 = (fs3, r')"
      by fastforce
    then have "r = r'" "p = None" using assms ok prep fl Some by (auto simp: BenchmarkEndpoint_def Let_def)
    then show ?thesis
      using finishDirectFailure_simps [of D "de_now D 1" "''BENCHMARKING''" e ?run metrics None fs2] f by auto
  next
    case None
    then obtain m where m: "metrics = Some m" "0 < mt_OrdersSent m" using fleet_orders fl by blast
    obtain m' where m': "mergeResourceSample (br_ArtifactDir ?run) (read_sample ?M ?run fs2) (Some m) = Some m'"
      "mt_OrdersSent m' = mt_OrdersSent m" using mergeResourceSample_Some by blast
    obtain f3 r3 p3 where d: "direct_validate D ?run (Some m') fs2 = (f3, r3, p3)" by (metis prod_cases3)
    then have "f3 = fs'" "r3 = r" "p3 = p" using assms ok prep fl None m m' d
      by (auto simp: BenchmarkEndpoint_def Let_def)
    then show ?thesis using direct_validate_result [of D ?run m' fs2 fs' r p] d m m' by auto
  qed
qed

text \<open>
  A request that goes all the way: the target resolves to a public address, the fleet reports
  three orders, the validator refuses the fills.
\<close>

definition demo_machine :: Machine where
  "demo_machine =
     \<lparr>mc_Getenv = (\<lambda>v. if v = ''BOT_FLEET_BIN'' then ''fleet'' else if v = ''VALIDATOR_BIN'' then ''check'' else []),
      mc_exists = (\<lambda>_. True), mc_writable = (\<lambda>_. True),
      mc_run = (\<lambda>dir name args fs. (fs, \<lparr>co_Stdout = if name = ''fleet'' then ''orders_sent: 3'' else ''refused'', co_Err = None\<rparr>)),
      mc_metrics = (\<lambda>_. Some []), mc_output = (\<lambda>_. None),
      mc_validation = (\<lambda>_. Some [(''valid'', JBool False)]), mc_sample = (\<lambda>_. None)\<rparr>"

definition demo_direct :: Direct where
  "demo_direct =
     \<lparr>de_net = \<lparr>nt_Parse = (\<lambda>_. Some (''wss'', ''bench.example'')), nt_LookupIP = (\<lambda>_. Some [[203, 0, 113, 7]])\<rparr>,
      de_machine = demo_machine, de_runRoot = ''/r'', de_repoRoot = ''/p'', de_runTimeout = 1, de_Log10 = (\<lambda>x. x),
      de_mkdir = (\<lambda>_. None), de_spec = (\<lambda>_. Some []), de_config = (\<lambda>_. Some []), de_score = (\<lambda>_. []),
      de_ctx = (\<lambda>_. CtxLive), de_now = int, de_publisher = True\<rparr>"

definition demo_request :: DirectBenchmarkRequest where
  "demo_request = \<lparr>dr_EndpointURL = ''wss://bench.example/ws'', dr_BenchmarkSeed = 0,
     dr_Config = \<lparr>bc_BotCount = 0, bc_RatePerBot = 0, bc_DurationSec = 0, bc_WarmupSec = 0, bc_EngineEndpoint = []\<rparr>,
     dr_TimeoutSec = 0\<rparr>"

definition full_files :: "files \<Rightarrow> bool" where
  "full_files fs \<longleftrightarrow> (\<forall>p. fs p = Some [] \<or> fs p = Some [CHR 0x0A])"

lemma full_files_upd: "full_files fs \<Longrightarrow> d = [] \<or> d = [CHR 0x0A] \<Longrightarrow> full_files (fs(p \<mapsto> d))"
  by (simp add: full_files_def)

lemma full_filesD: "full_files fs \<Longrightarrow> \<exists>d. fs p = Some d \<and> (d = [] \<or> d = [CHR 0x0A])"
  by (auto simp: full_files_def)

lemma full_files_some: "full_files fs \<Longrightarrow> fs p \<noteq> None"
  by (auto dest: full_filesD)

lemma demo_placeholders: "full_files fs \<Longrightarrow> create_placeholders M dir names fs = (fs, None)"
  by (induction names) (simp_all only: create_placeholders.simps full_files_some Let_def simp_thms if_True)

lemma demo_summary: "mt_OrdersSent (parseMetrics ''orders_sent: 3'') = 3"
  by (simp add: parseMetrics_def metric_line_def CutChar_def TrimSpace_def is_space_def metric_field_def
      atoi_def Atoi_def split_sign_def is_digit_def digit_val_def less_eq_char_def zeroMetrics_def Let_def)

lemma demo_tools:
  "fleet_command demo_machine ''/p'' run e = (''fleet'', fleet_args run e)"
  "tool_command demo_machine ''VALIDATOR_BIN'' ''/p'' b cs as = (''check'', as)"
  "runLoggedCommand demo_machine run ''/p'' ''fleet'' as fs = (fs, \<lparr>co_Stdout = ''orders_sent: 3'', co_Err = None\<rparr>)"
  "runLoggedCommand demo_machine run ''/p'' ''check'' as fs = (fs, \<lparr>co_Stdout = ''refused'', co_Err = None\<rparr>)"
  by (simp_all add: fleet_command_def tool_command_def demo_machine_def TrimSpace_def is_space_def runLoggedCommand_def)

lemma demo_fields:
  "mc_metrics demo_machine = (\<lambda>_. Some [])" "mc_writable demo_machine = (\<lambda>_. True)"
  "mc_validation demo_machine = (\<lambda>_. Some [(''valid'', JBool False)])" "mc_sample demo_machine = (\<lambda>_. None)"
  by (simp_all add: demo_machine_def)

lemma demo_split: "fold (split_line demo_machine) lines ([], [], []) = ([], [], [])"
  by (induction lines) (simp_all add: split_line_def outputKind_def demo_machine_def)

lemma demo_Scan: "Scan [] = ([], True)" "Scan [CHR 0x0A] = ([[]], True)"
  by (simp_all add: Scan_def dropCR_def MaxScanTokenSize_def)

lemma demo_WriteFile: "WriteFile demo_machine p d fs = (fs(p \<mapsto> d), None)"
  by (simp add: WriteFile_def demo_machine_def)

lemma demo_splitOutputs:
  assumes "full_files fs"
  shows "\<exists>fs'. splitOutputs demo_machine out dir fs = (fs', None) \<and> full_files fs'"
proof -
  obtain d where d: "fs out = Some d" using full_filesD [OF assms] by blast
  let ?fs = "fs(path_Join [dir, ''acks.jsonl''] \<mapsto> [], path_Join [dir, ''fills.jsonl''] \<mapsto> [],
    path_Join [dir, ''cancels.jsonl''] \<mapsto> [])"
  have "full_files ?fs" using assms by (intro full_files_upd) simp_all
  then obtain d' where "?fs out = Some d'" "d' = [] \<or> d' = [CHR 0x0A]" using full_filesD by blast
  then show ?thesis using d \<open>full_files ?fs\<close>
    by (auto simp: splitOutputs_def Let_def demo_WriteFile demo_Scan demo_split full_files_upd)
qed

lemma demo_store_fleet:
  assumes "full_files fs"
  shows "\<exists>fs'. store_fleet demo_machine dir m fs = (fs', None) \<and> full_files fs'"
proof -
  have "full_files (fs(path_Join [dir, ''metrics.json''] \<mapsto> [CHR 0x0A]))"
    using assms by (rule full_files_upd) simp
  then obtain d where "(fs(path_Join [dir, ''metrics.json''] \<mapsto> [CHR 0x0A])) (path_Join [dir, ''events.jsonl'']) = Some d"
      "d = [] \<or> d = [CHR 0x0A]" using full_filesD by blast
  then have "\<exists>fs'. copyFile demo_machine (path_Join [dir, ''events.jsonl'']) (path_Join [dir, ''orders.jsonl''])
      (fs(path_Join [dir, ''metrics.json''] \<mapsto> [CHR 0x0A])) = (fs', None) \<and> full_files fs'"
    using assms by (auto simp: copyFile_def demo_WriteFile full_files_upd)
  then show ?thesis using demo_splitOutputs
    by (fastforce simp: store_fleet_def writeSplitArtifacts_def demo_WriteFile demo_fields)
qed

lemma demo_fleet:
  assumes "full_files fs"
  shows "\<exists>fs' m. BotFleet_Run demo_machine ''/p'' run e fs = (fs', Some m, None) \<and> full_files fs'"
proof -
  let ?m = "fleet_metrics run \<lparr>co_Stdout = ''orders_sent: 3'', co_Err = None\<rparr>"
  have "mt_OrdersSent ?m = 3" using demo_summary by (simp add: fleet_metrics_def Let_def)
  then have "validateBenchmarkLoad ?m = None" by (simp add: validateBenchmarkLoad_def)
  then show ?thesis using demo_store_fleet [OF assms, of "br_ArtifactDir run" ?m]
    by (auto simp: BotFleet_Run_def demo_tools Let_def)
qed

lemma demo_checks:
  assumes "full_files fs"
  shows "\<exists>fs'. Validator_Run demo_machine ''/p'' run fs = (fs',
    Inr \<lparr>vr_RunID = br_RunID run, vr_Valid = False, vr_FillsChecked = 0, vr_Reason = [], vr_FirstBadSeq = 0\<rparr>)"
  by (simp add: Validator_Run_def demo_tools Let_def TrimSpace_def is_space_def demo_WriteFile parseValidation_def
      demo_fields)

lemma demo_direct_run:
  "\<exists>fs r p. BenchmarkEndpoint demo_direct demo_request (\<lambda>_. Some []) = (fs, Inr r, p) \<and>
     br_Status (dz_Run r) = Finished"
proof -
  let ?D = demo_direct and ?req = "direct_request demo_request"
  let ?run = "direct_run ?D ?req ''wss://bench.example/ws''"
  have D: "de_machine ?D = demo_machine" "de_repoRoot ?D = ''/p''" "de_mkdir ?D = (\<lambda>_. None)"
      "de_spec ?D = (\<lambda>_. Some [])" "de_config ?D = (\<lambda>_. Some [])"
    by (simp_all add: demo_direct_def)
  have trim: "TrimSpace (dr_EndpointURL demo_request) = ''wss://bench.example/ws''"
    by (simp add: demo_request_def TrimSpace_def is_space_def)
  have guard: "validateBenchmarkEndpoint (de_net ?D) (mc_Getenv demo_machine) ''wss://bench.example/ws'' = None"
    by (simp add: validateBenchmarkEndpoint_def demo_direct_def demo_machine_def isBlockedIP_def IsLoopback_def
        IsLinkLocalUnicast_def IsLinkLocalMulticast_def IsUnspecified_def IsMulticast_def IsPrivate_def To4_def)
  have spec: "writeRunSpec ?D r fs = (fs(path_Join [br_ArtifactDir r, ''run_spec.json''] \<mapsto> [CHR 0x0A]), None)" for r fs
    by (simp add: writeRunSpec_def write_json_def D demo_WriteFile)
  have "full_files (\<lambda>_. Some [])" by (simp add: full_files_def)
  then have "\<exists>fs. direct_prepare ?D ?req ?run (\<lambda>_. Some []) = (fs, None) \<and> full_files fs"
    by (simp add: direct_prepare_def createArtifactPlaceholders_def demo_placeholders spec
        write_json_def D demo_WriteFile full_files_upd)
  then obtain fs1 where prep: "direct_prepare ?D ?req ?run (\<lambda>_. Some []) = (fs1, None)" "full_files fs1" by blast
  obtain fs2 m where fl: "BotFleet_Run demo_machine ''/p'' ?run ''wss://bench.example/ws'' fs1 = (fs2, Some m, None)"
      "full_files fs2"
    using demo_fleet [OF prep(2)] by blast
  obtain m' where m': "mergeResourceSample (br_ArtifactDir ?run) (read_sample demo_machine ?run fs2) (Some m) = Some m'"
    using mergeResourceSample_Some by blast
  obtain fs3 r p where d: "direct_validate ?D ?run (Some m') fs2 = (fs3, r, p)" by (metis prod_cases3)
  have full: "full_files (fst (writeRunSpec ?D run fs2))" for run
    using fl(2) by (simp add: spec full_files_upd)
  have sc: "\<exists>fs' s. direct_score ?D run (Some m') \<lparr>vr_RunID = i, vr_Valid = False, vr_FillsChecked = 0, vr_Reason = [],
      vr_FirstBadSeq = 0\<rparr> fs = (fs', s, True)" for run i fs
    by (simp add: direct_score_def D demo_fields Let_def Score_def writeScore_def marshal_ok_def noScore_def
        IsNaN_def IsInf_def)
  let ?r1 = "Touch (de_now ?D 1) Validating ?run"
  obtain fs4 where v: "Validator_Run demo_machine ''/p'' ?r1 (fst (writeRunSpec ?D ?r1 fs2)) = (fs4,
      Inr \<lparr>vr_RunID = br_RunID ?r1, vr_Valid = False, vr_FillsChecked = 0, vr_Reason = [], vr_FirstBadSeq = 0\<rparr>)"
    using demo_checks [OF full] by blast
  let ?v = "\<lparr>vr_RunID = br_RunID ?r1, vr_Valid = False, vr_FillsChecked = 0, vr_Reason = [], vr_FirstBadSeq = 0\<rparr>"
  let ?r2 = "Touch (de_now ?D 2) Scoring (?r1\<lparr>br_Valid := Some (vr_Valid ?v)\<rparr>)"
  obtain fs5 s where s: "direct_score ?D ?r2 (Some m') ?v (fst (writeRunSpec ?D ?r2 fs4)) = (fs5, s, True)"
    using sc by blast
  have "br_Status (dz_Run r) = Finished"
    using d v s by (auto simp: direct_validate_def Let_def D)
  then show ?thesis using d prep(1) fl(1) m' guard trim by (auto simp: BenchmarkEndpoint_def Let_def D)
qed

lemma direct_result_is_earned_witness:
  "\<exists>fs r p. BenchmarkEndpoint demo_direct demo_request (\<lambda>_. Some []) = (fs, Inr r, p) \<and>
     load_ok (br_Config (dz_Run r)) \<and> br_Status (dz_Run r) = Finished \<and> earned demo_direct fs r"
proof -
  obtain fs r p where b: "BenchmarkEndpoint demo_direct demo_request (\<lambda>_. Some []) = (fs, Inr r, p)"
      "br_Status (dz_Run r) = Finished"
    using demo_direct_run by blast
  then show ?thesis using direct_result_is_earned [OF b(1)] by auto
qed

end
