(* ===== verification/Panel.thy ===== *)
theory Panel
  imports Executor Clients
begin

text \<open>
  The control panel, \<^verbatim>\<open>services/control-panel\<close>: requests and their normalisation, its copy of the
  scoring formulas, its JSON store, its validator and its HTTP handlers.  The run manager is in
  theory \<^verbatim>\<open>PanelManager\<close>.
\<close>

section \<open>Data\<close>

datatype PanelStatus = StatusQueued | StatusStarting | StatusHealthCheck | StatusBenchmarking
  | StatusValidating | StatusScoring | StatusFinished | StatusFailed | StatusCancelled | StatusOther string

record RunRequest =
  rr_TeamID :: string
  rr_EngineMode :: string
  rr_BotCount :: int
  rr_OrdersPerSec :: int
  rr_DurationSec :: int
  rr_Seed :: int

record PanelMetrics =
  px_RunID :: string
  px_Bots :: int
  px_OrdersSent :: int
  px_AcksReceived :: int
  px_FillsReceived :: int
  px_Timeouts :: int
  px_ConnectErrors :: int
  px_TPS :: f64
  px_P50MS :: f64
  px_P90MS :: f64
  px_P99MS :: f64
  px_EventsOut :: string
  px_OutputsOut :: string
  px_RawOutput :: string

record PanelRun =
  pn_RunID :: string
  pn_TeamID :: string
  pn_Status :: PanelStatus
  pn_EngineMode :: string
  pn_BotCount :: int
  pn_OrdersPerSec :: int
  pn_DurationSec :: int
  pn_Seed :: int
  pn_ArtifactDir :: string
  pn_StartedAt :: int
  pn_UpdatedAt :: int
  pn_FinishedAt :: "int option"
  pn_Valid :: "bool option"
  pn_Score :: f64
  pn_FailureStage :: string
  pn_FailureReason :: string
  pn_Metrics :: "PanelMetrics option"
  pn_Validation :: "ValidationResult option"

section \<open>Requests\<close>

definition DefaultEngineMode :: string where "DefaultEngineMode = ''normal''"
definition DefaultBotCount :: int where "DefaultBotCount = 10"
definition DefaultOrdersPerSec :: int where "DefaultOrdersPerSec = 2"
definition DefaultDurationSec :: int where "DefaultDurationSec = 5"
definition DefaultSeed :: int where "DefaultSeed = 42"

definition panelMaxBotCount :: int where "panelMaxBotCount = 5000"
definition panelMaxOrdersPerSec :: int where "panelMaxOrdersPerSec = 2000"
definition panelMaxDurationSec :: int where "panelMaxDurationSec = 300"

definition with_defaults :: "RunRequest \<Rightarrow> RunRequest" where
  "with_defaults req =
     (let req = (if rr_TeamID req = [] then req\<lparr>rr_TeamID := ''local''\<rparr> else req);
          req = (if rr_EngineMode req = [] then req\<lparr>rr_EngineMode := DefaultEngineMode\<rparr> else req);
          req = (if rr_BotCount req = 0 then req\<lparr>rr_BotCount := DefaultBotCount\<rparr> else req);
          req = (if rr_OrdersPerSec req = 0 then req\<lparr>rr_OrdersPerSec := DefaultOrdersPerSec\<rparr> else req);
          req = (if rr_DurationSec req = 0 then req\<lparr>rr_DurationSec := DefaultDurationSec\<rparr> else req)
      in if rr_Seed req = 0 then req\<lparr>rr_Seed := DefaultSeed\<rparr> else req)"

definition NormalizeRequest :: "RunRequest \<Rightarrow> string + RunRequest" where
  "NormalizeRequest req =
     (let req = with_defaults req in
      if rr_EngineMode req \<noteq> ''normal'' \<and> rr_EngineMode req \<noteq> ''broken-price-time-priority''
      then Inl ''engine_mode must be normal or broken-price-time-priority''
      else if rr_BotCount req < 1 then Inl ''bot_count must be greater than zero''
      else
        let req = (if rr_BotCount req > panelMaxBotCount then req\<lparr>rr_BotCount := panelMaxBotCount\<rparr> else req) in
        if rr_OrdersPerSec req < 1 then Inl ''orders_per_sec must be greater than zero''
        else
          let req = (if rr_OrdersPerSec req > panelMaxOrdersPerSec
                     then req\<lparr>rr_OrdersPerSec := panelMaxOrdersPerSec\<rparr> else req) in
          if rr_DurationSec req < 1 then Inl ''duration_sec must be greater than zero''
          else Inr (if rr_DurationSec req > panelMaxDurationSec
                    then req\<lparr>rr_DurationSec := panelMaxDurationSec\<rparr> else req))"

definition IsTerminal :: "PanelStatus \<Rightarrow> bool" where
  "IsTerminal status \<longleftrightarrow> status = StatusFinished \<or> status = StatusFailed \<or> status = StatusCancelled"

definition panel_load_ok :: "RunRequest \<Rightarrow> bool" where
  "panel_load_ok req \<longleftrightarrow> rr_TeamID req \<noteq> [] \<and> rr_Seed req \<noteq> 0 \<and>
     (rr_EngineMode req = ''normal'' \<or> rr_EngineMode req = ''broken-price-time-priority'') \<and>
     1 \<le> rr_BotCount req \<and> rr_BotCount req \<le> panelMaxBotCount \<and>
     1 \<le> rr_OrdersPerSec req \<and> rr_OrdersPerSec req \<le> panelMaxOrdersPerSec \<and>
     1 \<le> rr_DurationSec req \<and> rr_DurationSec req \<le> panelMaxDurationSec"

lemma with_defaults_simps:
  "rr_TeamID (with_defaults req) = (if rr_TeamID req = [] then ''local'' else rr_TeamID req)"
  "rr_EngineMode (with_defaults req) = (if rr_EngineMode req = [] then DefaultEngineMode else rr_EngineMode req)"
  "rr_BotCount (with_defaults req) = (if rr_BotCount req = 0 then DefaultBotCount else rr_BotCount req)"
  "rr_OrdersPerSec (with_defaults req) = (if rr_OrdersPerSec req = 0 then DefaultOrdersPerSec else rr_OrdersPerSec req)"
  "rr_DurationSec (with_defaults req) = (if rr_DurationSec req = 0 then DefaultDurationSec else rr_DurationSec req)"
  "rr_Seed (with_defaults req) = (if rr_Seed req = 0 then DefaultSeed else rr_Seed req)"
  by (simp_all add: with_defaults_def Let_def)

lemma NormalizeRequest_eq:
  "NormalizeRequest req =
     (let d = with_defaults req in
      if rr_EngineMode d \<noteq> ''normal'' \<and> rr_EngineMode d \<noteq> ''broken-price-time-priority''
      then Inl ''engine_mode must be normal or broken-price-time-priority''
      else if rr_BotCount d < 1 then Inl ''bot_count must be greater than zero''
      else if rr_OrdersPerSec d < 1 then Inl ''orders_per_sec must be greater than zero''
      else if rr_DurationSec d < 1 then Inl ''duration_sec must be greater than zero''
      else Inr (d\<lparr>rr_BotCount := min (rr_BotCount d) panelMaxBotCount,
                  rr_OrdersPerSec := min (rr_OrdersPerSec d) panelMaxOrdersPerSec,
                  rr_DurationSec := min (rr_DurationSec d) panelMaxDurationSec\<rparr>))"
proof -
  obtain t e n o' d s where w: "with_defaults req = \<lparr>rr_TeamID = t, rr_EngineMode = e, rr_BotCount = n,
    rr_OrdersPerSec = o', rr_DurationSec = d, rr_Seed = s\<rparr>" by (metis RunRequest.cases)
  show ?thesis by (simp add: NormalizeRequest_def Let_def w min_def)
qed

lemma NormalizeRequest_ok:
  assumes "NormalizeRequest req = Inr req'"
  shows "panel_load_ok req'"
proof -
  define d where "d = with_defaults req"
  have d: "rr_TeamID d \<noteq> []" "rr_Seed d \<noteq> 0"
    by (simp_all add: d_def with_defaults_simps DefaultSeed_def)
  have m: "rr_EngineMode d = ''normal'' \<or> rr_EngineMode d = ''broken-price-time-priority''"
      "1 \<le> rr_BotCount d" "1 \<le> rr_OrdersPerSec d" "1 \<le> rr_DurationSec d"
    and req': "req' = d\<lparr>rr_BotCount := min (rr_BotCount d) panelMaxBotCount,
       rr_OrdersPerSec := min (rr_OrdersPerSec d) panelMaxOrdersPerSec,
       rr_DurationSec := min (rr_DurationSec d) panelMaxDurationSec\<rparr>"
    using assms unfolding NormalizeRequest_eq d_def [symmetric] Let_def
    by (auto simp: not_less split: if_splits)
  show ?thesis using d m
    by (simp add: req' panel_load_ok_def panelMaxBotCount_def panelMaxOrdersPerSec_def panelMaxDurationSec_def)
qed

lemma NormalizeRequest_id:
  assumes "panel_load_ok req"
  shows "NormalizeRequest req = Inr req"
proof -
  have w: "with_defaults req = req"
    using assms by (simp add: with_defaults_def panel_load_ok_def)
      (metis list.distinct(1) not_one_le_zero)
  have "req\<lparr>rr_BotCount := rr_BotCount req, rr_OrdersPerSec := rr_OrdersPerSec req,
      rr_DurationSec := rr_DurationSec req\<rparr> = req" by simp
  then show ?thesis using assms
    unfolding NormalizeRequest_eq Let_def w by (simp add: panel_load_ok_def not_less)
qed

text \<open>Exactly the requests that name an unknown engine or a negative load are refused.\<close>

lemma NormalizeRequest_refused:
  "(\<exists>e. NormalizeRequest req = Inl e) \<longleftrightarrow>
     rr_EngineMode req \<notin> {[], ''normal'', ''broken-price-time-priority''} \<or>
     rr_BotCount req < 0 \<or> rr_OrdersPerSec req < 0 \<or> rr_DurationSec req < 0"
  by (simp add: NormalizeRequest_eq Let_def with_defaults_simps DefaultEngineMode_def DefaultBotCount_def
      DefaultOrdersPerSec_def DefaultDurationSec_def)

section \<open>The score\<close>

definition cp_round2 :: "f64 \<Rightarrow> f64" where
  "cp_round2 value = f_div (math_Round (f_mul value (Fin 100))) (Fin 100)"

definition cp_latencyFloorMS :: f64 where "cp_latencyFloorMS = binary64 (1 / 10)"
definition cp_latencyCapMS :: f64 where "cp_latencyCapMS = binary64 50"

definition cp_latencyScore :: "(f64 \<Rightarrow> f64) \<Rightarrow> f64 \<Rightarrow> f64" where
  "cp_latencyScore Log10 p99MS =
     (if IsNaN p99MS \<or> IsInf p99MS then Fin 0
      else if f_le p99MS (Fin 0) then Fin 0
      else if f_le p99MS cp_latencyFloorMS then Fin 100
      else if f_le cp_latencyCapMS p99MS then Fin 0
      else
        let num = f_sub (Log10 cp_latencyCapMS) (Log10 p99MS);
            den = f_sub (Log10 cp_latencyCapMS) (Log10 cp_latencyFloorMS)
        in cp_round2 (f_div (f_mul (Fin 100) num) den))"

definition cp_throughputScore :: "f64 \<Rightarrow> int \<Rightarrow> f64" where
  "cp_throughputScore tps expected =
     (if IsNaN tps \<or> IsInf tps then Fin 0
      else if expected \<le> 0 then Fin 100
      else
        let score = f_div (f_mul (Fin 100) tps) (float64 expected);
            score = (if f_less (Fin 100) score then Fin 100 else score);
            score = (if f_less score (Fin 0) then Fin 0 else score)
        in cp_round2 score)"

definition cp_resourceScore :: "f64 \<Rightarrow> f64 \<Rightarrow> f64" where
  "cp_resourceScore cpuPct memMB =
     (if IsNaN cpuPct \<or> IsInf cpuPct then Fin 100
      else if f_le cpuPct (Fin 0) then Fin 100
      else
        let cpu = math_Min cpuPct (Fin 100);
            mem = memMB;
            mem = (if IsNaN mem \<or> IsInf mem then Fin 0 else mem);
            mem = (if f_less mem (Fin 0) then Fin 0 else mem);
            cpuPenalty = f_mul (math_Max (f_sub cpu (Fin 50)) (Fin 0)) (binary64 (3 / 2));
            memPenalty = f_mul (math_Max (f_sub mem (Fin 512)) (Fin 0)) (binary64 (1 / 20));
            score = f_sub (f_sub (Fin 100) cpuPenalty) memPenalty;
            score = (if f_less score (Fin 0) then Fin 0 else score);
            score = (if f_less (Fin 100) score then Fin 100 else score)
        in cp_round2 score)"

definition cp_stabilityScore :: "int \<Rightarrow> int \<Rightarrow> int \<Rightarrow> f64" where
  "cp_stabilityScore ordersSent timeouts connectErrors =
     (if ordersSent \<le> 0 then (if connectErrors > 0 then Fin 0 else Fin 100)
      else
        let failed = wrap64 (timeouts + connectErrors);
            score = f_mul (Fin 100) (f_sub (Fin 1) (f_div (float64 failed) (float64 ordersSent)));
            score = (if f_less score (Fin 0) then Fin 0 else score)
        in cp_round2 score)"

definition cp_completionFraction :: "int \<Rightarrow> int \<Rightarrow> int \<Rightarrow> f64" where
  "cp_completionFraction ordersSent timeouts connectErrors =
     (if ordersSent \<le> 0 then Fin 0
      else
        let c = f_sub (Fin 1) (f_div (float64 (wrap64 (timeouts + connectErrors))) (float64 ordersSent));
            c = (if f_less c (Fin 0) then Fin 0 else c);
            c = (if f_less (Fin 1) c then Fin 1 else c)
        in c)"

definition CalculateScore :: "(f64 \<Rightarrow> f64) \<Rightarrow> PanelRun \<Rightarrow> ScoreResult" where
  "CalculateScore Log10 r =
     (let valid = (pn_Valid r = Some True);
          result = \<lparr>sr_RunID = pn_RunID r, sr_Score = Fin 0, sr_Valid = valid, sr_LatencyScore = Fin 0,
            sr_ThroughputScore = Fin 0, sr_StabilityScore = Fin 0, sr_ResourceScore = Fin 0,
            sr_CorrectnessGate = ''passed'', sr_FailureReason = []\<rparr>;
          failed = result\<lparr>sr_Valid := False, sr_CorrectnessGate := ''failed''\<rparr>
      in if \<not> valid then
           let reason = (case pn_Validation r of None \<Rightarrow> [] | Some v \<Rightarrow> vr_Reason v)
           in failed\<lparr>sr_FailureReason := if reason = [] then ''validation failed'' else reason\<rparr>
         else case pn_Metrics r of
           None \<Rightarrow> failed\<lparr>sr_FailureReason := ''metrics missing''\<rparr>
         | Some m \<Rightarrow>
             if px_OrdersSent m \<le> 0 then failed\<lparr>sr_FailureReason := ''no benchmark orders produced''\<rparr>
             else
               let latency = cp_latencyScore Log10 (px_P99MS m);
                   throughput = cp_throughputScore (px_TPS m) (wrap64 (pn_BotCount r * pn_OrdersPerSec r));
                   stability = cp_stabilityScore (px_OrdersSent m) (px_Timeouts m) (px_ConnectErrors m);
                   resource = cp_resourceScore (Fin 0) (Fin 0);
                   completion = cp_completionFraction (px_OrdersSent m) (px_Timeouts m) (px_ConnectErrors m);
                   factor = math_Min (f_div completion (binary64 (1 / 2))) (Fin 1);
                   latency = cp_round2 (f_mul latency factor)
               in result\<lparr>sr_LatencyScore := latency, sr_ThroughputScore := throughput,
                    sr_StabilityScore := stability, sr_ResourceScore := resource,
                    sr_Score := cp_round2 (f_add (f_add (f_add
                      (f_mul (binary64 (2 / 5)) latency)
                      (f_mul (binary64 (3 / 10)) throughput))
                      (f_mul (binary64 (1 / 5)) stability))
                      (f_mul (binary64 (1 / 10)) resource))\<rparr>)"

lemma cp_formulas:
  "cp_round2 v = round2 v" "cp_latencyScore Log10 p = latencyScore Log10 p"
  "cp_throughputScore tps e = throughputScore tps e" "cp_stabilityScore n t c = stabilityScore n t c"
  "cp_resourceScore cpu mem = resourceScore cpu mem" "cp_completionFraction n t c = completionFraction n t c"
proof -
  show r: "cp_round2 v = round2 v" for v by (simp add: cp_round2_def round2_def)
  show "cp_latencyScore Log10 p = latencyScore Log10 p"
    unfolding cp_latencyScore_def latencyScore_def r cp_latencyFloorMS_def cp_latencyCapMS_def
      latencyFloorMS_def latencyCapMS_def by (rule refl)
  show "cp_throughputScore tps e = throughputScore tps e"
    unfolding cp_throughputScore_def throughputScore_def clamp_high_def clamp_low_def Let_def r by (rule refl)
  show "cp_stabilityScore n t c = stabilityScore n t c"
    unfolding cp_stabilityScore_def stabilityScore_def clamp_low_def Let_def r by (rule refl)
  show "cp_resourceScore cpu mem = resourceScore cpu mem"
    unfolding cp_resourceScore_def resourceScore_def clamp_high_def clamp_low_def Let_def r by (rule refl)
  show "cp_completionFraction n t c = completionFraction n t c"
    unfolding cp_completionFraction_def completionFraction_def clamp_low_def Let_def by (rule refl)
qed

text \<open>The panel's view of an orchestrator run; its metrics have no resource sample.\<close>

definition panel_metrics :: "Metrics \<Rightarrow> PanelMetrics" where
  "panel_metrics m = \<lparr>px_RunID = mt_RunID m, px_Bots = mt_Bots m, px_OrdersSent = mt_OrdersSent m,
     px_AcksReceived = mt_AcksReceived m, px_FillsReceived = mt_FillsReceived m, px_Timeouts = mt_Timeouts m,
     px_ConnectErrors = mt_ConnectErrors m, px_TPS = mt_TPS m, px_P50MS = mt_P50MS m, px_P90MS = mt_P90MS m,
     px_P99MS = mt_P99MS m, px_EventsOut = mt_EventsOut m, px_OutputsOut = mt_OutputsOut m,
     px_RawOutput = mt_RawOutput m\<rparr>"

definition unsampled :: "Metrics \<Rightarrow> Metrics" where
  "unsampled m = m\<lparr>mt_CPUPctPeak := Fin 0, mt_MemMBPeak := Fin 0\<rparr>"

definition scored_by_panel :: "PanelRun \<Rightarrow> BenchmarkRun \<Rightarrow> Metrics option \<Rightarrow> ValidationResult option \<Rightarrow> bool" where
  "scored_by_panel r run metrics validation \<longleftrightarrow> pn_RunID r = br_RunID run \<and>
     pn_BotCount r = bc_BotCount (br_Config run) \<and> pn_OrdersPerSec r = bc_RatePerBot (br_Config run) \<and>
     pn_Metrics r = map_option panel_metrics metrics \<and> pn_Validation r = validation \<and>
     pn_Valid r = map_option vr_Valid validation"

lemma CalculateScore_agrees:
  assumes "scored_by_panel r run metrics validation"
  shows "CalculateScore Log10 r =
    (fst (Score Log10 disk_ok run (map_option unsampled metrics) validation))\<lparr>sr_RunID := br_RunID run\<rparr>"
proof (cases validation)
  case None
  then show ?thesis using assms
    by (simp add: scored_by_panel_def CalculateScore_def Score_def noScore_def writeScore_def Let_def)
next
  case (Some v)
  show ?thesis
  proof (cases "vr_Valid v \<and> metrics \<noteq> None")
    case False
    then show ?thesis using assms Some
      by (auto simp: scored_by_panel_def CalculateScore_def Score_def noScore_def writeScore_def Let_def)
  next
    case True
    then obtain m where "vr_Valid v" "metrics = Some m" by auto
    then show ?thesis using assms Some
      by (simp add: scored_by_panel_def CalculateScore_def Score_def noScore_def writeScore_def Let_def
          panel_metrics_def unsampled_def cp_formulas weighted_score_def)
  qed
qed

definition panel_of :: "BenchmarkRun \<Rightarrow> Metrics option \<Rightarrow> ValidationResult option \<Rightarrow> PanelRun" where
  "panel_of run metrics validation =
     \<lparr>pn_RunID = br_RunID run, pn_TeamID = br_TeamID run, pn_Status = StatusScoring, pn_EngineMode = ''normal'',
      pn_BotCount = bc_BotCount (br_Config run), pn_OrdersPerSec = bc_RatePerBot (br_Config run),
      pn_DurationSec = bc_DurationSec (br_Config run), pn_Seed = br_BenchmarkSeed run,
      pn_ArtifactDir = br_ArtifactDir run, pn_StartedAt = br_CreatedAt run, pn_UpdatedAt = br_UpdatedAt run,
      pn_FinishedAt = None, pn_Valid = map_option vr_Valid validation, pn_Score = Fin 0, pn_FailureStage = [],
      pn_FailureReason = [], pn_Metrics = map_option panel_metrics metrics, pn_Validation = validation\<rparr>"

lemma panel_of_scored: "scored_by_panel (panel_of run metrics validation) run metrics validation"
  by (simp add: scored_by_panel_def panel_of_def)

section \<open>The store\<close>

text \<open>
  The file holds a list of runs; in memory it is a map from ids, kept here as a list with
  distinct ids.  A list read with the same id twice keeps the later run, a run without an id is
  dropped.  The order in which Go iterates over a map and sorts equal start times is left open:
  \<open>srt\<close> gives the order, and locale \<open>panel_sorter\<close> is what the code relies on.
\<close>

datatype panel_file = PanelMissing | PanelEmpty | PanelCorrupt | PanelRuns "PanelRun list"

datatype panel_error = PanelNotFound | PanelIO

definition panel_cloneRun :: "PanelRun \<Rightarrow> PanelRun" where "panel_cloneRun r = r"

fun put_run :: "PanelRun \<Rightarrow> PanelRun list \<Rightarrow> PanelRun list" where
  "put_run r [] = [r]"
| "put_run r (x # xs) = (if pn_RunID x = pn_RunID r then r # xs else x # put_run r xs)"

definition get_run :: "string \<Rightarrow> PanelRun list \<Rightarrow> PanelRun option" where
  "get_run rid rs = find (\<lambda>r. pn_RunID r = rid) rs"

definition index_runs :: "PanelRun list \<Rightarrow> PanelRun list" where
  "index_runs rs = fold (\<lambda>r m. if pn_RunID r \<noteq> [] then put_run r m else m) rs []"

definition panel_loadLocked :: "StoreIO \<Rightarrow> panel_file \<Rightarrow> panel_error + PanelRun list" where
  "panel_loadLocked io f =
     (case f of
        PanelMissing \<Rightarrow> Inr []
      | PanelEmpty \<Rightarrow> if io_read io then Inr [] else Inl PanelIO
      | PanelCorrupt \<Rightarrow> Inl PanelIO
      | PanelRuns rs \<Rightarrow> if io_read io then Inr (index_runs rs) else Inl PanelIO)"

definition panel_writeLocked :: "(PanelRun list \<Rightarrow> PanelRun list) \<Rightarrow> StoreIO \<Rightarrow> PanelRun list \<Rightarrow> panel_file \<Rightarrow>
    panel_file \<times> panel_error option" where
  "panel_writeLocked srt io runs f =
     (if \<not> io_mkdir io then (f, Some PanelIO)
      else let lst = srt (map panel_cloneRun runs) in
        if \<not> io_write io then (f, Some PanelIO)
        else if \<not> io_rename io then (f, Some PanelIO)
        else (PanelRuns lst, None))"

definition panel_Save :: "(PanelRun list \<Rightarrow> PanelRun list) \<Rightarrow> StoreIO \<Rightarrow> PanelRun \<Rightarrow> panel_file \<Rightarrow>
    panel_file \<times> panel_error option" where
  "panel_Save srt io r f =
     (case panel_loadLocked io f of
        Inl e \<Rightarrow> (f, Some e)
      | Inr runs \<Rightarrow>
          if (case get_run (pn_RunID r) runs of None \<Rightarrow> False
              | Some existing \<Rightarrow> IsTerminal (pn_Status existing) \<and> IsTerminal (pn_Status r) \<and>
                  pn_Status existing \<noteq> pn_Status r)
          then (f, None)
          else panel_writeLocked srt io (put_run (panel_cloneRun r) runs) f)"

definition panel_Get :: "StoreIO \<Rightarrow> string \<Rightarrow> panel_file \<Rightarrow> panel_error + PanelRun" where
  "panel_Get io rid f =
     (case panel_loadLocked io f of
        Inl e \<Rightarrow> Inl e
      | Inr runs \<Rightarrow> (case get_run rid runs of None \<Rightarrow> Inl PanelNotFound | Some r \<Rightarrow> Inr (panel_cloneRun r)))"

definition panel_List :: "(PanelRun list \<Rightarrow> PanelRun list) \<Rightarrow> StoreIO \<Rightarrow> panel_file \<Rightarrow> panel_error + PanelRun list" where
  "panel_List srt io f =
     (case panel_loadLocked io f of Inl e \<Rightarrow> Inl e | Inr runs \<Rightarrow> Inr (srt (map panel_cloneRun runs)))"

locale panel_sorter =
  fixes srt :: "PanelRun list \<Rightarrow> PanelRun list"
  assumes srt_mset: "mset (srt rs) = mset rs"
    and srt_sorted: "sorted_wrt (\<lambda>a b. pn_StartedAt b \<le> pn_StartedAt a) (srt rs)"
begin

lemma srt_set: "set (srt rs) = set rs"
  using srt_mset by (metis set_mset_mset)

lemma srt_ids: "distinct (map pn_RunID (srt rs)) = distinct (map pn_RunID rs)"
  using srt_mset by (metis mset_eq_imp_distinct_iff mset_map)

end

definition newest_first :: "PanelRun list \<Rightarrow> PanelRun list" where
  "newest_first rs = sort_key (\<lambda>r. - pn_StartedAt r) rs"

interpretation newest: panel_sorter newest_first
proof
  fix rs
  show "mset (newest_first rs) = mset rs" by (simp add: newest_first_def)
  have "sorted (map (\<lambda>r. - pn_StartedAt r) (newest_first rs))" by (simp add: newest_first_def)
  then show "sorted_wrt (\<lambda>a b. pn_StartedAt b \<le> pn_StartedAt a) (newest_first rs)"
    by (simp add: sorted_wrt_map)
qed

lemma panel_cloneRun_simps [simp]: "panel_cloneRun r = r" "map panel_cloneRun rs = rs"
  by (simp_all add: panel_cloneRun_def map_idI)

text \<open>A map read from the file has distinct, non-empty ids.\<close>

definition run_map :: "PanelRun list \<Rightarrow> bool" where
  "run_map rs \<longleftrightarrow> distinct (map pn_RunID rs) \<and> [] \<notin> pn_RunID ` set rs"

lemma put_run_ids: "pn_RunID ` set (put_run r rs) = insert (pn_RunID r) (pn_RunID ` set rs)"
  by (induction rs) auto

lemma put_run_distinct: "distinct (map pn_RunID rs) \<Longrightarrow> distinct (map pn_RunID (put_run r rs))"
proof (induction rs)
  case (Cons x xs)
  have "pn_RunID x \<notin> set (map pn_RunID (put_run r xs))" if "pn_RunID x \<noteq> pn_RunID r"
    using Cons.prems put_run_ids [of r xs] that by auto
  then show ?case using Cons by auto
qed simp

lemma put_run_map: "run_map rs \<Longrightarrow> pn_RunID r \<noteq> [] \<Longrightarrow> run_map (put_run r rs)"
  by (auto simp: run_map_def put_run_distinct put_run_ids)

lemma index_runs_map: "run_map (index_runs rs)"
proof -
  have "run_map m \<Longrightarrow> run_map (fold (\<lambda>r m. if pn_RunID r \<noteq> [] then put_run r m else m) rs m)" for m
    by (induction rs arbitrary: m) (auto simp: put_run_map)
  then show ?thesis by (simp add: index_runs_def run_map_def)
qed

lemma get_put_run: "get_run rid (put_run r rs) = (if rid = pn_RunID r then Some r else get_run rid rs)"
  by (induction rs) (auto simp: get_run_def)

lemma get_run_iff:
  assumes "distinct (map pn_RunID rs)"
  shows "get_run rid rs = Some r \<longleftrightarrow> r \<in> set rs \<and> pn_RunID r = rid"
  using assms by (induction rs) (auto simp: get_run_def rev_image_eqI)

lemma index_runs_same: "run_map rs \<Longrightarrow> set (index_runs rs) = set rs \<and> mset (index_runs rs) = mset rs"
proof -
  have put: "pn_RunID r \<notin> pn_RunID ` set m \<Longrightarrow> put_run r m = m @ [r]" for r m
    by (induction m) auto
  have "run_map (m @ rs) \<Longrightarrow> fold (\<lambda>r m. if pn_RunID r \<noteq> [] then put_run r m else m) rs m = m @ rs" for m
  proof (induction rs arbitrary: m)
    case (Cons r rs)
    then have "pn_RunID r \<notin> pn_RunID ` set m" "pn_RunID r \<noteq> []" by (auto simp: run_map_def image_iff)
    then show ?case using Cons.IH [of "m @ [r]"] Cons.prems by (simp add: put)
  qed simp
  from this [of "[]"] show "run_map rs \<Longrightarrow> set (index_runs rs) = set rs \<and> mset (index_runs rs) = mset rs"
    by (simp add: index_runs_def)
qed

lemma get_run_mset:
  assumes "mset rs = mset rs'" "distinct (map pn_RunID rs)"
  shows "get_run rid rs = get_run rid rs'"
proof -
  have d: "distinct (map pn_RunID rs')" using assms by (metis mset_eq_imp_distinct_iff mset_map)
  have "set rs = set rs'" using assms(1) by (metis set_mset_mset)
  then show ?thesis using get_run_iff [OF assms(2)] get_run_iff [OF d] by (metis option.exhaust)
qed

context panel_sorter
begin

lemma read_back:
  assumes "run_map rs"
  shows "get_run rid (index_runs (srt rs)) = get_run rid rs"
proof -
  have "run_map (srt rs)" using assms srt_ids srt_set by (simp add: run_map_def)
  then have "mset (index_runs (srt rs)) = mset rs" using index_runs_same srt_mset by metis
  then show ?thesis using assms by (metis get_run_mset run_map_def)
qed

text \<open>What a successful save makes of the store, through any later read.\<close>

lemma Save_then_Get:
  assumes "panel_Save srt io r f = (f', None)" "io_read io'" "pn_RunID r \<noteq> []"
    "panel_loadLocked io f = Inr runs"
  shows "(case panel_Get io' rid f' of
      Inr x \<Rightarrow> (if rid = pn_RunID r \<and> f' \<noteq> f then x = r else get_run rid runs = Some x)
    | Inl e \<Rightarrow> e = PanelNotFound \<and> rid \<noteq> pn_RunID r \<and> get_run rid runs = None) \<or> f' = f"
proof (cases "f' = f")
  case False
  have rm: "run_map runs"
    using assms(4) index_runs_map
    by (auto simp: panel_loadLocked_def run_map_def split: panel_file.splits if_splits)
  have "f' = PanelRuns (srt (put_run r runs))"
    using assms(1,4) False
    by (auto simp: panel_Save_def panel_writeLocked_def panel_cloneRun_def Let_def split: if_splits)
  moreover have "get_run rid (index_runs (srt (put_run r runs))) = get_run rid (put_run r runs)"
    using put_run_map [OF rm assms(3)] by (rule read_back)
  ultimately show ?thesis
    using assms(2) False
    by (auto simp: panel_Get_def panel_loadLocked_def get_put_run panel_cloneRun_def split: option.split)
qed simp

end

section \<open>The validator\<close>

text \<open>
  Unlike the orchestrator's, this client of the validator refuses a valid verdict from a
  validator that failed.
\<close>

definition panel_Validator_Run :: "Machine \<Rightarrow> string \<Rightarrow> PanelRun \<Rightarrow> files \<Rightarrow> files \<times> (string + ValidationResult)" where
  "panel_Validator_Run M repoRoot r fs =
     (let dir = pn_ArtifactDir r; log = path_Join [dir, ''run.log''];
          (fs, output) =
            (if mc_writable M log
             then mc_run M repoRoot ''cargo''
               [''run'', ''-p'', ''validator'', ''--'',
                ''--events'', path_Join [dir, ''events.jsonl''],
                ''--contestant-outputs'', path_Join [dir, ''contestant_outputs.jsonl'']] fs
             else (fs, \<lparr>co_Stdout = [], co_Err = Some (''open '' @ log)\<rparr>));
          stdout = TrimSpace (co_Stdout output)
      in if stdout = [] then
           (fs, Inl (case co_Err output of Some e \<Rightarrow> ''validator failed: '' @ e | None \<Rightarrow> ''validator produced no JSON''))
         else case WriteFile M (path_Join [dir, ''validation.json'']) (stdout @ [CHR 0x0A]) fs of
           (fs, Some e) \<Rightarrow> (fs, Inl e)
         | (fs, None) \<Rightarrow>
             (case parseValidation M stdout of
                Inl e \<Rightarrow> (fs, Inl (case co_Err output of Some x \<Rightarrow> ''validator failed: '' @ x @ '': '' @ e | None \<Rightarrow> e))
              | Inr v \<Rightarrow>
                  let v = (if vr_RunID v = [] then v\<lparr>vr_RunID := pn_RunID r\<rparr> else v) in
                  (case co_Err output of
                     Some x \<Rightarrow> if vr_Valid v then (fs, Inl (''validator failed despite valid result: '' @ x)) else (fs, Inr v)
                   | None \<Rightarrow> (fs, Inr v))))"

lemma panel_refuses_failed_validator:
  assumes "panel_Validator_Run M repo r fs = (fs', Inr v)" "vr_Valid v"
    and "mc_writable M (path_Join [pn_ArtifactDir r, ''run.log''])"
  shows "\<exists>args fs1 out. mc_run M repo ''cargo'' args fs = (fs1, out) \<and> co_Err out = None"
  using assms by (auto simp: panel_Validator_Run_def Let_def split: prod.splits if_splits option.splits sum.splits)

text \<open>The orchestrator's client takes the same verdict from a validator that exited with an error.\<close>

lemma orchestrator_trusts_failed_validator:
  "\<exists>M :: Machine. \<exists>fs'. (\<forall>dir name args fs. co_Err (snd (mc_run M dir name args fs)) = Some ''signal: killed'') \<and>
     Validator_Run M ''/p'' run fs = (fs', Inr \<lparr>vr_RunID = ''r'', vr_Valid = True, vr_FillsChecked = 0,
       vr_Reason = [], vr_FirstBadSeq = 0\<rparr>)"
proof -
  let ?M = "\<lparr>mc_Getenv = (\<lambda>_. ''x''), mc_exists = (\<lambda>_. True), mc_writable = (\<lambda>_. True),
    mc_run = (\<lambda>_ _ _ fs. (fs, \<lparr>co_Stdout = ''x'', co_Err = Some ''signal: killed''\<rparr>)), mc_metrics = (\<lambda>_. None),
    mc_output = (\<lambda>_. None), mc_validation = (\<lambda>_. Some [(''run_id'', JString ''r''), (''valid'', JBool True)]),
    mc_sample = (\<lambda>_. None)\<rparr>"
  show ?thesis
    by (intro exI [of _ ?M] exI conjI) (simp_all add: Validator_Run_def tool_command_def runLoggedCommand_def
      TrimSpace_def is_space_def WriteFile_def parseValidation_def Let_def)
qed

section \<open>The handlers\<close>

datatype panel_body = PanelOk | PanelRun1 PanelRun | PanelRunList "PanelRun list" | PanelText string
  | PanelArtifacts "(string \<times> string) list" | PanelErrorBody string

fun panel_error_string :: "panel_error \<Rightarrow> string" where
  "panel_error_string PanelNotFound = ''run not found''"
| "panel_error_string PanelIO = ''store i/o error''"

definition panel_handleStoreError :: "panel_error \<Rightarrow> panel_body response" where
  "panel_handleStoreError err =
     \<lparr>rp_status = (if err = PanelNotFound then StatusNotFound else StatusInternalServerError),
      rp_body = PanelErrorBody (panel_error_string err)\<rparr>"

definition panel_ListRuns :: "panel_error + PanelRun list \<Rightarrow> panel_body response" where
  "panel_ListRuns r = (case r of
     Inl e \<Rightarrow> \<lparr>rp_status = StatusInternalServerError, rp_body = PanelErrorBody (panel_error_string e)\<rparr>
   | Inr runs \<Rightarrow> \<lparr>rp_status = StatusOK, rp_body = PanelRunList runs\<rparr>)"

definition panel_GetRun :: "panel_error + PanelRun \<Rightarrow> panel_body response" where
  "panel_GetRun r = (case r of Inl e \<Rightarrow> panel_handleStoreError e
   | Inr run \<Rightarrow> \<lparr>rp_status = StatusOK, rp_body = PanelRun1 run\<rparr>)"

definition panel_GetLogs :: "panel_error + PanelRun \<Rightarrow> files \<Rightarrow> panel_body response" where
  "panel_GetLogs r fs = (case r of
     Inl e \<Rightarrow> panel_handleStoreError e
   | Inr run \<Rightarrow> (case fs (path_Join [pn_ArtifactDir run, ''run.log'']) of
       None \<Rightarrow> \<lparr>rp_status = StatusNotFound, rp_body = PanelErrorBody ''open run.log''\<rparr>
     | Some data \<Rightarrow> \<lparr>rp_status = StatusOK, rp_body = PanelText data\<rparr>))"

text \<open>The directory listing is names with a flag for directories; sizes and times are left out.\<close>

definition panel_GetArtifacts :: "panel_error + PanelRun \<Rightarrow> (string \<times> bool) list option \<Rightarrow> panel_body response" where
  "panel_GetArtifacts r entries = (case r of
     Inl e \<Rightarrow> panel_handleStoreError e
   | Inr run \<Rightarrow> (case entries of
       None \<Rightarrow> \<lparr>rp_status = StatusNotFound, rp_body = PanelErrorBody ''open artifact dir''\<rparr>
     | Some es \<Rightarrow> \<lparr>rp_status = StatusOK, rp_body = PanelArtifacts
         (map (\<lambda>(name, _). (name, path_Join [pn_ArtifactDir run, name]))
           (filter (\<lambda>(name, is_dir). \<not> is_dir \<and> \<not> HasPrefix name ''.'') es))\<rparr>))"

text \<open>The body is cut at 64 KiB; the created run is read back from the store.\<close>

definition panel_handle_CreateRun :: "(string \<Rightarrow> RunRequest option) \<Rightarrow> string \<Rightarrow> (RunRequest \<Rightarrow> string + PanelRun) \<Rightarrow>
    (string \<Rightarrow> panel_error + PanelRun) \<Rightarrow> panel_body response" where
  "panel_handle_CreateRun decode body create get =
     (case decode (take 65536 body) of
        None \<Rightarrow> \<lparr>rp_status = StatusBadRequest, rp_body = PanelErrorBody ''invalid json''\<rparr>
      | Some req \<Rightarrow> (case create req of
          Inl e \<Rightarrow> \<lparr>rp_status = StatusBadRequest, rp_body = PanelErrorBody e\<rparr>
        | Inr br \<Rightarrow> \<lparr>rp_status = StatusAccepted,
            rp_body = PanelRun1 (case get (pn_RunID br) of Inr snapshot \<Rightarrow> snapshot | Inl _ \<Rightarrow> br)\<rparr>))"

definition panel_handle_CancelRun :: "panel_error + PanelRun \<Rightarrow> panel_body response" where
  "panel_handle_CancelRun r = (case r of Inl e \<Rightarrow> panel_handleStoreError e
   | Inr run \<Rightarrow> \<lparr>rp_status = StatusOK, rp_body = PanelRun1 run\<rparr>)"

definition panel_RequireServiceAuth :: "(http_request \<Rightarrow> 'a) \<Rightarrow> 'a \<Rightarrow> string \<Rightarrow> http_request \<Rightarrow> 'a" where
  "panel_RequireServiceAuth next unauthorized token r =
     (if TrimSpace token = [] then next r
      else if hr_Method r = ''GET'' \<and> hr_Path r = ''/health'' then next r
      else if bearer_ok token (hr_Authorization r) then next r
      else unauthorized)"

end
