(* ===== verification/PanelManager.thy ===== *)
theory PanelManager
  imports Panel
begin

text \<open>
  The run manager of the control panel, \<^verbatim>\<open>services/control-panel/internal/run/manager.go\<close>: the
  goroutine of a run as a step function over its program points, and the manager that admits,
  cancels and shuts down runs around any number of them.  A step does at most one operation on
  the store, so that other goroutines can act between any two.
\<close>

section \<open>A run's goroutine\<close>

datatype panel_stage =
    QStarting | QEngine | QHealth | QBenchmarking | QBots | QMetrics | QValidating | QValidator
  | QScoring | QScore | QRecheck | QFinish | QFail string string | QFailSave | QCleanup | QDone

record PanelExec =
  pe_run :: PanelRun
  pe_pc :: panel_stage
  pe_cancelled :: bool
  pe_engine :: engine_state
  pe_deferred :: bool
  pe_endpoint :: string

text \<open>\<open>pe_deferred\<close> says that the cleanup of the engine is registered with \<^verbatim>\<open>defer\<close>.\<close>

record PanelEnv =
  pv_now :: int
  pv_io :: StoreIO
  pv_spec :: "string option"
  pv_start :: "string + string"
  pv_bots :: "string + PanelMetrics option"
  pv_validate :: "string + ValidationResult"
  pv_score :: "string option"

record PanelSetup =
  ps_Log10 :: "f64 \<Rightarrow> f64"
  ps_sort :: "PanelRun list \<Rightarrow> PanelRun list"

definition newPanelExec :: "PanelRun \<Rightarrow> PanelExec" where
  "newPanelExec r = \<lparr>pe_run = r, pe_pc = QStarting, pe_cancelled = False, pe_engine = EngNone,
     pe_deferred = False, pe_endpoint = []\<rparr>"

definition panel_save :: "PanelSetup \<Rightarrow> PanelEnv \<Rightarrow> PanelRun \<Rightarrow> panel_file \<Rightarrow>
    PanelRun \<times> panel_file \<times> string option" where
  "panel_save su env r f =
     (let r = r\<lparr>pn_UpdatedAt := pv_now env\<rparr> in
      case panel_Save (ps_sort su) (pv_io env) r f of
        (f, Some e) \<Rightarrow> (r, f, Some (panel_error_string e))
      | (f, None) \<Rightarrow> (r, f, pv_spec env))"

definition save_as :: "PanelSetup \<Rightarrow> PanelEnv \<Rightarrow> PanelStatus \<Rightarrow> string \<Rightarrow> panel_stage \<Rightarrow> PanelExec \<Rightarrow> panel_file \<Rightarrow>
    PanelExec \<times> panel_file" where
  "save_as su env st stage next x f =
     (case panel_save su env ((pe_run x)\<lparr>pn_Status := st\<rparr>) f of
        (r, f, Some e) \<Rightarrow> (x\<lparr>pe_run := r, pe_pc := QFail stage e\<rparr>, f)
      | (r, f, None) \<Rightarrow> (x\<lparr>pe_run := r, pe_pc := next\<rparr>, f))"

definition failOrCancel :: "int \<Rightarrow> bool \<Rightarrow> string \<Rightarrow> string \<Rightarrow> PanelRun \<Rightarrow> PanelRun" where
  "failOrCancel now cancelled stage err r =
     (let r = (if cancelled
               then r\<lparr>pn_Status := StatusCancelled, pn_FailureStage := stage, pn_FailureReason := ''cancelled''\<rparr>
               else r\<lparr>pn_Status := StatusFailed, pn_FailureStage := stage, pn_FailureReason := err\<rparr>)
      in r\<lparr>pn_FinishedAt := Some now, pn_UpdatedAt := now\<rparr>)"

fun panel_stage_step :: "PanelSetup \<Rightarrow> PanelEnv \<Rightarrow> panel_stage \<Rightarrow> PanelExec \<Rightarrow> panel_file \<Rightarrow>
    PanelExec \<times> panel_file" where
  "panel_stage_step su env QStarting x f = save_as su env StatusStarting ''STARTING_ENGINE'' QEngine x f"
| "panel_stage_step su env QEngine x f =
     (case pv_start env of
        Inl e \<Rightarrow> (x\<lparr>pe_pc := QFail ''STARTING_ENGINE'' e\<rparr>, f)
      | Inr endpoint \<Rightarrow> (x\<lparr>pe_engine := EngUp, pe_endpoint := endpoint, pe_pc := QHealth\<rparr>, f))"
| "panel_stage_step su env QHealth x f =
     (let (x, f) = save_as su env StatusHealthCheck ''STARTING_ENGINE'' QBenchmarking x f
      in (if pe_pc x = QBenchmarking then x\<lparr>pe_deferred := True\<rparr> else x, f))"
| "panel_stage_step su env QBenchmarking x f = save_as su env StatusBenchmarking ''BENCHMARKING'' QBots x f"
| "panel_stage_step su env QBots x f =
     (case pv_bots env of
        Inl e \<Rightarrow> (x\<lparr>pe_pc := QFail ''BENCHMARKING'' e\<rparr>, f)
      | Inr m \<Rightarrow> (x\<lparr>pe_run := (pe_run x)\<lparr>pn_Metrics := m\<rparr>, pe_pc := QMetrics\<rparr>, f))"
| "panel_stage_step su env QMetrics x f =
     save_as su env (pn_Status (pe_run x)) ''SAVING_METRICS'' QValidating x f"
| "panel_stage_step su env QValidating x f = save_as su env StatusValidating ''VALIDATING'' QValidator x f"
| "panel_stage_step su env QValidator x f =
     (case pv_validate env of
        Inl e \<Rightarrow> (x\<lparr>pe_pc := QFail ''VALIDATING'' e\<rparr>, f)
      | Inr v \<Rightarrow> (x\<lparr>pe_run := (pe_run x)\<lparr>pn_Validation := Some v, pn_Valid := Some (vr_Valid v)\<rparr>,
                  pe_pc := QScoring\<rparr>, f))"
| "panel_stage_step su env QScoring x f = save_as su env StatusScoring ''SCORING'' QScore x f"
| "panel_stage_step su env QScore x f =
     (let score = CalculateScore (ps_Log10 su) (pe_run x);
          x = x\<lparr>pe_run := (pe_run x)\<lparr>pn_Score := sr_Score score\<rparr>\<rparr>
      in case pv_score env of
           Some e \<Rightarrow> (x\<lparr>pe_pc := QFail ''SCORING'' e\<rparr>, f)
         | None \<Rightarrow> (x\<lparr>pe_pc := QRecheck\<rparr>, f))"
| "panel_stage_step su env QRecheck x f =
     (if pe_cancelled x then (x\<lparr>pe_pc := QFail ''SCORING'' ''context canceled''\<rparr>, f)
      else (x\<lparr>pe_run := (pe_run x)\<lparr>pn_Status := StatusFinished, pn_FinishedAt := Some (pv_now env),
                pn_UpdatedAt := pv_now env\<rparr>, pe_pc := QFinish\<rparr>, f))"
| "panel_stage_step su env QFinish x f =
     (x\<lparr>pe_pc := QCleanup\<rparr>, fst (panel_Save (ps_sort su) (pv_io env) (pe_run x) f))"
| "panel_stage_step su env (QFail stage err) x f =
     (x\<lparr>pe_run := failOrCancel (pv_now env) (pe_cancelled x) stage err (pe_run x), pe_pc := QFailSave\<rparr>, f)"
| "panel_stage_step su env QFailSave x f =
     (x\<lparr>pe_pc := QCleanup\<rparr>, fst (panel_Save (ps_sort su) (pv_io env) (pe_run x) f))"
| "panel_stage_step su env QCleanup x f =
     (x\<lparr>pe_engine := (if pe_deferred x \<and> pe_engine x = EngUp then EngStopped else pe_engine x), pe_pc := QDone\<rparr>, f)"
| "panel_stage_step su env QDone x f = (x, f)"

datatype panel_happening = PanelStep PanelEnv | PanelCancel | PanelFile panel_file

fun panel_happen :: "PanelSetup \<Rightarrow> panel_happening \<Rightarrow> PanelExec \<times> panel_file \<Rightarrow> PanelExec \<times> panel_file" where
  "panel_happen su (PanelStep env) (x, f) = panel_stage_step su env (pe_pc x) x f"
| "panel_happen su PanelCancel (x, f) = (x\<lparr>pe_cancelled := True\<rparr>, f)"
| "panel_happen su (PanelFile f') (x, f) = (x, f')"

definition panel_execute :: "PanelSetup \<Rightarrow> panel_happening list \<Rightarrow> PanelRun \<Rightarrow> panel_file \<Rightarrow>
    PanelExec \<times> panel_file" where
  "panel_execute su hs r f = fold (panel_happen su) hs (newPanelExec r, f)"

section \<open>The invariant of the goroutine\<close>

definition before_engine :: "panel_stage \<Rightarrow> bool" where
  "before_engine p \<longleftrightarrow> p = QStarting \<or> p = QEngine"

definition scoring_done :: "PanelSetup \<Rightarrow> PanelRun \<Rightarrow> bool" where
  "scoring_done su r \<longleftrightarrow> (\<exists>v. pn_Validation r = Some v \<and> pn_Valid r = Some (vr_Valid v)) \<and>
     pn_Score r = sr_Score (CalculateScore (ps_Log10 su) r)"

definition validated_run :: "PanelRun \<Rightarrow> bool" where
  "validated_run r \<longleftrightarrow> (\<exists>v. pn_Validation r = Some v \<and> pn_Valid r = Some (vr_Valid v))"

text \<open>Where the engine is at each point, and whether somebody will stop it.\<close>

fun engine_ok :: "panel_stage \<Rightarrow> engine_state \<Rightarrow> bool \<Rightarrow> string \<Rightarrow> bool" where
  "engine_ok QStarting e d s = (e = EngNone \<and> \<not> d)"
| "engine_ok QEngine e d s = (e = EngNone \<and> \<not> d)"
| "engine_ok QHealth e d s = (e = EngUp \<and> \<not> d)"
| "engine_ok (QFail stage err) e d s = (e = EngUp \<and> d \<or> e = EngNone \<or> e = EngUp \<and> stage = ''STARTING_ENGINE'')"
| "engine_ok QFailSave e d s = (e = EngUp \<and> d \<or> e = EngNone \<or> e = EngUp \<and> s = ''STARTING_ENGINE'')"
| "engine_ok QCleanup e d s = (e = EngUp \<and> d \<or> e = EngNone \<or> e = EngUp \<and> s = ''STARTING_ENGINE'')"
| "engine_ok QDone e d s = (e = EngStopped \<or> e = EngNone \<or> e = EngUp \<and> \<not> d \<and> s = ''STARTING_ENGINE'')"
| "engine_ok _ e d s = (e = EngUp \<and> d)"

fun run_at :: "PanelSetup \<Rightarrow> panel_stage \<Rightarrow> PanelExec \<Rightarrow> bool" where
  "run_at su QScoring x = validated_run (pe_run x)"
| "run_at su QScore x = validated_run (pe_run x)"
| "run_at su QRecheck x = scoring_done su (pe_run x)"
| "run_at su QFinish x = (pn_Status (pe_run x) = StatusFinished)"
| "run_at su QFailSave x = (pn_Status (pe_run x) \<in> {StatusFailed, StatusCancelled})"
| "run_at su QCleanup x = IsTerminal (pn_Status (pe_run x))"
| "run_at su QDone x = IsTerminal (pn_Status (pe_run x))"
| "run_at su _ x = True"

definition panel_ok :: "PanelSetup \<Rightarrow> PanelExec \<Rightarrow> bool" where
  "panel_ok su x \<longleftrightarrow> engine_ok (pe_pc x) (pe_engine x) (pe_deferred x) (pn_FailureStage (pe_run x)) \<and>
     run_at su (pe_pc x) x \<and>
     (pn_Status (pe_run x) = StatusFinished \<longrightarrow> pe_pc x \<in> {QFinish, QCleanup, QDone} \<and>
        scoring_done su (pe_run x) \<and> pe_engine x \<noteq> EngNone \<and> pe_deferred x)"

lemma CalculateScore_fields:
  "\<lbrakk>pn_RunID r = pn_RunID r'; pn_Valid r = pn_Valid r'; pn_Validation r = pn_Validation r';
    pn_Metrics r = pn_Metrics r'; pn_BotCount r = pn_BotCount r'; pn_OrdersPerSec r = pn_OrdersPerSec r'\<rbrakk>
   \<Longrightarrow> CalculateScore lg r = CalculateScore lg r'"
  by (simp only: CalculateScore_def)

lemma CalculateScore_cong [simp]:
  "CalculateScore lg (r\<lparr>pn_Status := st\<rparr>) = CalculateScore lg r"
  "CalculateScore lg (r\<lparr>pn_UpdatedAt := t\<rparr>) = CalculateScore lg r"
  "CalculateScore lg (r\<lparr>pn_FinishedAt := ft\<rparr>) = CalculateScore lg r"
  "CalculateScore lg (r\<lparr>pn_Score := sc\<rparr>) = CalculateScore lg r"
  by (rule CalculateScore_fields; simp)+

lemma scoring_done_cong [simp]:
  "scoring_done su (r\<lparr>pn_Status := st\<rparr>) = scoring_done su r"
  "scoring_done su (r\<lparr>pn_UpdatedAt := t\<rparr>) = scoring_done su r"
  "scoring_done su (r\<lparr>pn_FinishedAt := ft\<rparr>) = scoring_done su r"
  by (simp_all add: scoring_done_def)

lemma save_as_cases:
  "\<exists>f' e. save_as su env st stage next x f =
     (x\<lparr>pe_run := (pe_run x)\<lparr>pn_Status := st, pn_UpdatedAt := pv_now env\<rparr>,
        pe_pc := (case e of Some msg \<Rightarrow> QFail stage msg | None \<Rightarrow> next)\<rparr>, f')"
  by (auto simp: save_as_def panel_save_def Let_def split: prod.split option.split)

lemma failOrCancel_simps [simp]:
  "pn_Status (failOrCancel now c stage err r) = (if c then StatusCancelled else StatusFailed)"
  "pn_FailureStage (failOrCancel now c stage err r) = stage"
  by (simp_all add: failOrCancel_def Let_def)

lemma panel_ok_new: "pn_Status r \<noteq> StatusFinished \<Longrightarrow> panel_ok su (newPanelExec r)"
  by (simp add: panel_ok_def newPanelExec_def)

lemma panel_ok_save_as:
  assumes "panel_ok su x" "pe_pc x = p" "st \<noteq> StatusFinished" "pn_Status (pe_run x) \<noteq> StatusFinished"
    and "engine_ok (QFail stage []) (pe_engine x) (pe_deferred x) []"
    and "engine_ok next (pe_engine x) (pe_deferred x) (pn_FailureStage (pe_run x))"
    and "run_at su next (x\<lparr>pe_run := (pe_run x)\<lparr>pn_Status := st, pn_UpdatedAt := pv_now env\<rparr>, pe_pc := next\<rparr>)"
  shows "panel_ok su (fst (save_as su env st stage next x f))"
proof -
  obtain f' e where "save_as su env st stage next x f =
     (x\<lparr>pe_run := (pe_run x)\<lparr>pn_Status := st, pn_UpdatedAt := pv_now env\<rparr>,
        pe_pc := (case e of Some msg \<Rightarrow> QFail stage msg | None \<Rightarrow> next)\<rparr>, f')"
    using save_as_cases by blast
  then show ?thesis using assms by (cases e) (auto simp: panel_ok_def)
qed

lemma panel_ok_QHealth:
  assumes "panel_ok su x" "pe_pc x = QHealth"
  shows "panel_ok su (fst (panel_stage_step su env QHealth x f))"
proof -
  obtain f' e where s: "save_as su env StatusHealthCheck ''STARTING_ENGINE'' QBenchmarking x f =
     (x\<lparr>pe_run := (pe_run x)\<lparr>pn_Status := StatusHealthCheck, pn_UpdatedAt := pv_now env\<rparr>,
        pe_pc := (case e of Some msg \<Rightarrow> QFail ''STARTING_ENGINE'' msg | None \<Rightarrow> QBenchmarking)\<rparr>, f')"
    using save_as_cases by blast
  show ?thesis using assms by (cases e) (auto simp: s panel_ok_def)
qed

lemma panel_ok_QScore:
  assumes "panel_ok su x" "pe_pc x = QScore"
  shows "panel_ok su (fst (panel_stage_step su env QScore x f))"
  using assms
  by (auto simp: panel_ok_def Let_def scoring_done_def validated_run_def split: option.split)

lemma panel_ok_step:
  assumes "panel_ok su x"
  shows "panel_ok su (fst (panel_stage_step su env (pe_pc x) x f))"
proof (cases "pe_pc x")
  case QScoring
  have "panel_ok su (fst (save_as su env StatusScoring ''SCORING'' QScore x f))"
    by (rule panel_ok_save_as [OF assms QScoring])
      (use assms QScoring in \<open>auto simp: panel_ok_def validated_run_def\<close>)
  then show ?thesis using QScoring by simp
next
  case QHealth
  then show ?thesis using panel_ok_QHealth [OF assms] by simp
next
  case QScore
  then show ?thesis using panel_ok_QScore [OF assms] by simp
next
  case QStarting
  have "panel_ok su (fst (save_as su env StatusStarting ''STARTING_ENGINE'' QEngine x f))"
    by (rule panel_ok_save_as [OF assms QStarting]) (use assms QStarting in \<open>auto simp: panel_ok_def\<close>)
  then show ?thesis using QStarting by simp
next
  case QBenchmarking
  have "panel_ok su (fst (save_as su env StatusBenchmarking ''BENCHMARKING'' QBots x f))"
    by (rule panel_ok_save_as [OF assms QBenchmarking]) (use assms QBenchmarking in \<open>auto simp: panel_ok_def\<close>)
  then show ?thesis using QBenchmarking by simp
next
  case QMetrics
  have "panel_ok su (fst (save_as su env (pn_Status (pe_run x)) ''SAVING_METRICS'' QValidating x f))"
    by (rule panel_ok_save_as [OF assms QMetrics]) (use assms QMetrics in \<open>auto simp: panel_ok_def\<close>)
  then show ?thesis using QMetrics by simp
next
  case QValidating
  have "panel_ok su (fst (save_as su env StatusValidating ''VALIDATING'' QValidator x f))"
    by (rule panel_ok_save_as [OF assms QValidating]) (use assms QValidating in \<open>auto simp: panel_ok_def\<close>)
  then show ?thesis using QValidating by simp
next
  case QValidator
  then show ?thesis using assms by (auto simp: panel_ok_def validated_run_def split: sum.split)
qed (use assms in \<open>auto simp: panel_ok_def IsTerminal_def split: sum.split\<close>)

section \<open>Every run ends\<close>

fun panel_rank :: "panel_stage \<Rightarrow> nat" where
  "panel_rank QStarting = 14"
| "panel_rank QEngine = 13"
| "panel_rank QHealth = 12"
| "panel_rank QBenchmarking = 11"
| "panel_rank QBots = 10"
| "panel_rank QMetrics = 9"
| "panel_rank QValidating = 8"
| "panel_rank QValidator = 7"
| "panel_rank QScoring = 6"
| "panel_rank QScore = 5"
| "panel_rank QRecheck = 4"
| "panel_rank (QFail _ _) = 3"
| "panel_rank QFinish = 2"
| "panel_rank QFailSave = 2"
| "panel_rank QCleanup = 1"
| "panel_rank QDone = 0"

lemma save_as_pc: "pe_pc (fst (save_as su env st stage next x f)) \<in> {next} \<union> range (QFail stage)"
  using save_as_cases [of su env st stage "next" x f] by (auto split: option.split)

lemma panel_rank_step:
  "panel_rank (pe_pc (fst (panel_stage_step su env (pe_pc x) x f))) \<le> panel_rank (pe_pc x) - 1"
proof (cases "pe_pc x")
  case QHealth
  then show ?thesis using save_as_pc [of su env StatusHealthCheck "''STARTING_ENGINE''" QBenchmarking x f]
    by (auto split: prod.split)
next
  case QStarting
  then show ?thesis using save_as_pc [of su env StatusStarting "''STARTING_ENGINE''" QEngine x f] by auto
next
  case QBenchmarking
  then show ?thesis using save_as_pc [of su env StatusBenchmarking "''BENCHMARKING''" QBots x f] by auto
next
  case QMetrics
  then show ?thesis using save_as_pc [of su env "pn_Status (pe_run x)" "''SAVING_METRICS''" QValidating x f] by auto
next
  case QValidating
  then show ?thesis using save_as_pc [of su env StatusValidating "''VALIDATING''" QValidator x f] by auto
next
  case QScoring
  then show ?thesis using save_as_pc [of su env StatusScoring "''SCORING''" QScore x f] by auto
qed (auto simp: Let_def split: sum.split option.split)

fun panel_steps :: "panel_happening list \<Rightarrow> nat" where
  "panel_steps [] = 0"
| "panel_steps (PanelStep env # hs) = Suc (panel_steps hs)"
| "panel_steps (h # hs) = panel_steps hs"

lemma panel_rank_fold:
  "panel_rank (pe_pc (fst (fold (panel_happen su) hs (x, f)))) \<le> panel_rank (pe_pc x) - panel_steps hs"
proof (induction hs arbitrary: x f)
  case (Cons h hs)
  show ?case
  proof (cases h)
    case (PanelStep env)
    obtain y g where s: "panel_stage_step su env (pe_pc x) x f = (y, g)" by fastforce
    then have "panel_rank (pe_pc y) \<le> panel_rank (pe_pc x) - 1"
      using panel_rank_step [of su env x f] by simp
    then show ?thesis using Cons [of y g] s PanelStep by simp
  next
    case PanelCancel
    then show ?thesis using Cons [of "x\<lparr>pe_cancelled := True\<rparr>" f] by simp
  next
    case (PanelFile f')
    then show ?thesis using Cons [of x f'] by simp
  qed
qed simp

lemma panel_ok_cancel: "panel_ok su x \<Longrightarrow> panel_ok su (x\<lparr>pe_cancelled := True\<rparr>)"
  by (cases "pe_pc x") (simp_all add: panel_ok_def)

lemma panel_ok_fold: "panel_ok su x \<Longrightarrow> panel_ok su (fst (fold (panel_happen su) hs (x, f)))"
proof (induction hs arbitrary: x f)
  case (Cons h hs)
  have "panel_ok su (fst (panel_happen su h (x, f)))"
    using Cons.prems panel_ok_step panel_ok_cancel by (cases h) auto
  then show ?case using Cons.IH by (metis fold_simps(2) prod.collapse)
qed simp

text \<open>
  C25. Every run of the control panel ends: whatever the engine, the bot fleet, the validator and
  the disk do, however the store changes in between and whether or not the run is cancelled, 14
  steps of its goroutine reach the end, where the run is finished, failed or cancelled.  A
  finished run was validated, carries the score the formulas give for it, and its engine is
  stopped.  The engine is left running in one case only: the run failed with stage
  STARTING_ENGINE after the engine was up.
\<close>

theorem panel_run_ends:
  assumes "pn_Status r = StatusQueued" and "14 \<le> panel_steps hs"
    and "panel_execute su hs r f = (x, f')"
  shows "pe_pc x = QDone \<and> IsTerminal (pn_Status (pe_run x)) \<and>
    (if pn_Status (pe_run x) = StatusFinished
     then scoring_done su (pe_run x) \<and> pe_engine x = EngStopped
     else pe_engine x \<in> {EngNone, EngStopped} \<or> pn_FailureStage (pe_run x) = ''STARTING_ENGINE'')"
proof -
  have x: "x = fst (fold (panel_happen su) hs (newPanelExec r, f))"
    using assms(3) by (simp add: panel_execute_def)
  have "panel_rank (pe_pc x) = 0"
    using panel_rank_fold [of su hs "newPanelExec r" f] assms(2) by (simp add: x newPanelExec_def)
  then have pc: "pe_pc x = QDone" by (cases "pe_pc x") simp_all
  have "panel_ok su x"
    unfolding x using panel_ok_fold [OF panel_ok_new] assms(1) by simp
  with pc show ?thesis by (auto simp: panel_ok_def)
qed

text \<open>
  The exceptional case happens: the engine is up, saving the HEALTHCHECKING status fails, and
  the goroutine ends without stopping the engine.
\<close>

definition demo_panel_run :: PanelRun where
  "demo_panel_run = \<lparr>pn_RunID = ''run_1'', pn_TeamID = ''local'', pn_Status = StatusQueued, pn_EngineMode = ''normal'',
     pn_BotCount = 10, pn_OrdersPerSec = 2, pn_DurationSec = 5, pn_Seed = 42, pn_ArtifactDir = ''/a/run_1'',
     pn_StartedAt = 0, pn_UpdatedAt = 0, pn_FinishedAt = None, pn_Valid = None, pn_Score = Fin 0,
     pn_FailureStage = [], pn_FailureReason = [], pn_Metrics = None, pn_Validation = None\<rparr>"

definition demo_panel_env :: "string option \<Rightarrow> PanelEnv" where
  "demo_panel_env spec = \<lparr>pv_now = 1, pv_io = io_good, pv_spec = spec, pv_start = Inr ''ws://127.0.0.1:9000/ws'',
     pv_bots = Inr None, pv_validate = Inl ''no validator'', pv_score = None\<rparr>"

definition demo_panel_setup :: PanelSetup where
  "demo_panel_setup = \<lparr>ps_Log10 = (\<lambda>x. x), ps_sort = newest_first\<rparr>"

definition demo_leak :: "panel_happening list" where
  "demo_leak = replicate 2 (PanelStep (demo_panel_env None)) @
     replicate 12 (PanelStep (demo_panel_env (Some ''disk full'')))"

lemma panel_steps_append [simp]: "panel_steps (as @ bs) = panel_steps as + panel_steps bs"
  by (induction as rule: panel_steps.induct) simp_all

lemma panel_steps_replicate [simp]: "panel_steps (replicate n (PanelStep env)) = n"
  by (induction n) simp_all

lemma panel_done_fold: "pe_pc x = QDone \<Longrightarrow> fst (fold (panel_happen su) (replicate n (PanelStep env)) (x, f)) = x"
  by (induction n arbitrary: f) simp_all

lemma save_as_good:
  assumes "pv_io env = io_good" "\<And>rs. srt rs = ps_sort su rs" "f = PanelMissing \<or> (\<exists>rs. f = PanelRuns rs)"
    and "\<not> IsTerminal st"
  shows "\<exists>rs. save_as su env st stage next x f =
     (x\<lparr>pe_run := (pe_run x)\<lparr>pn_Status := st, pn_UpdatedAt := pv_now env\<rparr>,
        pe_pc := (case pv_spec env of Some msg \<Rightarrow> QFail stage msg | None \<Rightarrow> next)\<rparr>, PanelRuns rs)"
  using assms
  by (auto simp: save_as_def panel_save_def panel_Save_def panel_loadLocked_def panel_writeLocked_def io_good_def
      Let_def split: option.split)

theorem panel_run_ends_witness:
  "case panel_execute demo_panel_setup demo_leak demo_panel_run PanelMissing of (x, f) \<Rightarrow>
     pe_pc x = QDone \<and> IsTerminal (pn_Status (pe_run x)) \<and> pn_Status (pe_run x) = StatusFailed \<and>
     pn_FailureStage (pe_run x) = ''STARTING_ENGINE'' \<and> pe_engine x = EngUp"
proof -
  let ?su = demo_panel_setup and ?a = "demo_panel_env None" and ?b = "demo_panel_env (Some ''disk full'')"
  have env: "pv_io ?a = io_good" "pv_spec ?a = None" "pv_io ?b = io_good" "pv_spec ?b = Some ''disk full''"
      "pv_start ?a = Inr ''ws://127.0.0.1:9000/ws''"
    by (simp_all add: demo_panel_env_def)
  let ?r1 = "demo_panel_run\<lparr>pn_Status := StatusStarting, pn_UpdatedAt := pv_now ?a\<rparr>"
  obtain rs1 where s1: "save_as ?su ?a StatusStarting ''STARTING_ENGINE'' QEngine (newPanelExec demo_panel_run) PanelMissing
      = ((newPanelExec demo_panel_run)\<lparr>pe_run := ?r1, pe_pc := QEngine\<rparr>, PanelRuns rs1)"
    using save_as_good [OF env(1) refl, of PanelMissing StatusStarting ?su "''STARTING_ENGINE''" QEngine
      "newPanelExec demo_panel_run"] by (auto simp: env newPanelExec_def IsTerminal_def)
  let ?x2 = "(newPanelExec demo_panel_run)\<lparr>pe_run := ?r1, pe_pc := QHealth, pe_engine := EngUp,
      pe_endpoint := ''ws://127.0.0.1:9000/ws''\<rparr>"
  obtain rs2 where s2: "save_as ?su ?b StatusHealthCheck ''STARTING_ENGINE'' QBenchmarking ?x2 (PanelRuns rs1)
      = (?x2\<lparr>pe_run := (pe_run ?x2)\<lparr>pn_Status := StatusHealthCheck, pn_UpdatedAt := pv_now ?b\<rparr>,
             pe_pc := QFail ''STARTING_ENGINE'' ''disk full''\<rparr>, PanelRuns rs2)"
    using save_as_good [OF env(3) refl, of "PanelRuns rs1" StatusHealthCheck ?su "''STARTING_ENGINE''" QBenchmarking ?x2]
    by (auto simp: env IsTerminal_def)
  obtain x f where e: "panel_execute ?su demo_leak demo_panel_run PanelMissing = (x, f)" by fastforce
  have leak: "demo_leak = PanelStep ?a # PanelStep ?a # PanelStep ?b # PanelStep ?b # PanelStep ?b # PanelStep ?b #
      replicate 8 (PanelStep ?b)"
    by (simp add: demo_leak_def numeral_eq_Suc)
  let ?x3 = "?x2\<lparr>pe_run := failOrCancel (pv_now ?b) False ''STARTING_ENGINE'' ''disk full''
      ((pe_run ?x2)\<lparr>pn_Status := StatusHealthCheck, pn_UpdatedAt := pv_now ?b\<rparr>)\<rparr>"
  have "x = fst (fold (panel_happen ?su) (replicate 8 (PanelStep ?b))
      (?x3\<lparr>pe_pc := QDone\<rparr>, fst (panel_Save newest_first (pv_io ?b) (pe_run ?x3) (PanelRuns rs2))))"
    using e s1 s2 by (simp add: panel_execute_def leak newPanelExec_def env demo_panel_setup_def)
  then have "x = ?x3\<lparr>pe_pc := QDone\<rparr>" by (subst (asm) panel_done_fold) simp_all
  then have "pn_Status (pe_run x) = StatusFailed \<and> pe_engine x = EngUp \<and> pn_FailureStage (pe_run x) = ''STARTING_ENGINE''"
    by (simp add: newPanelExec_def)
  then show ?thesis using panel_run_ends [OF _ _ e] e
    by (simp add: demo_leak_def demo_panel_run_def)
qed

end
