(* ===== verification/PanelControl.thy ===== *)
theory PanelControl
  imports PanelManager
begin

text \<open>
  The control panel's manager around its runs: \<^verbatim>\<open>CreateRun\<close> with its non-blocking reservation of
  one of eight slots, the goroutines it launches, \<^verbatim>\<open>CancelRun\<close> and \<^verbatim>\<open>Shutdown\<close>, in any
  interleaving.  Run ids come from a nanosecond clock and are taken to be distinct where the map
  of cancel functions is looked up.
\<close>

section \<open>State\<close>

definition maxConcurrentRuns :: nat where "maxConcurrentRuns = 8"

datatype creating = CrSave PanelRun | CrFiles PanelRun | CrRegister PanelRun

datatype cancelling = CanSignal PanelRun | CanSave PanelRun

record PanelMgr =
  pg_sem :: nat
  pg_creating :: "creating list"
  pg_execs :: "PanelExec list"
  pg_cancels :: "string set"
  pg_cancelling :: "cancelling list"
  pg_file :: panel_file

definition newPanelMgr :: "panel_file \<Rightarrow> PanelMgr" where
  "newPanelMgr f = \<lparr>pg_sem = 0, pg_creating = [], pg_execs = [], pg_cancels = {}, pg_cancelling = [], pg_file = f\<rparr>"

definition remove_at :: "nat \<Rightarrow> 'a list \<Rightarrow> 'a list" where
  "remove_at i xs = take i xs @ drop (Suc i) xs"

lemma remove_at_length: "i < length xs \<Longrightarrow> Suc (length (remove_at i xs)) = length xs"
  by (simp add: remove_at_def)

lemma remove_at_set: "set (remove_at i xs) \<subseteq> set xs"
  by (auto simp: remove_at_def dest: in_set_takeD in_set_dropD)

section \<open>Operations\<close>

text \<open>
  The first part of \<^verbatim>\<open>CreateRun\<close> validates the request, takes a slot if one is free and creates
  the artifact directory; \<open>dir\<close> is the error of the latter, if any, on which the slot is
  given back.
\<close>

definition new_panel_run :: "string \<Rightarrow> int \<Rightarrow> RunRequest \<Rightarrow> PanelRun" where
  "new_panel_run artifactRoot now n =
     (let runID = ''run_'' @ Itoa now in
      \<lparr>pn_RunID = runID, pn_TeamID = rr_TeamID n, pn_Status = StatusQueued, pn_EngineMode = rr_EngineMode n,
       pn_BotCount = rr_BotCount n, pn_OrdersPerSec = rr_OrdersPerSec n, pn_DurationSec = rr_DurationSec n,
       pn_Seed = rr_Seed n, pn_ArtifactDir = path_Join [artifactRoot, runID],
       pn_StartedAt = now, pn_UpdatedAt = now, pn_FinishedAt = None, pn_Valid = None, pn_Score = Fin 0,
       pn_FailureStage = [], pn_FailureReason = [], pn_Metrics = None, pn_Validation = None\<rparr>)"

definition CreateRun_reserve :: "string \<Rightarrow> int \<Rightarrow> string option \<Rightarrow> RunRequest \<Rightarrow> PanelMgr \<Rightarrow>
    PanelMgr \<times> string option" where
  "CreateRun_reserve artifactRoot now dir req m =
     (case NormalizeRequest req of
        Inl e \<Rightarrow> (m, Some e)
      | Inr n \<Rightarrow>
          if maxConcurrentRuns \<le> pg_sem m then (m, Some ''too many concurrent runs; retry later'')
          else (case dir of
              Some e \<Rightarrow> (m, Some e)
            | None \<Rightarrow> (m\<lparr>pg_sem := pg_sem m + 1,
                         pg_creating := pg_creating m @ [CrSave (new_panel_run artifactRoot now n)]\<rparr>, None)))"

definition abandon :: "nat \<Rightarrow> PanelMgr \<Rightarrow> PanelMgr" where
  "abandon i m = m\<lparr>pg_sem := pg_sem m - 1, pg_creating := remove_at i (pg_creating m)\<rparr>"

definition CreateRun_step :: "PanelSetup \<Rightarrow> PanelEnv \<Rightarrow> nat \<Rightarrow> PanelMgr \<Rightarrow> PanelMgr" where
  "CreateRun_step su env i m =
     (if i < length (pg_creating m) then
        (case pg_creating m ! i of
           CrSave r \<Rightarrow>
             (case panel_Save (ps_sort su) (pv_io env) r (pg_file m) of
                (f, Some e) \<Rightarrow> abandon i (m\<lparr>pg_file := f\<rparr>)
              | (f, None) \<Rightarrow> m\<lparr>pg_file := f, pg_creating := (pg_creating m)[i := CrFiles r]\<rparr>)
         | CrFiles r \<Rightarrow>
             if pv_spec env \<noteq> None then abandon i m
             else m\<lparr>pg_creating := (pg_creating m)[i := CrRegister r]\<rparr>
         | CrRegister r \<Rightarrow>
             m\<lparr>pg_cancels := insert (pn_RunID r) (pg_cancels m),
               pg_creating := remove_at i (pg_creating m), pg_execs := pg_execs m @ [newPanelExec r]\<rparr>)
      else m)"

definition run_one :: "PanelSetup \<Rightarrow> PanelEnv \<Rightarrow> nat \<Rightarrow> PanelMgr \<Rightarrow> PanelMgr" where
  "run_one su env i m =
     (if i < length (pg_execs m) then
        (let x = pg_execs m ! i; (y, f) = panel_stage_step su env (pe_pc x) x (pg_file m)
         in m\<lparr>pg_execs := (pg_execs m)[i := y], pg_file := f\<rparr>)
      else m)"

text \<open>The deferred function of \<^verbatim>\<open>execute\<close>.\<close>

definition run_exit :: "nat \<Rightarrow> PanelMgr \<Rightarrow> PanelMgr" where
  "run_exit i m =
     (if i < length (pg_execs m) \<and> pe_pc (pg_execs m ! i) = QDone then
        m\<lparr>pg_cancels := pg_cancels m - {pn_RunID (pe_run (pg_execs m ! i))},
          pg_execs := remove_at i (pg_execs m), pg_sem := pg_sem m - 1\<rparr>
      else m)"

definition CancelRun_read :: "StoreIO \<Rightarrow> string \<Rightarrow> PanelMgr \<Rightarrow> PanelMgr" where
  "CancelRun_read io rid m =
     (case panel_Get io rid (pg_file m) of
        Inl e \<Rightarrow> m
      | Inr r \<Rightarrow> if IsTerminal (pn_Status r) then m else m\<lparr>pg_cancelling := pg_cancelling m @ [CanSignal r]\<rparr>)"

definition cancel_execs :: "string set \<Rightarrow> PanelExec list \<Rightarrow> PanelExec list" where
  "cancel_execs ids xs = map (\<lambda>x. if pn_RunID (pe_run x) \<in> ids then x\<lparr>pe_cancelled := True\<rparr> else x) xs"

definition CancelRun_step :: "PanelSetup \<Rightarrow> PanelEnv \<Rightarrow> nat \<Rightarrow> PanelMgr \<Rightarrow> PanelMgr" where
  "CancelRun_step su env i m =
     (if i < length (pg_cancelling m) then
        (case pg_cancelling m ! i of
           CanSignal r \<Rightarrow>
             m\<lparr>pg_execs := (if pn_RunID r \<in> pg_cancels m then cancel_execs {pn_RunID r} (pg_execs m) else pg_execs m),
               pg_cancelling := (pg_cancelling m)[i := CanSave
                 (r\<lparr>pn_Status := StatusCancelled, pn_FinishedAt := Some (pv_now env), pn_UpdatedAt := pv_now env\<rparr>)]\<rparr>
         | CanSave r \<Rightarrow>
             m\<lparr>pg_file := fst (panel_Save (ps_sort su) (pv_io env) r (pg_file m)),
               pg_cancelling := remove_at i (pg_cancelling m)\<rparr>)
      else m)"

definition panel_Shutdown :: "PanelMgr \<Rightarrow> PanelMgr" where
  "panel_Shutdown m = m\<lparr>pg_execs := cancel_execs (pg_cancels m) (pg_execs m)\<rparr>"

datatype panel_event =
    EvCreate string int "string option" RunRequest | EvCreateStep PanelEnv nat | EvRun PanelEnv nat | EvExit nat
  | EvCancel StoreIO string | EvCancelStep PanelEnv nat | EvShutdown

fun panel_mgr_step :: "PanelSetup \<Rightarrow> panel_event \<Rightarrow> PanelMgr \<Rightarrow> PanelMgr" where
  "panel_mgr_step su (EvCreate runRoot now dir req) m = fst (CreateRun_reserve runRoot now dir req m)"
| "panel_mgr_step su (EvCreateStep env i) m = CreateRun_step su env i m"
| "panel_mgr_step su (EvRun env i) m = run_one su env i m"
| "panel_mgr_step su (EvExit i) m = run_exit i m"
| "panel_mgr_step su (EvCancel io rid) m = CancelRun_read io rid m"
| "panel_mgr_step su (EvCancelStep env i) m = CancelRun_step su env i m"
| "panel_mgr_step su EvShutdown m = panel_Shutdown m"

definition run_panel :: "PanelSetup \<Rightarrow> panel_event list \<Rightarrow> PanelMgr \<Rightarrow> PanelMgr" where
  "run_panel su es m = fold (panel_mgr_step su) es m"

section \<open>The invariant\<close>

text \<open>A request that was admitted keeps its load within the ceilings.\<close>

definition admitted :: "PanelRun \<Rightarrow> bool" where
  "admitted r \<longleftrightarrow> 1 \<le> pn_BotCount r \<and> pn_BotCount r \<le> panelMaxBotCount \<and>
     1 \<le> pn_OrdersPerSec r \<and> pn_OrdersPerSec r \<le> panelMaxOrdersPerSec \<and>
     1 \<le> pn_DurationSec r \<and> pn_DurationSec r \<le> panelMaxDurationSec"

fun creating_run :: "creating \<Rightarrow> PanelRun" where
  "creating_run (CrSave r) = r"
| "creating_run (CrFiles r) = r"
| "creating_run (CrRegister r) = r"

definition panel_mgr_ok :: "PanelSetup \<Rightarrow> PanelMgr \<Rightarrow> bool" where
  "panel_mgr_ok su m \<longleftrightarrow> pg_sem m = length (pg_creating m) + length (pg_execs m) \<and> pg_sem m \<le> maxConcurrentRuns \<and>
     (\<forall>c \<in> set (pg_creating m). admitted (creating_run c) \<and> pn_Status (creating_run c) = StatusQueued) \<and>
     (\<forall>x \<in> set (pg_execs m). admitted (pe_run x) \<and> panel_ok su x)"

lemma panel_mgr_ok_new: "panel_mgr_ok su (newPanelMgr f)"
  by (simp add: panel_mgr_ok_def newPanelMgr_def)

lemma admitted_simps [simp]:
  "admitted (r\<lparr>pn_Status := st\<rparr>) = admitted r" "admitted (r\<lparr>pn_UpdatedAt := t\<rparr>) = admitted r"
  "admitted (r\<lparr>pn_FinishedAt := ft\<rparr>) = admitted r" "admitted (r\<lparr>pn_Score := sc\<rparr>) = admitted r"
  "admitted (r\<lparr>pn_Metrics := m\<rparr>) = admitted r" "admitted (r\<lparr>pn_Validation := v\<rparr>) = admitted r"
  "admitted (r\<lparr>pn_Valid := b\<rparr>) = admitted r" "admitted (failOrCancel now c stage err r) = admitted r"
  by (simp_all add: admitted_def failOrCancel_def Let_def)

lemma save_as_admitted [simp]: "admitted (pe_run (fst (save_as su env st stage nx x f))) = admitted (pe_run x)"
  using save_as_cases [of su env st stage nx x f] by auto

lemma admitted_step: "admitted (pe_run (fst (panel_stage_step su env p x f))) = admitted (pe_run x)"
proof (cases p)
  case QHealth
  obtain y g where y: "save_as su env StatusHealthCheck ''STARTING_ENGINE'' QBenchmarking x f = (y, g)" by fastforce
  then have "admitted (pe_run y) = admitted (pe_run x)"
    using save_as_admitted [of su env StatusHealthCheck "''STARTING_ENGINE''" QBenchmarking x f] by simp
  then show ?thesis using QHealth y by simp
qed (simp_all add: Let_def split: sum.split option.split)

lemma cancel_execs_ok:
  "\<forall>x \<in> set xs. admitted (pe_run x) \<and> panel_ok su x \<Longrightarrow>
   \<forall>x \<in> set (cancel_execs ids xs). admitted (pe_run x) \<and> panel_ok su x"
  by (auto simp: cancel_execs_def panel_ok_cancel)

lemma cancel_execs_length [simp]: "length (cancel_execs ids xs) = length xs"
  by (simp add: cancel_execs_def)

lemma new_panel_run_ok:
  assumes "NormalizeRequest req = Inr n"
  shows "admitted (new_panel_run rt now n) \<and> pn_Status (new_panel_run rt now n) = StatusQueued"
  using NormalizeRequest_ok [OF assms] by (simp add: new_panel_run_def admitted_def panel_load_ok_def Let_def)

lemma reserve_ok:
  assumes "panel_mgr_ok su m"
  shows "panel_mgr_ok su (fst (CreateRun_reserve rt now dir req m))"
  using assms new_panel_run_ok [of req]
  by (auto simp: CreateRun_reserve_def panel_mgr_ok_def split: sum.split option.split)

lemma abandon_ok:
  assumes "panel_mgr_ok su m" "i < length (pg_creating m)"
  shows "panel_mgr_ok su (abandon i (m\<lparr>pg_file := f\<rparr>))" "panel_mgr_ok su (abandon i m)"
  using assms remove_at_length [OF assms(2)] remove_at_set [of i "pg_creating m"]
  by (auto simp: abandon_def panel_mgr_ok_def)

lemma create_step_ok:
  assumes "panel_mgr_ok su m"
  shows "panel_mgr_ok su (CreateRun_step su env i m)"
proof (cases "i < length (pg_creating m)")
  case True
  let ?c = "pg_creating m ! i"
  have c: "admitted (creating_run ?c)" "pn_Status (creating_run ?c) = StatusQueued"
    using assms True by (auto simp: panel_mgr_ok_def)
  have upd: "panel_mgr_ok su (m\<lparr>pg_file := f, pg_creating := (pg_creating m)[i := d]\<rparr>)"
    if "creating_run d = creating_run ?c" for d f
    using assms c that by (auto simp: panel_mgr_ok_def dest!: set_update_subset_insert [THEN subsetD])
  show ?thesis
  proof (cases ?c)
    case (CrSave r)
    obtain f e where "panel_Save (ps_sort su) (pv_io env) r (pg_file m) = (f, e)" by fastforce
    then show ?thesis using True CrSave upd [of "CrFiles r" f] abandon_ok(1) [OF assms True]
      by (cases e) (simp_all add: CreateRun_step_def)
  next
    case (CrFiles r)
    then show ?thesis using True upd [of "CrRegister r" "pg_file m"] abandon_ok(2) [OF assms True]
      by (simp add: CreateRun_step_def)
  next
    case (CrRegister r)
    have "panel_ok su (newPanelExec r)" using c CrRegister by (intro panel_ok_new) simp
    then show ?thesis
      using assms True c CrRegister remove_at_length [OF True] remove_at_set [of i "pg_creating m"]
      by (auto simp: CreateRun_step_def panel_mgr_ok_def newPanelExec_def)
  qed
qed (use assms in \<open>simp add: CreateRun_step_def\<close>)

lemma run_one_ok:
  assumes "panel_mgr_ok su m"
  shows "panel_mgr_ok su (run_one su env i m)"
proof (cases "i < length (pg_execs m)")
  case True
  let ?x = "pg_execs m ! i"
  obtain y f where s: "panel_stage_step su env (pe_pc ?x) ?x (pg_file m) = (y, f)" by fastforce
  have x: "admitted (pe_run ?x)" "panel_ok su ?x" using assms True by (auto simp: panel_mgr_ok_def)
  have "admitted (pe_run y)" "panel_ok su y"
    using x admitted_step [of su env "pe_pc ?x" ?x "pg_file m"] panel_ok_step [of su ?x env "pg_file m"] s by simp_all
  then show ?thesis using assms True s
    by (auto simp: run_one_def Let_def panel_mgr_ok_def dest!: set_update_subset_insert [THEN subsetD])
qed (use assms in \<open>simp add: run_one_def\<close>)

lemma run_exit_ok:
  assumes "panel_mgr_ok su m"
  shows "panel_mgr_ok su (run_exit i m)"
  using assms remove_at_length [of i "pg_execs m"] remove_at_set [of i "pg_execs m"]
  by (auto simp: run_exit_def panel_mgr_ok_def)

lemma cancelled_ok:
  assumes "panel_mgr_ok su m"
  shows "panel_mgr_ok su (m\<lparr>pg_execs := cancel_execs ids (pg_execs m)\<rparr>)"
  using assms cancel_execs_ok [of "pg_execs m" su ids] by (simp add: panel_mgr_ok_def)

lemma panel_mgr_ok_other [simp]:
  "panel_mgr_ok su (m\<lparr>pg_cancelling := c\<rparr>) = panel_mgr_ok su m"
  "panel_mgr_ok su (m\<lparr>pg_file := f\<rparr>) = panel_mgr_ok su m"
  by (simp_all add: panel_mgr_ok_def)

lemma cancel_read_ok: "panel_mgr_ok su m \<Longrightarrow> panel_mgr_ok su (CancelRun_read io rid m)"
  by (simp add: CancelRun_read_def split: sum.split)

lemma cancel_step_ok:
  assumes "panel_mgr_ok su m"
  shows "panel_mgr_ok su (CancelRun_step su env i m)"
  using assms cancelled_ok [OF assms] by (simp add: CancelRun_step_def split: cancelling.split)

lemma panel_mgr_step_ok: "panel_mgr_ok su m \<Longrightarrow> panel_mgr_ok su (panel_mgr_step su e m)"
  by (cases e) (simp_all add: reserve_ok create_step_ok run_one_ok run_exit_ok cancel_read_ok cancel_step_ok
      panel_Shutdown_def cancelled_ok)

text \<open>
  However requests, goroutines, cancellations and shutdowns of the control panel interleave,
  the slots in use are exactly the runs being created and the runs being executed, and there
  are never more than eight; every run that is executed was admitted with its load within the
  ceilings, and its goroutine is in a state from which it ends with a terminal status.
\<close>

lemma panel_runs_are_bounded:
  "panel_mgr_ok su (run_panel su es (newPanelMgr f))"
proof -
  have "panel_mgr_ok su m \<Longrightarrow> panel_mgr_ok su (fold (panel_mgr_step su) es m)" for m
    by (induction es arbitrary: m) (simp_all add: panel_mgr_step_ok)
  then show ?thesis using panel_mgr_ok_new by (simp add: run_panel_def)
qed

text \<open>A ninth run is refused before anything is created for it.\<close>

lemma ninth_run_refused:
  "pg_sem m = maxConcurrentRuns \<Longrightarrow> NormalizeRequest req = Inr n \<Longrightarrow>
   CreateRun_reserve rt now dir req m = (m, Some ''too many concurrent runs; retry later'')"
  by (simp add: CreateRun_reserve_def)

end
