(* ===== verification/Sandbox.thy ===== *)
theory Sandbox
  imports Strconv ScoreEngine
begin

text \<open>
  How the sandbox runner turns an artifact into a build context,
  \<^verbatim>\<open>services/sandbox-runner/internal/sandbox/artifact.go\<close>: where artifacts are looked up, the
  extraction of untrusted archives, the Dockerfile policy; and the small policies beside it, the
  image tag, the environment of contestant processes and the build slots.

  Files are a map from cleaned absolute paths to contents, as in theory \<^verbatim>\<open>ScoreEngine\<close>.
  Directories are implicit.
\<close>

section \<open>Relative paths\<close>

text \<open>\<^verbatim>\<open>filepath.Clean\<close> of a path that need not be rooted: leading \<^verbatim>\<open>..\<close> elements stay.\<close>

definition rel_push :: "string \<Rightarrow> string list \<Rightarrow> string list" where
  "rel_push e st =
     (if e = [] \<or> e = ''.'' then st
      else if e = ''..'' then (if st = [] \<or> last st = ''..'' then st @ [''..''] else butlast st)
      else st @ [e])"

definition rel_stack :: "string \<Rightarrow> string list" where
  "rel_stack p = fold rel_push (SplitChar CHR ''/'' p) []"

definition IsAbs :: "string \<Rightarrow> bool" where "IsAbs p \<longleftrightarrow> HasPrefix p ''/''"

definition Clean :: "string \<Rightarrow> string" where
  "Clean p =
     (if IsAbs p then path_Clean p
      else case rel_stack p of [] \<Rightarrow> ''.'' | es \<Rightarrow> intercalate ''/'' es)"

lemma SplitChar_intercalate:
  "\<lbrakk>\<And>e. e \<in> set es \<Longrightarrow> CHR ''/'' \<notin> set e; es \<noteq> []\<rbrakk> \<Longrightarrow> SplitChar CHR ''/'' (intercalate ''/'' es) = es"
  by (induction es rule: induct_list012) (auto simp: SplitChar_none SplitChar_append)

lemma fold_path_push: "\<forall>e \<in> set es. path_elem e \<Longrightarrow> fold path_push es st = st @ es"
  by (induction es arbitrary: st) (auto simp: path_push_def path_elem_def)

lemma push_elems:
  assumes "\<forall>e \<in> set es. path_elem e" "es \<noteq> []"
  shows "fold path_push (SplitChar CHR ''/'' (intercalate ''/'' es)) st = st @ es"
proof -
  have "SplitChar CHR ''/'' (intercalate ''/'' es) = es"
    using assms by (intro SplitChar_intercalate) (auto simp: path_elem_def)
  then show ?thesis using fold_path_push [OF assms(1)] by simp
qed

lemma path_Clean_idem [simp]: "path_Clean (path_Clean p) = path_Clean p"
  by (rule path_Clean_cong) simp

section \<open>Where artifacts are\<close>

text \<open>The third argument is \<^verbatim>\<open>filepath.Abs\<close>, which can fail.\<close>

definition submissionArtifactRoot :: "(string \<Rightarrow> string) \<Rightarrow> (string \<Rightarrow> string option) \<Rightarrow> string \<Rightarrow> string" where
  "submissionArtifactRoot getenv absf repoRoot =
     (let root = getenv ''SUBMISSION_ARTIFACT_ROOT'' in
      if root \<noteq> [] then (case absf root of Some a \<Rightarrow> a | None \<Rightarrow> root)
      else path_Join [repoRoot, ''.artifacts'', ''submissions''])"

definition resolveLocalArtifact :: "(string \<Rightarrow> string) \<Rightarrow> (string \<Rightarrow> string option) \<Rightarrow> string \<Rightarrow> string \<Rightarrow>
    string + string" where
  "resolveLocalArtifact getenv absf repoRoot artifactURI =
     (if artifactURI = [] then Inl ''artifact_uri is required''
      else if HasPrefix artifactURI ''local://submissions/'' then
        let rel = TrimPrefix artifactURI ''local://submissions/''; cleanRel = Clean rel in
        if cleanRel = ''.'' \<or> cleanRel = ''..'' \<or> IsAbs cleanRel \<or> HasPrefix cleanRel ''../''
        then Inl (''invalid artifact uri: '' @ artifactURI)
        else Inr (path_Join [submissionArtifactRoot getenv absf repoRoot, cleanRel])
      else if IsAbs artifactURI then Inr artifactURI
      else Inr (path_Join [repoRoot, artifactURI]))"

text \<open>
  Artifacts named by a \<^verbatim>\<open>local://submissions/\<close> URI lie strictly below the artifact root, however
  the rest of the URI is written.
\<close>

lemma rel_stack_elems:
  "\<exists>n es. rel_stack p = replicate n ''..'' @ es \<and> (\<forall>e \<in> set es. path_elem e)"
proof -
  have "\<exists>n es. fold rel_push xs st = replicate n ''..'' @ es \<and> (\<forall>e \<in> set es. path_elem e)"
    if "st = replicate m ''..'' @ fs" "\<forall>e \<in> set fs. path_elem e" "\<forall>e \<in> set xs. CHR ''/'' \<notin> set e" for xs st m fs
    using that
  proof (induction xs arbitrary: st m fs)
    case Nil
    then show ?case by auto
  next
    case (Cons x xs)
    have "\<exists>m' fs'. rel_push x st = replicate m' ''..'' @ fs' \<and> (\<forall>e \<in> set fs'. path_elem e)"
    proof (cases "x = ''..'' \<and> (fs = [] \<or> last fs = ''..'')")
      case True
      then have "fs = []" using Cons.prems(2) by (auto simp: path_elem_def dest: last_in_set)
      then have "rel_push x st = replicate (Suc m) ''..''"
        using True Cons.prems(1) by (cases m) (auto simp: rel_push_def replicate_append_same)
      then show ?thesis by (intro exI [of _ "Suc m"] exI [of _ "[]"]) simp
    next
      case False
      then have "rel_push x st = replicate m ''..'' @ (if x = [] \<or> x = ''.'' then fs else if x = ''..'' then butlast fs else fs @ [x])"
        using Cons.prems(1) by (auto simp: rel_push_def butlast_append)
      moreover have "\<forall>e \<in> set (if x = [] \<or> x = ''.'' then fs else if x = ''..'' then butlast fs else fs @ [x]). path_elem e"
        using Cons.prems(2,3) by (auto simp: path_elem_def dest: in_set_butlastD)
      ultimately show ?thesis by blast
    qed
    then obtain m' fs' where "rel_push x st = replicate m' ''..'' @ fs'" "\<forall>e \<in> set fs'. path_elem e" by blast
    from Cons.IH [OF this] Cons.prems(3) show ?case by simp
  qed
  from this [of "[]" 0 "[]" "SplitChar CHR ''/'' p"] show ?thesis
    by (auto simp: rel_stack_def dest: SplitChar_no_sep)
qed

lemma intercalate_replicate_dots:
  "0 < n \<Longrightarrow> intercalate ''/'' (replicate n ''..'' @ es) = ''..'' \<or> HasPrefix (intercalate ''/'' (replicate n ''..'' @ es)) ''../''"
proof (cases "replicate (n - 1) ''..'' @ es")
  case Nil
  moreover assume "0 < n"
  ultimately show ?thesis by (cases n) auto
next
  case (Cons y ys)
  moreover assume "0 < n"
  then have "replicate n ''..'' @ es = ''..'' # replicate (n - 1) ''..'' @ es" by (cases n) auto
  ultimately show ?thesis by (simp add: HasPrefix_def)
qed

text \<open>So a relative path that passes the check has proper elements only, and at least one.\<close>

lemma checked_relative:
  assumes "\<not> IsAbs (Clean p)" "Clean p \<noteq> ''.''" "Clean p \<noteq> ''..''" "\<not> HasPrefix (Clean p) ''../''"
  obtains es where "Clean p = intercalate ''/'' es" "es \<noteq> []" "\<forall>e \<in> set es. path_elem e"
proof -
  have nabs: "\<not> IsAbs p" using assms(1) by (auto simp: Clean_def IsAbs_def HasPrefix_def path_Clean_def)
  obtain n es where r: "rel_stack p = replicate n ''..'' @ es" and es: "\<forall>e \<in> set es. path_elem e"
    using rel_stack_elems by blast
  have ne: "rel_stack p \<noteq> []" using assms(2) nabs by (auto simp: Clean_def)
  then have c: "Clean p = intercalate ''/'' (rel_stack p)" using nabs by (auto simp: Clean_def split: list.split)
  have "n = 0" using intercalate_replicate_dots [of n es] assms(3,4) c r by fastforce
  then show ?thesis using that [of es] c r es ne by simp
qed

lemma local_artifact_confined:
  assumes "resolveLocalArtifact getenv absf repoRoot (''local://submissions/'' @ rest) = Inr p"
    "submissionArtifactRoot getenv absf repoRoot \<noteq> []"
  shows "\<exists>es. es \<noteq> [] \<and> path_stack p = path_stack (submissionArtifactRoot getenv absf repoRoot) @ es"
proof -
  let ?root = "submissionArtifactRoot getenv absf repoRoot"
  have "Clean rest \<noteq> ''.'' \<and> Clean rest \<noteq> ''..'' \<and> \<not> IsAbs (Clean rest) \<and> \<not> HasPrefix (Clean rest) ''../'' \<and>
      p = path_Join [?root, Clean rest]"
    using assms(1) by (auto simp: resolveLocalArtifact_def TrimPrefix_def HasPrefix_def Let_def split: if_splits)
  then obtain es where es: "Clean rest = intercalate ''/'' es" "es \<noteq> []" "\<forall>e \<in> set es. path_elem e"
    and p: "p = path_Join [?root, Clean rest]" by (metis checked_relative)
  have "Clean rest \<noteq> []" using es by (cases es rule: list.exhaust; cases "tl es") (auto simp: path_elem_def)
  then have "path_stack p = fold path_push (SplitChar CHR ''/'' (intercalate ''/'' es)) (path_stack ?root)"
    using p assms(2) es(1) by (simp add: path_Join_two path_stack_append)
  also have "\<dots> = path_stack ?root @ es" using es(3) es(2) by (rule push_elems)
  finally show ?thesis using es(2) by blast
qed

section \<open>Writing into the build directory\<close>

text \<open>
  The file tree as the code sees it: the files, the directories it created, and every file it
  wrote, in order. A directory cannot be made where a file is, nor a file where a directory is;
  \<open>writable\<close> says what the operating system refuses besides.
\<close>

record build_tree =
  bt_files :: files
  bt_dirs :: "string list"
  bt_log :: "(string \<times> string) list"

definition path_of :: "string list \<Rightarrow> string" where "path_of es = CHR ''/'' # intercalate ''/'' es"

definition path_Dir :: "string \<Rightarrow> string" where "path_Dir p = path_of (butlast (path_stack p))"

definition MkdirAll :: "(string \<Rightarrow> bool) \<Rightarrow> string \<Rightarrow> build_tree \<Rightarrow> build_tree option" where
  "MkdirAll writable dir t =
     (let es = path_stack dir; ps = map (\<lambda>n. path_of (take n es)) [1..<Suc (length es)] in
      if list_ex (\<lambda>p. bt_files t p \<noteq> None) ps \<or> \<not> writable dir then None
      else Some (t\<lparr>bt_dirs := bt_dirs t @ ps\<rparr>))"

definition fileExists :: "build_tree \<Rightarrow> string \<Rightarrow> bool" where
  "fileExists t p \<longleftrightarrow> bt_files t (path_Clean p) \<noteq> None \<or> path_Clean p \<in> set (bt_dirs t)"

definition WriteFile :: "(string \<Rightarrow> bool) \<Rightarrow> string \<Rightarrow> string \<Rightarrow> build_tree \<Rightarrow> build_tree option" where
  "WriteFile writable path data t =
     (let p = path_Clean path in
      if p \<in> set (bt_dirs t) \<or> \<not> writable path then None
      else Some (t\<lparr>bt_files := (bt_files t)(p \<mapsto> data), bt_log := bt_log t @ [(p, data)]\<rparr>))"

text \<open>
  The reader delivers \<open>data\<close>; \<open>fails\<close> says that reading it then reports an error, with what was
  read already in the file. The boolean is success.
\<close>

definition copyReaderToFile :: "(string \<Rightarrow> bool) \<Rightarrow> string \<Rightarrow> bool \<Rightarrow> string \<Rightarrow> build_tree \<Rightarrow> build_tree \<times> bool" where
  "copyReaderToFile writable data fails dst t =
     (case MkdirAll writable (path_Dir dst) t of
        None \<Rightarrow> (t, False)
      | Some t \<Rightarrow>
          (case WriteFile writable dst data t of
             None \<Rightarrow> (t, False)
           | Some t \<Rightarrow> (t, \<not> fails)))"

section \<open>Extracting an archive\<close>

definition maxZipEntries :: nat where "maxZipEntries = 10000"
definition maxZipRatio :: nat where "maxZipRatio = 200"
definition maxZipTotalBytes :: nat where "maxZipTotalBytes = 536870912"

text \<open>
  An entry with its declared sizes, the bytes it really expands to, whether opening it fails, and
  for which limits copying at most that many of its bytes reports an error (a checksum mismatch is
  only seen by a copy that reads to the end).
\<close>

record zip_entry =
  ze_Name :: string
  ze_IsDir :: bool
  ze_CompressedSize :: nat
  ze_UncompressedSize :: nat
  ze_data :: string
  ze_openError :: bool
  ze_copyError :: "nat \<Rightarrow> bool"

definition escapes :: "string \<Rightarrow> string \<Rightarrow> bool" where
  "escapes dst target \<longleftrightarrow>
     \<not> HasPrefix (path_Clean target) (path_Clean dst @ ''/'') \<and> path_Clean target \<noteq> path_Clean dst"

text \<open>One round of the loop over the entries: the tree, the bytes written so far, the error.\<close>

definition unzip_entry :: "(string \<Rightarrow> bool) \<Rightarrow> string \<Rightarrow> zip_entry \<Rightarrow> build_tree \<times> nat \<Rightarrow>
    (build_tree \<times> nat) \<times> string option" where
  "unzip_entry writable dst e x =
     (case x of (t, copied) \<Rightarrow>
      let target = path_Join [dst, ze_Name e] in
      if escapes dst target then (x, Some (''zip entry escapes build context: '' @ ze_Name e))
      else if ze_IsDir e then
        (case MkdirAll writable target t of None \<Rightarrow> (x, Some ''mkdir'') | Some t \<Rightarrow> ((t, copied), None))
      else if ze_CompressedSize e > 0 \<and> ze_UncompressedSize e div ze_CompressedSize e > maxZipRatio
      then (x, Some (''zip entry '' @ ze_Name e @ '' exceeds max compression ratio''))
      else if ze_UncompressedSize e > maxZipTotalBytes - copied
      then (x, Some ''zip expands beyond the limit; refusing to extract'')
      else
        (case MkdirAll writable (path_Dir target) t of
           None \<Rightarrow> (x, Some ''mkdir'')
         | Some t \<Rightarrow>
             if ze_openError e then ((t, copied), Some ''zip: unsupported compression algorithm'')
             else
               let remaining = maxZipTotalBytes - copied; data = take remaining (ze_data e) in
               (case copyReaderToFile writable data (ze_copyError e remaining) target t of
                  (t, False) \<Rightarrow> ((t, copied), Some ''copy'')
                | (t, True) \<Rightarrow>
                    ((t, copied + length data),
                     if length (ze_data e) > remaining
                     then Some ''zip expands beyond the limit; refusing to extract'' else None))))"

fun unzip_entries :: "(string \<Rightarrow> bool) \<Rightarrow> string \<Rightarrow> zip_entry list \<Rightarrow> build_tree \<times> nat \<Rightarrow>
    (build_tree \<times> nat) \<times> string option" where
  "unzip_entries writable dst [] x = (x, None)"
| "unzip_entries writable dst (e # es) x =
     (case unzip_entry writable dst e x of
        (x, Some err) \<Rightarrow> (x, Some err)
      | (x, None) \<Rightarrow> unzip_entries writable dst es x)"

definition unzip :: "(string \<Rightarrow> bool) \<Rightarrow> zip_entry list option \<Rightarrow> string \<Rightarrow> build_tree \<Rightarrow>
    build_tree \<times> string option" where
  "unzip writable archive dst t =
     (case archive of
        None \<Rightarrow> (t, Some ''zip: not a valid zip file'')
      | Some entries \<Rightarrow>
          if length entries > maxZipEntries then (t, Some ''zip has too many entries'')
          else (case unzip_entries writable dst entries (t, 0) of (x, err) \<Rightarrow> (fst x, err)))"

subsection \<open>What an archive can do\<close>

text \<open>The paths at or below a directory.\<close>

definition under :: "string \<Rightarrow> string \<Rightarrow> bool" where
  "under dst p \<longleftrightarrow> take (length (path_stack dst)) (path_stack p) = path_stack dst"

definition log_bytes :: "(string \<times> string) list \<Rightarrow> nat" where
  "log_bytes ws = sum_list (map (\<lambda>(p, data). length data) ws)"

lemma SplitChar_Clean:
  "SplitChar CHR ''/'' (path_Clean p) = (if path_stack p = [] then [[], []] else [] # path_stack p)"
proof (cases "path_stack p = []")
  case False
  moreover have "\<And>e. e \<in> set (path_stack p) \<Longrightarrow> CHR ''/'' \<notin> set e"
    using path_stack_elems by (auto simp: path_elem_def)
  ultimately show ?thesis by (simp add: path_Clean_def SplitChar_intercalate)
qed (simp add: path_Clean_def)

lemma not_escapes_under:
  assumes "\<not> escapes dst target"
  shows "under dst target"
proof (cases "path_Clean target = path_Clean dst")
  case True
  then have "path_stack target = path_stack dst" by (metis path_stack_Clean)
  then show ?thesis by (simp add: under_def)
next
  case False
  with assms have "HasPrefix (path_Clean target) (path_Clean dst @ ''/'')" by (simp add: escapes_def)
  then obtain rest where "path_Clean target = (path_Clean dst @ ''/'') @ rest"
    unfolding HasPrefix_def by (metis append_take_drop_id)
  then have "path_Clean target = path_Clean dst @ CHR ''/'' # rest" by simp
  then have split: "SplitChar CHR ''/'' (path_Clean target) = SplitChar CHR ''/'' (path_Clean dst) @ SplitChar CHR ''/'' rest"
    by (simp only: SplitChar_append)
  show ?thesis
  proof (cases "path_stack dst = []")
    case False
    then show ?thesis using split
      by (cases "path_stack dst") (auto simp: SplitChar_Clean under_def split: if_splits)
  qed (simp add: under_def)
qed

text \<open>What the operations keep of the tree: the log only grows, at the named path.\<close>

lemma MkdirAll_log: "MkdirAll writable dir t = Some t' \<Longrightarrow> bt_log t' = bt_log t \<and> bt_files t' = bt_files t"
  by (auto simp: MkdirAll_def Let_def split: if_splits)

lemma WriteFile_log:
  "WriteFile writable path data t = Some t' \<Longrightarrow>
   bt_log t' = bt_log t @ [(path_Clean path, data)] \<and> bt_files t' = (bt_files t)(path_Clean path \<mapsto> data)"
  by (auto simp: WriteFile_def Let_def split: if_splits)

text \<open>\<open>writes t ws t'\<close>: from \<open>t\<close> to \<open>t'\<close> exactly the writes \<open>ws\<close> happened.\<close>

definition writes :: "build_tree \<Rightarrow> (string \<times> string) list \<Rightarrow> build_tree \<Rightarrow> bool" where
  "writes t ws t' \<longleftrightarrow> bt_log t' = bt_log t @ ws \<and> bt_files t' = bt_files t ++ map_of (rev ws)"

lemma writes_none: "bt_log t' = bt_log t \<and> bt_files t' = bt_files t \<Longrightarrow> writes t [] t'"
  by (simp add: writes_def)

lemma writes_refl [intro, simp]: "writes t [] t"
  by (simp add: writes_def)

lemma writes_trans: "\<lbrakk>writes t ws t'; writes t' vs t''\<rbrakk> \<Longrightarrow> writes t (ws @ vs) t''"
  by (simp add: writes_def map_add_assoc)

lemma writes_mkdir: "MkdirAll writable dir t = Some t' \<Longrightarrow> writes t [] t'"
  using MkdirAll_log by (rule writes_none)

lemma writes_file: "WriteFile writable path data t = Some t' \<Longrightarrow> writes t [(path_Clean path, data)] t'"
  by (simp add: writes_def WriteFile_log)

lemma writes_copy:
  assumes "copyReaderToFile writable data fails dst t = (t', ok)"
  shows "writes t [] t' \<and> \<not> ok \<or> writes t [(path_Clean dst, data)] t'"
proof (cases "MkdirAll writable (path_Dir dst) t")
  case None
  then show ?thesis using assms by (auto simp: copyReaderToFile_def)
next
  case (Some u)
  then have u: "writes t [] u" by (rule writes_mkdir)
  show ?thesis
  proof (cases "WriteFile writable dst data u")
    case None
    then show ?thesis using assms u Some by (auto simp: copyReaderToFile_def)
  next
    case w: (Some v)
    then have "writes t [(path_Clean dst, data)] v" using writes_trans [OF u writes_file [OF w]] by simp
    then show ?thesis using assms Some w by (auto simp: copyReaderToFile_def)
  qed
qed

text \<open>Writes below \<open>dst\<close> of at most \<open>n\<close> bytes in all.\<close>

definition confined :: "string \<Rightarrow> nat \<Rightarrow> (string \<times> string) list \<Rightarrow> bool" where
  "confined dst n ws \<longleftrightarrow> list_all (\<lambda>(p, data). under dst p) ws \<and> log_bytes ws \<le> n"

lemma confined_Nil [simp]: "confined dst n []"
  by (simp add: confined_def log_bytes_def)

lemma confined_one [simp]: "confined dst n [(p, data)] \<longleftrightarrow> under dst p \<and> length data \<le> n"
  by (simp add: confined_def log_bytes_def)

lemma confined_append: "\<lbrakk>confined dst n ws; confined dst m vs\<rbrakk> \<Longrightarrow> confined dst (n + m) (ws @ vs)"
  by (simp add: confined_def log_bytes_def)

lemma confined_mono: "\<lbrakk>confined dst n ws; n \<le> m\<rbrakk> \<Longrightarrow> confined dst m ws"
  by (simp add: confined_def)

lemma confined_outside: "\<lbrakk>writes t ws t'; confined dst n ws; \<not> under dst p\<rbrakk> \<Longrightarrow> bt_files t' p = bt_files t p"
  by (auto simp: writes_def confined_def list_all_iff map_add_def split: option.split dest!: map_of_SomeD)

lemma under_Clean [simp]: "under dst (path_Clean p) \<longleftrightarrow> under dst p"
  by (simp add: under_def)

lemma unzip_entry_confined:
  assumes "unzip_entry writable dst e (t, n) = ((t', m), err)" "n \<le> maxZipTotalBytes"
  shows "\<exists>ws. writes t ws t' \<and> confined dst (maxZipTotalBytes - n) ws \<and> m \<le> maxZipTotalBytes \<and>
    (err = None \<longrightarrow> confined dst (m - n) ws \<and> n \<le> m)"
proof -
  let ?target = "path_Join [dst, ze_Name e]" and ?r = "maxZipTotalBytes - n"
  let ?data = "take ?r (ze_data e)"
  have same: ?thesis if "writes t [] t'" "m = n"
    using that assms(2) by (intro exI [of _ "[]"]) auto
  show ?thesis
  proof (cases "escapes dst ?target \<or> ze_IsDir e \<or>
      ze_CompressedSize e > 0 \<and> ze_UncompressedSize e div ze_CompressedSize e > maxZipRatio \<or>
      ze_UncompressedSize e > ?r")
    case True
    then have "writes t [] t' \<and> m = n"
      using assms(1) by (auto simp: unzip_entry_def Let_def split: if_splits option.splits dest: writes_mkdir)
    then show ?thesis using same by blast
  next
    case False
    then have u: "under dst ?target" using not_escapes_under by blast
    show ?thesis
    proof (cases "MkdirAll writable (path_Dir ?target) t")
      case None
      then have "writes t [] t' \<and> m = n" using assms(1) False by (auto simp: unzip_entry_def Let_def split: if_splits)
      then show ?thesis using same by blast
    next
      case mk: (Some t1)
      show ?thesis
      proof (cases "ze_openError e")
        case True
        then have "writes t [] t' \<and> m = n"
          using assms(1) False mk writes_mkdir [OF mk] by (auto simp: unzip_entry_def Let_def split: if_splits)
        then show ?thesis using same by blast
      next
        case open_ok: False
        obtain t2 ok where cp: "copyReaderToFile writable ?data (ze_copyError e ?r) ?target t1 = (t2, ok)" by fastforce
        have t2: "t' = t2" and m: "m = (if ok then n + length ?data else n)" and er: "err = None \<Longrightarrow> ok"
          using assms(1) False mk open_ok cp
          by (auto simp: unzip_entry_def Let_def split: if_splits bool.splits)
        from writes_copy [OF cp] consider "writes t1 [] t2" "\<not> ok" | "writes t1 [(path_Clean ?target, ?data)] t2" by blast
        then show ?thesis
        proof cases
          case 1
          then have "writes t [] t' \<and> m = n" using writes_trans [OF writes_mkdir [OF mk] 1(1)] t2 m by simp
          then show ?thesis using same by blast
        next
          case 2
          have "writes t [(path_Clean ?target, ?data)] t'" using writes_trans [OF writes_mkdir [OF mk] 2] t2 by simp
          then show ?thesis using u m er assms(2) by (intro exI [of _ "[(path_Clean ?target, ?data)]"]) auto
        qed
      qed
    qed
  qed
qed

lemma unzip_entries_confined:
  assumes "n \<le> maxZipTotalBytes"
  shows "\<exists>ws. writes t ws (fst (fst (unzip_entries writable dst es (t, n)))) \<and>
    confined dst (maxZipTotalBytes - n) ws"
  using assms
proof (induction es arbitrary: t n)
  case Nil
  then show ?case by (auto intro!: exI [of _ "[]"])
next
  case (Cons e es)
  obtain t1 m err where e: "unzip_entry writable dst e (t, n) = ((t1, m), err)"
    by (metis surj_pair)
  from unzip_entry_confined [OF e Cons.prems] obtain ws where
    ws: "writes t ws t1" "confined dst (maxZipTotalBytes - n) ws" "m \<le> maxZipTotalBytes"
      "err = None \<Longrightarrow> confined dst (m - n) ws \<and> n \<le> m" by blast
  show ?case
  proof (cases err)
    case None
    from Cons.IH [OF ws(3), of t1] obtain vs where
      vs: "writes t1 vs (fst (fst (unzip_entries writable dst es (t1, m))))"
        "confined dst (maxZipTotalBytes - m) vs" by blast
    have "confined dst ((m - n) + (maxZipTotalBytes - m)) (ws @ vs)"
      using ws(4) [OF None] vs(2) by (blast intro: confined_append)
    then have "confined dst (maxZipTotalBytes - n) (ws @ vs)"
      using ws(3) ws(4) [OF None] by (auto elim: confined_mono)
    then show ?thesis using writes_trans [OF ws(1) vs(1)] e None by auto
  next
    case (Some x)
    then show ?thesis using ws e by auto
  qed
qed

lemma unzip_writes:
  "\<exists>ws. writes t ws (fst (unzip writable archive dst t)) \<and> confined dst maxZipTotalBytes ws"
proof -
  have none: ?thesis if "fst (unzip writable archive dst t) = t"
    using that by (auto intro!: exI [of _ "[]"])
  show ?thesis
  proof (cases archive)
    case None
    then show ?thesis by (intro none) (simp add: unzip_def)
  next
    case (Some es)
    show ?thesis
    proof (cases "length es > maxZipEntries")
      case True
      then show ?thesis using Some by (intro none) (simp add: unzip_def)
    next
      case False
      then have "fst (unzip writable archive dst t) = fst (fst (unzip_entries writable dst es (t, 0)))"
        using Some by (simp add: unzip_def split: prod.split)
      then show ?thesis using unzip_entries_confined [of 0 t writable dst es] by simp
    qed
  qed
qed

text \<open>
  C26. Extraction of an untrusted archive cannot touch anything outside the build directory and
  cannot fill the disk: whatever the archive, whether \<^verbatim>\<open>unzip\<close> succeeds or fails, every byte it wrote
  is in a file at or below the destination, those bytes are at most 512 MiB over all entries,
  whatever sizes the headers claim, and every file elsewhere is as before.
\<close>

theorem unzip_is_confined:
  "case unzip writable archive dst t of (t', err) \<Rightarrow>
     \<exists>ws. bt_log t' = bt_log t @ ws \<and> list_all (\<lambda>(p, data). under dst p) ws \<and>
       log_bytes ws \<le> maxZipTotalBytes \<and>
       (\<forall>p. under dst p \<or> bt_files t' p = bt_files t p)"
proof -
  obtain t' err where eq: "unzip writable archive dst t = (t', err)" by fastforce
  from unzip_writes [of t writable archive dst] eq obtain ws where
    w: "writes t ws t'" "confined dst maxZipTotalBytes ws" by auto
  have "\<forall>p. under dst p \<or> bt_files t' p = bt_files t p" using confined_outside [OF w] by blast
  then show ?thesis using eq w by (simp add: writes_def confined_def)
qed

section \<open>The Dockerfile policy\<close>

text \<open>
  Comment lines are dropped, a trailing backslash joins a line with the next one, and no \<^verbatim>\<open>ADD\<close> of
  a joined line may name an \<^verbatim>\<open>http\<close> or \<^verbatim>\<open>https\<close> URL.
\<close>

definition CR :: string where "CR = [CHR 0x0D]"
definition backslash :: string where "backslash = [CHR 0x5C]"

definition trim_line :: "string \<Rightarrow> string" where
  "trim_line raw = TrimSpace (rev (dropWhile (\<lambda>c. c = CHR 0x0D) (rev raw)))"

definition fold_line :: "string \<Rightarrow> string \<Rightarrow> string" where
  "fold_line raw logical =
     (let trimmed = trim_line raw in
      if HasPrefix trimmed ''#'' then logical
      else if HasSuffix trimmed backslash then logical @ butlast trimmed @ '' ''
      else logical @ trimmed @ [CHR 0x0A])"

definition logical_text :: "string \<Rightarrow> string" where
  "logical_text data = fold fold_line (SplitChar CHR 0x0A data) []"

definition remote_arg :: "string \<Rightarrow> bool" where
  "remote_arg arg \<longleftrightarrow> HasPrefix (ToLower arg) ''http://'' \<or> HasPrefix (ToLower arg) ''https://''"

definition remote_add :: "string \<Rightarrow> bool" where
  "remote_add raw =
     (let line = TrimSpace raw in
      if line = [] then False
      else let fields = Fields line in
        if length fields < 2 \<or> \<not> EqualFold (hd fields) ''ADD'' then False
        else list_ex remote_arg (tl fields))"

definition validateUntrustedDockerfile :: "string option \<Rightarrow> string option" where
  "validateUntrustedDockerfile contents =
     (case contents of
        None \<Rightarrow> Some ''open Dockerfile''
      | Some data \<Rightarrow>
          if list_ex remote_add (SplitChar CHR 0x0A (logical_text data))
          then Some ''contestant Dockerfile uses remote ADD; build-time network fetches are not allowed''
          else None)"

definition dockerfile_go :: "string list" where
  "dockerfile_go =
     [''FROM golang:1.22-alpine AS build'', ''WORKDIR /src'', ''COPY . .'', ''RUN go mod tidy'',
      ''RUN go build -o /engine .'', [], ''FROM alpine:3.20'', ''WORKDIR /app'',
      ''COPY --from=build /engine /engine'', ''EXPOSE 8080'', ''ENTRYPOINT [\"/engine\"]'']"

definition dockerfile_rust :: "string list" where
  "dockerfile_rust =
     [''FROM rust:1-slim AS build'', ''WORKDIR /src'', ''COPY . .'',
      ''RUN cargo build --release --locked || cargo build --release'',
      ''RUN mkdir -p /out && '' @ backslash,
      ''    find target/release -maxdepth 1 -type f -perm -111 ! -name '' @ [CHR 0x27] @ ''*.d'' @ [CHR 0x27] @
        '' -exec cp {} /out/engine '' @ backslash @ ''; -quit'', [],
      ''FROM debian:stable-slim'', ''WORKDIR /app'', ''COPY --from=build /out/engine /engine'', ''EXPOSE 8080'',
      ''ENTRYPOINT [\"/engine\"]'']"

definition dockerfile_binary :: "string list" where
  "dockerfile_binary =
     [''FROM debian:stable-slim'', ''WORKDIR /app'', ''COPY engine /engine'', ''RUN chmod +x /engine'',
      ''EXPOSE 8080'', ''ENTRYPOINT [\"/engine\"]'']"

definition end_lines :: "string list \<Rightarrow> string" where
  "end_lines ls = concat (map (\<lambda>l. l @ [CHR 0x0A]) ls)"

definition defaultDockerfile :: "string \<Rightarrow> string + string" where
  "defaultDockerfile language =
     (let l = ToLower (TrimSpace language) in
      if l = [] \<or> l = ''go'' then Inr (end_lines dockerfile_go)
      else if l = ''rust'' then Inr (end_lines dockerfile_rust)
      else if l = ''binary'' \<or> l = ''bin'' then Inr (end_lines dockerfile_binary)
      else Inl (''no default Dockerfile for language '' @ language))"

definition writeDefaultDockerfile :: "(string \<Rightarrow> bool) \<Rightarrow> string \<Rightarrow> string \<Rightarrow> build_tree \<Rightarrow>
    build_tree \<times> string option" where
  "writeDefaultDockerfile writable dir language t =
     (case defaultDockerfile language of
        Inl e \<Rightarrow> (t, Some e)
      | Inr content \<Rightarrow>
          (case WriteFile writable (path_Join [dir, ''Dockerfile'']) content t of
             None \<Rightarrow> (t, Some ''open Dockerfile'')
           | Some t \<Rightarrow> (t, None)))"

section \<open>The build context\<close>

text \<open>
  What \<^verbatim>\<open>os.Stat\<close> finds at the source: a directory, with its entries in the order of the walk, each
  with its relative path and, for a file, its contents; or a file.
\<close>

datatype source_entry = SubDir string | SubFile string string
datatype source_kind = SrcDir "source_entry list" | SrcFile string

fun copyDir :: "(string \<Rightarrow> bool) \<Rightarrow> source_entry list \<Rightarrow> string \<Rightarrow> build_tree \<Rightarrow> build_tree \<times> string option" where
  "copyDir writable [] dst t = (t, None)"
| "copyDir writable (SubDir rel # es) dst t =
     (case MkdirAll writable (path_Join [dst, rel]) t of
        None \<Rightarrow> (t, Some ''mkdir'')
      | Some t \<Rightarrow> copyDir writable es dst t)"
| "copyDir writable (SubFile rel data # es) dst t =
     (case copyReaderToFile writable data False (path_Join [dst, rel]) t of
        (t, False) \<Rightarrow> (t, Some ''copy'')
      | (t, True) \<Rightarrow> copyDir writable es dst t)"

text \<open>\<^verbatim>\<open>filepath.Ext\<close>: the suffix from the last dot of the last element.\<close>

definition path_Ext :: "string \<Rightarrow> string" where
  "path_Ext p =
     (let b = takeWhile (\<lambda>c. c \<noteq> CHR ''/'') (rev p); e = takeWhile (\<lambda>c. c \<noteq> CHR ''.'') b
      in if length e < length b then CHR ''.'' # rev e else [])"

definition go_mod :: string where
  "go_mod = end_lines [''module contestant'', [], ''go 1.22'']"

definition place_artifact :: "(string \<Rightarrow> bool) \<Rightarrow> (string \<Rightarrow> zip_entry list option) \<Rightarrow> source_kind \<Rightarrow> string \<Rightarrow>
    string \<Rightarrow> string \<Rightarrow> build_tree \<Rightarrow> build_tree \<times> string option" where
  "place_artifact writable parse_zip kind src dst language t =
     (case kind of
        SrcDir es \<Rightarrow> copyDir writable es dst t
      | SrcFile data \<Rightarrow>
          if EqualFold (path_Ext src) ''.zip'' then unzip writable (parse_zip data) dst t
          else
            (case copyReaderToFile writable data False (path_Join [dst, path_Base src]) t of
               (t, False) \<Rightarrow> (t, Some ''copy'')
             | (t, True) \<Rightarrow>
                 let mod_path = path_Join [dst, ''go.mod''] in
                 if language = ''go'' \<and> EqualFold (path_Ext src) ''.go'' \<and> \<not> fileExists t mod_path then
                   (case WriteFile writable mod_path go_mod t of
                      None \<Rightarrow> (t, Some ''open go.mod'')
                    | Some t \<Rightarrow> (t, None))
                 else (t, None)))"

text \<open>The boolean is \<^verbatim>\<open>contestantDockerfile\<close>: the artifact brought its own Dockerfile.\<close>

definition prepareBuildContext :: "(string \<Rightarrow> bool) \<Rightarrow> (string \<Rightarrow> zip_entry list option) \<Rightarrow>
    (string \<Rightarrow> source_kind option) \<Rightarrow> string \<Rightarrow> string \<Rightarrow> string \<Rightarrow> build_tree \<Rightarrow>
    build_tree \<times> bool \<times> string option" where
  "prepareBuildContext writable parse_zip stat src dst language t =
     (case stat src of
        None \<Rightarrow> (t, False, Some ''stat'')
      | Some kind \<Rightarrow>
          (case MkdirAll writable dst t of
             None \<Rightarrow> (t, False, Some ''mkdir'')
           | Some t \<Rightarrow>
               (case place_artifact writable parse_zip kind src dst language t of
                  (t, Some e) \<Rightarrow> (t, False, Some e)
                | (t, None) \<Rightarrow>
                    let dockerfilePath = path_Join [dst, ''Dockerfile''] in
                    if \<not> fileExists t dockerfilePath then
                      (case writeDefaultDockerfile writable dst language t of (t, err) \<Rightarrow> (t, False, err))
                    else (t, True, validateUntrustedDockerfile (bt_files t dockerfilePath)))))"

text \<open>
  A build that is prepared without error has a Dockerfile, either the contestant's own, flagged
  and accepted by the policy, or the default one of the language.
\<close>

lemma prepareBuildContext_dockerfile:
  assumes "prepareBuildContext writable parse_zip stat src dst language t = (t', contestant, None)"
    "dst \<noteq> []"
  shows "\<exists>data. bt_files t' (path_Join [dst, ''Dockerfile'']) = Some data \<and>
    (if contestant then validateUntrustedDockerfile (Some data) = None else defaultDockerfile language = Inr data)"
proof -
  let ?df = "path_Join [dst, ''Dockerfile'']"
  have clean: "path_Clean ?df = ?df" using assms(2) by (simp add: path_Join_two)
  obtain kind where kind: "stat src = Some kind"
    using assms(1) by (cases "stat src") (simp_all add: prepareBuildContext_def)
  obtain t0 where t0: "MkdirAll writable dst t = Some t0"
    using assms(1) kind by (cases "MkdirAll writable dst t") (simp_all add: prepareBuildContext_def)
  obtain t1 err where pl: "place_artifact writable parse_zip kind src dst language t0 = (t1, err)" by fastforce
  have err: "err = None" using assms(1) kind t0 pl by (cases err) (simp_all add: prepareBuildContext_def)
  have "\<not> contestant \<and> writeDefaultDockerfile writable dst language t1 = (t', None) \<or>
      contestant \<and> t' = t1 \<and> validateUntrustedDockerfile (bt_files t1 ?df) = None"
  proof (cases "fileExists t1 ?df")
    case True
    then show ?thesis using assms(1) kind t0 pl err by (auto simp: prepareBuildContext_def)
  next
    case False
    then show ?thesis using assms(1) kind t0 pl err
      by (cases "writeDefaultDockerfile writable dst language t1") (simp add: prepareBuildContext_def)
  qed
  then show ?thesis
  proof (elim disjE conjE)
    assume "\<not> contestant" "writeDefaultDockerfile writable dst language t1 = (t', None)"
    then obtain content where "defaultDockerfile language = Inr content" "WriteFile writable ?df content t1 = Some t'"
      unfolding writeDefaultDockerfile_def by (auto split: sum.splits option.splits)
    then show ?thesis using clean \<open>\<not> contestant\<close> WriteFile_log by fastforce
  next
    assume "contestant" "t' = t1" "validateUntrustedDockerfile (bt_files t1 ?df) = None"
    then show ?thesis by (cases "bt_files t1 ?df") (auto simp: validateUntrustedDockerfile_def)
  qed
qed

text \<open>
  The scan sees neither the array form of \<^verbatim>\<open>ADD\<close>, nor a URL that an \<^verbatim>\<open>ARG\<close> names, nor one below a
  blank line inside a continuation (which Docker skips); the plain form is refused.
\<close>

lemma dockerfile_policy_gaps:
  "validateUntrustedDockerfile (Some ''ADD http://h/x /x'') \<noteq> None"
  "validateUntrustedDockerfile (Some ''ADD [\"http://h/x\", \"/x\"]'') = None"
  "validateUntrustedDockerfile (Some (''ARG U=http://h/x'' @ [CHR 0x0A] @ ''ADD $U /x'')) = None"
  "validateUntrustedDockerfile (Some (''ADD '' @ backslash @ [CHR 0x0A, CHR 0x0A] @ ''http://h/x /x'')) = None"
  by code_simp+

section \<open>Image names and environments\<close>

text \<open>Every run of characters outside the tag alphabet becomes one dash.\<close>

definition tag_char :: "char \<Rightarrow> bool" where
  "tag_char c \<longleftrightarrow> (CHR ''a'' \<le> c \<and> c \<le> CHR ''z'') \<or> (CHR ''0'' \<le> c \<and> c \<le> CHR ''9'') \<or> c \<in> {CHR ''_'', CHR ''.'', CHR ''-''}"

fun replace_runs :: "string \<Rightarrow> string" where
  "replace_runs [] = []"
| "replace_runs (c # s) =
     (if tag_char c then c # replace_runs s
      else case s of
        [] \<Rightarrow> ''-''
      | d # _ \<Rightarrow> if tag_char d then CHR ''-'' # replace_runs s else replace_runs s)"

definition trim_tag :: "string \<Rightarrow> string" where
  "trim_tag s =
     (let junk = (\<lambda>c. c = CHR ''.'' \<or> c = CHR ''-'') in rev (dropWhile junk (rev (dropWhile junk s))))"

definition sanitizeDockerTag :: "string \<Rightarrow> string" where
  "sanitizeDockerTag value =
     (let value = trim_tag (replace_runs (ToLower value)) in
      if value = [] then ''submission'' else if length value > 80 then take 80 value else value)"

text \<open>\<^verbatim>\<open>os.LookupEnv\<close> is the parameter.\<close>

definition isAuthSecretEnv :: "string \<Rightarrow> bool" where
  "isAuthSecretEnv name =
     (let upper = ToUpper name in Contains upper ''AUTH_TOKEN'' \<or> upper = ''REQUIRE_AUTH'')"

definition allowlistEnv :: "(string \<Rightarrow> string option) \<Rightarrow> string list \<Rightarrow> string list" where
  "allowlistEnv lookup names =
     concat (map (\<lambda>name. if isAuthSecretEnv name then []
       else case lookup name of Some v \<Rightarrow> [name @ ''='' @ v] | None \<Rightarrow> []) names)"

definition buildEnvAllowlist :: "(string \<Rightarrow> string option) \<Rightarrow> string list" where
  "buildEnvAllowlist lookup =
     allowlistEnv lookup [''PATH'', ''HOME'', ''GOCACHE'', ''GOPATH'', ''GOMODCACHE'', ''GOPROXY'', ''GOFLAGS'', ''GO111MODULE'']
       @ [''CGO_ENABLED=0'']"

definition runEnvAllowlist :: "(string \<Rightarrow> string option) \<Rightarrow> string list" where
  "runEnvAllowlist lookup = allowlistEnv lookup [''PATH'', ''HOME'']"

definition sandbox_buildConcurrency :: "(string \<Rightarrow> string) \<Rightarrow> int \<Rightarrow> int" where
  "sandbox_buildConcurrency getenv numCPU =
     (let v = getenv ''SANDBOX_BUILD_CONCURRENCY'';
          n = (if v \<noteq> [] then (case Atoi v of (parsed, ok) \<Rightarrow> if ok \<and> parsed > 0 then parsed else numCPU)
               else numCPU)
      in if n < 1 then 1 else n)"

lemma tag_char_dash: "tag_char CHR ''-''"
  by (simp add: tag_char_def)

lemma replace_runs_chars: "list_all tag_char (replace_runs s)"
proof (induction s)
  case (Cons c s)
  then show ?case
    by (subst replace_runs.simps(2)) (simp add: tag_char_dash del: replace_runs.simps(2) split: list.split)
qed simp

lemma dropWhile_all: "list_all P xs \<Longrightarrow> list_all P (dropWhile Q xs)"
  by (auto simp: list_all_iff dest: set_dropWhileD)

lemma trim_tag_chars: "list_all P s \<Longrightarrow> list_all P (trim_tag s)"
  unfolding trim_tag_def Let_def by (simp add: dropWhile_all)

lemma trim_tag_hd:
  assumes "trim_tag s \<noteq> []"
  shows "hd (trim_tag s) \<noteq> CHR ''.''" "hd (trim_tag s) \<noteq> CHR ''-''"
proof -
  let ?junk = "\<lambda>c. c = CHR ''.'' \<or> c = CHR ''-''"
  let ?d = "dropWhile ?junk s"
  have "?d = rev (takeWhile ?junk (rev ?d) @ dropWhile ?junk (rev ?d))"
    by (simp only: takeWhile_dropWhile_id rev_rev_ident)
  then have "?d = trim_tag s @ rev (takeWhile ?junk (rev ?d))"
    by (simp only: rev_append trim_tag_def Let_def)
  then obtain ys where "?d = trim_tag s @ ys" by blast
  then have "dropWhile ?junk s \<noteq> []" "hd (dropWhile ?junk s) = hd (trim_tag s)" using assms by auto
  then have "\<not> ?junk (hd (trim_tag s))" using hd_dropWhile [of ?junk s] by simp
  then show "hd (trim_tag s) \<noteq> CHR ''.''" "hd (trim_tag s) \<noteq> CHR ''-''" by auto
qed

text \<open>
  A tag is never empty, at most 80 characters of the tag alphabet, and starts with neither a dot
  nor a dash: so it is one element of a path and never \<^verbatim>\<open>..\<close>, whatever the submission is called.
\<close>

lemma sanitizeDockerTag_ok:
  "sanitizeDockerTag v \<noteq> []" "length (sanitizeDockerTag v) \<le> 80" "list_all tag_char (sanitizeDockerTag v)"
  "hd (sanitizeDockerTag v) \<noteq> CHR ''.''" "hd (sanitizeDockerTag v) \<noteq> CHR ''-''"
proof -
  let ?w = "trim_tag (replace_runs (ToLower v))"
  have chars: "list_all tag_char ?w" by (rule trim_tag_chars) (rule replace_runs_chars)
  have chars80: "list_all tag_char (take 80 ?w)" using chars by (auto simp: list_all_iff dest: in_set_takeD)
  have d: "list_all tag_char ''submission''" by (simp add: tag_char_def)
  show "sanitizeDockerTag v \<noteq> []" "length (sanitizeDockerTag v) \<le> 80"
    by (auto simp: sanitizeDockerTag_def Let_def)
  show "list_all tag_char (sanitizeDockerTag v)"
    using chars chars80 d by (simp add: sanitizeDockerTag_def Let_def)
  show "hd (sanitizeDockerTag v) \<noteq> CHR ''.''" "hd (sanitizeDockerTag v) \<noteq> CHR ''-''"
    using trim_tag_hd [of "replace_runs (ToLower v)"]
    by (auto simp: sanitizeDockerTag_def Let_def hd_take)
qed

lemma sandbox_buildConcurrency_pos: "1 \<le> sandbox_buildConcurrency getenv numCPU"
  by (simp add: sandbox_buildConcurrency_def Let_def)

text \<open>
  Contestant processes see no credential of the runner: no variable they are given is one of the
  names the runner keeps secret, and each is one of the two short lists.
\<close>

definition env_name :: "string \<Rightarrow> string" where "env_name kv = takeWhile (\<lambda>c. c \<noteq> CHR ''='') kv"

lemma env_name_eq: "CHR ''='' \<notin> set n \<Longrightarrow> env_name (n @ ''='' @ v) = n"
  by (induction n) (auto simp: env_name_def)

lemma allowlistEnv_names:
  assumes "kv \<in> set (allowlistEnv lookup names)" "list_all (\<lambda>n. CHR ''='' \<notin> set n) names"
  shows "env_name kv \<in> set names \<and> \<not> isAuthSecretEnv (env_name kv)"
proof -
  from assms(1) obtain n v where n: "n \<in> set names" "\<not> isAuthSecretEnv n" "kv = n @ ''='' @ v"
    by (auto simp: allowlistEnv_def split: if_splits option.splits)
  moreover from n(1) assms(2) have "CHR ''='' \<notin> set n" by (auto simp: list_all_iff)
  then have "env_name kv = n" unfolding n(3) by (rule env_name_eq)
  ultimately show ?thesis by simp
qed

lemma contestant_env_has_no_secret:
  "kv \<in> set (buildEnvAllowlist lookup) \<union> set (runEnvAllowlist lookup) \<Longrightarrow> \<not> isAuthSecretEnv (env_name kv)"
proof -
  have cgo: "\<not> isAuthSecretEnv (env_name ''CGO_ENABLED=0'')" by code_simp
  let ?build = "[''PATH'', ''HOME'', ''GOCACHE'', ''GOPATH'', ''GOMODCACHE'', ''GOPROXY'', ''GOFLAGS'', ''GO111MODULE'']"
  assume "kv \<in> set (buildEnvAllowlist lookup) \<union> set (runEnvAllowlist lookup)"
  then consider "kv \<in> set (allowlistEnv lookup ?build)" | "kv = ''CGO_ENABLED=0''"
    | "kv \<in> set (allowlistEnv lookup [''PATH'', ''HOME''])"
    unfolding buildEnvAllowlist_def runEnvAllowlist_def set_append Un_iff by fastforce
  then show ?thesis
  proof cases
    case 1
    then show ?thesis using allowlistEnv_names by simp
  next
    case 2
    then show ?thesis using cgo by simp
  next
    case 3
    then show ?thesis using allowlistEnv_names by simp
  qed
qed

end
