(* ===== verification/SandboxRunner.thy ===== *)
theory SandboxRunner
  imports Sandbox Executor "HOL-Library.AList"
begin

text \<open>
  The sandbox runner behind its two modes, \<^verbatim>\<open>services/sandbox-runner\<close>: the types of
  \<^verbatim>\<open>internal/sandbox/model.go\<close>, the interface \<^verbatim>\<open>Runner\<close> as a locale with the laws its clients rely
  on, what both runners share (the health wait, the resource sampler, the sandbox registry, log
  retention), the handlers of \<^verbatim>\<open>internal/api\<close> and the choice of the mode in \<^verbatim>\<open>main.go\<close>.
\<close>

section \<open>Types\<close>

record sr_BuildRequest =
  sq_SubmissionID :: string
  sq_ArtifactURI :: string
  sq_Language :: string

record sr_ImageRef =
  si_ImageRef :: string
  si_SubmissionID :: string
  si_ArtifactURI :: string
  si_Language :: string
  si_BuiltAt :: int

record sr_SandboxSpec =
  ss_CPULimit :: string
  ss_CpusetCpus :: string
  ss_MemoryLimit :: string
  ss_NetworkEgress :: bool

record sr_StartRequest =
  sa_RunID :: string
  sa_ImageRef :: string
  sa_EngineMode :: string
  sa_EventsPath :: string
  sa_Spec :: sr_SandboxSpec

record SandboxHandle =
  sh_SandboxID :: string
  sh_RunID :: string
  sh_ImageRef :: string
  sh_Endpoint :: string
  sh_HealthURL :: string
  sh_Spec :: sr_SandboxSpec
  sh_NetworkName :: string
  sh_NetworkIsolated :: bool
  sh_StartedAt :: int

section \<open>Waiting for the engine\<close>

text \<open>
  What the loop of \<^verbatim>\<open>waitForHealth\<close> sees: the caller's context ends, the 45 second deadline passes,
  or a tick, at which the probe fails (\<open>None\<close>) or answers a status. The deadline comes after
  finitely many ticks, so a list that ends without it stands for the deadline.
\<close>

datatype health_event = HealthCtxDone | HealthDeadline | HealthTick "nat option"

fun waitForHealth :: "string \<Rightarrow> health_event list \<Rightarrow> string option" where
  "waitForHealth url [] = Some (''healthcheck timed out: '' @ url)"
| "waitForHealth url (HealthCtxDone # evs) = Some ''context canceled''"
| "waitForHealth url (HealthDeadline # evs) = Some (''healthcheck timed out: '' @ url)"
| "waitForHealth url (HealthTick (Some code) # evs) =
     (if 200 \<le> code \<and> code < 300 then None else waitForHealth url evs)"
| "waitForHealth url (HealthTick None # evs) = waitForHealth url evs"

lemma waitForHealth_ok: "waitForHealth url evs = None \<Longrightarrow> \<exists>code. HealthTick (Some code) \<in> set evs \<and> 200 \<le> code \<and> code < 300"
  by (induction url evs rule: waitForHealth.induct) (auto split: if_splits)

section \<open>The resource sampler\<close>

record ResourceSample =
  rs_PeakCPUPct :: f64
  rs_PeakMemMB :: f64
  rs_Samples :: int
  rs_Source :: string

definition startSampler :: "string \<Rightarrow> ResourceSample" where
  "startSampler source = \<lparr>rs_PeakCPUPct = Fin 0, rs_PeakMemMB = Fin 0, rs_Samples = 0, rs_Source = source\<rparr>"

text \<open>One tick; \<open>None\<close> is a reading that failed.\<close>

definition sampler_tick :: "(f64 \<times> f64) option \<Rightarrow> ResourceSample \<Rightarrow> ResourceSample" where
  "sampler_tick reading s =
     (case reading of
        None \<Rightarrow> s
      | Some (cpu, mem) \<Rightarrow>
          s\<lparr>rs_Samples := wrap64 (rs_Samples s + 1),
            rs_PeakCPUPct := (if f_less (rs_PeakCPUPct s) cpu then cpu else rs_PeakCPUPct s),
            rs_PeakMemMB := (if f_less (rs_PeakMemMB s) mem then mem else rs_PeakMemMB s)\<rparr>)"

definition sampler_Stop :: "(f64 \<times> f64) option list \<Rightarrow> string \<Rightarrow> ResourceSample" where
  "sampler_Stop readings source = fold sampler_tick readings (startSampler source)"

definition samplePID :: "string option \<Rightarrow> (f64 \<times> f64) option" where
  "samplePID out =
     (case out of
        None \<Rightarrow> None
      | Some text \<Rightarrow>
          let fields = Fields text in
          if length fields < 2 then None
          else case (ParseFloat (fields ! 0), ParseFloat (fields ! 1)) of
            ((cpu, ok1), (rssKiB, ok2)) \<Rightarrow> if ok1 \<and> ok2 then Some (cpu, f_div rssKiB (Fin 1024)) else None)"

text \<open>
  One reading of \<^verbatim>\<open>sampleContainer\<close>: the counters of the container, or nothing when the request or
  the decoding fails. The previous counters are the state.
\<close>

record StatsJSON =
  sj_MemUsage :: nat
  sj_TotalUsage :: nat
  sj_SystemUsage :: nat
  sj_OnlineCPUs :: nat
  sj_PercpuUsage :: nat

definition sampleContainer :: "StatsJSON option \<Rightarrow> nat \<times> nat \<Rightarrow> (nat \<times> nat) \<times> (f64 \<times> f64) option" where
  "sampleContainer stats prev =
     (case stats of
        None \<Rightarrow> (prev, None)
      | Some s \<Rightarrow>
          (case prev of (prevCPU, prevSystem) \<Rightarrow>
           let memMB = f_div (float64 (int (sj_MemUsage s))) (f_mul (Fin 1024) (Fin 1024));
               cur = sj_TotalUsage s; sys = sj_SystemUsage s;
               online = (if sj_OnlineCPUs s = 0 then (if sj_PercpuUsage s = 0 then 1 else sj_PercpuUsage s) else sj_OnlineCPUs s);
               cpu = (if prevCPU \<noteq> 0 \<and> sys > prevSystem \<and> cur > prevCPU
                      then f_mul (f_mul (f_div (float64 (int (cur - prevCPU))) (float64 (int (sys - prevSystem))))
                             (float64 (int online))) (Fin 100)
                      else Fin 0)
           in ((cur, sys), Some (cpu, memMB))))"

lemma f_less_irrefl [simp]: "\<not> f_less x x"
  by (cases x) simp_all

lemma f_less_trans: "\<lbrakk>f_less x y; f_less y z\<rbrakk> \<Longrightarrow> f_less x z"
  by (cases x; cases y; cases z) simp_all

text \<open>The peaks dominate every reading the sampler was given, and start from 0.\<close>

lemma sampler_tick_dominates:
  "\<not> f_less (rs_PeakCPUPct s) x \<Longrightarrow> \<not> f_less (rs_PeakCPUPct (sampler_tick r s)) x"
  "\<not> f_less (rs_PeakMemMB s) x \<Longrightarrow> \<not> f_less (rs_PeakMemMB (sampler_tick r s)) x"
  by (auto simp: sampler_tick_def split: option.split prod.split dest: f_less_trans)

lemma sampler_keeps:
  "\<not> f_less (rs_PeakCPUPct s) x \<Longrightarrow> \<not> f_less (rs_PeakCPUPct (fold sampler_tick rs s)) x"
  "\<not> f_less (rs_PeakMemMB s) x \<Longrightarrow> \<not> f_less (rs_PeakMemMB (fold sampler_tick rs s)) x"
  by (induction rs arbitrary: s) (simp_all add: sampler_tick_dominates)

lemma sampler_peaks:
  assumes "Some (cpu, mem) \<in> set readings"
  shows "\<not> f_less (rs_PeakCPUPct (sampler_Stop readings source)) cpu"
    "\<not> f_less (rs_PeakMemMB (sampler_Stop readings source)) mem"
proof -
  obtain as bs where r: "readings = as @ Some (cpu, mem) # bs" using assms by (meson split_list)
  let ?s = "fold sampler_tick as (startSampler source)"
  have "\<not> f_less (rs_PeakCPUPct (sampler_tick (Some (cpu, mem)) ?s)) cpu"
    "\<not> f_less (rs_PeakMemMB (sampler_tick (Some (cpu, mem)) ?s)) mem"
    by (simp_all add: sampler_tick_def)
  then show "\<not> f_less (rs_PeakCPUPct (sampler_Stop readings source)) cpu"
    "\<not> f_less (rs_PeakMemMB (sampler_Stop readings source)) mem"
    by (simp_all add: sampler_Stop_def r sampler_keeps)
qed

section \<open>The interface of the runners\<close>

text \<open>The handle a history leaves registered under an identifier: its last start, unless stopped since.\<close>

definition registered :: "string \<Rightarrow> (SandboxHandle + string) list \<Rightarrow> SandboxHandle option" where
  "registered i hist =
     fold (\<lambda>ev c. case ev of Inl h \<Rightarrow> if sh_SandboxID h = i then Some h else c
                           | Inr j \<Rightarrow> if j = i then None else c) hist None"

text \<open>
  \<^verbatim>\<open>Runner\<close>, as far as its clients depend on it: \<open>'w\<close> is what the operating system or the Docker
  daemon answers during a call. A successful start registers exactly the handle it returns, a
  failed one registers nothing; a stop forgets exactly the sandbox it names, whatever its result,
  and answers \<^verbatim>\<open>sandbox not found\<close> for one that is not registered; the list is the registry.
\<close>

locale sandbox_runner =
  fixes start :: "'w \<Rightarrow> sr_StartRequest \<Rightarrow> 's \<Rightarrow> 's \<times> (string + SandboxHandle)"
    and stop :: "'w \<Rightarrow> string \<Rightarrow> 's \<Rightarrow> 's \<times> string option"
    and find :: "string \<Rightarrow> 's \<Rightarrow> SandboxHandle option"
    and handles :: "'s \<Rightarrow> SandboxHandle list"
    and inv :: "'s \<Rightarrow> bool"
  assumes start_inv: "\<lbrakk>inv s; start w req s = (s', res)\<rbrakk> \<Longrightarrow> inv s'"
    and stop_inv: "\<lbrakk>inv s; stop w i s = (s', err)\<rbrakk> \<Longrightarrow> inv s'"
    and start_ok: "start w req s = (s', Inr h) \<Longrightarrow> find i s' = (if i = sh_SandboxID h then Some h else find i s)"
    and start_err: "start w req s = (s', Inl e) \<Longrightarrow> find i s' = find i s"
    and stop_find: "stop w i s = (s', err) \<Longrightarrow> find j s' = (if j = i then None else find j s)"
    and stop_unknown: "find i s = None \<Longrightarrow> snd (stop w i s) = Some ''sandbox not found''"
    and handles_find: "inv s \<Longrightarrow> h \<in> set (handles s) \<longleftrightarrow> find (sh_SandboxID h) s = Some h"
begin

text \<open>A sequence of requests, and what they were answered.\<close>

definition serve :: "'w \<times> (sr_StartRequest + string) \<Rightarrow> 's \<times> (SandboxHandle + string) list \<Rightarrow>
    's \<times> (SandboxHandle + string) list" where
  "serve q x =
     (case q of
        (w, Inl req) \<Rightarrow>
          (case start w req (fst x) of
             (s, Inr h) \<Rightarrow> (s, snd x @ [Inl h])
           | (s, Inl e) \<Rightarrow> (s, snd x))
      | (w, Inr i) \<Rightarrow> (fst (stop w i (fst x)), snd x @ [Inr i]))"

lemma serve_registered:
  assumes "\<forall>i. find i (fst x) = registered i (snd x)"
  shows "\<forall>i. find i (fst (serve q x)) = registered i (snd (serve q x))"
proof -
  obtain w r where q: "q = (w, r)" by fastforce
  show ?thesis
  proof (cases r)
    case (Inl req)
    obtain s res where s: "start w req (fst x) = (s, res)" by fastforce
    show ?thesis
    proof (cases res)
      case err: (Inl e)
      then show ?thesis using s q Inl assms start_err by (auto simp: serve_def)
    next
      case ok: (Inr h)
      have "find i s = (if i = sh_SandboxID h then Some h else find i (fst x))" for i
        using start_ok s ok by blast
      then show ?thesis using s q Inl ok assms by (auto simp: serve_def registered_def)
    qed
  next
    case (Inr i)
    obtain s err where s: "stop w i (fst x) = (s, err)" by fastforce
    have "find j s = (if j = i then None else find j (fst x))" for j using stop_find [OF s] .
    then show ?thesis using s q Inr assms by (auto simp: serve_def registered_def)
  qed
qed

text \<open>So after any requests the registry is what the answers say, and so is the list.\<close>

lemma registry_is_history:
  assumes "\<forall>i. find i s0 = None"
  shows "find i (fst (fold serve qs (s0, []))) = registered i (snd (fold serve qs (s0, [])))"
proof -
  have "\<forall>i. find i (fst (fold serve qs x)) = registered i (snd (fold serve qs x))"
    if "\<forall>i. find i (fst x) = registered i (snd x)" for x
    using that by (induction qs arbitrary: x) (simp_all add: serve_registered)
  then show ?thesis using assms by (simp add: registered_def)
qed

lemma serve_inv: "inv (fst x) \<Longrightarrow> inv (fst (serve q x))"
  unfolding serve_def
  by (cases q; cases "snd q"; cases "start (fst q) (projl (snd q)) (fst x)"; cases "stop (fst q) (projr (snd q)) (fst x)")
    (auto dest: start_inv stop_inv split: sum.splits)

lemma history_inv: "inv (fst x) \<Longrightarrow> inv (fst (fold serve qs x))"
  by (induction qs arbitrary: x) (simp_all add: serve_inv)

lemma listed_iff_registered:
  assumes "\<forall>i. find i s0 = None" "inv s0"
  shows "h \<in> set (handles (fst (fold serve qs (s0, [])))) \<longleftrightarrow>
    registered (sh_SandboxID h) (snd (fold serve qs (s0, []))) = Some h"
  using registry_is_history [OF assms(1)] history_inv [of "(s0, [])" qs] assms(2) handles_find by simp

end

text \<open>
  Both runners keep their registry in a map from identifiers to entries with a handle, here an
  association list: identifiers are unique and are those of the handles.
\<close>

definition registry_ok :: "('e \<Rightarrow> SandboxHandle) \<Rightarrow> (string \<times> 'e) list \<Rightarrow> bool" where
  "registry_ok handle xs \<longleftrightarrow> distinct (map fst xs) \<and> list_all (\<lambda>(i, e). sh_SandboxID (handle e) = i) xs"

lemma registry_ok_update:
  "registry_ok handle xs \<Longrightarrow> registry_ok handle (AList.update (sh_SandboxID (handle e)) e xs)"
  by (auto simp: registry_ok_def list_all_iff distinct_update dest!: AList_update_set)

lemma registry_ok_delete: "registry_ok handle xs \<Longrightarrow> registry_ok handle (AList.delete i xs)"
  unfolding registry_ok_def by (intro conjI distinct_delete) (auto simp: list_all_iff AList.delete_eq)

lemma registry_ok_list:
  assumes "registry_ok handle xs"
  shows "h \<in> set (map (handle \<circ> snd) xs) \<longleftrightarrow> map_option handle (map_of xs (sh_SandboxID h)) = Some h"
proof
  assume "h \<in> set (map (handle \<circ> snd) xs)"
  then obtain i e where e: "(i, e) \<in> set xs" "h = handle e" by auto
  then have "i = sh_SandboxID h" "map_of xs i = Some e"
    using assms by (auto simp: registry_ok_def list_all_iff map_of_eq_Some_iff)
  then show "map_option handle (map_of xs (sh_SandboxID h)) = Some h" using e by simp
next
  assume "map_option handle (map_of xs (sh_SandboxID h)) = Some h"
  then obtain e where "map_of xs (sh_SandboxID h) = Some e" "handle e = h" by auto
  then show "h \<in> set (map (handle \<circ> snd) xs)" by (force dest: map_of_SomeD)
qed

section \<open>Build directories\<close>

definition RemoveAll :: "string \<Rightarrow> build_tree \<Rightarrow> build_tree" where
  "RemoveAll dir t =
     t\<lparr>bt_files := (\<lambda>p. if under dir p then None else bt_files t p),
       bt_dirs := filter (\<lambda>p. \<not> under dir p) (bt_dirs t)\<rparr>"

text \<open>Opening a log for appending creates it when it is not there.\<close>

definition OpenAppend :: "(string \<Rightarrow> bool) \<Rightarrow> string \<Rightarrow> build_tree \<Rightarrow> build_tree option" where
  "OpenAppend writable path t =
     (let p = path_Clean path in
      if p \<in> set (bt_dirs t) \<or> \<not> writable path then None
      else Some (t\<lparr>bt_files := (bt_files t)(p := Some (case bt_files t p of None \<Rightarrow> [] | Some d \<Rightarrow> d))\<rparr>))"

definition AppendTo :: "string \<Rightarrow> string \<Rightarrow> build_tree \<Rightarrow> build_tree" where
  "AppendTo path text t =
     (let p = path_Clean path in
      t\<lparr>bt_files := (bt_files t)(p := Some ((case bt_files t p of None \<Rightarrow> [] | Some d \<Rightarrow> d) @ text))\<rparr>)"

text \<open>The path the caller is told, and the tree with the copy of the log.\<close>

definition retainBuildLog :: "(string \<Rightarrow> bool) \<Rightarrow> string \<Rightarrow> string \<Rightarrow> string \<Rightarrow> build_tree \<Rightarrow> build_tree \<times> string" where
  "retainBuildLog writable runRoot buildID logPath t =
     (let diagDir = path_Join [runRoot, ''build-failures'', buildID] in
      case MkdirAll writable diagDir t of
        None \<Rightarrow> (t, logPath)
      | Some t \<Rightarrow>
          (let diagPath = path_Join [diagDir, path_Base logPath] in
           case bt_files t (path_Clean logPath) of
             None \<Rightarrow> (t, logPath)
           | Some data \<Rightarrow>
               (case copyReaderToFile writable data False diagPath t of
                  (t, True) \<Rightarrow> (t, diagPath)
                | (t, False) \<Rightarrow> (t, logPath))))"

definition build_id :: "string \<Rightarrow> int \<Rightarrow> string" where
  "build_id submissionID now = sanitizeDockerTag submissionID @ ''_'' @ Itoa now"

lemma RemoveAll_gone [simp]: "under dir p \<Longrightarrow> bt_files (RemoveAll dir t) p = None"
  and RemoveAll_kept [simp]: "\<not> under dir p \<Longrightarrow> bt_files (RemoveAll dir t) p = bt_files t p"
  by (simp_all add: RemoveAll_def)

text \<open>
  A build identifier is one proper path element, whatever the submission is called: build
  directories are children of \<^verbatim>\<open>builds\<close>, and retained logs are outside every one of them.
\<close>

lemma tag_char_no_slash: "tag_char c \<Longrightarrow> c \<noteq> CHR ''/''"
  by (auto simp: tag_char_def)

lemma Itoa_no_slash: "CHR ''/'' \<notin> set (Itoa n)"
  using digits_of_digits [of "CHR ''/''"] by (auto simp: Itoa_def is_digit_def)

lemma build_id_elem: "path_elem (build_id submissionID now)"
proof -
  let ?t = "sanitizeDockerTag submissionID"
  have ne: "?t \<noteq> []" and hd: "hd ?t \<noteq> CHR ''.''" by (rule sanitizeDockerTag_ok)+
  have "\<forall>c \<in> set ?t. c \<noteq> CHR ''/''"
    using sanitizeDockerTag_ok(3) [of submissionID] tag_char_no_slash by (auto simp: list_all_iff)
  then have "CHR ''/'' \<notin> set (build_id submissionID now)" using Itoa_no_slash by (auto simp: build_id_def)
  moreover have "hd (build_id submissionID now) \<noteq> CHR ''.''" using ne hd by (simp add: build_id_def)
  then have "build_id submissionID now \<noteq> ''.''" "build_id submissionID now \<noteq> ''..''" by auto
  moreover have "build_id submissionID now \<noteq> []" using ne by (simp add: build_id_def)
  ultimately show ?thesis by (simp add: path_elem_def)
qed

lemma path_stack_Join3:
  assumes "a \<noteq> []" "path_elem b" "path_elem c"
  shows "path_stack (path_Join [a, b, c]) = path_stack a @ [b, c]"
proof -
  have "b \<noteq> []" "c \<noteq> []" using assms by (auto simp: path_elem_def)
  then have "path_stack (path_Join [a, b, c]) = path_stack ((a @ CHR ''/'' # b) @ CHR ''/'' # c)"
    using assms(1) by (simp add: path_Join_def)
  also have "\<dots> = path_stack a @ [b, c]"
    using assms by (simp add: path_stack_append SplitChar_append SplitChar_none path_push_def path_elem_def)
  finally show ?thesis .
qed

section \<open>The HTTP surface\<close>

datatype sr_body = SrError string | SrStatus string | SrImage sr_ImageRef | SrHandle SandboxHandle | SrHandles "SandboxHandle list"

definition StatusCreated :: nat where "StatusCreated = 201"

definition sr_error :: "nat \<Rightarrow> string \<Rightarrow> sr_body response" where
  "sr_error code msg = \<lparr>rp_status = code, rp_body = SrError msg\<rparr>"

text \<open>A request body that does not decode is \<open>None\<close>; the runner's operation is the next argument.\<close>

definition sr_handler_Build :: "sr_BuildRequest option \<Rightarrow> (sr_BuildRequest \<Rightarrow> 's \<Rightarrow> 's \<times> (string + sr_ImageRef)) \<Rightarrow>
    's \<Rightarrow> 's \<times> sr_body response" where
  "sr_handler_Build body build s =
     (case body of
        None \<Rightarrow> (s, sr_error StatusBadRequest ''invalid json'')
      | Some req \<Rightarrow>
          (case build req s of
             (s, Inl e) \<Rightarrow> (s, sr_error StatusBadRequest e)
           | (s, Inr img) \<Rightarrow> (s, \<lparr>rp_status = StatusCreated, rp_body = SrImage img\<rparr>)))"

definition sr_handler_Start :: "sr_StartRequest option \<Rightarrow> (sr_StartRequest \<Rightarrow> 's \<Rightarrow> 's \<times> (string + SandboxHandle)) \<Rightarrow>
    's \<Rightarrow> 's \<times> sr_body response" where
  "sr_handler_Start body start s =
     (case body of
        None \<Rightarrow> (s, sr_error StatusBadRequest ''invalid json'')
      | Some req \<Rightarrow>
          (case start req s of
             (s, Inl e) \<Rightarrow> (s, sr_error StatusInternalServerError e)
           | (s, Inr h) \<Rightarrow> (s, \<lparr>rp_status = StatusCreated, rp_body = SrHandle h\<rparr>)))"

definition sr_handler_List :: "('s \<Rightarrow> SandboxHandle list) \<Rightarrow> 's \<Rightarrow> sr_body response" where
  "sr_handler_List handles s = \<lparr>rp_status = StatusOK, rp_body = SrHandles (handles s)\<rparr>"

definition sr_handler_Get :: "(string \<Rightarrow> 's \<Rightarrow> SandboxHandle option) \<Rightarrow> string \<Rightarrow> 's \<Rightarrow> sr_body response" where
  "sr_handler_Get get i s =
     (case get i s of
        None \<Rightarrow> sr_error StatusNotFound ''sandbox not found''
      | Some h \<Rightarrow> \<lparr>rp_status = StatusOK, rp_body = SrHandle h\<rparr>)"

definition sr_handler_Stop :: "(string \<Rightarrow> 's \<Rightarrow> 's \<times> string option) \<Rightarrow> string \<Rightarrow> 's \<Rightarrow> 's \<times> sr_body response" where
  "sr_handler_Stop stop i s =
     (case stop i s of
        (s, Some e) \<Rightarrow> (s, sr_error StatusNotFound e)
      | (s, None) \<Rightarrow> (s, \<lparr>rp_status = StatusOK, rp_body = SrStatus ''stopped''\<rparr>))"

definition sr_RequireServiceAuth :: "string \<Rightarrow> string \<Rightarrow> string \<Rightarrow> string \<Rightarrow> 'a \<Rightarrow> 'a \<Rightarrow> 'a" where
  "sr_RequireServiceAuth token meth path header unauthorized next =
     (if TrimSpace token = [] then next
      else if meth = ''GET'' \<and> path = ''/health'' then next
      else if \<not> bearer_ok token header then unauthorized
      else next)"

section \<open>Starting the service\<close>

datatype runner_mode = LocalMode | DockerMode

definition sr_firstEnv :: "(string \<Rightarrow> string) \<Rightarrow> string list \<Rightarrow> string" where
  "sr_firstEnv getenv names = (case filter (\<lambda>v. v \<noteq> []) (map getenv names) of [] \<Rightarrow> [] | v # _ \<Rightarrow> v)"

text \<open>The refusals of \<^verbatim>\<open>main\<close>, in order; the result is the mode, the token and the address.\<close>

definition sr_main :: "(string \<Rightarrow> string) \<Rightarrow> bool \<Rightarrow> string + runner_mode \<times> string \<times> string" where
  "sr_main getenv docker_ok =
     (let mode = (if getenv ''SANDBOX_RUNNER_MODE'' = [] then ''local'' else getenv ''SANDBOX_RUNNER_MODE'');
          token = sr_firstEnv getenv [''SANDBOX_RUNNER_AUTH_TOKEN'', ''SERVICE_AUTH_TOKEN''];
          addr = (if getenv ''SANDBOX_RUNNER_ADDR'' = [] then '':9200'' else getenv ''SANDBOX_RUNNER_ADDR'');
          serve = (\<lambda>m. if token = [] \<and> getenv ''REQUIRE_AUTH'' = ''1''
                       then Inl ''refusing to start: REQUIRE_AUTH=1 but no service auth token set''
                       else Inr (m, token, addr))
      in if mode = ''local'' then
           (if getenv ''SANDBOX_ALLOW_UNSAFE_LOCAL'' \<noteq> ''1'' then Inl ''refusing to start in local mode'' else serve LocalMode)
         else if mode = ''docker'' then (if \<not> docker_ok then Inl ''docker client'' else serve DockerMode)
         else Inl (''unsupported SANDBOX_RUNNER_MODE '' @ mode))"

text \<open>
  Untrusted binaries run on the host only after an explicit opt-in, and with \<^verbatim>\<open>REQUIRE_AUTH\<close> set
  the service never runs without a token.
\<close>

lemma sr_main_modes:
  assumes "sr_main getenv docker_ok = Inr (m, token, addr)"
  shows "m = LocalMode \<Longrightarrow> getenv ''SANDBOX_ALLOW_UNSAFE_LOCAL'' = ''1''"
    "getenv ''REQUIRE_AUTH'' = ''1'' \<Longrightarrow> token \<noteq> []"
  using assms by (auto simp: sr_main_def Let_def split: if_splits)

text \<open>
  But a token of blanks passes that check and then switches the authentication off: \<^verbatim>\<open>main\<close> tests the
  variable as it is, the middleware after trimming it.
\<close>

lemma blank_token_is_open:
  "\<exists>getenv. getenv ''REQUIRE_AUTH'' = ''1'' \<and> sr_main getenv True = Inr (DockerMode, '' '', '':9200'') \<and>
     sr_RequireServiceAuth '' '' ''POST'' ''/sandboxes/start'' [] (401::nat) 200 = 200"
proof -
  let ?e = "\<lambda>n. if n = ''REQUIRE_AUTH'' then ''1'' else if n = ''SANDBOX_RUNNER_MODE'' then ''docker''
    else if n = ''SERVICE_AUTH_TOKEN'' then '' '' else []"
  have "sr_main ?e True = Inr (DockerMode, '' '', '':9200'')" by code_simp
  moreover have "sr_RequireServiceAuth '' '' ''POST'' ''/sandboxes/start'' [] (401::nat) 200 = 200" by code_simp
  ultimately show ?thesis by (intro exI [of _ ?e]) simp
qed

end
