(* ===== verification/DockerSandbox.thy ===== *)
theory DockerSandbox
  imports SandboxRunner
begin

text \<open>
  The Docker runner, \<^verbatim>\<open>services/sandbox-runner/internal/sandbox/docker_runner.go\<close>: building an image
  from an artifact, starting an engine container with its network and limits, and stopping it.

  The Docker daemon is the part of the state the code cannot see: the networks and containers that
  exist, with the configuration each container was created with, and the image builds it was asked
  for. What it answers during a call is an argument of the call. An object it fails to create does
  not exist afterwards; one it removes, or does not find, is gone (containers are created with
  \<^verbatim>\<open>AutoRemove\<close>); one it fails to remove is still there.
\<close>

section \<open>Limits\<close>

definition buildMemoryBytes :: int where "buildMemoryBytes = 2147483648"
definition buildCPUPeriod :: int where "buildCPUPeriod = 100000"
definition buildCPUQuota :: int where "buildCPUQuota = 200000"
definition buildPidsLimit :: int where "buildPidsLimit = 512"
definition buildNofile :: int where "buildNofile = 4096"

text \<open>The replacer knows only two-letter suffixes, so at most one of them matches at a position.\<close>

definition memory_suffix :: "char \<Rightarrow> string" where
  "memory_suffix c = (case map_of (zip ''KMGTkmgt'' ''kmgtkmgt'') c of Some d \<Rightarrow> [d] | None \<Rightarrow> [])"

fun replace_suffixes :: "string \<Rightarrow> string" where
  "replace_suffixes (c # d # s) =
     (if d = CHR ''i'' \<and> memory_suffix c \<noteq> [] then memory_suffix c @ replace_suffixes s
      else c # replace_suffixes (d # s))"
| "replace_suffixes s = s"

definition normalizeDockerMemory :: "string \<Rightarrow> string" where
  "normalizeDockerMemory value = replace_suffixes (TrimSpace value)"

definition memory_multiplier :: "string \<Rightarrow> int option" where
  "memory_multiplier suffix =
     (if suffix = ''k'' then Some 1024
      else if suffix = ''m'' then Some (1024 * 1024)
      else if suffix = ''g'' then Some (1024 * 1024 * 1024)
      else if suffix = ''t'' then Some (1024 * 1024 * 1024 * 1024)
      else None)"

definition positive_product :: "string \<Rightarrow> int \<Rightarrow> int" where
  "positive_product value multiplier =
     (case ParseFloat value of
        (parsed, ok) \<Rightarrow> if \<not> ok \<or> f_le parsed (Fin 0) then 0 else f_trunc (f_mul parsed (float64 multiplier)))"

definition parseDockerMemoryBytes :: "string \<Rightarrow> int" where
  "parseDockerMemoryBytes value =
     (let value = normalizeDockerMemory value in
      if value = [] then 0
      else case memory_multiplier (ToLower [last value]) of
        Some m \<Rightarrow> positive_product (butlast value) m
      | None \<Rightarrow> positive_product value 1)"

text \<open>
  Scanning a float with \<^verbatim>\<open>fmt.Sscanf\<close> and printing one with \<^verbatim>\<open>%.3g\<close> are parameters: the model says
  nothing of how floats are printed.
\<close>

definition normalizeDockerCPUs :: "(string \<Rightarrow> f64 option) \<Rightarrow> (f64 \<Rightarrow> string) \<Rightarrow> string \<Rightarrow> string" where
  "normalizeDockerCPUs scan_f print_3g value =
     (let value = TrimSpace value in
      if HasSuffix value ''m'' then
        let milli = butlast value in
        if milli = [] then value
        else case scan_f milli of
          Some parsed \<Rightarrow> print_3g (f_div parsed (Fin 1000))
        | None \<Rightarrow> value
      else value)"

definition parseDockerNanoCPUs :: "(string \<Rightarrow> f64 option) \<Rightarrow> (f64 \<Rightarrow> string) \<Rightarrow> string \<Rightarrow> int" where
  "parseDockerNanoCPUs scan_f print_3g value =
     (let value = normalizeDockerCPUs scan_f print_3g value in
      if value = [] then 0 else positive_product value 1000000000)"

definition dockerBuildKitEnabled :: "(string \<Rightarrow> string) \<Rightarrow> bool" where
  "dockerBuildKitEnabled getenv =
     (let v = ToLower (TrimSpace (getenv ''SANDBOX_DOCKER_BUILDKIT'')) in
      v = ''1'' \<or> v = ''true'' \<or> v = ''yes'' \<or> v = ''y'' \<or> v = ''on'')"

lemma digit_not_space: "is_digit c \<Longrightarrow> \<not> is_space c"
  by (auto simp: is_digit_def is_space_def less_eq_char_def)

lemma digit_no_suffix:
  assumes "is_digit c"
  shows "memory_suffix c = []"
proof -
  have "list_all (\<lambda>d. \<not> is_digit d) ''KMGTkmgt''" by code_simp
  then have "c \<notin> set ''KMGTkmgt''" using assms unfolding list_all_iff by blast
  moreover have "fst ` set (zip ''KMGTkmgt'' ''kmgtkmgt'') = set ''KMGTkmgt''" by code_simp
  ultimately have "map_of (zip ''KMGTkmgt'' ''kmgtkmgt'') c = None" unfolding map_of_eq_None_iff by blast
  then show ?thesis by (simp only: memory_suffix_def option.case)
qed

lemma replace_suffixes_digits:
  "\<forall>c \<in> set ds. is_digit c \<Longrightarrow> replace_suffixes (ds @ ''Mi'') = ds @ ''m''"
proof (induction ds)
  case Nil
  show ?case by code_simp
next
  case (Cons c ds)
  have c: "memory_suffix c = []" using Cons.prems by (intro digit_no_suffix) simp
  obtain d s where ds: "ds @ ''Mi'' = d # s" by (cases ds) auto
  have "replace_suffixes ((c # ds) @ ''Mi'') = c # replace_suffixes (ds @ ''Mi'')"
    unfolding append_Cons ds by (simp only: replace_suffixes.simps c) simp
  then show ?case using Cons by simp
qed

lemma TrimSpace_clean:
  assumes "s \<noteq> []" "\<not> is_space (hd s)" "\<not> is_space (last s)"
  shows "TrimSpace s = s"
proof -
  have "dropWhile is_space s = s" using assms(1,2) by (cases s) auto
  moreover have "dropWhile is_space (rev s) = rev s" using assms(1,3) by (cases s rule: rev_cases) auto
  ultimately show ?thesis by (simp add: TrimSpace_def)
qed

text \<open>A limit in mebibytes is read exactly.\<close>

lemma memory_mebibytes:
  assumes "0 < n" "n < 2 ^ 33"
  shows "parseDockerMemoryBytes (digits_of n @ ''Mi'') = int n * 1048576"
proof -
  obtain c cs where d: "digits_of n = c # cs" using digits_of_ne by (meson neq_Nil_conv)
  have dg: "\<forall>c \<in> set (digits_of n). is_digit c" using digits_of_digits by blast
  then have "\<not> is_space c" using d digit_not_space by simp
  then have "TrimSpace (digits_of n @ ''Mi'') = digits_of n @ ''Mi''"
    by (intro TrimSpace_clean) (simp_all add: d is_space_def)
  then have norm: "normalizeDockerMemory (digits_of n @ ''Mi'') = digits_of n @ ''m''"
    by (simp add: normalizeDockerMemory_def replace_suffixes_digits [OF dg])
  have m: "memory_multiplier (ToLower ''m'') = Some 1048576" by code_simp
  have pf: "ParseFloat (digits_of n) = (Fin (real n), True)" using assms by (intro ParseFloat_digits) simp
  have small: "\<bar>int n * 1048576\<bar> < 2 ^ 53" using assms(2) by simp
  then have "binary64 (real n * 1048576) = Fin (real n * 1048576)"
    using float64_small [OF small] by (simp add: float64_def)
  moreover have "float64 1048576 = Fin 1048576" using float64_small [of 1048576] by simp
  moreover have "f_trunc (Fin (real n * 1048576)) = int n * 1048576"
    using small by (simp add: f_trunc_def Let_def in_i64_def floor_eq_iff)
  ultimately have "positive_product (digits_of n) 1048576 = int n * 1048576"
    using assms(1) pf by (simp add: positive_product_def f_le_def f_eq_def)
  then show ?thesis using norm m by (simp add: parseDockerMemoryBytes_def)
qed

text \<open>
  A limit the code cannot read, here one with a \<^verbatim>\<open>MB\<close> suffix, becomes 0: to Docker, no limit.
\<close>

lemma unreadable_memory_is_unlimited:
  "parseDockerMemoryBytes ''512MB'' = 0"
proof -
  have n: "normalizeDockerMemory ''512MB'' = ''512MB''" "memory_multiplier (ToLower ''B'') = None" by code_simp+
  have "split_sign ''512MB'' = (False, ''512MB'')" by code_simp
  moreover have "map lower_char ''512MB'' = ''512mb''" by code_simp
  moreover have "parse_decimal ''512MB'' = None"
    by (simp add: parse_decimal_def take_digits_def is_digit_def less_eq_char_def parse_exponent_def)
  ultimately have "ParseFloat ''512MB'' = (Fin 0, False)" by (simp add: ParseFloat_def)
  then show ?thesis using n by (simp add: parseDockerMemoryBytes_def positive_product_def)
qed

section \<open>The daemon\<close>

record build_options =
  bo_Tags :: "string list"
  bo_Remove :: bool
  bo_ForceRemove :: bool
  bo_Memory :: int
  bo_MemorySwap :: int
  bo_CPUQuota :: int
  bo_CPUPeriod :: int
  bo_Ulimits :: "(string \<times> int \<times> int) list"
  bo_NetworkMode :: string
  bo_BuildKit :: bool

record container_config =
  cc_Image :: string
  cc_Cmd :: "string list"
  cc_ExposedPort :: string
  cc_AutoRemove :: bool
  cc_Binds :: "string list"
  cc_CapDrop :: "string list"
  cc_NetworkMode :: string
  cc_ReadonlyRootfs :: bool
  cc_Runtime :: string
  cc_DNS :: "string list"
  cc_Tmpfs :: "(string \<times> string) list"
  cc_Memory :: int
  cc_MemorySwap :: int
  cc_MemorySwappiness :: int
  cc_NanoCPUs :: int
  cc_CpusetCpus :: string
  cc_PidsLimit :: int
  cc_Ulimits :: "(string \<times> int \<times> int) list"
  cc_HostIP :: string
  cc_SecurityOpt :: "string list"
  cc_Networks :: "string list"

record daemon =
  dm_networks :: "(string \<times> string) list"
  dm_containers :: "(string \<times> container_config) list"
  dm_builds :: "(build_options \<times> string option) list"

datatype removal = Removed | NotFound | RemoveFailed string

text \<open>Networks are pairs of identifier and name; a build is kept with the Dockerfile of its context.\<close>

definition daemon_remove :: "removal \<Rightarrow> string \<Rightarrow> (string \<times> 'v) list \<Rightarrow> (string \<times> 'v) list" where
  "daemon_remove out i xs = (case out of RemoveFailed e \<Rightarrow> xs | _ \<Rightarrow> filter (\<lambda>(k, v). k \<noteq> i) xs)"

definition dockerStop :: "removal \<Rightarrow> string \<Rightarrow> daemon \<Rightarrow> daemon \<times> string option" where
  "dockerStop out i d =
     (d\<lparr>dm_containers := daemon_remove out i (dm_containers d)\<rparr>,
      case out of RemoveFailed e \<Rightarrow> Some (''docker container remove failed: '' @ e) | _ \<Rightarrow> None)"

definition dockerRemoveNetwork :: "removal \<Rightarrow> string \<Rightarrow> daemon \<Rightarrow> daemon \<times> string option" where
  "dockerRemoveNetwork out i d =
     (if i = [] then (d, None)
      else (d\<lparr>dm_networks := daemon_remove out i (dm_networks d)\<rparr>,
            case out of RemoveFailed e \<Rightarrow> Some (''docker network remove failed: '' @ e) | _ \<Rightarrow> None))"

definition cleanupDockerResources :: "removal \<Rightarrow> removal \<Rightarrow> string \<Rightarrow> string \<Rightarrow> daemon \<Rightarrow> daemon" where
  "cleanupDockerResources outC outN containerID networkID d =
     (let d = (if containerID \<noteq> [] then fst (dockerStop outC containerID d) else d) in
      fst (dockerRemoveNetwork outN networkID d))"

text \<open>
  The polls of \<^verbatim>\<open>dockerHostPort\<close> before its deadline: the context has ended, the inspection failed,
  or it lists the host ports of the container port.
\<close>

datatype port_poll = PollCtxDone | PollError string | PollPorts "string list"

fun dockerHostPort :: "string \<Rightarrow> port_poll list \<Rightarrow> string option \<Rightarrow> string + string" where
  "dockerHostPort cid [] (Some e) = Inl (''docker inspect failed: '' @ e)"
| "dockerHostPort cid [] None = Inl (''docker returned no port mapping for container '' @ cid)"
| "dockerHostPort cid (PollCtxDone # ps) lastErr = Inl ''context canceled''"
| "dockerHostPort cid (PollError e # ps) lastErr = dockerHostPort cid ps (Some e)"
| "dockerHostPort cid (PollPorts [] # ps) lastErr = dockerHostPort cid ps lastErr"
| "dockerHostPort cid (PollPorts (p # _) # ps) lastErr =
     (if p \<noteq> [] then Inr p else dockerHostPort cid ps lastErr)"

record dockerNetworkPlan =
  np_mode :: string
  np_name :: string
  np_isolated :: bool

definition dockerNetworkPlanFor :: "sr_SandboxSpec \<Rightarrow> string \<Rightarrow> dockerNetworkPlan" where
  "dockerNetworkPlanFor spec sandboxID =
     (if ss_NetworkEgress spec then \<lparr>np_mode = ''bridge'', np_name = ''bridge'', np_isolated = False\<rparr>
      else let name = ''iicpc-'' @ sanitizeDockerTag sandboxID
           in \<lparr>np_mode = name, np_name = name, np_isolated = True\<rparr>)"

section \<open>The runner\<close>

record dockerSandbox =
  ds_handle :: SandboxHandle
  ds_containerID :: string
  ds_networkID :: string
  ds_sampled :: bool

record DockerRunner =
  dr_repoRoot :: string
  dr_runRoot :: string
  dr_images :: "(string \<times> sr_ImageRef) list"
  dr_containers :: "(string \<times> dockerSandbox) list"
  dr_daemon :: daemon

text \<open>What a call of \<^verbatim>\<open>Start\<close> or \<^verbatim>\<open>Stop\<close> meets: the clock, the file system, the daemon, the environment.\<close>

record docker_world =
  dw_now :: int
  dw_mkdir :: "string \<Rightarrow> bool"
  dw_network :: "string + string"
  dw_create :: "string + string"
  dw_start :: "string option"
  dw_polls :: "port_poll list"
  dw_health :: "health_event list"
  dw_removeContainer :: removal
  dw_removeNetwork :: removal
  dw_statsClient :: bool
  dw_getenv :: "string \<Rightarrow> string"
  dw_linux :: bool
  dw_scan_f :: "string \<Rightarrow> f64 option"
  dw_print_3g :: "f64 \<Rightarrow> string"

definition NewDockerRunner :: "string \<Rightarrow> string \<Rightarrow> daemon \<Rightarrow> DockerRunner" where
  "NewDockerRunner repoRoot runRoot d =
     \<lparr>dr_repoRoot = repoRoot, dr_runRoot = runRoot, dr_images = [], dr_containers = [], dr_daemon = d\<rparr>"

definition dockerContainerPort :: string where "dockerContainerPort = ''8080''"

definition sandbox_id :: "int \<Rightarrow> string" where "sandbox_id now = ''sandbox_'' @ Itoa now"

definition events_path :: "string \<Rightarrow> string \<Rightarrow> string" where
  "events_path dir requested = (if requested = [] then path_Join [dir, ''engine-events.jsonl''] else requested)"

definition engine_out_dir :: "string \<Rightarrow> string" where
  "engine_out_dir eventsPath = path_Join [path_Dir eventsPath, ''engine-out'']"

text \<open>The configuration of the engine's container.\<close>

definition engine_config :: "docker_world \<Rightarrow> sr_StartRequest \<Rightarrow> string \<Rightarrow> string \<Rightarrow> dockerNetworkPlan \<Rightarrow> container_config" where
  "engine_config w req imageTag eventsPath plan =
     (let spec = sa_Spec req;
          memBytes = parseDockerMemoryBytes (ss_MemoryLimit spec);
          pinned = TrimSpace (ss_CpusetCpus spec);
          cpuset = (if pinned = [] then TrimSpace (dw_getenv w ''SANDBOX_CPUSET'') else pinned);
          profile = TrimSpace (dw_getenv w ''SANDBOX_SECCOMP_PROFILE'')
      in \<lparr>cc_Image = imageTag,
          cc_Cmd = [''--addr'', '':'' @ dockerContainerPort, ''--events'', ''/artifacts/'' @ path_Base eventsPath] @
                   (if sa_EngineMode req \<noteq> [] then [''--mode'', sa_EngineMode req] else []),
          cc_ExposedPort = dockerContainerPort,
          cc_AutoRemove = True,
          cc_Binds = [engine_out_dir eventsPath @ '':/artifacts''],
          cc_CapDrop = [''ALL''],
          cc_NetworkMode = np_mode plan,
          cc_ReadonlyRootfs = True,
          cc_Runtime = TrimSpace (dw_getenv w ''SANDBOX_DOCKER_RUNTIME''),
          cc_DNS = (if ss_NetworkEgress spec then [] else [''127.0.0.1'']),
          cc_Tmpfs = [(''/tmp'', ''rw,noexec,nosuid,nodev,size=64m'')],
          cc_Memory = memBytes,
          cc_MemorySwap = (if memBytes > 0 then memBytes else 0),
          cc_MemorySwappiness = 0,
          cc_NanoCPUs = parseDockerNanoCPUs (dw_scan_f w) (dw_print_3g w) (ss_CPULimit spec),
          cc_CpusetCpus = (if cpuset \<noteq> [] \<and> \<not> dw_linux w then [] else cpuset),
          cc_PidsLimit = 512,
          cc_Ulimits = [(''nofile'', 4096, 4096)],
          cc_HostIP = ''127.0.0.1'',
          cc_SecurityOpt = [''no-new-privileges:true''] @ (if profile \<noteq> [] then [''seccomp='' @ profile] else []),
          cc_Networks = (if np_isolated plan then [np_name plan] else [])\<rparr>)"

text \<open>\<^verbatim>\<open>NetworkCreate\<close>, when the plan asks for an isolated network: the daemon and the network's identifier.\<close>

definition create_network :: "docker_world \<Rightarrow> dockerNetworkPlan \<Rightarrow> daemon \<Rightarrow> string + daemon \<times> string" where
  "create_network w plan d =
     (if np_isolated plan then
        (case dw_network w of
           Inl e \<Rightarrow> Inl (''docker network create failed: '' @ e)
         | Inr i \<Rightarrow> Inr (d\<lparr>dm_networks := (i, np_name plan) # dm_networks d\<rparr>, i))
      else Inr (d, []))"

text \<open>From the creation of the container to its health check; every failure cleans up.\<close>

definition launch :: "docker_world \<Rightarrow> container_config \<Rightarrow> string \<Rightarrow> daemon \<Rightarrow> daemon \<times> (string + string \<times> string)" where
  "launch w config networkID d =
     (let cleanup = (\<lambda>cid. cleanupDockerResources (dw_removeContainer w) (dw_removeNetwork w) cid networkID) in
      case dw_create w of
        Inl e \<Rightarrow> (cleanup [] d, Inl (''docker container create failed: '' @ e))
      | Inr cid \<Rightarrow>
          if cid = [] then (cleanup [] d, Inl ''docker container create returned empty id'')
          else
            let d = d\<lparr>dm_containers := (cid, config) # dm_containers d\<rparr> in
            (case dw_start w of
               Some e \<Rightarrow> (cleanup cid d, Inl (''docker container start failed: '' @ e))
             | None \<Rightarrow>
                 (case dockerHostPort cid (dw_polls w) None of
                    Inl e \<Rightarrow> (cleanup cid d, Inl e)
                  | Inr hostPort \<Rightarrow>
                      (case waitForHealth (''http://127.0.0.1:'' @ hostPort @ ''/health'') (dw_health w) of
                         Some e \<Rightarrow> (cleanup cid d, Inl e)
                       | None \<Rightarrow> (d, Inr (cid, hostPort))))))"

text \<open>The handle; the code reads the clock again for the start time, here once per call.\<close>

definition docker_handle :: "docker_world \<Rightarrow> sr_StartRequest \<Rightarrow> string \<Rightarrow> dockerNetworkPlan \<Rightarrow> string \<Rightarrow> SandboxHandle" where
  "docker_handle w req sandboxID plan hostPort =
     \<lparr>sh_SandboxID = sandboxID, sh_RunID = sa_RunID req, sh_ImageRef = sa_ImageRef req,
      sh_Endpoint = ''ws://127.0.0.1:'' @ hostPort @ ''/ws'',
      sh_HealthURL = ''http://127.0.0.1:'' @ hostPort @ ''/health'',
      sh_Spec = sa_Spec req, sh_NetworkName = np_name plan, sh_NetworkIsolated = np_isolated plan,
      sh_StartedAt = dw_now w\<rparr>"

definition docker_Start :: "docker_world \<Rightarrow> sr_StartRequest \<Rightarrow> DockerRunner \<Rightarrow> DockerRunner \<times> (string + SandboxHandle)" where
  "docker_Start w req r =
     (let imageTag = TrimPrefix (sa_ImageRef req) ''docker://'';
          sandboxID = sandbox_id (dw_now w);
          dir = path_Join [dr_runRoot r, ''containers'', sandboxID];
          eventsPath = events_path dir (sa_EventsPath req);
          plan = dockerNetworkPlanFor (sa_Spec req) sandboxID
      in
      if sa_RunID req = [] then (r, Inl ''run_id is required'')
      else if sa_ImageRef req = [] then (r, Inl ''image_ref is required'')
      else if imageTag = sa_ImageRef req then (r, Inl ''image_ref must use docker:// scheme'')
      else if \<not> dw_mkdir w dir then (r, Inl (''mkdir '' @ dir))
      else if \<not> dw_mkdir w (path_Dir eventsPath) then (r, Inl (''mkdir '' @ path_Dir eventsPath))
      else if \<not> dw_mkdir w (engine_out_dir eventsPath) then (r, Inl (''mkdir '' @ engine_out_dir eventsPath))
      else
        (case create_network w plan (dr_daemon r) of
           Inl e \<Rightarrow> (r, Inl e)
         | Inr (d, networkID) \<Rightarrow>
             (case launch w (engine_config w req imageTag eventsPath plan) networkID d of
                (d, Inl e) \<Rightarrow> (r\<lparr>dr_daemon := d\<rparr>, Inl e)
              | (d, Inr (cid, hostPort)) \<Rightarrow>
                  let handle = docker_handle w req sandboxID plan hostPort;
                      entry = \<lparr>ds_handle = handle, ds_containerID = cid, ds_networkID = networkID,
                        ds_sampled = dw_statsClient w\<rparr>
                  in (r\<lparr>dr_daemon := d, dr_containers := AList.update sandboxID entry (dr_containers r)\<rparr>, Inr handle))))"

definition docker_Stop :: "docker_world \<Rightarrow> string \<Rightarrow> DockerRunner \<Rightarrow> DockerRunner \<times> string option" where
  "docker_Stop w sandboxID r =
     (case map_of (dr_containers r) sandboxID of
        None \<Rightarrow> (r\<lparr>dr_containers := AList.delete sandboxID (dr_containers r)\<rparr>, Some ''sandbox not found'')
      | Some c \<Rightarrow>
          (case dockerStop (dw_removeContainer w) (ds_containerID c) (dr_daemon r) of
             (d, stopErr) \<Rightarrow>
               (case dockerRemoveNetwork (dw_removeNetwork w) (ds_networkID c) d of
                  (d, networkErr) \<Rightarrow>
                    (r\<lparr>dr_daemon := d, dr_containers := AList.delete sandboxID (dr_containers r)\<rparr>,
                     if stopErr \<noteq> None then stopErr else networkErr))))"

definition docker_Get :: "string \<Rightarrow> DockerRunner \<Rightarrow> SandboxHandle option" where
  "docker_Get sandboxID r = map_option ds_handle (map_of (dr_containers r) sandboxID)"

definition docker_List :: "DockerRunner \<Rightarrow> SandboxHandle list" where
  "docker_List r = map (ds_handle \<circ> snd) (dr_containers r)"

subsection \<open>The registry\<close>

definition docker_inv :: "DockerRunner \<Rightarrow> bool" where
  "docker_inv r \<longleftrightarrow> registry_ok ds_handle (dr_containers r)"

lemma docker_handle_id [simp]: "sh_SandboxID (docker_handle w req i plan port) = i"
  by (simp add: docker_handle_def)

lemma docker_Start_err:
  assumes "docker_Start w req r = (r', Inl e)"
  shows "r' = r \<or> (\<exists>plan config d networkID d'. create_network w plan (dr_daemon r) = Inr (d, networkID) \<and>
    launch w config networkID d = (d', Inl e) \<and> r' = r\<lparr>dr_daemon := d'\<rparr>)"
  using assms unfolding docker_Start_def Let_def
  by (auto split: if_splits sum.splits prod.splits) blast

lemma docker_Start_ok:
  assumes "docker_Start w req r = (r', Inr h)"
  defines "sid \<equiv> sandbox_id (dw_now w)"
  defines "plan \<equiv> dockerNetworkPlanFor (sa_Spec req) sid"
  shows "\<exists>eventsPath d networkID d' cid port. create_network w plan (dr_daemon r) = Inr (d, networkID) \<and>
    launch w (engine_config w req (TrimPrefix (sa_ImageRef req) ''docker://'') eventsPath plan) networkID d = (d', Inr (cid, port)) \<and>
    h = docker_handle w req sid plan port \<and>
    r' = r\<lparr>dr_daemon := d', dr_containers := AList.update sid
      \<lparr>ds_handle = h, ds_containerID = cid, ds_networkID = networkID, ds_sampled = dw_statsClient w\<rparr> (dr_containers r)\<rparr>"
  using assms(1) unfolding docker_Start_def Let_def sid_def plan_def
  by (auto split: if_splits sum.splits prod.splits)

lemma docker_Start_registry:
  assumes "docker_Start w req r = (r', res)"
  shows "case res of
      Inl e \<Rightarrow> dr_containers r' = dr_containers r
    | Inr h \<Rightarrow> \<exists>c. ds_handle c = h \<and> dr_containers r' = AList.update (sh_SandboxID h) c (dr_containers r)"
proof (cases res)
  case (Inl e)
  then show ?thesis using docker_Start_err [of w req r r' e] assms by auto
next
  case (Inr h)
  then have "docker_Start w req r = (r', Inr h)" using assms by simp
  from docker_Start_ok [OF this] obtain cid networkID d' plan port where
    "h = docker_handle w req (sandbox_id (dw_now w)) plan port"
    "r' = r\<lparr>dr_daemon := d', dr_containers := AList.update (sandbox_id (dw_now w))
      \<lparr>ds_handle = h, ds_containerID = cid, ds_networkID = networkID, ds_sampled = dw_statsClient w\<rparr> (dr_containers r)\<rparr>"
    by blast
  then show ?thesis using Inr
    by (auto intro!: exI [of _ "\<lparr>ds_handle = h, ds_containerID = cid, ds_networkID = networkID, ds_sampled = dw_statsClient w\<rparr>"])
qed

lemma docker_Stop_registry:
  "docker_Stop w i r = (r', err) \<Longrightarrow> dr_containers r' = AList.delete i (dr_containers r)"
  by (auto simp: docker_Stop_def split: option.splits prod.splits)

interpretation dk: sandbox_runner docker_Start docker_Stop docker_Get docker_List docker_inv
proof
  fix s s' w req res assume "docker_inv s" "docker_Start w req s = (s', res)"
  then show "docker_inv s'" using docker_Start_registry [of w req s s' res]
    by (cases res) (auto simp: docker_inv_def registry_ok_update)
next
  fix s s' w i err assume "docker_inv s" "docker_Stop w i s = (s', err)"
  then show "docker_inv s'" by (simp add: docker_inv_def docker_Stop_registry registry_ok_delete)
next
  fix s s' w req h i assume "docker_Start w req s = (s', Inr h)"
  then show "docker_Get i s' = (if i = sh_SandboxID h then Some h else docker_Get i s)"
    using docker_Start_registry [of w req s s' "Inr h"] by (auto simp: docker_Get_def update_conv)
next
  fix s s' w req e i assume "docker_Start w req s = (s', Inl e)"
  then show "docker_Get i s' = docker_Get i s"
    using docker_Start_registry [of w req s s' "Inl e"] by (simp add: docker_Get_def)
next
  fix s s' w i err j assume "docker_Stop w i s = (s', err)"
  then show "docker_Get j s' = (if j = i then None else docker_Get j s)"
    using docker_Stop_registry [of w i s s' err] by (simp add: docker_Get_def delete_conv)
next
  fix s w i assume "docker_Get i s = None"
  then show "snd (docker_Stop w i s) = Some ''sandbox not found''" by (simp add: docker_Get_def docker_Stop_def)
next
  fix s h assume "docker_inv s"
  then show "h \<in> set (docker_List s) \<longleftrightarrow> docker_Get (sh_SandboxID h) s = Some h"
    unfolding docker_inv_def docker_List_def docker_Get_def by (rule registry_ok_list)
qed

subsection \<open>Nothing is left behind\<close>

text \<open>
  The identifiers the daemon hands out are new, and not empty. Removal works when neither removal fails.
\<close>

definition fresh_container :: "docker_world \<Rightarrow> daemon \<Rightarrow> bool" where
  "fresh_container w d \<longleftrightarrow> (case dw_create w of Inl e \<Rightarrow> True | Inr i \<Rightarrow> i \<notin> set (map fst (dm_containers d)))"

definition fresh_ids :: "docker_world \<Rightarrow> daemon \<Rightarrow> bool" where
  "fresh_ids w d \<longleftrightarrow> fresh_container w d \<and>
     (case dw_network w of Inl e \<Rightarrow> True | Inr i \<Rightarrow> i \<noteq> [] \<and> i \<notin> set (map fst (dm_networks d)))"

definition removals_work :: "docker_world \<Rightarrow> bool" where
  "removals_work w \<longleftrightarrow>
     (case dw_removeContainer w of RemoveFailed e \<Rightarrow> False | _ \<Rightarrow> True) \<and>
     (case dw_removeNetwork w of RemoveFailed e \<Rightarrow> False | _ \<Rightarrow> True)"

lemma filter_fresh: "i \<notin> set (map fst xs) \<Longrightarrow> filter (\<lambda>(k, v). k \<noteq> i) xs = xs"
  by (induction xs) auto

lemma daemon_remove_new:
  "\<lbrakk>\<forall>e. out \<noteq> RemoveFailed e; i \<notin> set (map fst xs)\<rbrakk> \<Longrightarrow> daemon_remove out i ((i, v) # xs) = xs"
  by (cases out) (simp_all add: daemon_remove_def filter_fresh)

lemma launch_failed:
  assumes "launch w config networkID d = (d', Inl e)" "removals_work w" "fresh_container w d"
  shows "d' = fst (dockerRemoveNetwork (dw_removeNetwork w) networkID d)"
proof -
  have rm: "\<forall>e. dw_removeContainer w \<noteq> RemoveFailed e" using assms(2) by (auto simp: removals_work_def)
  have c: "cleanupDockerResources (dw_removeContainer w) (dw_removeNetwork w) [] networkID d =
      fst (dockerRemoveNetwork (dw_removeNetwork w) networkID d)"
    by (simp add: cleanupDockerResources_def)
  show ?thesis
  proof (cases "dw_create w")
    case (Inl e)
    then show ?thesis using assms(1) c by (simp add: launch_def)
  next
    case (Inr cid)
    let ?d = "d\<lparr>dm_containers := (cid, config) # dm_containers d\<rparr>"
    have "cid \<notin> set (map fst (dm_containers d))" using assms(3) Inr by (simp add: fresh_container_def)
    then have "daemon_remove (dw_removeContainer w) cid ((cid, config) # dm_containers d) = dm_containers d"
      using rm by (intro daemon_remove_new) auto
    then have "cid \<noteq> [] \<Longrightarrow> cleanupDockerResources (dw_removeContainer w) (dw_removeNetwork w) cid networkID ?d =
        fst (dockerRemoveNetwork (dw_removeNetwork w) networkID d)"
      by (simp add: cleanupDockerResources_def dockerStop_def)
    then show ?thesis using assms(1) Inr c
      by (auto simp: launch_def Let_def split: if_splits option.splits sum.splits)
  qed
qed

lemma launch_ok:
  "launch w config networkID d = (d', Inr (cid, port)) \<Longrightarrow>
   dw_create w = Inr cid \<and> cid \<noteq> [] \<and> d' = d\<lparr>dm_containers := (cid, config) # dm_containers d\<rparr> \<and>
   dockerHostPort cid (dw_polls w) None = Inr port \<and>
   waitForHealth (''http://127.0.0.1:'' @ port @ ''/health'') (dw_health w) = None"
  by (auto simp: launch_def Let_def split: if_splits option.splits sum.splits)

text \<open>The network a plan asks for, once created, is removed again without a trace.\<close>

lemma create_network_undone:
  assumes "create_network w plan d = Inr (d1, networkID)" "fresh_ids w d" "removals_work w'"
  shows "fst (dockerRemoveNetwork (dw_removeNetwork w') networkID d1) = d" "fresh_container w d1"
    "snd (dockerRemoveNetwork (dw_removeNetwork w') networkID d1) = None" "dm_containers d1 = dm_containers d"
proof -
  have rm: "\<forall>e. dw_removeNetwork w' \<noteq> RemoveFailed e" using assms(3) by (auto simp: removals_work_def)
  have net: "\<lbrakk>np_isolated plan; dw_network w = Inr i\<rbrakk> \<Longrightarrow> i \<noteq> [] \<and> i \<notin> set (map fst (dm_networks d))" for i
    using assms(2) by (simp add: fresh_ids_def)
  have fc: "fresh_container w d" using assms(2) by (simp add: fresh_ids_def)
  show "fst (dockerRemoveNetwork (dw_removeNetwork w') networkID d1) = d"
    using assms(1) rm net
    by (auto simp: create_network_def dockerRemoveNetwork_def daemon_remove_new split: if_splits sum.splits)
  show "fresh_container w d1" "dm_containers d1 = dm_containers d"
    using assms(1) fc by (auto simp: create_network_def fresh_container_def split: if_splits sum.splits)
  show "snd (dockerRemoveNetwork (dw_removeNetwork w') networkID d1) = None"
    using rm by (auto simp: dockerRemoveNetwork_def split: removal.split)
qed

lemma docker_Start_failed:
  assumes "docker_Start w req r = (r', Inl e)" "fresh_ids w (dr_daemon r)" "removals_work w"
  shows "r' = r"
  using docker_Start_err [OF assms(1)]
proof (elim disjE exE conjE)
  fix plan config d networkID d'
  assume c: "create_network w plan (dr_daemon r) = Inr (d, networkID)"
    and l: "launch w config networkID d = (d', Inl e)" and r': "r' = r\<lparr>dr_daemon := d'\<rparr>"
  note u = create_network_undone [OF c assms(2,3)]
  have "d' = dr_daemon r" using launch_failed [OF l assms(3) u(2)] u(1) by simp
  then show ?thesis using r' by simp
qed

text \<open>What every engine container is denied, whatever the request says.\<close>

definition hardened :: "container_config \<Rightarrow> bool" where
  "hardened c \<longleftrightarrow> cc_CapDrop c = [''ALL''] \<and> cc_ReadonlyRootfs c \<and> cc_AutoRemove c \<and> cc_PidsLimit c = 512 \<and>
     cc_MemorySwap c = max 0 (cc_Memory c) \<and> cc_HostIP c = ''127.0.0.1'' \<and>
     ''no-new-privileges:true'' \<in> set (cc_SecurityOpt c)"

text \<open>An isolated container is on its own network only, and resolves no name.\<close>

definition isolated_on :: "string \<Rightarrow> container_config \<Rightarrow> bool" where
  "isolated_on net c \<longleftrightarrow> cc_NetworkMode c = net \<and> cc_Networks c = [net] \<and> cc_DNS c = [''127.0.0.1'']"

lemma engine_config_hardened: "hardened (engine_config w req tag eventsPath plan)"
  by (simp add: hardened_def engine_config_def Let_def)

lemma engine_config_isolated:
  "\<not> ss_NetworkEgress (sa_Spec req) \<Longrightarrow>
   isolated_on (''iicpc-'' @ sanitizeDockerTag i) (engine_config w req tag eventsPath (dockerNetworkPlanFor (sa_Spec req) i))"
  by (simp add: isolated_on_def engine_config_def dockerNetworkPlanFor_def Let_def)

text \<open>
  C27. Starting a sandbox is all or nothing: if the daemon's removals work, a \<^verbatim>\<open>Start\<close> that fails,
  at whichever step, leaves the runner and the daemon exactly as they were, no container and no
  network; one that succeeds adds exactly one container, hardened, to the daemon, and the handle to
  the registry, and unless the request asked for egress the container is alone on exactly one new
  network.
\<close>

theorem docker_start_all_or_nothing:
  assumes "fresh_ids w (dr_daemon r)" "removals_work w"
  shows "case docker_Start w req r of
      (r', Inl e) \<Rightarrow> r' = r
    | (r', Inr h) \<Rightarrow>
        docker_Get (sh_SandboxID h) r' = Some h \<and>
        (\<exists>cid config. dm_containers (dr_daemon r') = (cid, config) # dm_containers (dr_daemon r) \<and> hardened config \<and>
          (if ss_NetworkEgress (sa_Spec req) then dm_networks (dr_daemon r') = dm_networks (dr_daemon r)
           else \<exists>i. dm_networks (dr_daemon r') = (i, sh_NetworkName h) # dm_networks (dr_daemon r) \<and>
             isolated_on (sh_NetworkName h) config))"
proof -
  obtain r' res where st: "docker_Start w req r = (r', res)" by fastforce
  show ?thesis
  proof (cases res)
    case (Inl e)
    then show ?thesis using docker_Start_failed assms st by simp
  next
    case (Inr h)
    let ?sid = "sandbox_id (dw_now w)"
    let ?plan = "dockerNetworkPlanFor (sa_Spec req) ?sid"
    have ok: "docker_Start w req r = (r', Inr h)" using st Inr by simp
    from docker_Start_ok [OF ok] obtain eventsPath d networkID d' cid port where
      net: "create_network w ?plan (dr_daemon r) = Inr (d, networkID)"
      and l: "launch w (engine_config w req (TrimPrefix (sa_ImageRef req) ''docker://'') eventsPath ?plan) networkID d = (d', Inr (cid, port))"
      and h: "h = docker_handle w req ?sid ?plan port"
      and r': "r' = r\<lparr>dr_daemon := d', dr_containers := AList.update ?sid
        \<lparr>ds_handle = h, ds_containerID = cid, ds_networkID = networkID, ds_sampled = dw_statsClient w\<rparr> (dr_containers r)\<rparr>"
      by blast
    let ?config = "engine_config w req (TrimPrefix (sa_ImageRef req) ''docker://'') eventsPath ?plan"
    have d': "d' = d\<lparr>dm_containers := (cid, ?config) # dm_containers d\<rparr>" using launch_ok [OF l] by blast
    have cs: "dm_containers (dr_daemon r') = (cid, ?config) # dm_containers (dr_daemon r)"
      using r' d' create_network_undone(4) [OF net assms] by simp
    have get: "docker_Get (sh_SandboxID h) r' = Some h" using dk.start_ok [OF ok] by simp
    have nets: "if ss_NetworkEgress (sa_Spec req) then dm_networks (dr_daemon r') = dm_networks (dr_daemon r)
        else \<exists>i. dm_networks (dr_daemon r') = (i, sh_NetworkName h) # dm_networks (dr_daemon r)"
      using net r' d' h
      by (auto simp: create_network_def dockerNetworkPlanFor_def docker_handle_def Let_def split: sum.splits)
    have iso: "\<not> ss_NetworkEgress (sa_Spec req) \<Longrightarrow> isolated_on (sh_NetworkName h) ?config"
      using engine_config_isolated [of req ?sid w] h by (simp add: docker_handle_def dockerNetworkPlanFor_def Let_def)
    show ?thesis using ok get cs nets iso engine_config_hardened by (auto split: if_splits)
  qed
qed

text \<open>A daemon with one container of somebody else's, and a start that goes well.\<close>

definition demo_daemon :: daemon where
  "demo_daemon = \<lparr>dm_networks = [(''n0'', ''bridge'')], dm_containers = [], dm_builds = []\<rparr>"

definition demo_world :: docker_world where
  "demo_world =
     \<lparr>dw_now = 7, dw_mkdir = (\<lambda>p. True), dw_network = Inr ''n1'', dw_create = Inr ''c1'', dw_start = None,
      dw_polls = [PollError ''busy'', PollPorts [], PollPorts [''32768'']],
      dw_health = [HealthTick None, HealthTick (Some 503), HealthTick (Some 200)],
      dw_removeContainer = Removed, dw_removeNetwork = Removed, dw_statsClient = True,
      dw_getenv = (\<lambda>n. []), dw_linux = True, dw_scan_f = (\<lambda>s. None), dw_print_3g = (\<lambda>x. [])\<rparr>"

definition demo_start :: sr_StartRequest where
  "demo_start =
     \<lparr>sa_RunID = ''r1'', sa_ImageRef = ''docker://iicpc-sandbox:s_1'', sa_EngineMode = ''normal'', sa_EventsPath = [],
      sa_Spec = \<lparr>ss_CPULimit = [], ss_CpusetCpus = [], ss_MemoryLimit = [], ss_NetworkEgress = False\<rparr>\<rparr>"

definition demo_runner :: DockerRunner where
  "demo_runner = NewDockerRunner ''/srv'' ''/srv/.runs/sandbox-runner'' demo_daemon"

lemma demo_world_ok: "fresh_ids demo_world (dr_daemon demo_runner)" "removals_work demo_world"
  by (simp_all add: fresh_ids_def fresh_container_def removals_work_def demo_world_def demo_runner_def NewDockerRunner_def
    demo_daemon_def)

lemma demo_started: "\<exists>r' h. docker_Start demo_world demo_start demo_runner = (r', Inr h) \<and> sh_SandboxID h = ''sandbox_7'' \<and>
    sh_NetworkName h = ''iicpc-sandbox_7'' \<and> sh_Endpoint h = ''ws://127.0.0.1:32768/ws''"
proof -
  have i: "sandbox_id 7 = ''sandbox_7''" and t: "sanitizeDockerTag ''sandbox_7'' = ''sandbox_7''"
    and p: "TrimPrefix ''docker://iicpc-sandbox:s_1'' ''docker://'' = ''iicpc-sandbox:s_1''" by code_simp+
  show ?thesis
    by (simp add: docker_Start_def Let_def demo_world_def demo_start_def i t p dockerNetworkPlanFor_def
      create_network_def launch_def docker_handle_def)
qed

theorem docker_start_all_or_nothing_witness:
  "fresh_ids demo_world (dr_daemon demo_runner) \<and> removals_work demo_world \<and>
   (\<exists>r' h cid config i. docker_Start demo_world demo_start demo_runner = (r', Inr h) \<and>
      dm_containers (dr_daemon r') = [(cid, config)] \<and> hardened config \<and>
      dm_networks (dr_daemon r') = [(i, ''iicpc-sandbox_7''), (''n0'', ''bridge'')] \<and> isolated_on ''iicpc-sandbox_7'' config)"
proof -
  obtain r' h where st: "docker_Start demo_world demo_start demo_runner = (r', Inr h)" and
    n: "sh_NetworkName h = ''iicpc-sandbox_7''" using demo_started by blast
  have d: "dm_containers (dr_daemon demo_runner) = []" "dm_networks (dr_daemon demo_runner) = [(''n0'', ''bridge'')]"
    "\<not> ss_NetworkEgress (sa_Spec demo_start)"
    by (simp_all add: demo_runner_def NewDockerRunner_def demo_daemon_def demo_start_def)
  show ?thesis
    using docker_start_all_or_nothing [OF demo_world_ok, of demo_start] st n d demo_world_ok by auto
qed

text \<open>
  C28. \<^verbatim>\<open>Stop\<close> undoes \<^verbatim>\<open>Start\<close>: stopping the sandbox a successful start returned, with removals that
  work, gives back the runner and the daemon as they were before the start, and reports no error.
\<close>

theorem docker_stop_undoes_start:
  assumes "docker_Start w req r = (r', Inr h)" "fresh_ids w (dr_daemon r)" "removals_work w'"
    "map_of (dr_containers r) (sandbox_id (dw_now w)) = None"
  shows "docker_Stop w' (sh_SandboxID h) r' = (r, None)"
proof -
  let ?sid = "sandbox_id (dw_now w)"
  from docker_Start_ok [OF assms(1)] obtain plan config d networkID d' cid port where
    net: "create_network w plan (dr_daemon r) = Inr (d, networkID)"
    and l: "launch w config networkID d = (d', Inr (cid, port))"
    and h: "h = docker_handle w req ?sid plan port"
    and r': "r' = r\<lparr>dr_daemon := d', dr_containers := AList.update ?sid
      \<lparr>ds_handle = h, ds_containerID = cid, ds_networkID = networkID, ds_sampled = dw_statsClient w\<rparr> (dr_containers r)\<rparr>"
    by blast
  note u = create_network_undone [OF net assms(2,3)]
  have rm: "\<forall>e. dw_removeContainer w' \<noteq> RemoveFailed e" using assms(3) by (auto simp: removals_work_def)
  have cid: "dw_create w = Inr cid" and d': "d' = d\<lparr>dm_containers := (cid, config) # dm_containers d\<rparr>"
    using launch_ok [OF l] by blast+
  have "cid \<notin> set (map fst (dm_containers d))" using u(2) cid by (simp add: fresh_container_def)
  then have "dockerStop (dw_removeContainer w') cid d' = (d, None)"
    using rm d' by (auto simp: dockerStop_def daemon_remove_new split: removal.split)
  moreover have "dockerRemoveNetwork (dw_removeNetwork w') networkID d = (dr_daemon r, None)"
    using u(1,3) by (metis prod.collapse)
  moreover have "AList.delete ?sid (AList.update ?sid e (dr_containers r)) = dr_containers r" for e
  proof -
    have "?sid \<notin> fst ` set (dr_containers r)" using assms(4) by (simp add: map_of_eq_None_iff)
    then show ?thesis by (simp add: delete_update_same delete_id)
  qed
  ultimately show ?thesis using r' h by (simp add: docker_Stop_def update_conv)
qed

theorem docker_stop_undoes_start_witness:
  "\<exists>r' h. docker_Start demo_world demo_start demo_runner = (r', Inr h) \<and>
     fresh_ids demo_world (dr_daemon demo_runner) \<and> removals_work demo_world \<and>
     docker_Stop demo_world (sh_SandboxID h) r' = (demo_runner, None)"
proof -
  obtain r' h where st: "docker_Start demo_world demo_start demo_runner = (r', Inr h)" using demo_started by blast
  have "map_of (dr_containers demo_runner) (sandbox_id (dw_now demo_world)) = None"
    by (simp add: demo_runner_def NewDockerRunner_def)
  then show ?thesis using docker_stop_undoes_start [OF st demo_world_ok] st demo_world_ok by blast
qed

text \<open>
  When the removal fails, the container stays and the runner has already forgotten it: no later
  \<^verbatim>\<open>Stop\<close> can reach it.
\<close>

lemma failed_stop_leaks:
  assumes "map_of (dr_containers r) i = Some c" "dw_removeContainer w = RemoveFailed e"
    "docker_Stop w i r = (r', err)"
  shows "err = Some (''docker container remove failed: '' @ e)" "dm_containers (dr_daemon r') = dm_containers (dr_daemon r)"
    "docker_Get i r' = None" "snd (docker_Stop w' i r') = Some ''sandbox not found''"
proof -
  have f: "err = Some (''docker container remove failed: '' @ e) \<and> dm_containers (dr_daemon r') = dm_containers (dr_daemon r)"
    using assms by (auto simp: docker_Stop_def dockerStop_def dockerRemoveNetwork_def daemon_remove_def
      split: prod.splits removal.splits if_splits)
  then show "err = Some (''docker container remove failed: '' @ e)"
    "dm_containers (dr_daemon r') = dm_containers (dr_daemon r)" by simp_all
  show g: "docker_Get i r' = None" using dk.stop_find [OF assms(3)] by simp
  show "snd (docker_Stop w' i r') = Some ''sandbox not found''" using g by (rule dk.stop_unknown)
qed

section \<open>Building an image\<close>

record dockerBuildMessage =
  bm_Stream :: string
  bm_Error :: string
  bm_Detail :: "string option"

text \<open>
  The messages of the daemon that decode, then how the stream ends: cleanly (\<open>None\<close>) or with a
  decoding error. The result is what was added to the log, and the error.
\<close>

fun writeDockerBuildLog :: "dockerBuildMessage list \<Rightarrow> string option \<Rightarrow> string \<times> string option" where
  "writeDockerBuildLog [] stream_end = ([], stream_end)"
| "writeDockerBuildLog (m # ms) stream_end =
     (if bm_Error m \<noteq> [] then (bm_Stream m @ bm_Error m @ [CHR 0x0A], Some (bm_Error m))
      else if bm_Detail m \<noteq> None \<and> bm_Detail m \<noteq> Some []
      then (bm_Stream m @ the (bm_Detail m) @ [CHR 0x0A], bm_Detail m)
      else (case writeDockerBuildLog ms stream_end of (text, err) \<Rightarrow> (bm_Stream m @ text, err)))"

record build_world =
  bw_now :: int
  bw_getenv :: "string \<Rightarrow> string"
  bw_absf :: "string \<Rightarrow> string option"
  bw_writable :: "string \<Rightarrow> bool"
  bw_parse_zip :: "string \<Rightarrow> zip_entry list option"
  bw_stat :: "string \<Rightarrow> source_kind option"
  bw_tar :: bool
  bw_imageBuild :: "string option"
  bw_messages :: "dockerBuildMessage list"
  bw_stream_end :: "string option"

definition image_build_options :: "build_world \<Rightarrow> string \<Rightarrow> bool \<Rightarrow> build_options" where
  "image_build_options w imageTag contestantDockerfile =
     \<lparr>bo_Tags = [imageTag], bo_Remove = True, bo_ForceRemove = True, bo_Memory = buildMemoryBytes,
      bo_MemorySwap = buildMemoryBytes, bo_CPUQuota = buildCPUQuota, bo_CPUPeriod = buildCPUPeriod,
      bo_Ulimits = [(''nproc'', buildPidsLimit, buildPidsLimit), (''nofile'', buildNofile, buildNofile)],
      bo_NetworkMode = (if contestantDockerfile then ''none'' else []),
      bo_BuildKit = dockerBuildKitEnabled (bw_getenv w)\<rparr>"

definition build_failure :: "string \<Rightarrow> string \<Rightarrow> string" where
  "build_failure e path = ''docker image build failed: '' @ e @ '' (see '' @ path @ '')''"

text \<open>The part of \<^verbatim>\<open>Build\<close> under the cleanup of the build directory.\<close>

definition docker_build_in :: "build_world \<Rightarrow> sr_BuildRequest \<Rightarrow> string \<Rightarrow> string \<Rightarrow> string \<Rightarrow> build_tree \<times> DockerRunner \<Rightarrow>
    (build_tree \<times> DockerRunner) \<times> (string + sr_ImageRef)" where
  "docker_build_in w req artifactPath buildID buildDir x =
     (case x of (t, r) \<Rightarrow>
      case prepareBuildContext (bw_writable w) (bw_parse_zip w) (bw_stat w) artifactPath buildDir (sq_Language req) t of
        (t, contestantDockerfile, Some e) \<Rightarrow> ((t, r), Inl e)
      | (t, contestantDockerfile, None) \<Rightarrow>
          let imageTag = ''iicpc-sandbox:'' @ buildID; logPath = path_Join [buildDir, ''docker-build.log''] in
          (case OpenAppend (bw_writable w) logPath t of
             None \<Rightarrow> ((t, r), Inl (''open '' @ logPath))
           | Some t \<Rightarrow>
               if \<not> bw_tar w then ((t, r), Inl ''tar'')
               else
                 let sent = (image_build_options w imageTag contestantDockerfile, bt_files t (path_Join [buildDir, ''Dockerfile'']));
                     r = r\<lparr>dr_daemon := (dr_daemon r)\<lparr>dm_builds := dm_builds (dr_daemon r) @ [sent]\<rparr>\<rparr>;
                     failed = (\<lambda>e t. case retainBuildLog (bw_writable w) (dr_runRoot r) buildID logPath t of
                                 (t, path) \<Rightarrow> ((t, r), Inl (build_failure e path)))
                 in (case bw_imageBuild w of
                       Some e \<Rightarrow> failed e t
                     | None \<Rightarrow>
                         (case writeDockerBuildLog (bw_messages w) (bw_stream_end w) of
                            (text, Some e) \<Rightarrow> failed e (AppendTo logPath text t)
                          | (text, None) \<Rightarrow>
                              let img = \<lparr>si_ImageRef = ''docker://'' @ imageTag, si_SubmissionID = sq_SubmissionID req,
                                    si_ArtifactURI = sq_ArtifactURI req, si_Language = sq_Language req, si_BuiltAt = bw_now w\<rparr>
                              in ((AppendTo logPath text t, r\<lparr>dr_images := AList.update (si_ImageRef img) img (dr_images r)\<rparr>),
                                  Inr img)))))"

definition with_language :: "sr_BuildRequest \<Rightarrow> sr_BuildRequest" where
  "with_language req = (if sq_Language req = [] then req\<lparr>sq_Language := ''go''\<rparr> else req)"

definition docker_build_dir :: "build_world \<Rightarrow> sr_BuildRequest \<Rightarrow> DockerRunner \<Rightarrow> string" where
  "docker_build_dir w req r = path_Join [dr_runRoot r, ''builds'', build_id (sq_SubmissionID req) (bw_now w)]"

definition docker_Build :: "build_world \<Rightarrow> sr_BuildRequest \<Rightarrow> build_tree \<times> DockerRunner \<Rightarrow>
    (build_tree \<times> DockerRunner) \<times> (string + sr_ImageRef)" where
  "docker_Build w req x =
     (if sq_SubmissionID req = [] then (x, Inl ''submission_id is required'')
      else if sq_ArtifactURI req = [] then (x, Inl ''artifact_uri is required'')
      else
        case resolveLocalArtifact (bw_getenv w) (bw_absf w) (dr_repoRoot (snd x)) (sq_ArtifactURI req) of
          Inl e \<Rightarrow> (x, Inl e)
        | Inr artifactPath \<Rightarrow>
            let buildID = build_id (sq_SubmissionID req) (bw_now w); buildDir = docker_build_dir w req (snd x) in
            (case docker_build_in w (with_language req) artifactPath buildID buildDir x of
               ((t, r), Inl e) \<Rightarrow> ((RemoveAll buildDir t, r), Inl e)
             | (x, Inr img) \<Rightarrow> (x, Inr img)))"

text \<open>Every build runs under the same ceilings.\<close>

definition capped :: "build_options \<Rightarrow> bool" where
  "capped o1 \<longleftrightarrow> bo_Memory o1 = 2147483648 \<and> bo_MemorySwap o1 = bo_Memory o1 \<and> bo_CPUQuota o1 = 2 * bo_CPUPeriod o1 \<and>
     (''nproc'', 512, 512) \<in> set (bo_Ulimits o1)"

text \<open>Without network and with an accepted Dockerfile, or with the default Dockerfile of the language.\<close>

definition build_trusted :: "string \<Rightarrow> build_options \<times> string option \<Rightarrow> bool" where
  "build_trusted language b \<longleftrightarrow> capped (fst b) \<and>
     (case snd b of
        None \<Rightarrow> False
      | Some dockerfile \<Rightarrow>
          bo_NetworkMode (fst b) = ''none'' \<and> validateUntrustedDockerfile (Some dockerfile) = None \<or>
          defaultDockerfile language = Inr dockerfile)"

definition reclaimed :: "string \<Rightarrow> build_tree \<Rightarrow> build_tree \<Rightarrow> bool" where
  "reclaimed dir t t' \<longleftrightarrow> (\<forall>p. under dir p \<longrightarrow> bt_files t' p = None \<or> bt_files t' p = bt_files t p)"

lemma image_build_options_capped: "capped (image_build_options w tag c)"
  by (simp add: capped_def image_build_options_def buildMemoryBytes_def buildCPUQuota_def buildCPUPeriod_def buildPidsLimit_def)

lemma image_build_options_network: "bo_NetworkMode (image_build_options w tag c) = (if c then ''none'' else [])"
  by (simp add: image_build_options_def)

lemma path_Join_child_neq:
  assumes "dir \<noteq> []" "path_elem a" "path_elem b" "a \<noteq> b"
  shows "path_Join [dir, a] \<noteq> path_Join [dir, b]"
proof -
  have st: "path_stack (path_Join [dir, e]) = path_stack dir @ [e]" if "path_elem e" for e
    using that assms(1) path_stack_child [of e dir] by (simp add: path_Join_two path_elem_def)
  show ?thesis
  proof
    assume "path_Join [dir, a] = path_Join [dir, b]"
    then have "path_stack dir @ [a] = path_stack dir @ [b]" using st assms(2,3) by metis
    then show False using assms(4) by simp
  qed
qed

lemma OpenAppend_other:
  "\<lbrakk>OpenAppend writable path t = Some t'; p \<noteq> path_Clean path\<rbrakk> \<Longrightarrow> bt_files t' p = bt_files t p"
  by (auto simp: OpenAppend_def Let_def split: if_splits)

lemma docker_build_dir_ne: "docker_build_dir w req r \<noteq> []"
  by (simp add: docker_build_dir_def path_Join_def path_Clean_def split: list.split)

text \<open>What one build asks of the daemon.\<close>

lemma docker_build_in_builds:
  assumes "docker_build_in w req artifactPath buildID buildDir (t, r) = ((t', r'), res)" "buildDir \<noteq> []"
  shows "\<exists>bs. dm_builds (dr_daemon r') = dm_builds (dr_daemon r) @ bs \<and> list_all (build_trusted (sq_Language req)) bs \<and>
    (case res of Inl e \<Rightarrow> dr_images r' = dr_images r
     | Inr img \<Rightarrow> length bs = 1 \<and> map_of (dr_images r') (si_ImageRef img) = Some img)"
proof -
  let ?log = "path_Join [buildDir, ''docker-build.log'']" and ?df = "path_Join [buildDir, ''Dockerfile'']"
  obtain t1 contestant perr where
    prep: "prepareBuildContext (bw_writable w) (bw_parse_zip w) (bw_stat w) artifactPath buildDir (sq_Language req) t = (t1, contestant, perr)"
    by (metis prod.exhaust)
  have none: ?thesis if "r' = r" "\<exists>e. res = Inl e" using that by (intro exI [of _ "[]"]) auto
  show ?thesis
  proof (cases "perr = None \<and> OpenAppend (bw_writable w) ?log t1 \<noteq> None \<and> bw_tar w")
    case False
    then have "r' = r \<and> (\<exists>e. res = Inl e)"
      using assms(1) prep by (auto simp: docker_build_in_def Let_def split: option.splits)
    then show ?thesis using none by blast
  next
    case True
    then obtain t2 where op: "OpenAppend (bw_writable w) ?log t1 = Some t2" by blast
    have pe: "path_elem ''docker-build.log''" "path_elem ''Dockerfile''" by (simp_all add: path_elem_def)
    from prep True have prep': "prepareBuildContext (bw_writable w) (bw_parse_zip w) (bw_stat w) artifactPath buildDir (sq_Language req) t = (t1, contestant, None)" by simp
    have "?df \<noteq> path_Clean ?log"
      using path_Join_child_neq [OF assms(2) pe(2) pe(1)] assms(2) by (simp add: path_Join_two)
    then have df: "bt_files t2 ?df = bt_files t1 ?df" using OpenAppend_other [OF op] by simp
    let ?b = "(image_build_options w (''iicpc-sandbox:'' @ buildID) contestant, bt_files t2 ?df)"
    have tr: "build_trusted (sq_Language req) ?b"
      using prepareBuildContext_dockerfile [OF prep' assms(2)] df
      by (auto simp: build_trusted_def image_build_options_capped image_build_options_network split: if_splits)
    have bl: "dm_builds (dr_daemon r') = dm_builds (dr_daemon r) @ [?b] \<and>
        (case res of Inl e \<Rightarrow> dr_images r' = dr_images r | Inr img \<Rightarrow> map_of (dr_images r') (si_ImageRef img) = Some img)"
      using assms(1) prep' op True
      by (auto simp: docker_build_in_def Let_def update_conv split: option.splits prod.splits)
    then show ?thesis using tr by (intro exI [of _ "[?b]"]) (auto split: sum.splits)
  qed
qed


end
