(* ===== verification/LocalSandbox.thy ===== *)
theory LocalSandbox
  imports SandboxRunner "HOL-Library.Multiset"
begin

text \<open>
  The local runner, \<^verbatim>\<open>services/sandbox-runner/internal/sandbox/local_runner.go\<close>: it compiles Go
  artifacts with the host's toolchain and runs the engine as a process of the host. The processes it
  spawned, with their directory, arguments and environment, are a log of the state; the processes
  alive are the part of the operating system its cleanup is about.
\<close>

section \<open>Processes\<close>

text \<open>How a command ended: cleanly, with an exit status, or without having been waited for properly.\<close>

datatype wait_result = WaitOK | WaitExit | WaitFailed string

fun ignoreExitError :: "wait_result \<Rightarrow> string option" where
  "ignoreExitError WaitOK = None"
| "ignoreExitError WaitExit = None"
| "ignoreExitError (WaitFailed e) = Some e"

datatype stop_event = ProcDone wait_result | StopCtxDone | StopTimer

text \<open>
  What \<^verbatim>\<open>stopProcess\<close> sees: the process was done already, and what comes first after the interrupt
  and after the kill. The fate is what the process has been sent by then.
\<close>

record stop_world =
  sw_done :: "wait_result option"
  sw_interrupted :: stop_event
  sw_killed :: stop_event

datatype fate = Exited | Interrupted | Killed

definition stopProcess :: "stop_world \<Rightarrow> fate \<times> string option" where
  "stopProcess sw =
     (case sw_done sw of
        Some res \<Rightarrow> (Exited, ignoreExitError res)
      | None \<Rightarrow>
          (case sw_interrupted sw of
             ProcDone res \<Rightarrow> (Exited, ignoreExitError res)
           | StopCtxDone \<Rightarrow> (Interrupted, Some ''context canceled'')
           | StopTimer \<Rightarrow>
               (case sw_killed sw of
                  ProcDone res \<Rightarrow> (Exited, ignoreExitError res)
                | StopCtxDone \<Rightarrow> (Killed, Some ''context canceled'')
                | StopTimer \<Rightarrow> (Killed, Some ''timed out waiting for sandbox process to stop''))))"

text \<open>A process survives a stop exactly when the caller's context ended during the grace period.\<close>

lemma stopProcess_survives:
  "fst (stopProcess sw) = Interrupted \<longleftrightarrow> sw_done sw = None \<and> sw_interrupted sw = StopCtxDone"
  by (auto simp: stopProcess_def split: option.split stop_event.split)

lemma stopProcess_no_error: "snd (stopProcess sw) = None \<Longrightarrow> fst (stopProcess sw) = Exited"
  by (auto simp: stopProcess_def split: option.splits stop_event.splits)

section \<open>The runner\<close>

record localImage =
  li_ref :: sr_ImageRef
  li_buildDir :: string
  li_binaryPath :: string
  li_language :: string

record localSandbox =
  ls_handle :: SandboxHandle
  ls_pid :: int

record spawned =
  sp_dir :: string
  sp_args :: "string list"
  sp_env :: "string list"

record LocalRunner =
  lr_repoRoot :: string
  lr_runRoot :: string
  lr_images :: "(string \<times> localImage) list"
  lr_sandboxes :: "(string \<times> localSandbox) list"
  lr_spawned :: "spawned list"
  lr_alive :: "int list"

definition NewLocalRunner :: "string \<Rightarrow> string \<Rightarrow> LocalRunner" where
  "NewLocalRunner repoRoot runRoot =
     \<lparr>lr_repoRoot = repoRoot, lr_runRoot = runRoot, lr_images = [], lr_sandboxes = [], lr_spawned = [], lr_alive = []\<rparr>"

definition spawn :: "string \<Rightarrow> string list \<Rightarrow> string list \<Rightarrow> LocalRunner \<Rightarrow> LocalRunner" where
  "spawn dir args env r = r\<lparr>lr_spawned := lr_spawned r @ [\<lparr>sp_dir = dir, sp_args = args, sp_env = env\<rparr>]\<rparr>"

subsection \<open>Build\<close>

text \<open>
  A build step: what the toolchain makes of the tree, what it printed, its error, and whether the
  step's deadline had passed by then.
\<close>

record step_outcome =
  so_tree :: "build_tree \<Rightarrow> build_tree"
  so_output :: string
  so_error :: "string option"
  so_deadline :: bool

record local_build_world =
  lb_now :: int
  lb_getenv :: "string \<Rightarrow> string"
  lb_lookup :: "string \<Rightarrow> string option"
  lb_absf :: "string \<Rightarrow> string option"
  lb_writable :: "string \<Rightarrow> bool"
  lb_parse_zip :: "string \<Rightarrow> zip_entry list option"
  lb_stat :: "string \<Rightarrow> source_kind option"
  lb_tidy :: step_outcome
  lb_compile :: step_outcome

definition runBuildStep :: "(string \<Rightarrow> string option) \<Rightarrow> step_outcome \<Rightarrow> string \<Rightarrow> string \<Rightarrow> string list \<Rightarrow>
    build_tree \<times> LocalRunner \<Rightarrow> (build_tree \<times> LocalRunner) \<times> string option" where
  "runBuildStep lookup out dir logPath args x =
     (let t = AppendTo logPath (so_output out) (so_tree out (fst x));
          r = spawn dir args (buildEnvAllowlist lookup) (snd x)
      in ((t, r),
          case so_error out of
            None \<Rightarrow> None
          | Some e \<Rightarrow> if so_deadline out then Some (hd args @ '' timed out after 2m0s'') else Some e))"

definition shell_line :: "string \<Rightarrow> string \<Rightarrow> string" where
  "shell_line dir cmd = ''$ (cd '' @ dir @ '' && '' @ cmd @ '')'' @ [CHR 0x0A]"

text \<open>The compile step and the registration, after the modules are in order.\<close>

definition local_compile :: "local_build_world \<Rightarrow> sr_BuildRequest \<Rightarrow> string \<Rightarrow> string \<Rightarrow> string \<Rightarrow> build_tree \<times> LocalRunner \<Rightarrow>
    (build_tree \<times> LocalRunner) \<times> (string + sr_ImageRef)" where
  "local_compile w req buildID buildDir logPath x =
     (let binaryPath = path_Join [buildDir, ''engine''];
          t = AppendTo logPath (shell_line buildDir (''go build -o '' @ binaryPath @ '' .'')) (fst x)
      in case runBuildStep (lb_lookup w) (lb_compile w) buildDir logPath [''go'', ''build'', ''-o'', binaryPath, ''.''] (t, snd x) of
           ((t, r), Some e) \<Rightarrow>
             (case retainBuildLog (lb_writable w) (lr_runRoot r) buildID logPath t of
                (t, path) \<Rightarrow> ((t, r), Inl (''go build: '' @ e @ '' (see '' @ path @ '')'')))
         | ((t, r), None) \<Rightarrow>
             let img = \<lparr>si_ImageRef = ''local://'' @ buildID, si_SubmissionID = sq_SubmissionID req,
                   si_ArtifactURI = sq_ArtifactURI req, si_Language = sq_Language req, si_BuiltAt = lb_now w\<rparr>;
                 entry = \<lparr>li_ref = img, li_buildDir = buildDir, li_binaryPath = binaryPath, li_language = sq_Language req\<rparr>
             in ((t, r\<lparr>lr_images := AList.update (si_ImageRef img) entry (lr_images r)\<rparr>), Inr img))"

definition local_build_in :: "local_build_world \<Rightarrow> sr_BuildRequest \<Rightarrow> string \<Rightarrow> string \<Rightarrow> string \<Rightarrow> build_tree \<times> LocalRunner \<Rightarrow>
    (build_tree \<times> LocalRunner) \<times> (string + sr_ImageRef)" where
  "local_build_in w req artifactPath buildID buildDir x =
     (case prepareBuildContext (lb_writable w) (lb_parse_zip w) (lb_stat w) artifactPath buildDir (sq_Language req) (fst x) of
        (t, contestantDockerfile, Some e) \<Rightarrow> ((t, snd x), Inl e)
      | (t, contestantDockerfile, None) \<Rightarrow>
          let logPath = path_Join [buildDir, ''local-build.log''] in
          (case OpenAppend (lb_writable w) logPath t of
             None \<Rightarrow> ((t, snd x), Inl (''open '' @ logPath))
           | Some t \<Rightarrow>
               if fileExists t (path_Join [buildDir, ''go.mod'']) then
                 (case runBuildStep (lb_lookup w) (lb_tidy w) buildDir logPath [''go'', ''mod'', ''tidy'']
                     (AppendTo logPath (shell_line buildDir ''go mod tidy'') t, snd x) of
                    ((t, r), Some e) \<Rightarrow>
                      (case retainBuildLog (lb_writable w) (lr_runRoot r) buildID logPath t of
                         (t, path) \<Rightarrow> ((t, r), Inl (''go mod tidy: '' @ e @ '' (see '' @ path @ '')'')))
                  | (y, None) \<Rightarrow> local_compile w req buildID buildDir logPath y)
               else local_compile w req buildID buildDir logPath (t, snd x)))"

definition local_build_dir :: "local_build_world \<Rightarrow> sr_BuildRequest \<Rightarrow> LocalRunner \<Rightarrow> string" where
  "local_build_dir w req r = path_Join [lr_runRoot r, ''builds'', build_id (sq_SubmissionID req) (lb_now w)]"

definition local_Build :: "local_build_world \<Rightarrow> sr_BuildRequest \<Rightarrow> build_tree \<times> LocalRunner \<Rightarrow>
    (build_tree \<times> LocalRunner) \<times> (string + sr_ImageRef)" where
  "local_Build w req0 x =
     (if sq_SubmissionID req0 = [] then (x, Inl ''submission_id is required'')
      else if sq_ArtifactURI req0 = [] then (x, Inl ''artifact_uri is required'')
      else
        let req = (if sq_Language req0 = [] then req0\<lparr>sq_Language := ''go''\<rparr> else req0) in
        if sq_Language req \<noteq> ''go'' then (x, Inl (''local runner only supports go artifacts, got '' @ sq_Language req))
        else
          (case resolveLocalArtifact (lb_getenv w) (lb_absf w) (lr_repoRoot (snd x)) (sq_ArtifactURI req) of
             Inl e \<Rightarrow> (x, Inl e)
           | Inr artifactPath \<Rightarrow>
               let buildID = build_id (sq_SubmissionID req) (lb_now w); buildDir = local_build_dir w req (snd x) in
               (case local_build_in w req artifactPath buildID buildDir x of
                  ((t, r), Inl e) \<Rightarrow> ((RemoveAll buildDir t, r), Inl e)
                | (y, Inr img) \<Rightarrow> (y, Inr img))))"

subsection \<open>Start and Stop\<close>

record local_world =
  lw_now :: int
  lw_port :: "string + int"
  lw_mkdir :: "string \<Rightarrow> bool"
  lw_openlog :: bool
  lw_spawn :: "string + int"
  lw_health :: "health_event list"
  lw_stop :: stop_world
  lw_lookup :: "string \<Rightarrow> string option"

definition engine_args :: "int \<Rightarrow> string \<Rightarrow> string \<Rightarrow> string list" where
  "engine_args port mode eventsPath = [''--addr'', '':'' @ Itoa port, ''--mode'', mode, ''--events'', eventsPath]"

text \<open>A process that was stopped or killed is not alive any more; one only interrupted may be.\<close>

definition reap :: "fate \<Rightarrow> int \<Rightarrow> LocalRunner \<Rightarrow> LocalRunner" where
  "reap f pid r = (if f = Interrupted then r else r\<lparr>lr_alive := remove1 pid (lr_alive r)\<rparr>)"

definition local_handle :: "local_world \<Rightarrow> sr_StartRequest \<Rightarrow> string \<Rightarrow> int \<Rightarrow> SandboxHandle" where
  "local_handle w req sandboxID port =
     \<lparr>sh_SandboxID = sandboxID, sh_RunID = sa_RunID req, sh_ImageRef = sa_ImageRef req,
      sh_Endpoint = ''ws://127.0.0.1:'' @ Itoa port @ ''/ws'',
      sh_HealthURL = ''http://127.0.0.1:'' @ Itoa port @ ''/health'',
      sh_Spec = sa_Spec req, sh_NetworkName = [], sh_NetworkIsolated = False, sh_StartedAt = lw_now w\<rparr>"

text \<open>From the spawning of the engine on; a failing health check stops it again.\<close>

definition local_run :: "local_world \<Rightarrow> sr_StartRequest \<Rightarrow> localImage \<Rightarrow> string \<Rightarrow> string \<Rightarrow> int \<Rightarrow> LocalRunner \<Rightarrow>
    LocalRunner \<times> (string + SandboxHandle)" where
  "local_run w req img sandboxID eventsPath port r =
     (let mode = (if sa_EngineMode req = [] then ''normal'' else sa_EngineMode req);
          r1 = spawn (li_buildDir img) (li_binaryPath img # engine_args port mode eventsPath) (runEnvAllowlist (lw_lookup w)) r
      in case lw_spawn w of
           Inl e \<Rightarrow> (r1, Inl e)
         | Inr pid \<Rightarrow>
             let r2 = r1\<lparr>lr_alive := pid # lr_alive r1\<rparr> in
             (case waitForHealth (''http://127.0.0.1:'' @ Itoa port @ ''/health'') (lw_health w) of
                Some e \<Rightarrow> (reap (fst (stopProcess (lw_stop w))) pid r2, Inl e)
              | None \<Rightarrow>
                  let handle = local_handle w req sandboxID port in
                  (r2\<lparr>lr_sandboxes := AList.update sandboxID \<lparr>ls_handle = handle, ls_pid = pid\<rparr> (lr_sandboxes r2)\<rparr>, Inr handle)))"

definition local_Start :: "local_world \<Rightarrow> sr_StartRequest \<Rightarrow> LocalRunner \<Rightarrow> LocalRunner \<times> (string + SandboxHandle)" where
  "local_Start w req r =
     (if sa_RunID req = [] then (r, Inl ''run_id is required'')
      else if sa_ImageRef req = [] then (r, Inl ''image_ref is required'')
      else case map_of (lr_images r) (sa_ImageRef req) of
        None \<Rightarrow> (r, Inl (''unknown image_ref '' @ sa_ImageRef req @ ''; build it first''))
      | Some img \<Rightarrow>
          (case lw_port w of
             Inl e \<Rightarrow> (r, Inl e)
           | Inr port \<Rightarrow>
               let sandboxID = ''sandbox_'' @ Itoa (lw_now w);
                   dir = path_Join [lr_runRoot r, sandboxID];
                   eventsPath = (if sa_EventsPath req = [] then path_Join [dir, ''engine-events.jsonl''] else sa_EventsPath req)
               in if \<not> lw_mkdir w dir then (r, Inl (''mkdir '' @ dir))
                  else if \<not> lw_openlog w then (r, Inl ''open sandbox.log'')
                  else if \<not> lw_mkdir w (path_Dir eventsPath) then (r, Inl (''mkdir '' @ path_Dir eventsPath))
                  else local_run w req img sandboxID eventsPath port r))"

definition local_Stop :: "local_world \<Rightarrow> string \<Rightarrow> LocalRunner \<Rightarrow> LocalRunner \<times> string option" where
  "local_Stop w sandboxID r =
     (let r1 = r\<lparr>lr_sandboxes := AList.delete sandboxID (lr_sandboxes r)\<rparr> in
      case map_of (lr_sandboxes r) sandboxID of
        None \<Rightarrow> (r1, Some ''sandbox not found'')
      | Some s \<Rightarrow> (case stopProcess (lw_stop w) of (f, err) \<Rightarrow> (reap f (ls_pid s) r1, err)))"

definition local_Get :: "string \<Rightarrow> LocalRunner \<Rightarrow> SandboxHandle option" where
  "local_Get sandboxID r = map_option ls_handle (map_of (lr_sandboxes r) sandboxID)"

definition local_List :: "LocalRunner \<Rightarrow> SandboxHandle list" where
  "local_List r = map (ls_handle \<circ> snd) (lr_sandboxes r)"

definition local_inv :: "LocalRunner \<Rightarrow> bool" where
  "local_inv r \<longleftrightarrow> registry_ok ls_handle (lr_sandboxes r)"

lemma reap_fields [simp]:
  "lr_sandboxes (reap f pid r) = lr_sandboxes r" "lr_images (reap f pid r) = lr_images r"
  "lr_spawned (reap f pid r) = lr_spawned r"
  by (simp_all add: reap_def)

lemma spawn_fields [simp]:
  "lr_sandboxes (spawn dir args env r) = lr_sandboxes r" "lr_images (spawn dir args env r) = lr_images r"
  "lr_alive (spawn dir args env r) = lr_alive r" "lr_runRoot (spawn dir args env r) = lr_runRoot r"
  by (simp_all add: spawn_def)

text \<open>The outcomes of a start: nothing happened yet, or the engine was spawned.\<close>

lemma local_Start_cases:
  assumes "local_Start w req r = (r', res)"
  obtains (early) e where "res = Inl e" "r' = r"
  | (run) img eventsPath port where "map_of (lr_images r) (sa_ImageRef req) = Some img"
      "local_run w req img (''sandbox_'' @ Itoa (lw_now w)) eventsPath port r = (r', res)"
  using assms unfolding local_Start_def Let_def
  by (auto split: if_splits option.splits sum.splits)

lemma local_run_registry:
  assumes "local_run w req img sid eventsPath port r = (r', res)"
  shows "case res of
      Inl e \<Rightarrow> lr_sandboxes r' = lr_sandboxes r
    | Inr h \<Rightarrow> sh_SandboxID h = sid \<and> (\<exists>pid. lw_spawn w = Inr pid \<and> lr_alive r' = pid # lr_alive r \<and>
        lr_sandboxes r' = AList.update sid \<lparr>ls_handle = h, ls_pid = pid\<rparr> (lr_sandboxes r))"
  using assms by (auto simp: local_run_def local_handle_def Let_def split: sum.splits option.splits)

lemma local_Start_registry:
  assumes "local_Start w req r = (r', res)"
  shows "case res of
      Inl e \<Rightarrow> lr_sandboxes r' = lr_sandboxes r
    | Inr h \<Rightarrow> \<exists>c. ls_handle c = h \<and> lr_sandboxes r' = AList.update (sh_SandboxID h) c (lr_sandboxes r)"
  using assms
proof (cases rule: local_Start_cases)
  case (run img eventsPath port)
  show ?thesis
  proof (cases res)
    case (Inr h)
    then obtain pid where "lr_sandboxes r' = AList.update (sh_SandboxID h) \<lparr>ls_handle = h, ls_pid = pid\<rparr> (lr_sandboxes r)"
      using local_run_registry [OF run(2)] by auto
    then show ?thesis using Inr by (auto intro!: exI [of _ "\<lparr>ls_handle = h, ls_pid = pid\<rparr>"])
  qed (use local_run_registry [OF run(2)] in simp)
qed simp

lemma local_Stop_registry:
  "local_Stop w i r = (r', err) \<Longrightarrow> lr_sandboxes r' = AList.delete i (lr_sandboxes r)"
  by (auto simp: local_Stop_def Let_def split: option.splits prod.splits)

interpretation lc: sandbox_runner local_Start local_Stop local_Get local_List local_inv
proof
  fix s s' w req res assume "local_inv s" "local_Start w req s = (s', res)"
  then show "local_inv s'" using local_Start_registry [of w req s s' res]
    by (cases res) (auto simp: local_inv_def registry_ok_update)
next
  fix s s' w i err assume "local_inv s" "local_Stop w i s = (s', err)"
  then show "local_inv s'" by (simp add: local_inv_def local_Stop_registry registry_ok_delete)
next
  fix s s' w req h i assume "local_Start w req s = (s', Inr h)"
  then show "local_Get i s' = (if i = sh_SandboxID h then Some h else local_Get i s)"
    using local_Start_registry [of w req s s' "Inr h"] by (auto simp: local_Get_def update_conv)
next
  fix s s' w req e i assume "local_Start w req s = (s', Inl e)"
  then show "local_Get i s' = local_Get i s"
    using local_Start_registry [of w req s s' "Inl e"] by (simp add: local_Get_def)
next
  fix s s' w i err j assume "local_Stop w i s = (s', err)"
  then show "local_Get j s' = (if j = i then None else local_Get j s)"
    using local_Stop_registry [of w i s s' err] by (simp add: local_Get_def delete_conv)
next
  fix s w i assume "local_Get i s = None"
  then show "snd (local_Stop w i s) = Some ''sandbox not found''" by (simp add: local_Get_def local_Stop_def)
next
  fix s h assume "local_inv s"
  then show "h \<in> set (local_List s) \<longleftrightarrow> local_Get (sh_SandboxID h) s = Some h"
    unfolding local_inv_def local_List_def local_Get_def by (rule registry_ok_list)
qed

section \<open>Reachable states\<close>

text \<open>
  The runner after any calls. A call is patient when its stop, if it stops a process, was not cut
  short by its context; sandbox identifiers, taken from the clock, are new.
\<close>

definition patient :: "local_world \<Rightarrow> bool" where
  "patient w \<longleftrightarrow> fst (stopProcess (lw_stop w)) \<noteq> Interrupted"

inductive local_reach :: "LocalRunner \<Rightarrow> bool" where
  created: "local_reach (NewLocalRunner repoRoot runRoot)"
| built: "\<lbrakk>local_reach r; local_Build w req (t, r) = ((t', r'), res)\<rbrakk> \<Longrightarrow> local_reach r'"
| started: "\<lbrakk>local_reach r; patient w; map_of (lr_sandboxes r) (''sandbox_'' @ Itoa (lw_now w)) = None;
    local_Start w req r = (r', res)\<rbrakk> \<Longrightarrow> local_reach r'"
| stopped: "\<lbrakk>local_reach r; patient w; local_Stop w i r = (r', err)\<rbrakk> \<Longrightarrow> local_reach r'"

text \<open>The environment of a spawned process holds no secret.\<close>

definition secretless :: "spawned \<Rightarrow> bool" where
  "secretless p \<longleftrightarrow> list_all (\<lambda>kv. \<not> isAuthSecretEnv (env_name kv)) (sp_env p)"

definition local_pids :: "LocalRunner \<Rightarrow> int multiset" where
  "local_pids r = mset (map (ls_pid \<circ> snd) (lr_sandboxes r))"

definition tidy_runner :: "LocalRunner \<Rightarrow> bool" where
  "tidy_runner r \<longleftrightarrow> distinct (map fst (lr_sandboxes r)) \<and> mset (lr_alive r) = local_pids r \<and> list_all secretless (lr_spawned r)"

lemma spawn_secretless [simp]:
  "list_all secretless (lr_spawned (spawn dir args (buildEnvAllowlist lookup) r)) \<longleftrightarrow> list_all secretless (lr_spawned r)"
  "list_all secretless (lr_spawned (spawn dir args (runEnvAllowlist lookup) r)) \<longleftrightarrow> list_all secretless (lr_spawned r)"
  using contestant_env_has_no_secret [of _ lookup]
  by (auto simp: spawn_def secretless_def list_all_iff)

text \<open>Builds touch neither the registry nor the processes, and spawn the toolchain only.\<close>

definition build_only :: "LocalRunner \<Rightarrow> LocalRunner \<Rightarrow> bool" where
  "build_only r r' \<longleftrightarrow> lr_sandboxes r' = lr_sandboxes r \<and> lr_alive r' = lr_alive r \<and>
     (list_all secretless (lr_spawned r) \<longrightarrow> list_all secretless (lr_spawned r'))"

lemma build_only_refl [simp]: "build_only r r"
  by (simp add: build_only_def)

lemma build_only_trans: "\<lbrakk>build_only r r'; build_only r' r''\<rbrakk> \<Longrightarrow> build_only r r''"
  by (simp add: build_only_def)

lemma runBuildStep_only: "runBuildStep lookup out dir logPath args x = ((t', r'), err) \<Longrightarrow> build_only (snd x) r'"
  by (auto simp: runBuildStep_def Let_def build_only_def)

lemma local_compile_only:
  assumes "local_compile w req buildID buildDir logPath x = ((t', r'), res)"
  shows "build_only (snd x) r'"
proof -
  obtain t1 r1 err where st: "runBuildStep (lb_lookup w) (lb_compile w) buildDir logPath
      [''go'', ''build'', ''-o'', path_Join [buildDir, ''engine''], ''.'']
      (AppendTo logPath (shell_line buildDir (''go build -o '' @ path_Join [buildDir, ''engine''] @ '' .'')) (fst x), snd x) = ((t1, r1), err)"
    by (metis prod.exhaust)
  have r1: "build_only (snd x) r1" using runBuildStep_only [OF st] by simp
  have "build_only r1 r'"
    using assms st by (auto simp: local_compile_def Let_def build_only_def split: option.splits prod.splits)
  then show ?thesis using r1 build_only_trans by blast
qed

lemma local_build_in_only:
  assumes "local_build_in w req artifactPath buildID buildDir x = ((t', r'), res)"
  shows "build_only (snd x) r'"
proof -
  let ?log = "path_Join [buildDir, ''local-build.log'']"
  obtain t1 c perr where prep: "prepareBuildContext (lb_writable w) (lb_parse_zip w) (lb_stat w) artifactPath buildDir (sq_Language req) (fst x) = (t1, c, perr)"
    by (metis prod.exhaust)
  show ?thesis
  proof (cases "perr \<noteq> None \<or> OpenAppend (lb_writable w) ?log t1 = None")
    case True
    then have "r' = snd x" using assms prep by (auto simp: local_build_in_def Let_def split: option.splits)
    then show ?thesis by simp
  next
    case False
    then obtain t2 where op: "OpenAppend (lb_writable w) ?log t1 = Some t2" by blast
    obtain t3 r3 err where st: "runBuildStep (lb_lookup w) (lb_tidy w) buildDir ?log [''go'', ''mod'', ''tidy'']
        (AppendTo ?log (shell_line buildDir ''go mod tidy'') t2, snd x) = ((t3, r3), err)"
      by (metis prod.exhaust)
    have r3: "build_only (snd x) r3" using runBuildStep_only [OF st] by simp
    show ?thesis
    proof (cases "fileExists t2 (path_Join [buildDir, ''go.mod'']) \<and> err \<noteq> None")
      case True
      then have "r' = r3" using assms prep False op st
        by (auto simp: local_build_in_def Let_def split: prod.splits)
      then show ?thesis using r3 by simp
    next
      case notidy: False
      then have "local_compile w req buildID buildDir ?log (if fileExists t2 (path_Join [buildDir, ''go.mod'']) then (t3, r3) else (t2, snd x)) = ((t', r'), res)"
        using assms prep False op st by (auto simp: local_build_in_def Let_def split: if_splits)
      from local_compile_only [OF this] show ?thesis using r3 build_only_trans by (auto split: if_splits)
    qed
  qed
qed

lemma local_Build_only:
  assumes "local_Build w req (t, r) = ((t', r'), res)"
  shows "build_only r r'"
proof (cases "r' = r")
  case False
  let ?req = "if sq_Language req = [] then req\<lparr>sq_Language := ''go''\<rparr> else req"
  obtain path where "resolveLocalArtifact (lb_getenv w) (lb_absf w) (lr_repoRoot r) (sq_ArtifactURI ?req) = Inr path"
    and "\<exists>t1 res1. local_build_in w ?req path (build_id (sq_SubmissionID ?req) (lb_now w)) (local_build_dir w ?req r) (t, r) = ((t1, r'), res1)"
    using assms False by (auto simp: local_Build_def Let_def split: if_splits sum.splits prod.splits)
  then show ?thesis using local_build_in_only by force
qed simp

text \<open>A patient start keeps the processes and the registry in step, on every path.\<close>

lemma local_Start_tidy:
  assumes "tidy_runner r" "patient w" "map_of (lr_sandboxes r) (''sandbox_'' @ Itoa (lw_now w)) = None"
    "local_Start w req r = (r', res)"
  shows "tidy_runner r'"
  using assms(4)
proof (cases rule: local_Start_cases)
  case (early e)
  then show ?thesis using assms(1) by simp
next
  case (run img eventsPath port)
  have new: "''sandbox_'' @ Itoa (lw_now w) \<notin> fst ` set (lr_sandboxes r)"
    using assms(3) unfolding map_of_eq_None_iff .
  have sp: "list_all secretless (lr_spawned r')"
    using run(2) assms(1) by (auto simp: local_run_def tidy_runner_def Let_def split: sum.splits option.splits)
  show ?thesis
  proof (cases res)
    case (Inl e)
    have "lr_sandboxes r' = lr_sandboxes r" using local_run_registry [OF run(2)] Inl by simp
    moreover have "lr_alive r' = lr_alive r"
      using run(2) Inl assms(2) by (auto simp: local_run_def reap_def patient_def Let_def split: sum.splits option.splits)
    ultimately show ?thesis using assms(1) sp by (simp add: tidy_runner_def local_pids_def)
  next
    case (Inr h)
    then obtain pid where al: "lr_alive r' = pid # lr_alive r" and
      "lr_sandboxes r' = AList.update (''sandbox_'' @ Itoa (lw_now w)) \<lparr>ls_handle = h, ls_pid = pid\<rparr> (lr_sandboxes r)"
      using local_run_registry [OF run(2)] by auto
    then have "lr_sandboxes r' = lr_sandboxes r @ [(''sandbox_'' @ Itoa (lw_now w), \<lparr>ls_handle = h, ls_pid = pid\<rparr>)]"
      using AList_update_new [OF new] by simp
    then show ?thesis using assms(1) sp new al by (simp add: tidy_runner_def local_pids_def)
  qed
qed

lemma mset_delete:
  assumes "distinct (map fst xs)" "map_of xs i = Some e"
  shows "mset (map (f \<circ> snd) xs) = add_mset (f e) (mset (map (f \<circ> snd) (AList.delete i xs)))"
  using assms
proof (induction xs)
  case (Cons x xs)
  show ?case
  proof (cases "fst x = i")
    case True
    then have "AList.delete i xs = xs" using Cons.prems(1) by (intro delete_id) auto
    then show ?thesis using Cons.prems(2) True by (cases x) simp
  next
    case False
    then have "map_of xs i = Some e" using Cons.prems(2) by (cases x) simp
    then show ?thesis using Cons False by simp
  qed
qed simp

lemma local_Stop_tidy:
  assumes "tidy_runner r" "patient w" "local_Stop w i r = (r', err)"
  shows "tidy_runner r'"
proof (cases "map_of (lr_sandboxes r) i")
  case None
  then have "AList.delete i (lr_sandboxes r) = lr_sandboxes r" by (simp add: map_of_eq_None_iff)
  then show ?thesis using assms None by (auto simp: local_Stop_def tidy_runner_def local_pids_def)
next
  case (Some s)
  have d: "distinct (map fst (lr_sandboxes r))" and m: "mset (lr_alive r) = local_pids r" and
    sp: "list_all secretless (lr_spawned r)" using assms(1) by (simp_all add: tidy_runner_def)
  have r': "lr_sandboxes r' = AList.delete i (lr_sandboxes r)" "lr_alive r' = remove1 (ls_pid s) (lr_alive r)"
    "lr_spawned r' = lr_spawned r"
    using assms(2,3) Some by (auto simp: local_Stop_def patient_def reap_def Let_def split: prod.splits)
  have "mset (lr_alive r') = local_pids r'"
    using m mset_delete [OF d Some, of ls_pid] r' by (simp add: local_pids_def)
  then show ?thesis using r' d sp by (simp add: tidy_runner_def distinct_delete)
qed


text \<open>A build from an empty directory, a start from its image, and what they leave.\<close>

definition demo_step :: step_outcome where
  "demo_step = \<lparr>so_tree = (\<lambda>t. t), so_output = [], so_error = None, so_deadline = False\<rparr>"

definition demo_build :: local_build_world where
  "demo_build =
     \<lparr>lb_now = 1, lb_getenv = (\<lambda>n. []), lb_lookup = (\<lambda>n. Some ''v''), lb_absf = Some, lb_writable = (\<lambda>p. True),
      lb_parse_zip = (\<lambda>d. None), lb_stat = (\<lambda>p. Some (SrcDir [])), lb_tidy = demo_step, lb_compile = demo_step\<rparr>"

definition demo_local :: local_world where
  "demo_local =
     \<lparr>lw_now = 2, lw_port = Inr 4000, lw_mkdir = (\<lambda>p. True), lw_openlog = True, lw_spawn = Inr 77,
      lw_health = [HealthTick (Some 200)],
      lw_stop = \<lparr>sw_done = None, sw_interrupted = ProcDone WaitOK, sw_killed = StopTimer\<rparr>, lw_lookup = (\<lambda>n. Some ''v'')\<rparr>"

definition demo_tree :: build_tree where
  "demo_tree = \<lparr>bt_files = (\<lambda>p. None), bt_dirs = [], bt_log = []\<rparr>"

definition demo_built :: LocalRunner where
  "demo_built = snd (fst (local_Build demo_build \<lparr>sq_SubmissionID = ''s'', sq_ArtifactURI = ''/a'', sq_Language = []\<rparr>
     (demo_tree, NewLocalRunner ''/srv'' ''/srv/.runs'')))"

definition demo_running :: LocalRunner where
  "demo_running = fst (local_Start demo_local
     \<lparr>sa_RunID = ''r'', sa_ImageRef = ''local://s_1'', sa_EngineMode = [], sa_EventsPath = [],
      sa_Spec = \<lparr>ss_CPULimit = [], ss_CpusetCpus = [], ss_MemoryLimit = [], ss_NetworkEgress = False\<rparr>\<rparr> demo_built)"

lemma demo_running_reach: "local_reach demo_running"
proof -
  let ?b = "local_Build demo_build \<lparr>sq_SubmissionID = ''s'', sq_ArtifactURI = ''/a'', sq_Language = []\<rparr>
    (demo_tree, NewLocalRunner ''/srv'' ''/srv/.runs'')"
  have "?b = ((fst (fst ?b), demo_built), snd ?b)" by (simp only: demo_built_def prod.collapse)
  then have b: "local_reach demo_built" by (rule built [OF created])
  let ?s = "local_Start demo_local \<lparr>sa_RunID = ''r'', sa_ImageRef = ''local://s_1'', sa_EngineMode = [], sa_EventsPath = [],
      sa_Spec = \<lparr>ss_CPULimit = [], ss_CpusetCpus = [], ss_MemoryLimit = [], ss_NetworkEgress = False\<rparr>\<rparr> demo_built"
  have p: "patient demo_local" by code_simp
  have n: "map_of (lr_sandboxes demo_built) (''sandbox_'' @ Itoa (lw_now demo_local)) = None" by code_simp
  have "?s = (demo_running, snd ?s)" by (simp only: demo_running_def prod.collapse)
  then show ?thesis by (rule started [OF b p n])
qed


text \<open>
  A stop whose context ends within the grace period leaves the engine running, and the runner has
  already forgotten it.
\<close>

lemma impatient_stop_orphans:
  assumes "map_of (lr_sandboxes r) i = Some s" "lw_stop w = \<lparr>sw_done = None, sw_interrupted = StopCtxDone, sw_killed = k\<rparr>"
    "local_Stop w i r = (r', err)"
  shows "lr_alive r' = lr_alive r" "local_Get i r' = None" "snd (local_Stop w' i r') = Some ''sandbox not found''"
proof -
  show "lr_alive r' = lr_alive r"
    using assms by (auto simp: local_Stop_def stopProcess_def reap_def Let_def)
  show g: "local_Get i r' = None" using lc.stop_find [OF assms(3)] by simp
  show "snd (local_Stop w' i r') = Some ''sandbox not found''" using g by (rule lc.stop_unknown)
qed

end
