(* ===== verification/Feed.thy ===== *)
theory Feed
  imports Prelude
begin

text \<open>
  The subscriptions both leaderboards have, as a step system: what happens under the lock is one step,
  and the sends after it are a job, one step per channel.  A channel holds at most 8 payloads and a send
  to a full one drops the payload.  Versions count the changes of the board; they are no part of the
  program but let the properties say which snapshot a payload is.  Channels are numbered in the order of
  subscription; \<open>by_birth\<close> is the version a channel was registered at.
\<close>

section \<open>State and steps\<close>

type_synonym payload = "nat \<times> string"

record feed =
  by_history :: "string list"
  by_birth :: "nat list"
  by_bufs :: "payload list list"
  by_subs :: "nat list"
  by_jobs :: "(payload \<times> nat list) list"

definition by_version :: "'a feed_scheme \<Rightarrow> nat" where "by_version s = length (by_history s) - 1"

definition seedCapacity :: nat where "seedCapacity = 8"

text \<open>A non-blocking send.\<close>

definition try_send :: "payload \<Rightarrow> payload list \<Rightarrow> payload list" where
  "try_send p buf = (if length buf < seedCapacity then buf @ [p] else buf)"

text \<open>A change of the board to the snapshot \<open>p\<close>, which is broadcast or not.\<close>

definition feed_publish :: "string \<Rightarrow> bool \<Rightarrow> 'a feed_scheme \<Rightarrow> 'a feed_scheme" where
  "feed_publish p send s = s\<lparr>by_history := by_history s @ [p],
     by_jobs := (if send then by_jobs s @ [((length (by_history s), p), by_subs s)] else by_jobs s)\<rparr>"

definition feed_subscribe :: "string \<Rightarrow> 'a feed_scheme \<Rightarrow> 'a feed_scheme" where
  "feed_subscribe seed s =
     (let ch = length (by_bufs s) in
      s\<lparr>by_birth := by_birth s @ [by_version s], by_bufs := by_bufs s @ [[]], by_subs := by_subs s @ [ch],
        by_jobs := by_jobs s @ [((by_version s, seed), [ch])]\<rparr>)"

definition feed_send :: "nat \<Rightarrow> 'a feed_scheme \<Rightarrow> 'a feed_scheme option" where
  "feed_send j s =
     (if j < length (by_jobs s) then
        (case by_jobs s ! j of
           (p, []) \<Rightarrow> Some (s\<lparr>by_jobs := take j (by_jobs s) @ drop (Suc j) (by_jobs s)\<rparr>)
         | (p, c # cs) \<Rightarrow>
             Some (s\<lparr>by_bufs := (by_bufs s)[c := try_send p (by_bufs s ! c)], by_jobs := (by_jobs s)[j := (p, cs)]\<rparr>))
      else None)"

definition feed_cancel :: "nat \<Rightarrow> 'a feed_scheme \<Rightarrow> 'a feed_scheme" where
  "feed_cancel c s = s\<lparr>by_subs := filter (\<lambda>d. d \<noteq> c) (by_subs s)\<rparr>"

definition feed_recv :: "nat \<Rightarrow> 'a feed_scheme \<Rightarrow> 'a feed_scheme option" where
  "feed_recv c s =
     (if c < length (by_bufs s) \<and> by_bufs s ! c \<noteq> [] then Some (s\<lparr>by_bufs := (by_bufs s)[c := tl (by_bufs s ! c)]\<rparr>)
      else None)"

section \<open>The invariant\<close>

text \<open>A payload fit for a channel: the snapshot of a version no older than the channel.\<close>

definition fits :: "'a feed_scheme \<Rightarrow> nat \<Rightarrow> payload \<Rightarrow> bool" where
  "fits s c p \<longleftrightarrow> c < length (by_birth s) \<and> by_birth s ! c \<le> fst p \<and> fst p < length (by_history s) \<and> by_history s ! fst p = snd p"

definition feed_inv :: "'a feed_scheme \<Rightarrow> bool" where
  "feed_inv s \<longleftrightarrow>
     by_history s \<noteq> [] \<and> length (by_bufs s) = length (by_birth s) \<and> (\<forall>v \<in> set (by_birth s). v < length (by_history s)) \<and>
     (\<forall>c < length (by_bufs s). length (by_bufs s ! c) \<le> seedCapacity \<and> (\<forall>p \<in> set (by_bufs s ! c). fits s c p)) \<and>
     (\<forall>c \<in> set (by_subs s). c < length (by_birth s)) \<and>
     (\<forall>(p, cs) \<in> set (by_jobs s). \<forall>c \<in> set cs. fits s c p)"

lemma fits_mono:
  "\<lbrakk>fits s c p; by_birth s' = by_birth s @ bs; by_history s' = by_history s @ hs\<rbrakk> \<Longrightarrow> fits s' c p"
  by (auto simp: fits_def nth_append)

lemma feed_inv_publish:
  assumes "feed_inv s"
  shows "feed_inv (feed_publish p send s)"
proof -
  let ?s = "feed_publish p send s"
  have mono: "fits s c q \<Longrightarrow> fits ?s c q" for c q
    by (rule fits_mono [where bs = "[]" and hs = "[p]"]) (simp_all add: feed_publish_def)
  have new: "fits ?s c (length (by_history s), p)" if "c \<in> set (by_subs s)" for c
    using assms that by (auto simp: fits_def feed_publish_def feed_inv_def nth_append intro: less_imp_le nth_mem)
  show ?thesis
    using assms mono new unfolding feed_inv_def by (auto simp: feed_publish_def split: if_splits)
qed

lemma feed_inv_subscribe:
  assumes "feed_inv s" "seed = last (by_history s)"
  shows "feed_inv (feed_subscribe seed s)"
proof -
  let ?s = "feed_subscribe seed s"
  note s = feed_subscribe_def [of seed s, unfolded Let_def]
  have v: "by_version s < length (by_history s)" "by_history s ! by_version s = seed"
    using assms by (auto simp: feed_inv_def by_version_def last_conv_nth)
  have mono: "fits s c p \<Longrightarrow> fits ?s c p" for c p
    by (rule fits_mono [where bs = "[by_version s]" and hs = "[]"]) (simp_all add: s)
  have new: "fits ?s (length (by_bufs s)) (by_version s, seed)"
    using assms(1) v by (simp add: fits_def s feed_inv_def)
  show ?thesis
    using assms(1) mono new v unfolding feed_inv_def by (auto simp: s nth_append less_Suc_eq)
qed

lemma feed_inv_buf:
  assumes "feed_inv s" "length buf \<le> seedCapacity" "\<forall>p \<in> set buf. fits s c p"
  shows "feed_inv (s\<lparr>by_bufs := (by_bufs s)[c := buf]\<rparr>)"
proof -
  have f: "fits (s\<lparr>by_bufs := (by_bufs s)[c := buf]\<rparr>) = fits s" by (intro ext) (simp add: fits_def)
  have "length ((by_bufs s)[c := buf] ! d) \<le> seedCapacity \<and> (\<forall>p \<in> set ((by_bufs s)[c := buf] ! d). fits s d p)"
    if "d < length (by_bufs s)" for d
    using assms that by (cases "d = c") (auto simp: feed_inv_def)
  then show ?thesis using assms(1) f by (simp add: feed_inv_def)
qed

lemma feed_inv_jobs:
  assumes "feed_inv s" "\<forall>(q, es) \<in> set js. \<forall>d \<in> set es. fits s d q"
  shows "feed_inv (s\<lparr>by_jobs := js\<rparr>)"
proof -
  have "fits (s\<lparr>by_jobs := js\<rparr>) = fits s" by (intro ext) (simp add: fits_def)
  then show ?thesis using assms by (simp add: feed_inv_def)
qed

lemma feed_inv_send:
  assumes "feed_inv s" "feed_send j s = Some s'"
  shows "feed_inv s'"
proof -
  have j: "j < length (by_jobs s)" using assms(2) by (simp add: feed_send_def split: if_splits)
  obtain p cs where job: "by_jobs s ! j = (p, cs)" by fastforce
  have jin: "(p, cs) \<in> set (by_jobs s)" using j job by (metis nth_mem)
  show ?thesis
  proof (cases cs)
    case Nil
    then have s': "s' = s\<lparr>by_jobs := take j (by_jobs s) @ drop (Suc j) (by_jobs s)\<rparr>"
      using assms(2) j job by (simp add: feed_send_def)
    have "\<forall>(q, es) \<in> set (take j (by_jobs s) @ drop (Suc j) (by_jobs s)). \<forall>d \<in> set es. fits s d q"
      using assms(1) by (auto simp: feed_inv_def dest!: in_set_takeD in_set_dropD)
    then show ?thesis unfolding s' by (rule feed_inv_jobs [OF assms(1)])
  next
    case (Cons c ds)
    let ?s = "s\<lparr>by_bufs := (by_bufs s)[c := try_send p (by_bufs s ! c)]\<rparr>"
    have s': "s' = ?s\<lparr>by_jobs := (by_jobs s)[j := (p, ds)]\<rparr>"
      using Cons assms(2) j job by (simp add: feed_send_def)
    have ts: "\<forall>c \<in> set cs. fits s c p" using assms(1) jin by (auto simp: feed_inv_def)
    have c: "c < length (by_bufs s)" "fits s c p" using ts Cons assms(1) by (auto simp: fits_def feed_inv_def)
    have "length (try_send p (by_bufs s ! c)) \<le> seedCapacity" "\<forall>q \<in> set (try_send p (by_bufs s ! c)). fits s c q"
      using assms(1) c by (auto simp: try_send_def feed_inv_def)
    then have inv: "feed_inv ?s" by (rule feed_inv_buf [OF assms(1)])
    have f: "fits ?s = fits s" by (intro ext) (simp add: fits_def)
    have old: "\<forall>(q, es) \<in> set (by_jobs s). \<forall>d \<in> set es. fits s d q" using assms(1) by (simp add: feed_inv_def)
    have "\<forall>(q, es) \<in> set ((by_jobs s)[j := (p, ds)]). \<forall>d \<in> set es. fits ?s d q"
    proof
      fix x assume "x \<in> set ((by_jobs s)[j := (p, ds)])"
      then have "x = (p, ds) \<or> x \<in> set (by_jobs s)" using set_update_subset_insert by fastforce
      then show "case x of (q, es) \<Rightarrow> \<forall>d \<in> set es. fits ?s d q"
        unfolding f using old ts Cons by auto
    qed
    then show ?thesis unfolding s' by (rule feed_inv_jobs [OF inv])
  qed
qed

lemma feed_inv_cancel: "feed_inv s \<Longrightarrow> feed_inv (feed_cancel c s)"
proof -
  have "fits (feed_cancel c s) = fits s" by (intro ext) (simp add: fits_def feed_cancel_def)
  then show "feed_inv s \<Longrightarrow> feed_inv (feed_cancel c s)" by (simp add: feed_inv_def feed_cancel_def)
qed

lemma feed_inv_recv:
  assumes "feed_inv s" "feed_recv c s = Some s'"
  shows "feed_inv s'"
proof -
  have s': "s' = s\<lparr>by_bufs := (by_bufs s)[c := tl (by_bufs s ! c)]\<rparr>" and c: "c < length (by_bufs s)"
    using assms(2) by (simp_all add: feed_recv_def split: if_splits)
  have "set (tl (by_bufs s ! c)) \<subseteq> set (by_bufs s ! c)" by (cases "by_bufs s ! c") auto
  then have "length (tl (by_bufs s ! c)) \<le> seedCapacity" "\<forall>p \<in> set (tl (by_bufs s ! c)). fits s c p"
    using assms(1) c by (auto simp: feed_inv_def)
  then show ?thesis unfolding s' by (rule feed_inv_buf [OF assms(1)])
qed

text \<open>The parts of the state that sending, cancelling and receiving leave alone.\<close>

lemma feed_frame:
  "by_history (feed_cancel c s) = by_history s" "feed_send j s = Some s' \<Longrightarrow> by_history s' = by_history s"
  "feed_recv c s = Some s' \<Longrightarrow> by_history s' = by_history s" "by_history (feed_subscribe seed s) = by_history s"
  by (auto simp: feed_cancel_def feed_send_def feed_recv_def feed_subscribe_def Let_def split: if_splits prod.splits list.splits)

lemma feed_more:
  "feed.more (feed_cancel c s) = feed.more s" "feed_send j s = Some s' \<Longrightarrow> feed.more s' = feed.more s"
  "feed_recv c s = Some s' \<Longrightarrow> feed.more s' = feed.more s" "feed.more (feed_subscribe seed s) = feed.more s"
  by (auto simp: feed_cancel_def feed_send_def feed_recv_def feed_subscribe_def Let_def split: if_splits prod.splits list.splits)

text \<open>What the invariant means for a subscriber, and that nobody waits for one.\<close>

lemma feed_bounded:
  assumes "feed_inv s" "c < length (by_bufs s)" "(v, p) \<in> set (by_bufs s ! c)"
  shows "length (by_bufs s ! c) \<le> 8" "by_birth s ! c \<le> v" "v \<le> by_version s" "by_history s ! v = p"
proof -
  have "fits s c (v, p)" "length (by_bufs s ! c) \<le> 8" using assms by (auto simp: feed_inv_def seedCapacity_def)
  then show "length (by_bufs s ! c) \<le> 8" "by_birth s ! c \<le> v" "v \<le> by_version s" "by_history s ! v = p"
    by (auto simp: fits_def by_version_def)
qed

lemma feed_send_enabled: "j < length (by_jobs s) \<Longrightarrow> \<exists>s'. feed_send j s = Some s'"
  by (auto simp: feed_send_def split: prod.split list.split)

end
