(* ===== verification/Board.thy ===== *)
theory Board
  imports Feed RunStore Http Strconv "HOL-Library.AList" "HOL-Library.Product_Lexorder"
begin

text \<open>
  The leaderboard, \<^verbatim>\<open>services/leaderboard-api\<close>: the file-backed board of \<^verbatim>\<open>internal/board/board.go\<close>
  with its subscribers, and the request handlers of \<^verbatim>\<open>main.go\<close>. The JSON codecs and the disk answer
  through parameters.
\<close>

section \<open>Entries and their order\<close>

text \<open>Times are nanoseconds since the zero time of \<^verbatim>\<open>time.Time\<close>.\<close>

record Entry =
  en_RunID :: string
  en_TeamID :: string
  en_Score :: f64
  en_Valid :: bool
  en_Status :: string
  en_FailureReason :: string
  en_OrdersSent :: int
  en_AcksReceived :: int
  en_FillsReceived :: int
  en_Timeouts :: int
  en_ConnectErrors :: int
  en_FillsChecked :: int
  en_P50MS :: f64
  en_P90MS :: f64
  en_P99MS :: f64
  en_P999MS :: f64
  en_TPS :: f64
  en_PeakTPS :: f64
  en_LatencyScore :: f64
  en_ThroughputScore :: f64
  en_StabilityScore :: f64
  en_ResourceScore :: f64
  en_CorrectnessGate :: string
  en_ArtifactDir :: string
  en_UpdatedAt :: int

text \<open>The \<open>less\<close> function of \<^verbatim>\<open>snapshotLocked\<close>: \<open>a\<close> comes before \<open>b\<close>.\<close>

definition ranks_before :: "Entry \<Rightarrow> Entry \<Rightarrow> bool" where
  "ranks_before a b =
     (if f_eq (en_Score a) (en_Score b) then en_UpdatedAt a < en_UpdatedAt b
      else f_less (en_Score b) (en_Score a))"

definition finite_score :: "Entry \<Rightarrow> bool" where
  "finite_score e = (case en_Score e of Fin x \<Rightarrow> True | _ \<Rightarrow> False)"

text \<open>
  The map is read in no particular order and the sort is not stable, so which of two equal entries
  comes first is open. What the code gets from \<^verbatim>\<open>sort.Slice\<close>: the same entries, and, where the order
  is one (the scores are finite), no entry after one it ranks before.
\<close>

locale board_sorter =
  fixes srt :: "Entry list \<Rightarrow> Entry list"
  assumes srt_mset: "mset (srt es) = mset es"
    and srt_ranked: "list_all finite_score es \<Longrightarrow> sorted_wrt (\<lambda>a b. \<not> ranks_before b a) (srt es)"
begin

lemma srt_set [simp]: "set (srt es) = set es"
  using srt_mset by (metis set_mset_mset)

lemma srt_length [simp]: "length (srt es) = length es"
  using srt_mset by (metis size_mset)

lemma srt_all [simp]: "list_all P (srt es) = list_all P es"
  by (simp add: list_all_iff)

lemma srt_distinct [simp]: "distinct (map f (srt es)) = distinct (map f es)"
  using srt_mset by (metis mset_eq_imp_distinct_iff mset_map)

end

definition rank_key :: "Entry \<Rightarrow> real \<times> int" where
  "rank_key e = (case en_Score e of Fin x \<Rightarrow> - x | _ \<Rightarrow> 0, en_UpdatedAt e)"

definition ranked :: "Entry list \<Rightarrow> Entry list" where
  "ranked es = sort_key rank_key es"

lemma rank_key_before:
  "\<lbrakk>finite_score a; finite_score b\<rbrakk> \<Longrightarrow> ranks_before a b \<longleftrightarrow> rank_key a < rank_key b"
  by (auto simp: finite_score_def ranks_before_def rank_key_def less_prod_def f_eq_def split: f64.splits)

interpretation by_rank: board_sorter ranked
proof
  fix es
  show "mset (ranked es) = mset es" by (simp add: ranked_def)
  assume fin: "list_all finite_score es"
  have "sorted (map rank_key (ranked es))" by (simp add: ranked_def)
  then have "sorted_wrt (\<lambda>a b. rank_key a \<le> rank_key b) (ranked es)" by (simp add: sorted_wrt_map)
  then show "sorted_wrt (\<lambda>a b. \<not> ranks_before b a) (ranked es)"
  proof (rule sorted_wrt_mono_rel [rotated])
    fix a b assume "a \<in> set (ranked es)" "b \<in> set (ranked es)" "rank_key a \<le> rank_key b"
    then show "\<not> ranks_before b a" using fin by (simp add: ranked_def list_all_iff rank_key_before not_less)
  qed
qed

section \<open>The file-backed board\<close>

datatype board_file = BoardMissing | BoardEmpty | BoardCorrupt | BoardEntries "Entry list"

text \<open>
  The entries by run id, and the file. \<open>marshal\<close> in the operations below is \<^verbatim>\<open>json.Marshal\<close> of a
  snapshot, which fails on numbers JSON cannot carry.
\<close>

record FileBoard =
  fb_entries :: "(string \<times> Entry) list"
  fb_file :: board_file

definition index_entries :: "Entry list \<Rightarrow> (string \<times> Entry) list" where
  "index_entries es = fold (\<lambda>e m. if en_RunID e \<noteq> [] then AList.update (en_RunID e) e m else m) es []"

definition board_load :: "bool \<Rightarrow> board_file \<Rightarrow> string + (string \<times> Entry) list" where
  "board_load readable f =
     (case f of
        BoardMissing \<Rightarrow> Inr []
      | BoardEmpty \<Rightarrow> if readable then Inr [] else Inl ''read''
      | BoardCorrupt \<Rightarrow> if readable then Inl ''invalid json'' else Inl ''read''
      | BoardEntries es \<Rightarrow> if readable then Inr (index_entries es) else Inl ''read'')"

definition board_New :: "bool \<Rightarrow> board_file \<Rightarrow> string + FileBoard" where
  "board_New readable f =
     (case board_load readable f of
        Inl e \<Rightarrow> Inl e
      | Inr m \<Rightarrow> Inr \<lparr>fb_entries = m, fb_file = f\<rparr>)"

definition board_snapshot :: "(Entry list \<Rightarrow> Entry list) \<Rightarrow> FileBoard \<Rightarrow> Entry list" where
  "board_snapshot srt b = srt (map snd (fb_entries b))"

definition board_write :: "StoreIO \<Rightarrow> (Entry list \<Rightarrow> string option) \<Rightarrow> Entry list \<Rightarrow> board_file \<Rightarrow> board_file \<times> string option" where
  "board_write io marshal es f =
     (if \<not> io_mkdir io then (f, Some ''mkdir'')
      else if marshal es = None then (f, Some ''json: unsupported value'')
      else if \<not> io_write io then (f, Some ''write'')
      else if \<not> io_rename io then (f, Some ''rename'')
      else (BoardEntries es, None))"

definition complete_entry :: "int \<Rightarrow> Entry \<Rightarrow> Entry" where
  "complete_entry now e =
     (let e = (if en_TeamID e = [] then e\<lparr>en_TeamID := en_RunID e\<rparr> else e)
      in if en_UpdatedAt e = 0 then e\<lparr>en_UpdatedAt := now\<rparr> else e)"

text \<open>
  \<^verbatim>\<open>Upsert\<close> under the lock: the new board, the snapshot, the payload to broadcast if it could be
  made, and the error.
\<close>

definition board_Upsert :: "(Entry list \<Rightarrow> Entry list) \<Rightarrow> (Entry list \<Rightarrow> string option) \<Rightarrow> StoreIO \<Rightarrow> int \<Rightarrow> Entry \<Rightarrow>
    FileBoard \<Rightarrow> FileBoard \<times> Entry list \<times> string option \<times> string option" where
  "board_Upsert srt marshal io now e b =
     (if en_RunID e = [] then (b, [], None, Some ''run_id is required'')
      else
        let e = complete_entry now e;
            b1 = b\<lparr>fb_entries := AList.update (en_RunID e) e (fb_entries b)\<rparr>;
            snapshot = board_snapshot srt b1;
            payload = marshal snapshot
        in case board_write io marshal snapshot (fb_file b) of
             (f, writeErr) \<Rightarrow>
               (b1\<lparr>fb_file := f\<rparr>, snapshot, payload,
                case writeErr of Some err \<Rightarrow> Some err
                | None \<Rightarrow> if payload = None then Some ''json: unsupported value'' else None))"

definition board_List :: "(Entry list \<Rightarrow> Entry list) \<Rightarrow> FileBoard \<Rightarrow> Entry list" where
  "board_List srt b = board_snapshot srt b"

subsection \<open>Subscribers\<close>

text \<open>
  Any number of \<^verbatim>\<open>Upsert\<close> and \<^verbatim>\<open>Subscribe\<close> calls at once, over the subscriptions of theory \<^verbatim>\<open>Feed\<close>.
\<close>

record board_sys = feed +
  by_board :: FileBoard

datatype board_event = EvUpsert StoreIO int Entry | EvSubscribe | EvSend nat | EvCancel nat | EvRecv nat

definition payload_of :: "(Entry list \<Rightarrow> string option) \<Rightarrow> Entry list \<Rightarrow> string" where
  "payload_of marshal es = (case marshal es of None \<Rightarrow> [] | Some p \<Rightarrow> p)"

definition board_start :: "(Entry list \<Rightarrow> Entry list) \<Rightarrow> (Entry list \<Rightarrow> string option) \<Rightarrow> FileBoard \<Rightarrow> board_sys" where
  "board_start srt marshal b =
     \<lparr>by_history = [payload_of marshal (board_snapshot srt b)], by_birth = [], by_bufs = [], by_subs = [], by_jobs = [],
      by_board = b\<rparr>"

definition board_step :: "(Entry list \<Rightarrow> Entry list) \<Rightarrow> (Entry list \<Rightarrow> string option) \<Rightarrow> board_event \<Rightarrow> board_sys \<Rightarrow>
    board_sys option" where
  "board_step srt marshal ev s =
     (case ev of
        EvUpsert io now e \<Rightarrow>
          if en_RunID e = [] then Some s
          else
            (case board_Upsert srt marshal io now e (by_board s) of
               (b, snapshot, payload, err) \<Rightarrow>
                 Some (feed_publish (payload_of marshal snapshot) (payload \<noteq> None) (s\<lparr>by_board := b\<rparr>)))
      | EvSubscribe \<Rightarrow> Some (feed_subscribe (payload_of marshal (board_snapshot srt (by_board s))) s)
      | EvSend j \<Rightarrow> feed_send j s
      | EvCancel c \<Rightarrow> Some (feed_cancel c s)
      | EvRecv c \<Rightarrow> feed_recv c s)"

inductive board_reach :: "(Entry list \<Rightarrow> Entry list) \<Rightarrow> (Entry list \<Rightarrow> string option) \<Rightarrow> board_sys \<Rightarrow> bool"
  for srt :: "Entry list \<Rightarrow> Entry list" and marshal :: "Entry list \<Rightarrow> string option" where
  opened: "board_reach srt marshal (board_start srt marshal b)"
| stepped: "\<lbrakk>board_reach srt marshal s; board_step srt marshal ev s = Some s'\<rbrakk> \<Longrightarrow> board_reach srt marshal s'"

text \<open>The newest version is the board.\<close>

definition board_inv :: "(Entry list \<Rightarrow> Entry list) \<Rightarrow> (Entry list \<Rightarrow> string option) \<Rightarrow> board_sys \<Rightarrow> bool" where
  "board_inv srt marshal s \<longleftrightarrow> feed_inv s \<and> last (by_history s) = payload_of marshal (board_snapshot srt (by_board s))"

lemma board_Upsert_snapshot:
  "\<lbrakk>board_Upsert srt marshal io now e b = (b', snapshot, payload, err); en_RunID e \<noteq> []\<rbrakk> \<Longrightarrow>
   snapshot = board_snapshot srt b' \<and> payload = marshal snapshot"
  by (auto simp: board_Upsert_def board_snapshot_def Let_def split: prod.splits)

lemma board_more: "feed.more s' = feed.more s \<Longrightarrow> by_board s' = by_board (s :: board_sys)"
  by (cases s; cases s') simp

lemma board_inv_step:
  assumes "board_inv srt marshal s" "board_step srt marshal ev s = Some s'"
  shows "board_inv srt marshal s'"
proof -
  have inv: "feed_inv s" and last: "last (by_history s) = payload_of marshal (board_snapshot srt (by_board s))"
    using assms(1) by (simp_all add: board_inv_def)
  show ?thesis
  proof (cases ev)
    case (EvUpsert io now e)
    show ?thesis
    proof (cases "en_RunID e = []")
      case False
      obtain b snapshot payload err where u: "board_Upsert srt marshal io now e (by_board s) = (b, snapshot, payload, err)"
        by (metis prod.exhaust)
      have s': "s' = feed_publish (payload_of marshal snapshot) (payload \<noteq> None) (s\<lparr>by_board := b\<rparr>)"
        using assms(2) u False by (simp add: board_step_def EvUpsert)
      have "fits (s\<lparr>by_board := b\<rparr>) = fits s" by (intro ext) (simp add: fits_def)
      then have "feed_inv (s\<lparr>by_board := b\<rparr>)" using inv by (simp add: feed_inv_def)
      then have "feed_inv s'" unfolding s' by (rule feed_inv_publish)
      then show ?thesis using board_Upsert_snapshot [OF u False] by (simp add: board_inv_def s' feed_publish_def)
    qed (use assms EvUpsert in \<open>simp add: board_step_def\<close>)
  next
    case EvSubscribe
    then have s': "s' = feed_subscribe (payload_of marshal (board_snapshot srt (by_board s))) s"
      using assms(2) by (simp add: board_step_def)
    show ?thesis using feed_inv_subscribe [OF inv last [symmetric]] last board_more [OF feed_more(4)]
      by (simp add: board_inv_def s' feed_frame)
  next
    case (EvSend j)
    then have s': "feed_send j s = Some s'" using assms(2) by (simp add: board_step_def)
    then show ?thesis using feed_inv_send [OF inv s'] last board_more [OF feed_more(2) [OF s']]
      by (simp add: board_inv_def feed_frame(2) [OF s'])
  next
    case (EvCancel c)
    then have s': "s' = feed_cancel c s" using assms(2) by (simp add: board_step_def)
    show ?thesis using feed_inv_cancel [OF inv] last board_more [OF feed_more(1)] by (simp add: board_inv_def s' feed_frame)
  next
    case (EvRecv c)
    then have s': "feed_recv c s = Some s'" using assms(2) by (simp add: board_step_def)
    then show ?thesis using feed_inv_recv [OF inv s'] last board_more [OF feed_more(3) [OF s']]
      by (simp add: board_inv_def feed_frame(3) [OF s'])
  qed
qed

lemma board_reach_inv: "board_reach srt marshal s \<Longrightarrow> board_inv srt marshal s"
proof (induction rule: board_reach.induct)
  case (opened b)
  show ?case by (simp add: board_inv_def board_start_def feed_inv_def)
qed (rule board_inv_step)


text \<open>A run of events, for concrete schedules.\<close>

fun board_run :: "(Entry list \<Rightarrow> Entry list) \<Rightarrow> (Entry list \<Rightarrow> string option) \<Rightarrow> board_event list \<Rightarrow> board_sys \<Rightarrow> board_sys option" where
  "board_run srt marshal [] s = Some s"
| "board_run srt marshal (ev # evs) s =
     (case board_step srt marshal ev s of None \<Rightarrow> None | Some s' \<Rightarrow> board_run srt marshal evs s')"

lemma board_run_reach: "\<lbrakk>board_reach srt marshal s; board_run srt marshal evs s = Some s'\<rbrakk> \<Longrightarrow> board_reach srt marshal s'"
  by (induction srt marshal evs s rule: board_run.induct) (auto split: option.splits intro: board_reach.stepped)

definition demo_entry :: "int \<Rightarrow> Entry" where
  "demo_entry n =
     \<lparr>en_RunID = ''r1'', en_TeamID = ''t1'', en_Score = Fin 50, en_Valid = True, en_Status = ''FINISHED'',
      en_FailureReason = [], en_OrdersSent = n, en_AcksReceived = n, en_FillsReceived = 0, en_Timeouts = 0,
      en_ConnectErrors = 0, en_FillsChecked = 0, en_P50MS = Fin 0, en_P90MS = Fin 0, en_P99MS = Fin 0,
      en_P999MS = Fin 0, en_TPS = Fin 0, en_PeakTPS = Fin 0, en_LatencyScore = Fin 0, en_ThroughputScore = Fin 0,
      en_StabilityScore = Fin 0, en_ResourceScore = Fin 0, en_CorrectnessGate = [], en_ArtifactDir = [], en_UpdatedAt = n\<rparr>"

definition demo_marshal :: "Entry list \<Rightarrow> string option" where
  "demo_marshal es = Some (concat (map (\<lambda>e. Itoa (en_OrdersSent e)) es))"

definition demo_board :: FileBoard where "demo_board = \<lparr>fb_entries = [], fb_file = BoardMissing\<rparr>"

definition demo_schedule :: "board_event list \<Rightarrow> board_sys option" where
  "demo_schedule evs = board_run id demo_marshal evs (board_start id demo_marshal demo_board)"

lemma demo_schedule_reach: "demo_schedule evs = Some s \<Longrightarrow> board_reach id demo_marshal s"
  unfolding demo_schedule_def by (rule board_run_reach [OF board_reach.opened])


text \<open>
  But the sends of two updates are not ordered: a subscriber can be left, with nothing more to come,
  on a snapshot older than the board.
\<close>

lemma last_snapshot_can_be_stale:
  "\<exists>s. board_reach id demo_marshal s \<and> by_jobs s = [] \<and> by_bufs s ! 0 \<noteq> [] \<and> fst (last (by_bufs s ! 0)) < by_version s"
proof -
  let ?evs = "[EvSubscribe, EvSend 0, EvSend 0, EvUpsert io_good 1 (demo_entry 3), EvUpsert io_good 1 (demo_entry 4),
    EvSend 1, EvSend 1, EvSend 0, EvSend 0]"
  have "map_option (\<lambda>s. (by_bufs s, by_jobs s, by_version s)) (demo_schedule ?evs) = Some ([[(0, []), (2, ''4''), (1, ''3'')]], [], 2)"
    by code_simp
  then obtain s where "demo_schedule ?evs = Some s" "by_bufs s = [[(0, []), (2, ''4''), (1, ''3'')]]" "by_jobs s = []" "by_version s = 2"
    by auto
  then show ?thesis using demo_schedule_reach by (intro exI [of _ s]) auto
qed

section \<open>The handlers\<close>

datatype lb_body = LbError string | LbEntries "Entry list"

definition maxUpsertBody :: nat where "maxUpsertBody = 65536"

definition f_Abs :: "f64 \<Rightarrow> f64" where
  "f_Abs x = (case x of Fin r \<Rightarrow> Fin \<bar>r\<bar> | NInf \<Rightarrow> PInf | y \<Rightarrow> y)"

definition score_out_of_range :: "f64 \<Rightarrow> bool" where
  "score_out_of_range x \<longleftrightarrow> IsNaN x \<or> IsInf x \<or> f_less (Fin 1000000000) (f_Abs x)"

text \<open>
  A body is what decodes from it, with the number of bytes the decoder had to read; \<open>None\<close> does not
  decode. \<open>upsert\<close> is the store's.
\<close>

definition lb_admit :: "(nat \<times> Entry) option \<Rightarrow> string + Entry" where
  "lb_admit body =
     (case body of
        None \<Rightarrow> Inl ''invalid json''
      | Some (n, e) \<Rightarrow>
          if n > maxUpsertBody then Inl ''invalid json''
          else if score_out_of_range (en_Score e) then Inl ''score out of range''
          else Inr e)"

definition lb_handler_Upsert :: "(Entry \<Rightarrow> 's \<Rightarrow> 's \<times> Entry list \<times> string option) \<Rightarrow> (nat \<times> Entry) option \<Rightarrow> 's \<Rightarrow>
    's \<times> lb_body response" where
  "lb_handler_Upsert upsert body s =
     (case lb_admit body of
        Inl e \<Rightarrow> (s, \<lparr>rp_status = StatusBadRequest, rp_body = LbError e\<rparr>)
      | Inr entry \<Rightarrow>
          (case upsert entry s of
             (s, es, Some err) \<Rightarrow> (s, \<lparr>rp_status = StatusBadRequest, rp_body = LbError err\<rparr>)
           | (s, es, None) \<Rightarrow> (s, \<lparr>rp_status = StatusOK, rp_body = LbEntries es\<rparr>)))"

definition lb_handler_List :: "('s \<Rightarrow> Entry list) \<Rightarrow> 's \<Rightarrow> lb_body response" where
  "lb_handler_List lst s = \<lparr>rp_status = StatusOK, rp_body = LbEntries (lst s)\<rparr>"

definition lb_requireServiceAuth :: "string \<Rightarrow> string \<Rightarrow> 'a \<Rightarrow> 'a \<Rightarrow> 'a" where
  "lb_requireServiceAuth token header unauthorized next =
     (if TrimSpace token = [] then next else if bearer_ok token header then next else unauthorized)"

section \<open>Ranking and durability\<close>

text \<open>The map invariant: one entry per run id, under that id, with a finite score.\<close>

definition entry_map :: "(string \<times> Entry) list \<Rightarrow> bool" where
  "entry_map m \<longleftrightarrow> distinct (map fst m) \<and> list_all (\<lambda>(i, e). en_RunID e = i \<and> i \<noteq> [] \<and> finite_score e) m"

lemma entry_map_update:
  assumes "entry_map m" "en_RunID e \<noteq> []" "finite_score e"
  shows "entry_map (AList.update (en_RunID e) e m)"
proof -
  let ?m = "AList.update (en_RunID e) e m"
  have "distinct (map fst ?m)" using assms(1) by (simp add: entry_map_def distinct_update)
  moreover have "en_RunID x = i \<and> i \<noteq> [] \<and> finite_score x" if "(i, x) \<in> set ?m" for i x
    using AList_update_set [OF that] assms by (auto simp: entry_map_def list_all_iff)
  ultimately show ?thesis unfolding entry_map_def list_all_iff by blast
qed

lemma index_entries_map: "list_all finite_score es \<Longrightarrow> entry_map (index_entries es)"
proof -
  have "\<lbrakk>entry_map m; list_all finite_score es\<rbrakk> \<Longrightarrow>
      entry_map (fold (\<lambda>e m. if en_RunID e \<noteq> [] then AList.update (en_RunID e) e m else m) es m)" for m
    by (induction es arbitrary: m) (auto simp: entry_map_update)
  then show "list_all finite_score es \<Longrightarrow> entry_map (index_entries es)" by (simp add: index_entries_def entry_map_def)
qed

text \<open>Reading back entries with distinct ids keeps them all, in the order of the file.\<close>

lemma index_entries_same:
  assumes "distinct (map en_RunID es)" "\<forall>e \<in> set es. en_RunID e \<noteq> []"
  shows "index_entries es = map (\<lambda>e. (en_RunID e, e)) es"
proof -
  have "\<lbrakk>distinct (map en_RunID es); \<forall>e \<in> set es. en_RunID e \<noteq> [] \<and> en_RunID e \<notin> fst ` set m\<rbrakk> \<Longrightarrow>
      fold (\<lambda>e m. if en_RunID e \<noteq> [] then AList.update (en_RunID e) e m else m) es m = m @ map (\<lambda>e. (en_RunID e, e)) es" for m
  proof (induction es arbitrary: m)
    case (Cons e es)
    then have u: "AList.update (en_RunID e) e m = m @ [(en_RunID e, e)]" by (intro AList_update_new) auto
    have "en_RunID x \<noteq> [] \<and> en_RunID x \<notin> fst ` set (m @ [(en_RunID e, e)])" if "x \<in> set es" for x
    proof -
      have "en_RunID e \<notin> en_RunID ` set es" using Cons.prems(1) by simp
      then have "en_RunID x \<noteq> en_RunID e" using that by (metis imageI)
      moreover have "en_RunID x \<noteq> []" "en_RunID x \<notin> fst ` set m" using Cons.prems(2) that by auto
      ultimately show ?thesis by simp
    qed
    then have "fold (\<lambda>e m. if en_RunID e \<noteq> [] then AList.update (en_RunID e) e m else m) es (m @ [(en_RunID e, e)]) =
        (m @ [(en_RunID e, e)]) @ map (\<lambda>e. (en_RunID e, e)) es"
      using Cons.prems by (intro Cons.IH) simp_all
    then show ?case using Cons.prems by (simp add: u)
  qed simp
  from this [of "[]"] show ?thesis using assms by (simp add: index_entries_def)
qed

lemma entry_map_ids:
  assumes "entry_map m"
  shows "map en_RunID (map snd m) = map fst m" "map (\<lambda>e. (en_RunID e, e)) (map snd m) = m"
  using assms by (auto simp: entry_map_def list_all_iff intro!: map_idI)

definition entry_of :: "string \<Rightarrow> Entry list \<Rightarrow> Entry option" where
  "entry_of i es = find (\<lambda>e. en_RunID e = i) es"

lemma entry_of_iff:
  assumes "distinct (map en_RunID es)"
  shows "entry_of i es = Some e \<longleftrightarrow> e \<in> set es \<and> en_RunID e = i"
  using assms by (induction es) (auto simp: entry_of_def)

lemma entry_of_None: "entry_of i es = None \<longleftrightarrow> i \<notin> en_RunID ` set es"
  by (auto simp: entry_of_def find_None_iff)

context board_sorter
begin

lemma snapshot_ranked:
  assumes "entry_map (fb_entries b)"
  shows "sorted_wrt (\<lambda>x y. \<not> ranks_before y x) (board_snapshot srt b)" "distinct (map en_RunID (board_snapshot srt b))"
proof -
  show "sorted_wrt (\<lambda>x y. \<not> ranks_before y x) (board_snapshot srt b)"
    unfolding board_snapshot_def using assms by (intro srt_ranked) (auto simp: entry_map_def list_all_iff)
  show "distinct (map en_RunID (board_snapshot srt b))"
    using assms entry_map_ids(1) [OF assms] by (simp add: board_snapshot_def entry_map_def del: map_map)
qed

lemma snapshot_entry_of:
  assumes "entry_map (fb_entries b)"
  shows "entry_of i (board_snapshot srt b) = map_of (fb_entries b) i"
proof -
  note d = snapshot_ranked(2) [OF assms]
  have "entry_of i (board_snapshot srt b) = Some e \<longleftrightarrow> map_of (fb_entries b) i = Some e" for e
    using assms unfolding entry_of_iff [OF d] by (force simp: board_snapshot_def entry_map_def list_all_iff map_of_eq_Some_iff)
  then show ?thesis by (metis option.exhaust)
qed

text \<open>What an update changes: exactly the entry of its run.\<close>

lemma Upsert_changes:
  assumes "board_Upsert srt marshal io now e b = (b', es, payload, err)"
  shows "fb_entries b' = (if en_RunID e = [] then fb_entries b
    else AList.update (en_RunID e) (complete_entry now e) (fb_entries b))"
    "err = None \<Longrightarrow> en_RunID e \<noteq> [] \<and> es = board_List srt b' \<and> fb_file b' = BoardEntries es"
  using assms by (auto simp: board_Upsert_def board_write_def board_List_def board_snapshot_def Let_def
    complete_entry_def split: if_splits option.splits prod.splits)

lemma Upsert_survives_restart:
  assumes "board_Upsert srt marshal io now e b = (b', es, payload, None)" "entry_map (fb_entries b')"
  obtains b2 where "board_New True (fb_file b') = Inr b2" "mset (fb_entries b2) = mset (fb_entries b')"
proof -
  have f: "fb_file b' = BoardEntries (board_snapshot srt b')" using Upsert_changes(2) [OF assms(1)] by (simp add: board_List_def)
  have ne: "\<forall>e \<in> set (board_snapshot srt b'). en_RunID e \<noteq> []"
    using assms(2) by (auto simp: board_snapshot_def entry_map_def list_all_iff)
  have i: "index_entries (board_snapshot srt b') = map (\<lambda>e. (en_RunID e, e)) (board_snapshot srt b')"
    using snapshot_ranked(2) [OF assms(2)] ne by (rule index_entries_same)
  have "mset (map (\<lambda>e. (en_RunID e, e)) (board_snapshot srt b')) = mset (map (\<lambda>e. (en_RunID e, e)) (map snd (fb_entries b')))"
    unfolding board_snapshot_def mset_map srt_mset by simp
  also have "\<dots> = mset (fb_entries b')" using entry_map_ids(2) [OF assms(2)] by simp
  finally show ?thesis using that f i by (simp add: board_New_def board_load_def)
qed

end

text \<open>A request to post an entry: what the disk does, the clock, the body.\<close>

type_synonym post = "StoreIO \<times> int \<times> (nat \<times> Entry) option"

definition board_store_upsert :: "(Entry list \<Rightarrow> Entry list) \<Rightarrow> (Entry list \<Rightarrow> string option) \<Rightarrow> StoreIO \<Rightarrow> int \<Rightarrow> Entry \<Rightarrow>
    FileBoard \<Rightarrow> FileBoard \<times> Entry list \<times> string option" where
  "board_store_upsert srt marshal io now e b =
     (case board_Upsert srt marshal io now e b of (b', es, payload, err) \<Rightarrow> (b', es, err))"

fun lb_post :: "(Entry list \<Rightarrow> Entry list) \<Rightarrow> (Entry list \<Rightarrow> string option) \<Rightarrow> post \<Rightarrow> FileBoard \<Rightarrow> FileBoard" where
  "lb_post srt marshal (io, now, body) b = fst (lb_handler_Upsert (board_store_upsert srt marshal io now) body b)"

text \<open>The entry a request puts on the board, if any.\<close>

fun accepted :: "post \<Rightarrow> Entry option" where
  "accepted (io, now, body) =
     (case lb_admit body of Inl e \<Rightarrow> None | Inr e \<Rightarrow> if en_RunID e = [] then None else Some (complete_entry now e))"

lemma complete_entry_simps [simp]:
  "en_RunID (complete_entry now e) = en_RunID e" "en_Score (complete_entry now e) = en_Score e"
  "finite_score (complete_entry now e) = finite_score e"
  by (simp_all add: complete_entry_def finite_score_def Let_def)

lemma lb_admit_finite: "lb_admit body = Inr e \<Longrightarrow> finite_score e"
  by (auto simp: lb_admit_def finite_score_def score_out_of_range_def IsNaN_def IsInf_def split: option.splits if_splits f64.splits)

lemma accepted_ok: "accepted q = Some e \<Longrightarrow> en_RunID e \<noteq> [] \<and> finite_score e"
  by (cases q) (auto split: sum.splits if_splits dest: lb_admit_finite)

lemma lb_post_entries:
  "fb_entries (lb_post srt marshal q b) =
     (case accepted q of None \<Rightarrow> fb_entries b | Some e \<Rightarrow> AList.update (en_RunID e) e (fb_entries b))"
proof (cases q)
  case (fields io now body)
  show ?thesis
  proof (cases "lb_admit body")
    case (Inr e)
    obtain b' es payload err where u: "board_Upsert srt marshal io now e b = (b', es, payload, err)" by (metis prod.exhaust)
    then have "lb_post srt marshal q b = b'"
      using fields Inr by (cases err) (simp_all add: lb_handler_Upsert_def board_store_upsert_def)
    moreover have "fb_entries b' = (if en_RunID e = [] then fb_entries b else AList.update (en_RunID e) (complete_entry now e) (fb_entries b))"
      using u by (auto simp: board_Upsert_def complete_entry_def Let_def split: if_splits prod.splits)
    ultimately show ?thesis using fields Inr by simp
  qed (simp add: fields lb_handler_Upsert_def)
qed

lemma lb_posts:
  assumes "entry_map (fb_entries b)"
  shows "entry_map (fb_entries (fold (lb_post srt marshal) qs b)) \<and>
    map_of (fb_entries (fold (lb_post srt marshal) qs b)) i =
      (case filter (\<lambda>e. en_RunID e = i) (List.map_filter accepted qs) of
         [] \<Rightarrow> map_of (fb_entries b) i | as \<Rightarrow> Some (last as))"
  using assms
proof (induction qs arbitrary: b)
  case Nil
  then show ?case by (simp add: List.map_filter_def)
next
  case (Cons q qs)
  let ?b = "lb_post srt marshal q b"
  have m: "entry_map (fb_entries ?b)"
    using Cons.prems accepted_ok [of q] by (auto simp: lb_post_entries entry_map_update split: option.split)
  show ?case
  proof (cases "accepted q")
    case None
    then have "fb_entries ?b = fb_entries b" by (simp add: lb_post_entries)
    then show ?thesis using Cons.IH [OF m] None
      by (simp add: List.map_filter_simps split: list.splits)
  next
    case (Some e)
    then have "map_of (fb_entries ?b) i = (if en_RunID e = i then Some e else map_of (fb_entries b) i)"
      by (simp add: lb_post_entries update_conv)
    then show ?thesis using Cons.IH [OF m] Some
      by (auto simp: List.map_filter_simps split: list.splits)
  qed
qed

text \<open>JSON has finite numbers only.\<close>

definition finite_numbers :: "board_file \<Rightarrow> bool" where
  "finite_numbers f = (case f of BoardEntries es \<Rightarrow> list_all finite_score es | _ \<Rightarrow> True)"

lemma board_New_map: "\<lbrakk>board_New readable f = Inr b; finite_numbers f\<rbrakk> \<Longrightarrow> entry_map (fb_entries b)"
  by (auto simp: board_New_def board_load_def finite_numbers_def entry_map_def index_entries_map [unfolded entry_map_def]
    split: board_file.splits if_splits sum.splits)

text \<open>
  C36. The leaderboard ranks what it was given, and keeps it. Opened on a file and after any
  sequence of requests, forged or malformed ones included, the list is in rank order, higher scores
  first and earlier updates first among equals, with one entry per run: the last one accepted for
  it, or the one of the file. And once an update has answered without error, a board opened on the
  file it wrote lists the same entries.
\<close>

theorem board_ranks_and_keeps:
  assumes "board_New readable f = Inr b0" "finite_numbers f" and b_def: "b = fold (lb_post ranked marshal) qs b0"
  shows "sorted_wrt (\<lambda>x y. \<not> ranks_before y x) (board_List ranked b) \<and> distinct (map en_RunID (board_List ranked b)) \<and>
    entry_of i (board_List ranked b) =
      (case filter (\<lambda>e. en_RunID e = i) (List.map_filter accepted qs) of
         [] \<Rightarrow> entry_of i (board_List ranked b0) | as \<Rightarrow> Some (last as)) \<and>
    (case board_Upsert ranked marshal io now e b of
       (b', es, payload, None) \<Rightarrow>
         finite_score e \<longrightarrow> (\<exists>b2. board_New True (fb_file b') = Inr b2 \<and> mset (board_List ranked b2) = mset (board_List ranked b'))
     | _ \<Rightarrow> True)"
proof -
  have m0: "entry_map (fb_entries b0)" using assms(1,2) by (rule board_New_map)
  have m: "entry_map (fb_entries b)" and l: "map_of (fb_entries b) i =
      (case filter (\<lambda>e. en_RunID e = i) (List.map_filter accepted qs) of [] \<Rightarrow> map_of (fb_entries b0) i | as \<Rightarrow> Some (last as))"
    using lb_posts [OF m0] unfolding b_def by blast+
  have "case board_Upsert ranked marshal io now e b of
       (b', es, payload, None) \<Rightarrow>
         finite_score e \<longrightarrow> (\<exists>b2. board_New True (fb_file b') = Inr b2 \<and> mset (board_List ranked b2) = mset (board_List ranked b'))
     | _ \<Rightarrow> True"
  proof -
    obtain b' es payload err where u: "board_Upsert ranked marshal io now e b = (b', es, payload, err)" by (metis prod.exhaust)
    have "\<exists>b2. board_New True (fb_file b') = Inr b2 \<and> mset (board_List ranked b2) = mset (board_List ranked b')"
      if "err = None" "finite_score e"
    proof -
      have "en_RunID e \<noteq> []" "fb_entries b' = AList.update (en_RunID e) (complete_entry now e) (fb_entries b)"
        using by_rank.Upsert_changes [OF u] that(1) by auto
      then have "entry_map (fb_entries b')" using entry_map_update [OF m, of "complete_entry now e"] that(2) by simp
      moreover have "board_Upsert ranked marshal io now e b = (b', es, payload, None)" using u that(1) by simp
      ultimately obtain b2 where "board_New True (fb_file b') = Inr b2" "mset (fb_entries b2) = mset (fb_entries b')"
        by (metis by_rank.Upsert_survives_restart)
      then show ?thesis by (auto simp: board_List_def board_snapshot_def by_rank.srt_mset)
    qed
    then show ?thesis using u by (cases err) simp_all
  qed
  moreover have "entry_of i (board_List ranked b) = (case filter (\<lambda>e. en_RunID e = i) (List.map_filter accepted qs) of
      [] \<Rightarrow> entry_of i (board_List ranked b0) | as \<Rightarrow> Some (last as))"
    using by_rank.snapshot_entry_of [OF m] by_rank.snapshot_entry_of [OF m0] l
    unfolding board_List_def by (simp split: list.split)
  ultimately show ?thesis using by_rank.snapshot_ranked [OF m] by (simp add: board_List_def)
qed

definition demo_posts :: "post list" where
  "demo_posts = [(io_good, 5, Some (400, demo_entry 3)), (io_good, 6, Some (400, (demo_entry 9)\<lparr>en_Score := Fin 2000000000\<rparr>)),
     (io_good, 7, Some (400, demo_entry 4)), (io_good, 8, None)]"

theorem board_ranks_and_keeps_witness:
  "entry_of ''r1'' (board_List ranked (fold (lb_post ranked demo_marshal) demo_posts demo_board)) = Some (demo_entry 4) \<and>
   sorted_wrt (\<lambda>x y. \<not> ranks_before y x) (board_List ranked (fold (lb_post ranked demo_marshal) demo_posts demo_board)) \<and>
   board_New True BoardMissing = Inr demo_board"
proof -
  have new: "board_New True BoardMissing = Inr demo_board"
    by (simp add: board_New_def board_load_def demo_board_def)
  have acc: "List.map_filter accepted demo_posts = [demo_entry 3, demo_entry 4]"
    by (simp add: demo_posts_def List.map_filter_def lb_admit_def maxUpsertBody_def score_out_of_range_def IsNaN_def IsInf_def
      f_Abs_def demo_entry_def complete_entry_def)
  have "filter (\<lambda>e. en_RunID e = ''r1'') [demo_entry 3, demo_entry 4] = [demo_entry 3, demo_entry 4]"
    by (simp add: demo_entry_def)
  then show ?thesis
    using board_ranks_and_keeps [OF new _ refl, of demo_marshal demo_posts "''r1''"] acc new
    by (simp add: finite_numbers_def)
qed

text \<open>An update the disk refuses is answered with an error and is on the board all the same.\<close>

lemma refused_update_is_listed:
  assumes "en_RunID e \<noteq> []" "entry_map (fb_entries b)" "finite_score e"
    "board_Upsert ranked marshal (io_good\<lparr>io_write := False\<rparr>) now e b = (b', es, payload, err)"
  shows "err \<noteq> None" "entry_of (en_RunID e) (board_List ranked b') = Some (complete_entry now e)" "fb_file b' = fb_file b"
proof -
  have fe: "fb_entries b' = AList.update (en_RunID e) (complete_entry now e) (fb_entries b)"
    using by_rank.Upsert_changes(1) [OF assms(4)] assms(1) by simp
  have m: "entry_map (fb_entries b')"
    using entry_map_update [OF assms(2), of "complete_entry now e"] assms(1,3) fe by simp
  show "err \<noteq> None" "fb_file b' = fb_file b"
    using assms(1,4) by (auto simp: board_Upsert_def board_write_def io_good_def Let_def split: if_splits)
  show "entry_of (en_RunID e) (board_List ranked b') = Some (complete_entry now e)"
    using by_rank.snapshot_entry_of [OF m] fe by (simp add: board_List_def update_conv)
qed

section \<open>Origins, connections, start-up\<close>

text \<open>\<^verbatim>\<open>url.Parse\<close> gives the host, and the host name without the port, of an origin.\<close>

definition parseOrigins :: "string \<Rightarrow> string list" where
  "parseOrigins raw = filter (\<lambda>h. h \<noteq> []) (map (\<lambda>part. ToLower (TrimSpace part)) (SplitChar CHR '','' raw))"

definition originAllowed :: "(string \<Rightarrow> (string \<times> string) option) \<Rightarrow> string list \<Rightarrow> string \<Rightarrow> string \<Rightarrow> bool" where
  "originAllowed parse allowed requestHost origin =
     (if origin = [] then True
      else case parse origin of
        None \<Rightarrow> False
      | Some (h, hn) \<Rightarrow>
          let host = ToLower h; hostname = ToLower hn in
          if host = ToLower requestHost then True
          else if hostname = ''localhost'' \<or> hostname = ''127.0.0.1'' \<or> hostname = ''::1'' then True
          else if host \<in> set allowed then True
          else hostname \<in> set allowed)"

text \<open>
  The writer of one WebSocket connection: what it selects, with whether the write succeeds, and what
  it puts on the wire until it returns.
\<close>

datatype ws_event = WsShutdown | WsPing bool | WsUpdate string bool
datatype ws_frame_out = WsClose | WsPingFrame | WsText string

fun ws_loop :: "ws_event list \<Rightarrow> ws_frame_out list" where
  "ws_loop [] = []"
| "ws_loop (WsShutdown # evs) = [WsClose]"
| "ws_loop (WsPing ok # evs) = WsPingFrame # (if ok then ws_loop evs else [])"
| "ws_loop (WsUpdate p ok # evs) = WsText p # (if ok then ws_loop evs else [])"

datatype lb_backend = RedisBackend string int | FileBackend string

definition lb_firstEnv :: "(string \<Rightarrow> string) \<Rightarrow> string list \<Rightarrow> string" where
  "lb_firstEnv getenv names = (case filter (\<lambda>v. v \<noteq> []) (map getenv names) of [] \<Rightarrow> [] | v # _ \<Rightarrow> v)"

definition choose_backend :: "(string \<Rightarrow> string) \<Rightarrow> string \<Rightarrow> lb_backend" where
  "choose_backend getenv repoRoot =
     (let redisURL = getenv ''REDIS_URL'';
          backend = (if getenv ''LEADERBOARD_BACKEND'' = [] \<and> redisURL \<noteq> [] then ''redis'' else getenv ''LEADERBOARD_BACKEND'')
      in if backend = ''redis'' then
           RedisBackend (if redisURL = [] then ''redis://localhost:56379/'' else redisURL)
             (let v = getenv ''LEADERBOARD_POLL_MS'' in
              if v = [] then 500 else (case Atoi v of (ms, ok) \<Rightarrow> if ok \<and> ms > 0 then ms else 500))
         else
           FileBackend (if getenv ''LEADERBOARD_STORE_PATH'' = [] then path_Join [repoRoot, ''.leaderboard'', ''leaderboard.json'']
             else getenv ''LEADERBOARD_STORE_PATH''))"

definition lb_main_token :: "(string \<Rightarrow> string) \<Rightarrow> string + string" where
  "lb_main_token getenv =
     (let authToken = lb_firstEnv getenv [''LEADERBOARD_AUTH_TOKEN'', ''SERVICE_AUTH_TOKEN''] in
      if TrimSpace authToken = [] \<and> getenv ''REQUIRE_AUTH'' = ''1''
      then Inl ''refusing to start: REQUIRE_AUTH=1 but no service auth token set'' else Inr authToken)"

text \<open>With \<^verbatim>\<open>REQUIRE_AUTH\<close> set, nobody posts without the token.\<close>

lemma lb_required_auth:
  assumes "lb_main_token getenv = Inr token" "getenv ''REQUIRE_AUTH'' = ''1''"
  shows "lb_requireServiceAuth token header unauthorized next = (if bearer_ok token header then next else unauthorized)"
  using assms by (auto simp: lb_main_token_def lb_requireServiceAuth_def Let_def split: if_splits)

end
