(* ===== verification/RedisBoard.thy ===== *)
theory RedisBoard
  imports Board Float64
begin

text \<open>
  The Redis-backed leaderboard, \<^verbatim>\<open>services/leaderboard-api/internal/redisboard/redisboard.go\<close>, and the
  interface \<^verbatim>\<open>Store\<close> of the two boards. What Redis answers is an argument of the operations: the
  ranking, the scorecard of a team, whether a transaction was executed. Each refresh reads the clock
  once. Formatting a float for Redis is the parameter \<open>fmt\<close>.
\<close>

section \<open>Scorecards\<close>

definition rb_atof :: "string \<Rightarrow> f64 \<Rightarrow> f64" where
  "rb_atof s def = (if s = [] then def else case ParseFloat s of (v, ok) \<Rightarrow> if ok then v else def)"

definition rb_atoi :: "string \<Rightarrow> int" where "rb_atoi s = fst (Atoi s)"

definition boolToInt :: "bool \<Rightarrow> int" where "boolToInt b = (if b then 1 else 0)"

definition scorecardKey :: "string \<Rightarrow> string" where "scorecardKey team = ''team:'' @ team @ '':scorecard''"

type_synonym scorecard = "(string \<times> string) list"

definition card_get :: "scorecard \<Rightarrow> string \<Rightarrow> string" where
  "card_get sc k = (case map_of sc k of None \<Rightarrow> [] | Some v \<Rightarrow> v)"

definition applyScorecard :: "scorecard \<Rightarrow> Entry \<Rightarrow> Entry" where
  "applyScorecard sc e =
     e\<lparr>en_RunID := card_get sc ''run_id'',
       en_TeamID := (if card_get sc ''team_id'' \<noteq> [] then card_get sc ''team_id'' else en_TeamID e),
       en_Valid := (card_get sc ''valid'' = ''1''),
       en_FailureReason := card_get sc ''failure_reason'',
       en_Score := rb_atof (card_get sc ''score'') (en_Score e),
       en_LatencyScore := rb_atof (card_get sc ''latency_score'') (Fin 0),
       en_ThroughputScore := rb_atof (card_get sc ''throughput_score'') (Fin 0),
       en_StabilityScore := rb_atof (card_get sc ''stability_score'') (Fin 0),
       en_ResourceScore := rb_atof (card_get sc ''resource_score'') (Fin 0),
       en_P50MS := rb_atof (card_get sc ''p50_ms'') (Fin 0),
       en_P90MS := rb_atof (card_get sc ''p90_ms'') (Fin 0),
       en_P99MS := rb_atof (card_get sc ''p99_ms'') (Fin 0),
       en_P999MS := rb_atof (card_get sc ''p999_ms'') (Fin 0),
       en_TPS := rb_atof (card_get sc ''tps'') (Fin 0),
       en_PeakTPS := rb_atof (card_get sc ''peak_tps'') (Fin 0),
       en_OrdersSent := rb_atoi (card_get sc ''orders_sent''),
       en_AcksReceived := rb_atoi (card_get sc ''acks_received''),
       en_Timeouts := rb_atoi (card_get sc ''timeouts'')\<rparr>"

definition bare_entry :: "string \<Rightarrow> f64 \<Rightarrow> Entry" where
  "bare_entry team score =
     \<lparr>en_RunID = [], en_TeamID = team, en_Score = score, en_Valid = False, en_Status = [],
      en_FailureReason = [], en_OrdersSent = 0, en_AcksReceived = 0, en_FillsReceived = 0, en_Timeouts = 0,
      en_ConnectErrors = 0, en_FillsChecked = 0, en_P50MS = Fin 0, en_P90MS = Fin 0, en_P99MS = Fin 0,
      en_P999MS = Fin 0, en_TPS = Fin 0, en_PeakTPS = Fin 0, en_LatencyScore = Fin 0, en_ThroughputScore = Fin 0,
      en_StabilityScore = Fin 0, en_ResourceScore = Fin 0, en_CorrectnessGate = [], en_ArtifactDir = [], en_UpdatedAt = 0\<rparr>"

text \<open>The fields \<^verbatim>\<open>Upsert\<close> writes with \<^verbatim>\<open>HSet\<close>.\<close>

definition scorecard_of :: "(f64 \<Rightarrow> string) \<Rightarrow> Entry \<Rightarrow> scorecard" where
  "scorecard_of fmt e =
     [(''run_id'', en_RunID e), (''team_id'', en_TeamID e), (''valid'', Itoa (boolToInt (en_Valid e))),
      (''score'', fmt (en_Score e)), (''p50_ms'', fmt (en_P50MS e)), (''p90_ms'', fmt (en_P90MS e)),
      (''p99_ms'', fmt (en_P99MS e)), (''p999_ms'', fmt (en_P999MS e)), (''tps'', fmt (en_TPS e)),
      (''peak_tps'', fmt (en_PeakTPS e)), (''latency_score'', fmt (en_LatencyScore e)),
      (''throughput_score'', fmt (en_ThroughputScore e)), (''stability_score'', fmt (en_StabilityScore e)),
      (''resource_score'', fmt (en_ResourceScore e)), (''orders_sent'', Itoa (en_OrdersSent e)),
      (''acks_received'', Itoa (en_AcksReceived e)), (''timeouts'', Itoa (en_Timeouts e)),
      (''failure_reason'', en_FailureReason e)]"

text \<open>What a scorecard does not carry.\<close>

definition without_lost :: "Entry \<Rightarrow> Entry" where
  "without_lost e =
     e\<lparr>en_Status := [], en_FillsReceived := 0, en_ConnectErrors := 0, en_FillsChecked := 0, en_CorrectnessGate := [],
       en_ArtifactDir := [], en_UpdatedAt := 0\<rparr>"

text \<open>The numbers of an entry, and that Redis gives them back as they were.\<close>

definition formats :: "(f64 \<Rightarrow> string) \<Rightarrow> Entry \<Rightarrow> bool" where
  "formats fmt e \<longleftrightarrow>
     list_all (\<lambda>x. fmt x \<noteq> [] \<and> ParseFloat (fmt x) = (x, True))
       [en_Score e, en_P50MS e, en_P90MS e, en_P99MS e, en_P999MS e, en_TPS e, en_PeakTPS e, en_LatencyScore e,
        en_ThroughputScore e, en_StabilityScore e, en_ResourceScore e] \<and>
     list_all in_i64 [en_OrdersSent e, en_AcksReceived e, en_Timeouts e]"

lemma rb_atoi_Itoa: "in_i64 n \<Longrightarrow> rb_atoi (Itoa n) = n"
  by (simp add: rb_atoi_def Atoi_Itoa)

lemma rb_atof_fmt: "\<lbrakk>fmt x \<noteq> []; ParseFloat (fmt x) = (x, True)\<rbrakk> \<Longrightarrow> rb_atof (fmt x) d = x"
  by (simp add: rb_atof_def)

lemma valid_roundtrip: "(Itoa (boolToInt b) = ''1'') = b"
  by (cases b) (simp_all add: boolToInt_def, code_simp+)

text \<open>The fields of a scorecard, one by one.\<close>

lemma card_get_scorecard:
  "card_get (scorecard_of fmt e) ''run_id'' = en_RunID e" "card_get (scorecard_of fmt e) ''team_id'' = en_TeamID e"
  "card_get (scorecard_of fmt e) ''valid'' = Itoa (boolToInt (en_Valid e))"
  "card_get (scorecard_of fmt e) ''score'' = fmt (en_Score e)" "card_get (scorecard_of fmt e) ''p50_ms'' = fmt (en_P50MS e)"
  "card_get (scorecard_of fmt e) ''p90_ms'' = fmt (en_P90MS e)" "card_get (scorecard_of fmt e) ''p99_ms'' = fmt (en_P99MS e)"
  "card_get (scorecard_of fmt e) ''p999_ms'' = fmt (en_P999MS e)" "card_get (scorecard_of fmt e) ''tps'' = fmt (en_TPS e)"
  "card_get (scorecard_of fmt e) ''peak_tps'' = fmt (en_PeakTPS e)"
  "card_get (scorecard_of fmt e) ''latency_score'' = fmt (en_LatencyScore e)"
  "card_get (scorecard_of fmt e) ''throughput_score'' = fmt (en_ThroughputScore e)"
  "card_get (scorecard_of fmt e) ''stability_score'' = fmt (en_StabilityScore e)"
  "card_get (scorecard_of fmt e) ''resource_score'' = fmt (en_ResourceScore e)"
  "card_get (scorecard_of fmt e) ''orders_sent'' = Itoa (en_OrdersSent e)"
  "card_get (scorecard_of fmt e) ''acks_received'' = Itoa (en_AcksReceived e)"
  "card_get (scorecard_of fmt e) ''timeouts'' = Itoa (en_Timeouts e)"
  "card_get (scorecard_of fmt e) ''failure_reason'' = en_FailureReason e"
  by (simp_all add: card_get_def scorecard_of_def)

lemma scorecard_roundtrip:
  assumes "formats fmt e" "en_TeamID e \<noteq> []"
  shows "applyScorecard (scorecard_of fmt e) (bare_entry (en_TeamID e) (en_Score e)) = without_lost e"
  using assms
  by (simp add: applyScorecard_def card_get_scorecard bare_entry_def without_lost_def formats_def
    rb_atoi_Itoa rb_atof_fmt valid_roundtrip)

section \<open>The board\<close>

record RedisBoard =
  rb_interval :: int
  rb_snapshot :: "Entry list"
  rb_lastPayload :: "string option"
  rb_lastRefresh :: int

text \<open>
  What Redis answers: the ranking, best first, and the scorecard of a team; \<open>None\<close> is an error.
\<close>

record redis_answers =
  ra_ranked :: "(string \<times> f64) list option"
  ra_card :: "string \<Rightarrow> scorecard option"

definition redis_entry :: "int \<Rightarrow> redis_answers \<Rightarrow> string \<times> f64 \<Rightarrow> Entry" where
  "redis_entry now a z =
     (let e = bare_entry (fst z) (snd z);
          e = (case ra_card a (fst z) of None \<Rightarrow> e | Some sc \<Rightarrow> if sc = [] then e else applyScorecard sc e)
      in if en_UpdatedAt e = 0 then e\<lparr>en_UpdatedAt := now\<rparr> else e)"

text \<open>The second result is the payload that is broadcast, if one is.\<close>

definition redis_refresh :: "(Entry list \<Rightarrow> string option) \<Rightarrow> int \<Rightarrow> redis_answers \<Rightarrow> RedisBoard \<Rightarrow> RedisBoard \<times> string option" where
  "redis_refresh marshal now a b =
     (case ra_ranked a of
        None \<Rightarrow> (b, None)
      | Some zs \<Rightarrow>
          let entries = map (redis_entry now a) zs in
          (case marshal entries of
             None \<Rightarrow> (b, None)
           | Some payload \<Rightarrow>
               (b\<lparr>rb_snapshot := entries, rb_lastPayload := Some payload, rb_lastRefresh := now\<rparr>,
                if rb_lastPayload b = Some payload then None else Some payload)))"

definition redis_New :: "(Entry list \<Rightarrow> string option) \<Rightarrow> int \<Rightarrow> redis_answers \<Rightarrow> bool \<Rightarrow> bool \<Rightarrow> int \<Rightarrow> string + RedisBoard" where
  "redis_New marshal now a url_ok ping_ok interval =
     (if \<not> url_ok then Inl ''redis: invalid URL''
      else if \<not> ping_ok then Inl ''ping''
      else Inr (fst (redis_refresh marshal now a
        \<lparr>rb_interval = (if interval \<le> 0 then 500000000 else interval), rb_snapshot = [], rb_lastPayload = None, rb_lastRefresh = 0\<rparr>)))"

definition redis_List :: "RedisBoard \<Rightarrow> Entry list" where "redis_List b = rb_snapshot b"

definition redis_seed :: "(Entry list \<Rightarrow> string option) \<Rightarrow> RedisBoard \<Rightarrow> string" where
  "redis_seed marshal b = (case rb_lastPayload b of Some p \<Rightarrow> p | None \<Rightarrow> payload_of marshal [])"

text \<open>
  \<^verbatim>\<open>Upsert\<close>: what it writes (the member and score of the ranking, the key and fields of the
  scorecard), then, if the transaction was executed, a refresh from what Redis then answers.
\<close>

definition redis_writes :: "(f64 \<Rightarrow> string) \<Rightarrow> Entry \<Rightarrow> (string \<times> f64) \<times> string \<times> scorecard" where
  "redis_writes fmt e =
     (let e = (if en_TeamID e = [] then e\<lparr>en_TeamID := en_RunID e\<rparr> else e)
      in ((en_TeamID e, en_Score e), scorecardKey (en_TeamID e), scorecard_of fmt e))"

definition redis_Upsert :: "(Entry list \<Rightarrow> string option) \<Rightarrow> bool \<times> int \<times> redis_answers \<Rightarrow> Entry \<Rightarrow> RedisBoard \<Rightarrow>
    RedisBoard \<times> Entry list \<times> string option" where
  "redis_Upsert marshal w e b =
     (case w of (executed, now, a) \<Rightarrow>
      if \<not> executed then (b, redis_List b, Some ''redis: transaction failed'')
      else let b = fst (redis_refresh marshal now a b) in (b, redis_List b, None))"

text \<open>Readiness: the answer, its reason, and the age of the data in milliseconds.\<close>

definition redis_Ready :: "int \<Rightarrow> RedisBoard \<Rightarrow> bool \<times> string" where
  "redis_Ready now b =
     (if rb_lastRefresh b = 0 then (False, ''no successful redis refresh yet'')
      else if now - rb_lastRefresh b \<le> 3 * rb_interval b then (True, [])
      else (False, ''redis unreachable: serving stale snapshot''))"

definition redis_StaleAgeMS :: "int \<Rightarrow> RedisBoard \<Rightarrow> int" where
  "redis_StaleAgeMS now b = (if rb_lastRefresh b = 0 then -1 else (now - rb_lastRefresh b) div 1000000)"

definition lb_handler_Ready :: "bool \<times> string \<Rightarrow> nat" where
  "lb_handler_Ready r = (if fst r then StatusOK else 503)"

text \<open>
  A refresh that fails changes nothing, so a board whose reads have failed for more than three
  intervals says it is not ready; one refreshed within them is.
\<close>

definition refresh_fails :: "(Entry list \<Rightarrow> string option) \<Rightarrow> int \<times> redis_answers \<Rightarrow> bool" where
  "refresh_fails marshal x \<longleftrightarrow> (case ra_ranked (snd x) of None \<Rightarrow> True | Some zs \<Rightarrow> marshal (map (redis_entry (fst x) (snd x)) zs) = None)"

lemma redis_refresh_fails: "refresh_fails marshal (now, a) \<Longrightarrow> redis_refresh marshal now a b = (b, None)"
  by (auto simp: refresh_fails_def redis_refresh_def split: option.splits)

lemma redis_refresh_ok:
  "\<not> refresh_fails marshal (now, a) \<Longrightarrow> \<exists>zs. ra_ranked a = Some zs \<and>
     rb_snapshot (fst (redis_refresh marshal now a b)) = map (redis_entry now a) zs \<and>
     rb_lastRefresh (fst (redis_refresh marshal now a b)) = now \<and>
     rb_interval (fst (redis_refresh marshal now a b)) = rb_interval b"
  by (auto simp: refresh_fails_def redis_refresh_def Let_def split: option.splits)

lemma readiness:
  assumes "\<not> refresh_fails marshal (t, a)" "list_all (refresh_fails marshal) later" "t \<noteq> 0"
    and b': "b' = fold (\<lambda>(now, a) b. fst (redis_refresh marshal now a b)) later (fst (redis_refresh marshal t a b))"
  shows "fst (redis_Ready now b') \<longleftrightarrow> now - t \<le> 3 * rb_interval b"
proof -
  have "fold (\<lambda>(now, a) b. fst (redis_refresh marshal now a b)) later c = c" for c
    using assms(2) by (induction later) (auto simp: redis_refresh_fails)
  then have "b' = fst (redis_refresh marshal t a b)" by (simp add: b')
  then show ?thesis using redis_refresh_ok [OF assms(1), of b] assms(3) by (auto simp: redis_Ready_def)
qed

text \<open>
  Nothing a scorecard carries sets the time of an entry, so every refresh stamps every entry anew,
  and, as payloads carry those times, every poll of a board that is not empty is broadcast as a change.
\<close>

lemma redis_entry_stamped: "en_UpdatedAt (redis_entry now a z) = now"
  by (auto simp: redis_entry_def applyScorecard_def bare_entry_def Let_def split: option.split)

lemma every_poll_broadcasts:
  assumes times: "\<And>xs ys p. \<lbrakk>marshal xs = Some p; marshal ys = Some p\<rbrakk> \<Longrightarrow> map en_UpdatedAt xs = map en_UpdatedAt ys"
    and "redis_refresh marshal t a b = (b1, p1)" "\<not> refresh_fails marshal (t, a)"
    "\<not> refresh_fails marshal (t', a)" "t' \<noteq> t" "ra_ranked a \<noteq> Some []"
  shows "snd (redis_refresh marshal t' a b1) \<noteq> None"
proof -
  obtain zs where zs: "ra_ranked a = Some zs" using assms(3) by (auto simp: refresh_fails_def split: option.splits)
  then obtain z zs' where z: "zs = z # zs'" using assms(6) by (cases zs) auto
  have "en_UpdatedAt (redis_entry t' a z) \<noteq> en_UpdatedAt (redis_entry t a z)" using assms(5) by (simp add: redis_entry_stamped)
  then have ne: "map en_UpdatedAt (map (redis_entry t' a) zs) \<noteq> map en_UpdatedAt (map (redis_entry t a) zs)" by (auto simp: z)
  obtain q q' where q: "marshal (map (redis_entry t a) zs) = Some q" "marshal (map (redis_entry t' a) zs) = Some q'"
    using assms(3,4) zs by (auto simp: refresh_fails_def)
  have "rb_lastPayload b1 = Some q" using assms(2) zs q by (auto simp: redis_refresh_def Let_def)
  moreover have "q' \<noteq> q" using times [of "map (redis_entry t' a) zs" q "map (redis_entry t a) zs"] ne q by auto
  ultimately show ?thesis using q zs by (simp add: redis_refresh_def Let_def)
qed

section \<open>The store interface\<close>

text \<open>
  What the handlers need of a store, \<^verbatim>\<open>Store\<close> in \<^verbatim>\<open>main.go\<close>: an update that succeeds answers the list
  the store has from then on.
\<close>

locale leaderboard_store =
  fixes upsert :: "'w \<Rightarrow> Entry \<Rightarrow> 's \<Rightarrow> 's \<times> Entry list \<times> string option"
    and lst :: "'s \<Rightarrow> Entry list"
  assumes upsert_lists: "upsert w e s = (s', es, None) \<Longrightarrow> es = lst s'"
begin

lemma post_then_get:
  assumes "lb_handler_Upsert (upsert w) body s = (s', r)" "rp_status r = StatusOK"
  shows "lb_handler_List lst s' = r"
proof (cases "lb_admit body")
  case (Inl e)
  then show ?thesis using assms by (auto simp: lb_handler_Upsert_def StatusBadRequest_def StatusOK_def)
next
  case (Inr e)
  obtain t es err where u: "upsert w e s = (t, es, err)" by (metis prod.exhaust)
  have "err = None" using assms Inr u by (cases err) (auto simp: lb_handler_Upsert_def StatusBadRequest_def StatusOK_def)
  then show ?thesis using assms Inr u upsert_lists by (auto simp: lb_handler_Upsert_def lb_handler_List_def)
qed

end

interpretation file_store: leaderboard_store "\<lambda>(io, now). board_store_upsert srt marshal io now" "board_List srt"
  for srt marshal
proof
  fix w :: "StoreIO \<times> int" and e s s' es
  assume a: "(case w of (io, now) \<Rightarrow> board_store_upsert srt marshal io now) e s = (s', es, None)"
  obtain io now where w: "w = (io, now)" by fastforce
  show "es = board_List srt s'"
    using a by (auto simp: w board_store_upsert_def board_Upsert_def board_List_def board_snapshot_def Let_def
      split: if_splits prod.splits option.splits)
qed

interpretation redis_store: leaderboard_store "redis_Upsert marshal" redis_List for marshal
  by unfold_locales (auto simp: redis_Upsert_def Let_def split: prod.splits if_splits)

section \<open>Live metrics\<close>

definition avg_latency_ms :: "(string \<Rightarrow> string option) \<Rightarrow> f64" where
  "avg_latency_ms m =
     (let field = (\<lambda>k. case m k of None \<Rightarrow> [] | Some v \<Rightarrow> v) in
      case (ParseFloat (field ''latency_sum_ns''), ParseFloat (field ''latency_count'')) of
        ((sumNs, ok1), (cnt, ok2)) \<Rightarrow>
          if ok1 \<and> ok2 \<and> f_less (Fin 0) cnt then f_div (f_div sumNs cnt) (Fin 1000000) else Fin 0)"

definition deriveAvgLatencyMs :: "(f64 \<Rightarrow> string) \<Rightarrow> (string \<Rightarrow> string option) \<Rightarrow> (string \<Rightarrow> string option)" where
  "deriveAvgLatencyMs fmt m = m(''avg_latency_ms'' \<mapsto> fmt (avg_latency_ms m))"

datatype redis_value = RedisNil | RedisErr string | RedisVal string

definition RunTimeseries :: "redis_value \<Rightarrow> string + string" where
  "RunTimeseries v = (case v of RedisNil \<Rightarrow> Inr ''[]'' | RedisErr e \<Rightarrow> Inl e | RedisVal s \<Rightarrow> Inr s)"

definition LiveRunMetrics :: "(f64 \<Rightarrow> string) \<Rightarrow> string + (string \<Rightarrow> string option) \<Rightarrow> string + (string \<Rightarrow> string option)" where
  "LiveRunMetrics fmt answer = (case answer of Inl e \<Rightarrow> Inl e | Inr m \<Rightarrow> Inr (deriveAvgLatencyMs fmt m))"

text \<open>The two handlers that need Redis: \<open>live\<close> says whether there is one.\<close>

definition lb_handler_live :: "bool \<Rightarrow> string \<Rightarrow> string + 'a \<Rightarrow> (string + 'a) response" where
  "lb_handler_live live runID answer =
     (if \<not> live then \<lparr>rp_status = 501, rp_body = Inl ''requires the redis backend''\<rparr>
      else if runID = [] then \<lparr>rp_status = StatusBadRequest, rp_body = Inl ''run id is required''\<rparr>
      else case answer of
        Inl e \<Rightarrow> \<lparr>rp_status = 502, rp_body = Inl e\<rparr>
      | Inr x \<Rightarrow> \<lparr>rp_status = StatusOK, rp_body = Inr x\<rparr>)"

lemma avg_latency_zero: "avg_latency_ms m = Fin 0"
  if "m ''latency_count'' = None"
proof -
  have "snd (ParseFloat []) = False"
    by (simp add: ParseFloat_def split_sign_def parse_decimal_def take_digits_def)
  then show ?thesis using that by (auto simp: avg_latency_ms_def split: prod.split)
qed

end
