(* ===== verification/Submission.thy ===== *)
theory Submission
  imports SandboxRunner Clients
begin

text \<open>
  The submission API, \<^verbatim>\<open>services/submission-api\<close>: what a contestant may ask of a run
  (\<^verbatim>\<open>internal/model/model.go\<close>, \<^verbatim>\<open>normalizeRunRequest\<close>), its side of the store it shares with the
  orchestrator (\<^verbatim>\<open>internal/store/json_store.go\<close>), the artifact store (\<^verbatim>\<open>internal/store/artifact_store.go\<close>)
  and the handlers (\<^verbatim>\<open>internal/api\<close>).

  The records and the file of the store are those of theories \<^verbatim>\<open>RunModel\<close> and \<^verbatim>\<open>RunStore\<close>: the two
  services have the same declarations, the same lock and the same \<^verbatim>\<open>loadLocked\<close> and \<^verbatim>\<open>writeLocked\<close>, and
  so have \<^verbatim>\<open>GetSubmission\<close> and \<^verbatim>\<open>GetRun\<close>. \<^verbatim>\<open>crypto/sha256\<close> with its hex encoding is a parameter.
\<close>

section \<open>Run requests\<close>

record CreateRunRequest =
  cr_BenchmarkSeed :: int
  cr_Sandbox :: SandboxSpec
  cr_Config :: BenchmarkRunConfig

definition DefaultRunRequest :: CreateRunRequest where
  "DefaultRunRequest =
     \<lparr>cr_BenchmarkSeed = 42,
      cr_Sandbox = \<lparr>sx_CPULimit = ''1'', sx_MemoryLimit = ''512Mi'', sx_NetworkEgress = False\<rparr>,
      cr_Config = \<lparr>bc_BotCount = 10, bc_RatePerBot = 2, bc_DurationSec = 5, bc_WarmupSec = 0, bc_EngineEndpoint = []\<rparr>\<rparr>"

definition req_maxBotCount :: int where "req_maxBotCount = 5000"
definition req_maxRatePerBot :: int where "req_maxRatePerBot = 2000"
definition req_maxDurationSec :: int where "req_maxDurationSec = 300"

text \<open>The statements of \<^verbatim>\<open>normalizeRunRequest\<close> on the sandbox and on the load, in order.\<close>

definition normalizeSpec :: "SandboxSpec \<Rightarrow> SandboxSpec" where
  "normalizeSpec x =
     (let x = (if sx_CPULimit x = [] then x\<lparr>sx_CPULimit := sx_CPULimit (cr_Sandbox DefaultRunRequest)\<rparr> else x);
          x = (if sx_MemoryLimit x = [] then x\<lparr>sx_MemoryLimit := sx_MemoryLimit (cr_Sandbox DefaultRunRequest)\<rparr> else x)
      in x\<lparr>sx_NetworkEgress := False\<rparr>)"

definition normalizeLoad :: "BenchmarkRunConfig \<Rightarrow> BenchmarkRunConfig" where
  "normalizeLoad c =
     (let c = (if bc_BotCount c \<le> 0 then c\<lparr>bc_BotCount := bc_BotCount (cr_Config DefaultRunRequest)\<rparr> else c);
          c = (if bc_BotCount c > req_maxBotCount then c\<lparr>bc_BotCount := req_maxBotCount\<rparr> else c);
          c = (if bc_RatePerBot c \<le> 0 then c\<lparr>bc_RatePerBot := bc_RatePerBot (cr_Config DefaultRunRequest)\<rparr> else c);
          c = (if bc_RatePerBot c > req_maxRatePerBot then c\<lparr>bc_RatePerBot := req_maxRatePerBot\<rparr> else c);
          c = (if bc_DurationSec c \<le> 0 then c\<lparr>bc_DurationSec := bc_DurationSec (cr_Config DefaultRunRequest)\<rparr> else c);
          c = (if bc_DurationSec c > req_maxDurationSec then c\<lparr>bc_DurationSec := req_maxDurationSec\<rparr> else c)
      in if bc_WarmupSec c < 0 then c\<lparr>bc_WarmupSec := 0\<rparr> else c)"

definition normalizeRunRequest :: "CreateRunRequest \<Rightarrow> CreateRunRequest" where
  "normalizeRunRequest req =
     (let req = (if cr_BenchmarkSeed req = 0 then req\<lparr>cr_BenchmarkSeed := cr_BenchmarkSeed DefaultRunRequest\<rparr> else req)
      in req\<lparr>cr_Sandbox := normalizeSpec (cr_Sandbox req), cr_Config := normalizeLoad (cr_Config req)\<rparr>)"

text \<open>The ceilings are those of the orchestrator, which clamps the runs it is given directly.\<close>

lemma default_load:
  "bc_BotCount (cr_Config DefaultRunRequest) = 10" "bc_RatePerBot (cr_Config DefaultRunRequest) = 2"
  "bc_DurationSec (cr_Config DefaultRunRequest) = 5"
  by (simp_all add: DefaultRunRequest_def)

lemma normalizeLoad_eq: "normalizeLoad c = normalizeConfig c"
  unfolding normalizeLoad_def normalizeConfig_def default_load req_maxBotCount_def req_maxRatePerBot_def
    req_maxDurationSec_def maxBotCount_def maxRatePerBot_def maxDurationSec_def ..

section \<open>The store\<close>

fun upsertSubmission :: "Submission \<Rightarrow> Submission list \<Rightarrow> Submission list" where
  "upsertSubmission s [] = [s]"
| "upsertSubmission s (existing # xs) =
     (if sb_SubmissionID existing = sb_SubmissionID s then s # xs else existing # upsertSubmission s xs)"

fun upsertRun :: "BenchmarkRun \<Rightarrow> BenchmarkRun list \<Rightarrow> BenchmarkRun list" where
  "upsertRun run [] = [run]"
| "upsertRun run (existing # rs) =
     (if br_RunID existing = br_RunID run then run # rs else existing # upsertRun run rs)"

definition sub_SaveSubmission :: "StoreIO \<Rightarrow> Submission \<Rightarrow> store_file \<Rightarrow> store_file \<times> store_error option" where
  "sub_SaveSubmission io submission f =
     (if \<not> io_lock io then (f, Some ErrIO)
      else case loadLocked io f of
        Inl e \<Rightarrow> (f, Some e)
      | Inr snap \<Rightarrow> writeLocked io (snap\<lparr>sn_Submissions := upsertSubmission submission (sn_Submissions snap)\<rparr>) f)"

definition sub_SaveRun :: "StoreIO \<Rightarrow> BenchmarkRun \<Rightarrow> store_file \<Rightarrow> store_file \<times> store_error option" where
  "sub_SaveRun io run f =
     (if \<not> io_lock io then (f, Some ErrIO)
      else case loadLocked io f of
        Inl e \<Rightarrow> (f, Some e)
      | Inr snap \<Rightarrow> writeLocked io (snap\<lparr>sn_Runs := upsertRun run (sn_Runs snap)\<rparr>) f)"

text \<open>
  The two lists, newest first; the sort is a parameter, as what it does to records of the same time
  is open.
\<close>

definition sub_ListSubmissions :: "(Submission list \<Rightarrow> Submission list) \<Rightarrow> StoreIO \<Rightarrow> store_file \<Rightarrow>
    store_error + Submission list" where
  "sub_ListSubmissions srt io f =
     (case loadLocked io f of Inl e \<Rightarrow> Inl e | Inr snap \<Rightarrow> Inr (srt (sn_Submissions snap)))"

definition sub_ListRuns :: "(BenchmarkRun list \<Rightarrow> BenchmarkRun list) \<Rightarrow> StoreIO \<Rightarrow> store_file \<Rightarrow>
    store_error + BenchmarkRun list" where
  "sub_ListRuns srt io f =
     (case loadLocked io f of Inl e \<Rightarrow> Inl e | Inr snap \<Rightarrow> Inr (srt (map cloneRun (sn_Runs snap))))"

locale newest_first =
  fixes srt :: "'a list \<Rightarrow> 'a list" and created :: "'a \<Rightarrow> int"
  assumes srt_mset: "mset (srt xs) = mset xs"
    and srt_sorted: "sorted_wrt (\<lambda>a b. created b \<le> created a) (srt xs)"
begin

lemma newest_set: "set (srt xs) = set xs"
  using srt_mset by (metis set_mset_mset)

lemma newest_head: "srt xs = x # ys \<Longrightarrow> y \<in> set xs \<Longrightarrow> created y \<le> created x"
  using srt_sorted [of xs] newest_set [of xs] by auto

end

definition newest_submissions :: "Submission list \<Rightarrow> Submission list" where
  "newest_submissions = sort_key (\<lambda>s. - sb_CreatedAt s)"

definition newest_runs :: "BenchmarkRun list \<Rightarrow> BenchmarkRun list" where
  "newest_runs = sort_key (\<lambda>r. - br_CreatedAt r)"

lemma sorted_newest: "sorted_wrt (\<lambda>a b. f b \<le> f a) (sort_key (\<lambda>x. - f x :: int) xs)"
proof -
  have "sorted (map (\<lambda>x. - f x) (sort_key (\<lambda>x. - f x) xs))" by simp
  then show ?thesis unfolding sorted_wrt_map by (rule sorted_wrt_mono_rel [rotated]) simp
qed

interpretation submissions: newest_first newest_submissions sb_CreatedAt
  by unfold_locales (simp_all add: newest_submissions_def sorted_newest)

interpretation runs: newest_first newest_runs br_CreatedAt
  by unfold_locales (simp_all add: newest_runs_def sorted_newest)

subsection \<open>What an update does\<close>

lemma upsertRun_find:
  "find (\<lambda>r. br_RunID r = i) (upsertRun run rs) = (if i = br_RunID run then Some run else find (\<lambda>r. br_RunID r = i) rs)"
  by (induction rs) auto

lemma upsertRun_ids: "set (map br_RunID (upsertRun run rs)) = insert (br_RunID run) (set (map br_RunID rs))"
  by (induction rs) auto

lemma upsertRun_distinct: "distinct (map br_RunID rs) \<Longrightarrow> distinct (map br_RunID (upsertRun run rs))"
proof (induction rs)
  case (Cons r rs)
  then show ?case using upsertRun_ids [of run rs] by (auto simp: image_iff)
qed simp

lemma upsertSubmission_find:
  "find (\<lambda>x. sb_SubmissionID x = i) (upsertSubmission s xs) =
     (if i = sb_SubmissionID s then Some s else find (\<lambda>x. sb_SubmissionID x = i) xs)"
  by (induction xs) auto

definition submissions_of :: "store_file \<Rightarrow> Submission list" where
  "submissions_of f = (case f of FileSnap s \<Rightarrow> sn_Submissions s | _ \<Rightarrow> [])"

lemma submissions_of_load: "loadLocked io f = Inr s \<Longrightarrow> submissions_of f = sn_Submissions s"
  by (auto simp: loadLocked_def submissions_of_def emptySnapshot_def split: store_file.splits if_splits)

lemma sub_SaveRun_result:
  assumes "sub_SaveRun io run f = (f', e)"
  shows "e \<noteq> None \<Longrightarrow> f' = f" "submissions_of f' = submissions_of f"
    "e = None \<Longrightarrow> run_in f' i = (if i = br_RunID run then Some run else run_in f i)"
    "ids_ok f \<Longrightarrow> ids_ok f'"
    "e = None \<Longrightarrow> \<exists>s. f' = FileSnap s \<and> io_lock io \<and> io_mkdir io \<and> io_write io \<and> io_rename io"
proof -
  have "(e \<noteq> None \<longrightarrow> f' = f) \<and> submissions_of f' = submissions_of f \<and>
    (e = None \<longrightarrow> run_in f' i = (if i = br_RunID run then Some run else run_in f i)) \<and> (ids_ok f \<longrightarrow> ids_ok f') \<and>
    (e = None \<longrightarrow> (\<exists>s. f' = FileSnap s \<and> io_lock io \<and> io_mkdir io \<and> io_write io \<and> io_rename io))"
  proof (cases "io_lock io \<and> (\<exists>s. loadLocked io f = Inr s)")
    case False
    then show ?thesis using assms by (cases "loadLocked io f") (auto simp: sub_SaveRun_def split: if_splits)
  next
    case True
    then obtain s where s: "loadLocked io f = Inr s" "io_lock io" by blast
    then show ?thesis
      using assms runs_of_load [OF s(1)] submissions_of_load [OF s(1)] upsertRun_distinct [of "sn_Runs s" run]
        upsertRun_find [of i run "sn_Runs s"]
      by (auto simp: sub_SaveRun_def writeLocked_def runs_of_def submissions_of_def run_in_def ids_ok_def split: if_splits)
  qed
  then show "e \<noteq> None \<Longrightarrow> f' = f" "submissions_of f' = submissions_of f"
    "e = None \<Longrightarrow> run_in f' i = (if i = br_RunID run then Some run else run_in f i)"
    "ids_ok f \<Longrightarrow> ids_ok f'"
    "e = None \<Longrightarrow> \<exists>s. f' = FileSnap s \<and> io_lock io \<and> io_mkdir io \<and> io_write io \<and> io_rename io" by blast+
qed

lemma sub_SaveSubmission_result:
  assumes "sub_SaveSubmission io s f = (f', e)"
  shows "e \<noteq> None \<Longrightarrow> f' = f" "runs_of f' = runs_of f"
    "e = None \<Longrightarrow> \<exists>snap. f' = FileSnap snap \<and> find (\<lambda>x. sb_SubmissionID x = sb_SubmissionID s) (sn_Submissions snap) = Some s"
proof -
  have "(e \<noteq> None \<longrightarrow> f' = f) \<and> runs_of f' = runs_of f \<and>
    (e = None \<longrightarrow> (\<exists>snap. f' = FileSnap snap \<and> find (\<lambda>x. sb_SubmissionID x = sb_SubmissionID s) (sn_Submissions snap) = Some s))"
  proof (cases "io_lock io \<and> (\<exists>snap. loadLocked io f = Inr snap)")
    case False
    then show ?thesis using assms by (cases "loadLocked io f") (auto simp: sub_SaveSubmission_def split: if_splits)
  next
    case True
    then obtain snap where snap: "loadLocked io f = Inr snap" "io_lock io" by blast
    then show ?thesis
      using assms runs_of_load [OF snap(1)]
      by (auto simp: sub_SaveSubmission_def writeLocked_def runs_of_def upsertSubmission_find split: if_splits)
  qed
  then show "e \<noteq> None \<Longrightarrow> f' = f" "runs_of f' = runs_of f"
    "e = None \<Longrightarrow> \<exists>snap. f' = FileSnap snap \<and> find (\<lambda>x. sb_SubmissionID x = sb_SubmissionID s) (sn_Submissions snap) = Some s"
    by blast+
qed

section \<open>Artifacts\<close>

text \<open>
  \<^verbatim>\<open>cleanFilename\<close> maps over the characters of a UTF-8 string: a character outside the allowed set,
  of one byte or more, and an invalid byte, become one underscore. \<open>rune_width\<close> is the number of
  bytes the Go runtime reads as one character.
\<close>

definition byte_in :: "nat \<Rightarrow> nat \<Rightarrow> string \<Rightarrow> nat \<Rightarrow> bool" where
  "byte_in a b s i \<longleftrightarrow> i < length s \<and> a \<le> (of_char (s ! i) :: nat) \<and> of_char (s ! i) \<le> b"

definition rune_width :: "string \<Rightarrow> nat" where
  "rune_width s =
     (if byte_in 0xC2 0xDF s 0 \<and> byte_in 0x80 0xBF s 1 then 2
      else if byte_in 0xE0 0xEF s 0 \<and> byte_in (if byte_in 0xE0 0xE0 s 0 then 0xA0 else 0x80)
          (if byte_in 0xED 0xED s 0 then 0x9F else 0xBF) s 1 \<and> byte_in 0x80 0xBF s 2 then 3
      else if byte_in 0xF0 0xF4 s 0 \<and> byte_in (if byte_in 0xF0 0xF0 s 0 then 0x90 else 0x80)
          (if byte_in 0xF4 0xF4 s 0 then 0x8F else 0xBF) s 1 \<and> byte_in 0x80 0xBF s 2 \<and> byte_in 0x80 0xBF s 3 then 4
      else 1)"

definition filename_char :: "char \<Rightarrow> bool" where
  "filename_char r =
     (r \<in> {CHR ''a''..CHR ''z''} \<union> {CHR ''A''..CHR ''Z''} \<or> is_digit r \<or> r \<in> set ''.-_'')"

fun map_filename :: "string \<Rightarrow> string" where
  "map_filename [] = []"
| "map_filename (c # s) =
     (if filename_char c then c else CHR ''_'') # map_filename (drop (rune_width (c # s) - 1) s)"

definition cleanFilename :: "string \<Rightarrow> string" where
  "cleanFilename name = map_filename (map (\<lambda>c. if c = CHR ''/'' then CHR ''_'' else c) (TrimSpace (path_Base name)))"

lemma map_filename_chars: "c \<in> set (map_filename s) \<Longrightarrow> filename_char c"
  by (induction s rule: map_filename.induct) (auto simp: filename_char_def split: if_splits)

text \<open>
  One turn of the loop of \<^verbatim>\<open>copyWithContext\<close>: whether the context had ended, the bytes read, how many
  of them were written and whether the write failed, and what the read said. A source that has no
  more turns is at its end. The results are what has been written and the error.
\<close>

datatype read_end = ReadMore | ReadEOF | ReadErr

record read_turn =
  rt_ctx :: bool
  rt_data :: string
  rt_written :: nat
  rt_writeErr :: bool
  rt_end :: read_end

fun copyWithContext :: "read_turn list \<Rightarrow> string \<Rightarrow> string \<times> string option" where
  "copyWithContext [] written = (written, None)"
| "copyWithContext (t # ts) written =
     (if rt_ctx t then (written, Some ''context canceled'')
      else if rt_data t \<noteq> [] \<and> rt_writeErr t then (written @ take (rt_written t) (rt_data t), Some ''write'')
      else if rt_data t \<noteq> [] \<and> rt_written t < length (rt_data t) then
        (written @ take (rt_written t) (rt_data t), Some ''short write'')
      else case rt_end t of
        ReadEOF \<Rightarrow> (written @ rt_data t, None)
      | ReadErr \<Rightarrow> (written @ rt_data t, Some ''read'')
      | ReadMore \<Rightarrow> copyWithContext ts (written @ rt_data t))"

text \<open>What the turns read up to the end of the source, if nothing went wrong on the way.\<close>

fun whole_upload :: "read_turn list \<Rightarrow> string" where
  "whole_upload [] = []"
| "whole_upload (t # ts) = rt_data t @ (if rt_end t = ReadEOF then [] else whole_upload ts)"

lemma copyWithContext_fst: "snd (copyWithContext ts w) = None \<Longrightarrow> fst (copyWithContext ts w) = w @ whole_upload ts"
  by (induction ts w rule: copyWithContext.induct) (auto split: read_end.splits if_splits)

lemma copyWithContext_whole: "copyWithContext ts w = (c, None) \<Longrightarrow> c = w @ whole_upload ts"
  using copyWithContext_fst [of ts w] by simp

text \<open>An uploaded file, and how the calls of \<^verbatim>\<open>Save\<close> on it and on the disk go.\<close>

record upload =
  up_opens :: bool
  up_Filename :: string
  up_ContentType :: string
  up_mkdir :: bool
  up_create :: bool
  up_nanos :: int
  up_turns :: "read_turn list"

text \<open>The names \<^verbatim>\<open>Save\<close> gives: of the artifact, of the upload, and of the file it is stored in.\<close>

definition artifactID :: "upload \<Rightarrow> string" where "artifactID up = ''art_'' @ Itoa (up_nanos up)"

definition artifact_filename :: "upload \<Rightarrow> string" where
  "artifact_filename up =
     (if cleanFilename (up_Filename up) = [] then artifactID up @ ''.bin'' else cleanFilename (up_Filename up))"

definition storedName :: "upload \<Rightarrow> string" where
  "storedName up = artifactID up @ ''_'' @ artifact_filename up"

definition artifact_Save :: "(string \<Rightarrow> string) \<Rightarrow> string \<Rightarrow> string \<Rightarrow> upload \<Rightarrow> files \<Rightarrow>
    files \<times> (string + SubmissionArtifact)" where
  "artifact_Save sha rootDir submissionID up fs =
     (if \<not> up_opens up then (fs, Inl ''open'')
      else if \<not> up_mkdir up then (fs, Inl ''mkdir'')
      else
        let path = path_Join [path_Join [rootDir, submissionID], storedName up]
        in if fs path \<noteq> None \<or> \<not> up_create up then (fs, Inl ''create'')
           else case copyWithContext (up_turns up) [] of
             (content, Some e) \<Rightarrow> (fs(path \<mapsto> content), Inl e)
           | (content, None) \<Rightarrow> (fs(path \<mapsto> content), Inr
               \<lparr>sa_ArtifactID = artifactID up, sa_URI = ''local://submissions/'' @ submissionID @ ''/'' @ storedName up,
                sa_SHA256 = sha content, sa_SizeBytes = int (length content), sa_Filename = artifact_filename up,
                sa_ContentType = up_ContentType up\<rparr>))"

section \<open>Identifiers\<close>

definition hex_char :: "nat \<Rightarrow> char" where "hex_char n = ''0123456789abcdef'' ! n"

definition hex_of :: "string \<Rightarrow> string" where
  "hex_of bs = concat (map (\<lambda>b. [hex_char (of_char b div 16), hex_char (of_char b mod 16)]) bs)"

text \<open>The random bytes are \<open>None\<close> when the source of randomness fails.\<close>

definition uniqueID :: "string \<Rightarrow> int \<Rightarrow> string option \<Rightarrow> string" where
  "uniqueID prefix nanos rnd =
     (case rnd of
        None \<Rightarrow> prefix @ ''_'' @ Itoa nanos
      | Some b \<Rightarrow> prefix @ ''_'' @ Itoa nanos @ ''_'' @ hex_of b)"

definition defaultString :: "string \<Rightarrow> string \<Rightarrow> string" where
  "defaultString v fallback = (if TrimSpace v = [] then fallback else TrimSpace v)"

section \<open>The handlers\<close>

datatype sub_body = SbStatus string | SbSubmission Submission | SbSubmissions "Submission list" | SbRun BenchmarkRun
  | SbRuns "BenchmarkRun list" | SbError string

definition sub_writeError :: "nat \<Rightarrow> string \<Rightarrow> sub_body response" where
  "sub_writeError status message = \<lparr>rp_status = status, rp_body = SbError message\<rparr>"

definition sub_writeJSON :: "nat \<Rightarrow> sub_body \<Rightarrow> sub_body response" where
  "sub_writeJSON status body = \<lparr>rp_status = status, rp_body = body\<rparr>"

definition sub_handleStoreError :: "store_error \<Rightarrow> sub_body response" where
  "sub_handleStoreError e =
     (if e = ErrNotFound then sub_writeError StatusNotFound (store_Error e)
      else sub_writeError StatusInternalServerError (store_Error e))"

definition maxSubmissionBytes :: nat where "maxSubmissionBytes = 67108864"
definition maxConcurrentSubmissions :: nat where "maxConcurrentSubmissions = 8"

text \<open>
  A request with a multipart form: the size of its body, and the form if it parses.
\<close>

record submission_form =
  sf_team_id :: string
  sf_language :: string
  sf_protocol :: string
  sf_artifact :: "upload option"

definition parse_form :: "nat \<times> submission_form option \<Rightarrow> submission_form option" where
  "parse_form body = (if fst body > maxSubmissionBytes then None else snd body)"

definition new_submission :: "string \<Rightarrow> string \<Rightarrow> submission_form \<Rightarrow> SubmissionArtifact \<Rightarrow> int \<Rightarrow> Submission" where
  "new_submission submissionID teamID fm artifact now =
     \<lparr>sb_SubmissionID = submissionID, sb_TeamID = teamID, sb_Language = defaultString (sf_language fm) ''go'',
      sb_Protocol = defaultString (sf_protocol fm) ''ws-json'', sb_Artifact = artifact,
      sb_CreatedAtUnix = Unix now, sb_CreatedAt = now\<rparr>"

text \<open>
  \<open>inFlight\<close> is the number of uploads that hold a slot when the request arrives; the slot it takes is
  free again when it has been answered.
\<close>

definition sub_CreateSubmission :: "(string \<Rightarrow> string) \<Rightarrow> string \<Rightarrow> nat \<Rightarrow> nat \<times> submission_form option \<Rightarrow> int \<Rightarrow>
    string option \<Rightarrow> StoreIO \<Rightarrow> files \<times> store_file \<Rightarrow> (files \<times> store_file) \<times> sub_body response" where
  "sub_CreateSubmission sha rootDir inFlight body now rnd io w =
     (case w of (fs, f) \<Rightarrow>
      if inFlight \<ge> maxConcurrentSubmissions then (w, sub_writeError 503 ''too many concurrent submissions; retry shortly'')
      else case parse_form body of
        None \<Rightarrow> (w, sub_writeError StatusBadRequest ''expected multipart/form-data with artifact file'')
      | Some fm \<Rightarrow>
          let teamID = TrimSpace (sf_team_id fm) in
          if teamID = [] then (w, sub_writeError StatusBadRequest ''team_id is required'')
          else case sf_artifact fm of
            None \<Rightarrow> (w, sub_writeError StatusBadRequest ''artifact file is required'')
          | Some up \<Rightarrow>
              let submissionID = uniqueID ''sub'' now rnd in
              case artifact_Save sha rootDir submissionID up fs of
                (fs, Inl e) \<Rightarrow> ((fs, f), sub_writeError StatusInternalServerError e)
              | (fs, Inr artifact) \<Rightarrow>
                  let submission = new_submission submissionID teamID fm artifact now in
                  case sub_SaveSubmission io submission f of
                    (f, Some e) \<Rightarrow> ((fs, f), sub_writeError StatusInternalServerError (store_Error e))
                  | (f, None) \<Rightarrow> ((fs, f), sub_writeJSON StatusCreated (SbSubmission submission)))"

text \<open>
  \<open>requested\<close> is what the body asks for: its JSON document is decoded over the default request, and
  \<open>None\<close> is a request without a body. The submission is read from the file as it was (\<open>f0\<close>) and the run saved to the file as it is then
  (\<open>f\<close>): other requests and the orchestrator write in between.
\<close>

definition requested :: "(CreateRunRequest \<Rightarrow> CreateRunRequest option) option \<Rightarrow> CreateRunRequest option" where
  "requested body = (case body of None \<Rightarrow> Some DefaultRunRequest | Some decode \<Rightarrow> decode DefaultRunRequest)"

definition new_run :: "CreateRunRequest \<Rightarrow> Submission \<Rightarrow> int \<Rightarrow> string option \<Rightarrow> BenchmarkRun" where
  "new_run req s now rnd =
     \<lparr>br_RunID = uniqueID ''run'' now rnd, br_SubmissionID = sb_SubmissionID s, br_TeamID = sb_TeamID s,
      br_Status = Queued, br_BenchmarkSeed = cr_BenchmarkSeed req, br_Sandbox = cr_Sandbox req, br_Config = cr_Config req,
      br_ArtifactDir = [], br_Valid = None, br_Score = Fin 0, br_FailureStage = [], br_FailureReason = [],
      br_CreatedAtUnix = Unix now, br_UpdatedAtUnix = Unix now, br_FinishedAtUnix = 0,
      br_CreatedAt = now, br_UpdatedAt = now, br_FinishedAt = None\<rparr>"

definition sub_CreateRun :: "StoreIO \<Rightarrow> StoreIO \<Rightarrow> string \<Rightarrow> (CreateRunRequest \<Rightarrow> CreateRunRequest option) option \<Rightarrow> int \<Rightarrow>
    string option \<Rightarrow> store_file \<Rightarrow> store_file \<Rightarrow> store_file \<times> sub_body response" where
  "sub_CreateRun io0 io sid body now rnd f0 f =
     (case GetSubmission io0 sid f0 of
        Inl e \<Rightarrow> (f, sub_handleStoreError e)
      | Inr s \<Rightarrow>
          (case requested body of
             None \<Rightarrow> (f, sub_writeError StatusBadRequest ''invalid json'')
           | Some req \<Rightarrow>
               let run = new_run (normalizeRunRequest req) s now rnd in
               case sub_SaveRun io run f of
                 (f, Some e) \<Rightarrow> (f, sub_writeError StatusInternalServerError (store_Error e))
               | (f, None) \<Rightarrow> (f, sub_writeJSON StatusCreated (SbRun run))))"

definition sub_handler_GetSubmission :: "StoreIO \<Rightarrow> string \<Rightarrow> store_file \<Rightarrow> sub_body response" where
  "sub_handler_GetSubmission io sid f =
     (case GetSubmission io sid f of Inl e \<Rightarrow> sub_handleStoreError e | Inr s \<Rightarrow> sub_writeJSON StatusOK (SbSubmission s))"

definition sub_handler_GetRun :: "StoreIO \<Rightarrow> string \<Rightarrow> store_file \<Rightarrow> sub_body response" where
  "sub_handler_GetRun io rid f =
     (case GetRun io rid f of Inl e \<Rightarrow> sub_handleStoreError e | Inr r \<Rightarrow> sub_writeJSON StatusOK (SbRun r))"

definition sub_handler_ListSubmissions :: "(Submission list \<Rightarrow> Submission list) \<Rightarrow> StoreIO \<Rightarrow> store_file \<Rightarrow> sub_body response" where
  "sub_handler_ListSubmissions srt io f =
     (case sub_ListSubmissions srt io f of
        Inl e \<Rightarrow> sub_writeError StatusInternalServerError (store_Error e)
      | Inr xs \<Rightarrow> sub_writeJSON StatusOK (SbSubmissions xs))"

definition sub_handler_ListRuns :: "(BenchmarkRun list \<Rightarrow> BenchmarkRun list) \<Rightarrow> StoreIO \<Rightarrow> store_file \<Rightarrow> sub_body response" where
  "sub_handler_ListRuns srt io f =
     (case sub_ListRuns srt io f of
        Inl e \<Rightarrow> sub_writeError StatusInternalServerError (store_Error e)
      | Inr rs \<Rightarrow> sub_writeJSON StatusOK (SbRuns rs))"

definition sub_RequireAuth :: "string \<Rightarrow> string \<Rightarrow> string \<Rightarrow> string \<Rightarrow> 'a \<Rightarrow> 'a \<Rightarrow> 'a" where
  "sub_RequireAuth token meth path header unauthorized next =
     (if TrimSpace token = [] then next
      else if meth = ''GET'' \<and> path = ''/health'' then next
      else if \<not> bearer_ok token header then unauthorized
      else next)"

section \<open>Starting the service\<close>

definition envPath :: "(string \<Rightarrow> string) \<Rightarrow> (string \<Rightarrow> string option) \<Rightarrow> string \<Rightarrow> string \<Rightarrow> string" where
  "envPath getenv absf name fallback =
     (let v = getenv name in
      if v = [] then fallback else (case absf v of None \<Rightarrow> v | Some a \<Rightarrow> a))"

definition sub_firstEnv :: "(string \<Rightarrow> string) \<Rightarrow> string list \<Rightarrow> string" where
  "sub_firstEnv getenv names = (case filter (\<lambda>v. v \<noteq> []) (map getenv names) of [] \<Rightarrow> [] | v # _ \<Rightarrow> v)"

text \<open>What \<^verbatim>\<open>main\<close> settles: the artifact root, the path of the store, the token and the address.\<close>

definition sub_main :: "(string \<Rightarrow> string) \<Rightarrow> (string \<Rightarrow> string option) \<Rightarrow> string \<Rightarrow> string + string \<times> string \<times> string \<times> string" where
  "sub_main getenv absf repoRoot =
     (let artifactRoot = envPath getenv absf ''SUBMISSION_ARTIFACT_ROOT'' (path_Join [repoRoot, ''.artifacts'', ''submissions'']);
          indexPath = envPath getenv absf ''SUBMISSION_INDEX_PATH'' (path_Join [artifactRoot, ''index.json'']);
          authToken = sub_firstEnv getenv [''SUBMISSION_API_AUTH_TOKEN'', ''SERVICE_AUTH_TOKEN''];
          addr = (if getenv ''SUBMISSION_API_ADDR'' = [] then '':9100'' else getenv ''SUBMISSION_API_ADDR'')
      in if authToken = [] \<and> getenv ''REQUIRE_AUTH'' = ''1''
         then Inl ''refusing to start: REQUIRE_AUTH=1 but no service auth token set''
         else Inr (artifactRoot, indexPath, authToken, addr))"

section \<open>Identifiers are unique\<close>

lemma digits_of_inj: "digits_of m = digits_of n \<Longrightarrow> m = n"
  by (metis nat_of_digits_of)

lemma Itoa_chars: "c \<in> set (Itoa n) \<Longrightarrow> is_digit c \<or> c = CHR ''-''"
  by (auto simp: Itoa_def dest: digits_of_digits split: if_splits)

lemma Itoa_inj: "Itoa m = Itoa n \<Longrightarrow> m = n"
proof -
  have dash: "CHR ''-'' \<notin> set (digits_of k)" for k using digits_of_digits [of "CHR ''-''" k] by (auto simp: is_digit_def)
  assume "Itoa m = Itoa n"
  then show "m = n" using dash by (auto simp: Itoa_def dest!: digits_of_inj split: if_splits; metis list.set_intros(1))
qed

lemma hex_char_inj: "\<lbrakk>hex_char m = hex_char n; m < 16; n < 16\<rbrakk> \<Longrightarrow> m = n"
  by (auto simp: hex_char_def nth_eq_iff_index_eq)

lemma hex_of_inj: "hex_of a = hex_of b \<Longrightarrow> a = b"
proof (induction a arbitrary: b)
  case Nil
  then show ?case by (cases b) (auto simp: hex_of_def)
next
  case (Cons c a)
  then obtain d b' where b: "b = d # b'" by (cases b) (auto simp: hex_of_def)
  have lt: "of_char e div 16 < (16 :: nat)" for e :: char using of_char_mod_256 [of e] by (simp add: less_mult_imp_div_less)
  have "hex_char (of_char c div 16) = hex_char (of_char d div 16)" "hex_char (of_char c mod 16) = hex_char (of_char d mod 16)"
    and rest: "hex_of a = hex_of b'" using Cons.prems by (auto simp: b hex_of_def)
  then have "(of_char c :: nat) div 16 = of_char d div 16" "(of_char c :: nat) mod 16 = of_char d mod 16"
    using lt by (auto dest: hex_char_inj)
  then have "(of_char c :: nat) = of_char d" by (metis div_mult_mod_eq)
  then show ?case using Cons.IH [OF rest] by (simp add: b)
qed

text \<open>
  Identifiers minted at different times or with different random bytes differ, and one is a single
  element of a path.
\<close>

lemma uniqueID_inj: "uniqueID prefix t r = uniqueID prefix t' r' \<Longrightarrow> t = t' \<and> r = r'"
proof -
  have no: "CHR ''_'' \<notin> set (Itoa n)" for n using Itoa_chars [of "CHR ''_''" n] by (auto simp: is_digit_def)
  have split: "takeWhile (\<lambda>c. c \<noteq> CHR ''_'') (Itoa n @ CHR ''_'' # s) = Itoa n" for n s
    using no [of n] by (subst takeWhile_append2) auto
  assume eq: "uniqueID prefix t r = uniqueID prefix t' r'"
  show ?thesis
  proof (cases r; cases r')
    assume "r = None" "r' = None" then show ?thesis using eq by (auto simp: uniqueID_def dest: Itoa_inj)
  next
    fix b assume "r = None" "r' = Some b"
    then show ?thesis using eq no by (auto simp: uniqueID_def) (metis in_set_conv_decomp)
  next
    fix b assume "r = Some b" "r' = None"
    then show ?thesis using eq no by (auto simp: uniqueID_def) (metis in_set_conv_decomp)
  next
    fix a b assume ab: "r = Some a" "r' = Some b"
    then have e: "Itoa t @ CHR ''_'' # hex_of a = Itoa t' @ CHR ''_'' # hex_of b" using eq by (simp add: uniqueID_def)
    then have "Itoa t = Itoa t'" using split by metis
    then show ?thesis using e ab by (auto dest: Itoa_inj hex_of_inj)
  qed
qed

lemma hex_char_ne: "n < 16 \<Longrightarrow> hex_char n \<noteq> CHR ''/''"
proof -
  assume "n < 16"
  then have "hex_char n \<in> set ''0123456789abcdef''" unfolding hex_char_def by (intro nth_mem) simp
  then show ?thesis by auto
qed

lemma hex_of_no_slash: "CHR ''/'' \<notin> set (hex_of b)"
proof -
  have "of_char e div 16 < (16 :: nat)" for e :: char using of_char_mod_256 [of e] by (simp add: less_mult_imp_div_less)
  then have "hex_char (of_char e div 16) \<noteq> CHR ''/''" "hex_char (of_char e mod 16) \<noteq> CHR ''/''" for e :: char
    by (simp_all add: hex_char_ne)
  then show ?thesis by (auto simp: hex_of_def dest: sym)
qed

lemma uniqueID_elem:
  assumes "CHR ''/'' \<notin> set prefix" "3 \<le> length prefix"
  shows "path_elem (uniqueID prefix t r)"
proof -
  have "CHR ''/'' \<notin> set (Itoa t)" using Itoa_chars [of "CHR ''/''" t] by (auto simp: is_digit_def)
  then have "CHR ''/'' \<notin> set (uniqueID prefix t r)" using assms(1) hex_of_no_slash by (auto simp: uniqueID_def split: option.split)
  moreover have "3 \<le> length (uniqueID prefix t r)" using assms(2) by (auto simp: uniqueID_def split: option.split)
  then have "uniqueID prefix t r \<notin> {[], ''.'', ''..''}" by auto
  ultimately show ?thesis by (simp add: path_elem_def)
qed

section \<open>What is stored\<close>

lemma cleanFilename_no_slash: "CHR ''/'' \<notin> set (cleanFilename name)"
  using map_filename_chars [of "CHR ''/''"] by (auto simp: cleanFilename_def filename_char_def is_digit_def)

text \<open>A stored artifact is one file, directly below the directory of its submission.\<close>

lemma storedName_elem: "path_elem (storedName up)"
proof -
  have "CHR ''/'' \<notin> set (Itoa (up_nanos up))" using Itoa_chars [of "CHR ''/''" "up_nanos up"] by (auto simp: is_digit_def)
  then have "CHR ''/'' \<notin> set (storedName up)"
    using cleanFilename_no_slash by (auto simp: storedName_def artifact_filename_def artifactID_def)
  moreover have "storedName up \<notin> {[], ''.'', ''..''}" by (auto simp: storedName_def artifactID_def)
  ultimately show ?thesis by (simp add: path_elem_def)
qed

lemma artifact_Save_ok:
  assumes "artifact_Save sha rootDir sid up fs = (fs', Inr a)" "rootDir \<noteq> []" "path_elem sid"
  shows "sa_URI a = ''local://submissions/'' @ sid @ ''/'' @ storedName up" "fs (path_Join [rootDir, sid, storedName up]) = None"
    "fs' = fs(path_Join [rootDir, sid, storedName up] \<mapsto> whole_upload (up_turns up))"
    "sa_SHA256 a = sha (whole_upload (up_turns up))" "sa_SizeBytes a = int (length (whole_upload (up_turns up)))"
proof -
  have path: "path_Join [path_Join [rootDir, sid], storedName up] = path_Join [rootDir, sid, storedName up]"
    using assms(2,3) storedName_elem [of up] by (intro path_Join_assoc) (auto simp: path_elem_def)
  obtain content err where copy: "copyWithContext (up_turns up) [] = (content, err)" by fastforce
  have "err = None" "fs (path_Join [rootDir, sid, storedName up]) = None"
    "fs' = fs(path_Join [rootDir, sid, storedName up] \<mapsto> content)" "sa_SHA256 a = sha content"
    "sa_URI a = ''local://submissions/'' @ sid @ ''/'' @ storedName up" "sa_SizeBytes a = int (length content)"
    using assms(1) unfolding artifact_Save_def Let_def path copy prod.case by (auto split: if_splits option.splits)
  moreover from this have "content = whole_upload (up_turns up)" using copyWithContext_whole copy by fastforce
  ultimately show "sa_URI a = ''local://submissions/'' @ sid @ ''/'' @ storedName up"
    "fs (path_Join [rootDir, sid, storedName up]) = None"
    "fs' = fs(path_Join [rootDir, sid, storedName up] \<mapsto> whole_upload (up_turns up))"
    "sa_SHA256 a = sha (whole_upload (up_turns up))" "sa_SizeBytes a = int (length (whole_upload (up_turns up)))" by simp_all
qed

text \<open>A failed upload leaves what it had written on the disk, and nothing ever removes it.\<close>

lemma failed_upload_stays:
  assumes "copyWithContext (up_turns up) [] = (content, Some e)" "up_opens up" "up_mkdir up" "up_create up"
    "\<forall>p. fs p = None"
  shows "\<exists>p. artifact_Save sha rootDir sid up fs = (fs(p \<mapsto> content), Inl e)"
  using assms by (auto simp: artifact_Save_def Let_def)

lemma sub_CreateSubmission_created:
  assumes "sub_CreateSubmission sha rootDir inFlight (len, Some fm) now rnd io (fs, f) = ((fs', f'), r)" "rp_status r = StatusCreated"
  shows "\<exists>up a. sf_artifact fm = Some up \<and> inFlight < maxConcurrentSubmissions \<and> TrimSpace (sf_team_id fm) \<noteq> [] \<and>
    artifact_Save sha rootDir (uniqueID ''sub'' now rnd) up fs = (fs', Inr a) \<and>
    sub_SaveSubmission io (new_submission (uniqueID ''sub'' now rnd) (TrimSpace (sf_team_id fm)) fm a now) f = (f', None) \<and>
    rp_body r = SbSubmission (new_submission (uniqueID ''sub'' now rnd) (TrimSpace (sf_team_id fm)) fm a now)"
  using assms
  by (auto simp: sub_CreateSubmission_def parse_form_def Let_def sub_writeError_def sub_writeJSON_def StatusCreated_def
      StatusBadRequest_def StatusInternalServerError_def split: if_splits option.splits prod.splits sum.splits)

section \<open>What a created run is\<close>

lemma upsertRun_map_ids: "map br_RunID (upsertRun run rs) =
   (if br_RunID run \<in> br_RunID ` set rs then map br_RunID rs else map br_RunID rs @ [br_RunID run])"
  by (induction rs) auto

lemma sub_SaveRun_ids: "sub_SaveRun io run f = (f', e) \<Longrightarrow> ids_ok f' \<longleftrightarrow> ids_ok f"
proof -
  assume s: "sub_SaveRun io run f = (f', e)"
  show ?thesis
  proof (cases e)
    case (Some y)
    then show ?thesis using sub_SaveRun_result(1) [OF s] by simp
  next
    case None
    then obtain snap where snap: "loadLocked io f = Inr snap" "f' = FileSnap (snap\<lparr>sn_Runs := upsertRun run (sn_Runs snap)\<rparr>)"
      using s by (auto simp: sub_SaveRun_def writeLocked_def split: if_splits sum.splits)
    have "distinct (map br_RunID (upsertRun run (sn_Runs snap))) = distinct (map br_RunID (sn_Runs snap))"
      unfolding upsertRun_map_ids by (simp add: distinct_map)
    then show ?thesis using snap runs_of_load [OF snap(1)] by (simp add: ids_ok_def runs_of_def)
  qed
qed

lemma normalized_request: "load_ok (cr_Config (normalizeRunRequest req)) \<and> \<not> sx_NetworkEgress (cr_Sandbox (normalizeRunRequest req)) \<and>
    sx_CPULimit (cr_Sandbox (normalizeRunRequest req)) \<noteq> [] \<and> sx_MemoryLimit (cr_Sandbox (normalizeRunRequest req)) \<noteq> [] \<and>
    cr_BenchmarkSeed (normalizeRunRequest req) \<noteq> 0"
  by (simp add: normalizeRunRequest_def Let_def normalizeLoad_eq normalizeConfig_load_ok) (simp add: normalizeSpec_def DefaultRunRequest_def Let_def)

lemma ClaimRun_good:
  assumes "f = FileSnap s" "find (\<lambda>r. br_RunID r = i) (sn_Runs s) = Some r" "br_Status r = Queued"
  shows "\<exists>f'. ClaimRun io_good t i f = (f', Some (Touch t Building r), None)"
proof -
  have "claim_first t i (sn_Runs s) \<noteq> None" using assms(2) claim_first_None [of t i "sn_Runs s"] by auto
  then obtain x w e where c: "claim_first t i (sn_Runs s) = Some (x, w, e)" by (metis option.exhaust prod_cases3)
  show ?thesis
  proof (cases w)
    case None
    then show ?thesis using claim_first_nowrite [of t i "sn_Runs s" x e] c assms(2,3) by auto
  next
    case (Some rs)
    then have "x = Touch t Building r" using claim_first_write [of t i "sn_Runs s" x rs e] c assms(2) by auto
    then show ?thesis using Some c assms(1)
      by (simp add: ClaimRun_def io_good_def loadLocked_def writeLocked_def cloneRun_def)
  qed
qed

lemma normalized_config: "cr_Config (normalizeRunRequest req) = normalizeConfig (cr_Config req)"
  by (simp add: normalizeRunRequest_def Let_def normalizeLoad_eq)

lemma sub_SaveRun_claimable:
  assumes "sub_SaveRun io run f = (f', None)" "br_Status run = Queued"
  shows "snd (ClaimRun io_good t (br_RunID run) f') = (Some (Touch t Building run), None)"
proof -
  obtain s where s: "f' = FileSnap s" using sub_SaveRun_result(5) [OF assms(1)] by blast
  have "run_in f' (br_RunID run) = Some run" using sub_SaveRun_result(3) [OF assms(1), of "br_RunID run"] by simp
  then have "find (\<lambda>r. br_RunID r = br_RunID run) (sn_Runs s) = Some run" by (simp add: run_in_def runs_of_def s)
  from ClaimRun_good [OF s this assms(2), of t] show ?thesis by auto
qed

text \<open>
  C31. A request creates a run the rest of the platform can trust, or changes nothing. Whatever the body
  says and whatever else is written meanwhile, an answer with a run is a 201 for a submission that
  exists, with its team, the load asked for clamped to the ceilings of the orchestrator, no network
  egress, and the store then holds exactly this run in addition, queued, so that the next claim of it
  by the orchestrator succeeds; every other answer is a 400, 404 or 500 and leaves the store as it was.
\<close>

theorem created_run_is_admitted:
  "case sub_CreateRun io0 io sid body now rnd f0 f of (f', r) \<Rightarrow>
     (ids_ok f' \<longleftrightarrow> ids_ok f) \<and> submissions_of f' = submissions_of f \<and>
     (case rp_body r of
        SbRun run \<Rightarrow>
          rp_status r = StatusCreated \<and>
          (\<exists>s req. GetSubmission io0 sid f0 = Inr s \<and> requested body = Some req \<and> br_SubmissionID run = sb_SubmissionID s \<and>
             br_TeamID run = sb_TeamID s \<and> br_Config run = normalizeConfig (cr_Config req)) \<and>
          load_ok (br_Config run) \<and> \<not> sx_NetworkEgress (br_Sandbox run) \<and> br_Status run = Queued \<and>
          (\<forall>i. run_in f' i = (if i = br_RunID run then Some run else run_in f i)) \<and>
          snd (ClaimRun io_good t (br_RunID run) f') = (Some (Touch t Building run), None)
      | _ \<Rightarrow> f' = f \<and> rp_status r \<in> {StatusBadRequest, StatusNotFound, StatusInternalServerError})"
proof (cases "GetSubmission io0 sid f0")
  case (Inl e)
  then show ?thesis by (auto simp: sub_CreateRun_def sub_handleStoreError_def sub_writeError_def)
next
  case s: (Inr s)
  show ?thesis
  proof (cases "requested body")
    case None
    then show ?thesis using s by (simp add: sub_CreateRun_def sub_writeError_def)
  next
    case req: (Some req)
    define run where "run = new_run (normalizeRunRequest req) s now rnd"
    obtain f' e where save: "sub_SaveRun io run f = (f', e)" by fastforce
    have create: "sub_CreateRun io0 io sid body now rnd f0 f =
      (case e of Some e \<Rightarrow> (f', sub_writeError StatusInternalServerError (store_Error e))
       | None \<Rightarrow> (f', sub_writeJSON StatusCreated (SbRun run)))"
      using s req save by (simp add: sub_CreateRun_def run_def [symmetric])
    note [simp] = sub_SaveRun_result(2) [OF save] sub_SaveRun_ids [OF save]
    show ?thesis
    proof (cases e)
      case (Some y)
      then show ?thesis using create sub_SaveRun_result(1) [OF save] by (simp add: sub_writeError_def)
    next
      case None
      have "br_Status run = Queued" "br_SubmissionID run = sb_SubmissionID s" "br_TeamID run = sb_TeamID s"
        "br_Config run = normalizeConfig (cr_Config req)" "\<not> sx_NetworkEgress (br_Sandbox run)"
        using normalized_request by (simp_all add: run_def new_run_def normalized_config)
      moreover from this have "load_ok (br_Config run)" by (simp add: normalizeConfig_load_ok)
      ultimately show ?thesis
        using create None s req sub_SaveRun_result(3) [OF save] sub_SaveRun_claimable [of io run f f' t] save
        by (simp add: sub_writeJSON_def)
    qed
  qed
qed

section \<open>From the upload to the sandbox\<close>

lemma Clean_elems:
  assumes "\<forall>e \<in> set es. path_elem e" "es \<noteq> []"
  shows "Clean (intercalate ''/'' es) = intercalate ''/'' es" "\<not> IsAbs (intercalate ''/'' es)"
proof -
  have split: "SplitChar CHR ''/'' (intercalate ''/'' es) = es"
    using assms by (intro SplitChar_intercalate) (auto simp: path_elem_def)
  have "fold rel_push es st = st @ es" for st
    using assms(1) by (induction es arbitrary: st) (auto simp: rel_push_def path_elem_def)
  then have stack: "rel_stack (intercalate ''/'' es) = es" by (simp add: rel_stack_def split)
  obtain e es' where es: "es = e # es'" "e \<noteq> []" "CHR ''/'' \<notin> set e"
    using assms by (cases es) (auto simp: path_elem_def)
  then obtain c cs where c: "e = c # cs" "c \<noteq> CHR ''/''" by (cases e) auto
  show abs: "\<not> IsAbs (intercalate ''/'' es)" using es c by (cases es') (auto simp: IsAbs_def HasPrefix_def)
  then show "Clean (intercalate ''/'' es) = intercalate ''/'' es" using stack assms(2) by (auto simp: Clean_def split: list.split)
qed

lemma resolve_stored:
  assumes "path_elem sid" "path_elem name" "submissionArtifactRoot getenv absf repoRoot \<noteq> []"
  shows "resolveLocalArtifact getenv absf repoRoot (''local://submissions/'' @ sid @ ''/'' @ name) =
    Inr (path_Join [submissionArtifactRoot getenv absf repoRoot, sid, name])"
proof -
  let ?rel = "sid @ ''/'' @ name"
  have rel: "intercalate ''/'' [sid, name] = ?rel" by simp
  have "Clean ?rel = ?rel" "\<not> IsAbs ?rel" using Clean_elems [of "[sid, name]"] assms(1,2) rel by auto
  moreover have "?rel \<noteq> ''.''" "?rel \<noteq> ''..''" "\<not> HasPrefix ?rel ''../''"
    using assms(1,2) unfolding path_elem_def
    by (cases sid; cases "tl sid"; cases "tl (tl sid)"; auto simp: HasPrefix_def)+
  moreover have "path_Join [submissionArtifactRoot getenv absf repoRoot, ?rel] = path_Join [submissionArtifactRoot getenv absf repoRoot, sid, name]"
    using assms by (simp add: path_Join_def path_elem_def)
  moreover define pfx where "pfx = ''local://submissions/''"
  have "HasPrefix (pfx @ ?rel) pfx" "TrimPrefix (pfx @ ?rel) pfx = ?rel" "pfx @ ?rel \<noteq> []" by (simp_all add: TrimPrefix_def pfx_def HasPrefix_def)
  ultimately show ?thesis unfolding resolveLocalArtifact_def pfx_def [symmetric] by (simp add: Let_def)
qed

lemma sub_main_root: "sub_main getenv absf repoRoot = Inr (rootDir, rest) \<Longrightarrow> rootDir = submissionArtifactRoot getenv absf repoRoot"
  by (auto simp: sub_main_def envPath_def submissionArtifactRoot_def Let_def split: if_splits)

lemma new_submission_fields [simp]:
  "sb_SubmissionID (new_submission i t fm a now) = i" "sb_Artifact (new_submission i t fm a now) = a"
  "sb_TeamID (new_submission i t fm a now) = t"
  by (simp_all add: new_submission_def)

text \<open>
  C32. What was uploaded is what is built. When the submission API, started in the same environment as
  the sandbox runner, answers 201 to an upload, the orchestrator reads back the submission it
  answered, and the sandbox runner resolves its artifact URI to a file that did not exist before,
  two elements below the artifact root, whatever the name of the upload, and that now holds exactly
  the bytes of the upload, of the size and with the hash the submission says; no other file has
  changed.
\<close>

theorem upload_is_what_is_built:
  assumes "sub_main getenv absf repoRoot = Inr (rootDir, rest)" "rootDir \<noteq> []" "io_read io2"
    and created: "sub_CreateSubmission sha rootDir inFlight (len, Some fm) now rnd io (fs, f) = ((fs', f'), r)"
      "rp_status r = StatusCreated"
  shows "\<exists>s up path. rp_body r = SbSubmission s \<and> sf_artifact fm = Some up \<and>
    GetSubmission io2 (sb_SubmissionID s) f' = Inr s \<and>
    resolveLocalArtifact getenv absf repoRoot (sa_URI (sb_Artifact s)) = Inr path \<and>
    path_stack path = path_stack rootDir @ [sb_SubmissionID s, storedName up] \<and>
    fs path = None \<and> fs' = fs(path \<mapsto> whole_upload (up_turns up)) \<and>
    sa_SHA256 (sb_Artifact s) = sha (whole_upload (up_turns up)) \<and>
    sa_SizeBytes (sb_Artifact s) = int (length (whole_upload (up_turns up)))"
proof -
  define sid where "sid = uniqueID ''sub'' now rnd"
  have elem: "path_elem sid" unfolding sid_def by (rule uniqueID_elem) auto
  from sub_CreateSubmission_created [OF created] obtain up a where
    up: "sf_artifact fm = Some up" and save: "artifact_Save sha rootDir sid up fs = (fs', Inr a)"
    and store: "sub_SaveSubmission io (new_submission sid (TrimSpace (sf_team_id fm)) fm a now) f = (f', None)"
    and body: "rp_body r = SbSubmission (new_submission sid (TrimSpace (sf_team_id fm)) fm a now)"
    unfolding sid_def by blast
  note ok = artifact_Save_ok [OF save assms(2) elem]
  have root: "rootDir = submissionArtifactRoot getenv absf repoRoot" using assms(1) by (rule sub_main_root)
  have res: "resolveLocalArtifact getenv absf repoRoot (sa_URI a) = Inr (path_Join [rootDir, sid, storedName up])"
    using resolve_stored [OF elem storedName_elem] assms(2) unfolding ok(1) root by blast
  obtain snap where "f' = FileSnap snap"
    "find (\<lambda>x. sb_SubmissionID x = sid) (sn_Submissions snap) = Some (new_submission sid (TrimSpace (sf_team_id fm)) fm a now)"
    using sub_SaveSubmission_result(3) [OF store] by auto
  then have get: "GetSubmission io2 sid f' = Inr (new_submission sid (TrimSpace (sf_team_id fm)) fm a now)"
    using assms(3) by (simp add: GetSubmission_def loadLocked_def)
  have "path_stack (path_Join [rootDir, sid, storedName up]) = fold path_push (SplitChar CHR ''/'' (intercalate ''/'' [sid, storedName up])) (path_stack rootDir)"
    using assms(2) elem storedName_elem [of up] by (simp add: path_Join_def path_elem_def path_stack_append)
  also have "\<dots> = path_stack rootDir @ [sid, storedName up]"
    using elem storedName_elem [of up] by (intro push_elems) auto
  finally show ?thesis using body up get res ok by auto
qed

text \<open>An upload of two reads, into an empty store.\<close>

definition demo_turn :: "string \<Rightarrow> read_end \<Rightarrow> read_turn" where
  "demo_turn d e = \<lparr>rt_ctx = False, rt_data = d, rt_written = length d, rt_writeErr = False, rt_end = e\<rparr>"

definition demo_upload :: upload where
  "demo_upload = \<lparr>up_opens = True, up_Filename = ''../../my engine.zip'', up_ContentType = [], up_mkdir = True,
     up_create = True, up_nanos = 7, up_turns = [demo_turn ''PK'' ReadMore, demo_turn ''zip'' ReadEOF]\<rparr>"

definition demo_form :: submission_form where
  "demo_form = \<lparr>sf_team_id = '' team '', sf_language = [], sf_protocol = [], sf_artifact = Some demo_upload\<rparr>"

definition no_env :: "string \<Rightarrow> string" where "no_env v = []"

lemma demo_upload_created:
  "rp_status (snd (sub_CreateSubmission id rootDir 0 (900, Some demo_form) 5 None io_good (Map.empty, FileMissing))) = StatusCreated"
proof -
  have "TrimSpace (sf_team_id demo_form) = ''team''" by (simp add: demo_form_def TrimSpace_def is_space_def)
  moreover have "copyWithContext (up_turns demo_upload) [] = (''PKzip'', None)"
    by (simp add: demo_upload_def demo_turn_def)
  moreover have "up_opens demo_upload" "up_mkdir demo_upload" "up_create demo_upload" by (simp_all add: demo_upload_def)
  moreover have "sf_artifact demo_form = Some demo_upload" by (simp add: demo_form_def)
  ultimately show ?thesis
    by (simp add: sub_CreateSubmission_def maxConcurrentSubmissions_def parse_form_def maxSubmissionBytes_def
      artifact_Save_def sub_SaveSubmission_def io_good_def loadLocked_def writeLocked_def sub_writeJSON_def Let_def)
qed

theorem upload_is_what_is_built_witness:
  "\<exists>(s :: Submission) up path. sf_artifact demo_form = Some up \<and>
     resolveLocalArtifact no_env Some ''/srv'' (sa_URI (sb_Artifact s)) = Inr path \<and> sa_SHA256 (sb_Artifact s) = ''PKzip''"
proof -
  obtain rootDir rest where main: "sub_main no_env Some ''/srv'' = Inr (rootDir, rest)"
    by (cases "sub_main no_env Some ''/srv''") (auto simp: sub_main_def no_env_def Let_def)
  have root: "rootDir \<noteq> []"
    using sub_main_root [OF main] by (simp add: submissionArtifactRoot_def no_env_def path_Join_def path_Clean_def)
  obtain fs' f' r where r: "sub_CreateSubmission id rootDir 0 (900, Some demo_form) 5 None io_good (Map.empty, FileMissing) = ((fs', f'), r)"
    by (metis prod.exhaust)
  have st: "rp_status r = StatusCreated" using demo_upload_created [of rootDir] r by simp
  have good: "io_read io_good" by (simp add: io_good_def)
  have up: "whole_upload (up_turns demo_upload) = ''PKzip''" by (simp add: demo_upload_def demo_turn_def)
  show ?thesis
    using upload_is_what_is_built [OF main root good r st]
  proof (elim exE conjE)
    fix s :: Submission and u path
    assume "sf_artifact demo_form = Some u" "resolveLocalArtifact no_env Some ''/srv'' (sa_URI (sb_Artifact s)) = Inr path"
      "sa_SHA256 (sb_Artifact s) = id (whole_upload (up_turns u))"
    moreover from this have "u = demo_upload" by (simp add: demo_form_def)
    ultimately show ?thesis using up by auto
  qed
qed

text \<open>
  The start-up check does not trim the token and the middleware does, so a token of blanks starts the
  service with \<^verbatim>\<open>REQUIRE_AUTH\<close> set and lets every request through.
\<close>

lemma blank_token_opens_submissions:
  assumes "\<And>v. getenv v = (if v = ''REQUIRE_AUTH'' then ''1'' else if v = ''SERVICE_AUTH_TOKEN'' then '' '' else [])"
  shows "\<exists>a i addr. sub_main getenv absf repoRoot = Inr (a, i, '' '', addr)" "sub_RequireAuth '' '' meth path header unauthorized next = next"
  by (simp_all add: sub_main_def sub_firstEnv_def sub_RequireAuth_def assms Let_def TrimSpace_def is_space_def)

text \<open>With \<^verbatim>\<open>REQUIRE_AUTH\<close> set and a token that is not blank, every request but the health check needs it.\<close>

lemma submission_required_auth:
  assumes "sub_main getenv absf repoRoot = Inr (rootDir, indexPath, token, addr)" "getenv ''REQUIRE_AUTH'' = ''1''" "TrimSpace token \<noteq> []"
  shows "token \<noteq> [] \<and> sub_RequireAuth token meth path header unauthorized next =
    (if meth = ''GET'' \<and> path = ''/health'' \<or> bearer_ok token header then next else unauthorized)"
  using assms by (auto simp: sub_RequireAuth_def)

end
