(* ===== verification/Platform.thy ===== *)
theory Platform
  imports ScoreProps Submission RedisBoard DockerSandbox
begin

text \<open>
  What holds, or does not, where two services meet: the orchestrator's publisher
  (\<^verbatim>\<open>orchestrator/internal/executor/leaderboard.go\<close>) and the leaderboard, the submission API's run
  requests and the Docker limits of the sandbox runner.
\<close>

section \<open>From the scorer to the leaderboard\<close>

text \<open>
  What the leaderboard decodes of what the publisher encodes: the two structs have the same JSON
  names, except that the publisher has no 99.9th percentile.
\<close>

definition wire_entry :: "leaderboardEntry \<Rightarrow> Entry" where
  "wire_entry e =
     \<lparr>en_RunID = le_RunID e, en_TeamID = le_TeamID e, en_Score = le_Score e, en_Valid = le_Valid e, en_Status = le_Status e,
      en_FailureReason = le_FailureReason e, en_OrdersSent = le_OrdersSent e, en_AcksReceived = le_AcksReceived e,
      en_FillsReceived = le_FillsReceived e, en_Timeouts = le_Timeouts e, en_ConnectErrors = le_ConnectErrors e,
      en_FillsChecked = le_FillsChecked e, en_P50MS = le_P50MS e, en_P90MS = le_P90MS e, en_P99MS = le_P99MS e,
      en_P999MS = Fin 0, en_TPS = le_TPS e, en_PeakTPS = le_PeakTPS e, en_LatencyScore = le_LatencyScore e,
      en_ThroughputScore = le_ThroughputScore e, en_StabilityScore = le_StabilityScore e,
      en_ResourceScore = le_ResourceScore e, en_CorrectnessGate = le_CorrectnessGate e, en_ArtifactDir = le_ArtifactDir e,
      en_UpdatedAt = le_UpdatedAt e\<rparr>"

lemma publish_entry_fields [simp]:
  "le_RunID (publish_entry now run m v s) = br_RunID run" "le_Score (publish_entry now run m v s) = sr_Score s"
  "le_TeamID (publish_entry now run m v s) = br_TeamID run" "le_Valid (publish_entry now run m v s) = sr_Valid s"
  by (simp_all add: publish_entry_def Let_def split: option.split)

lemma percentage_admitted: "percentage x \<Longrightarrow> \<not> score_out_of_range x"
  by (auto simp: percentage_def in_band_def score_out_of_range_def IsNaN_def IsInf_def f_Abs_def split: f64.splits)



section \<open>From the run request to the limits of the container\<close>

text \<open>
  The limits a contestant writes in a request that is not empty go through as they are, and one the
  sandbox runner cannot read is no limit: a run that asks for \<^verbatim>\<open>512MB\<close> gets a container without one.
\<close>

lemma contestant_lifts_memory_limit:
  assumes "sx_MemoryLimit (cr_Sandbox req) = ''512MB''"
  shows "cc_Memory (engine_config w (start\<lparr>sa_Spec := (sa_Spec start)\<lparr>ss_MemoryLimit := sx_MemoryLimit (cr_Sandbox (normalizeRunRequest req))\<rparr>\<rparr>) img ev plan) = 0"
proof -
  have "sx_MemoryLimit (cr_Sandbox (normalizeRunRequest req)) = ''512MB''"
    using assms by (simp add: normalizeRunRequest_def normalizeSpec_def Let_def)
  then show ?thesis by (simp add: engine_config_def Let_def unreadable_memory_is_unlimited)
qed

text \<open>And a warm-up may be as long as the request says: the other three parts of the load have a ceiling.\<close>

lemma contestant_chooses_warmup:
  "0 \<le> bc_WarmupSec (cr_Config req) \<Longrightarrow> bc_WarmupSec (cr_Config (normalizeRunRequest req)) = bc_WarmupSec (cr_Config req)"
  by (simp add: normalized_config normalizeConfig_def Let_def)

end
