(* ===== verification/Console.thy ===== *)
theory Console
  imports Submission
begin

text \<open>
  The console API, \<^verbatim>\<open>services/console-api/main.go\<close>: the gateway between the browser and the services.
  It has no operator authentication of its own and adds the services' tokens to the requests it
  makes, so what matters is which requests it makes, for whom, and which files it serves.

  The services behind it answer through \<open>send\<close>, which may change a state \<open>'w\<close> of the world; whether a
  URL parses, the JSON decoder and the file system are parameters (\<open>console_env\<close>).
\<close>

section \<open>Requests to the services\<close>

text \<open>
  A request with its bearer header (empty: none). \<open>cq_BodyFails\<close>: reading the body fails at its end,
  because it is longer than the limit.
\<close>

record console_call =
  cq_Method :: string
  cq_URL :: string
  cq_ContentType :: string
  cq_Auth :: string
  cq_Body :: string
  cq_BodyFails :: bool

record console_answer =
  ca_StatusCode :: nat
  ca_Status :: string
  ca_Header :: "(string \<times> string) list"
  ca_Body :: string

type_synonym 'w transport = "console_call \<Rightarrow> 'w \<Rightarrow> 'w \<times> (string + console_answer)"

record console_Config =
  cf_Addr :: string
  cf_RepoRoot :: string
  cf_UIRoot :: string
  cf_SubmissionURL :: string
  cf_OrchestratorURL :: string
  cf_LeaderboardURL :: string
  cf_SubmissionToken :: string
  cf_OrchestratorToken :: string
  cf_LeaderboardToken :: string

record console_Run =
  cn_RunID :: string
  cn_SubmissionID :: string
  cn_TeamID :: string
  cn_Status :: string
  cn_ArtifactDir :: string
  cn_Valid :: "bool option"
  cn_Score :: f64
  cn_FailureStage :: string
  cn_FailureReason :: string

record ArtifactFile =
  af_Name :: string
  af_SizeBytes :: nat
  af_URL :: string

record ArtifactResponse =
  ar_RunID :: string
  ar_ArtifactDir :: string
  ar_Files :: "ArtifactFile list"
  ar_Metrics :: "string option"
  ar_Validation :: "string option"
  ar_Score :: "string option"

datatype console_body = CnError string | CnHealth "(string \<times> string option) list" | CnProxied "(string \<times> string) list" string
  | CnStarted console_Run | CnArtifacts ArtifactResponse | CnFile string

text \<open>
  A directory entry: its name, whether it is a directory, and its size if it can be read.
\<close>

record console_env =
  ce_url_ok :: "string \<Rightarrow> bool"
  ce_url_host :: "string \<Rightarrow> string"
  ce_decode_run :: "string \<Rightarrow> console_Run option"
  ce_json_valid :: "string \<Rightarrow> bool"
  ce_read :: "string \<Rightarrow> string option"
  ce_readDir :: "string \<Rightarrow> (string \<times> bool \<times> nat option) list option"
  ce_cwd :: "string option"

definition cn_writeError :: "nat \<Rightarrow> string \<Rightarrow> console_body response" where
  "cn_writeError status message = \<lparr>rp_status = status, rp_body = CnError message\<rparr>"

definition cn_writeJSON :: "nat \<Rightarrow> console_body \<Rightarrow> console_body response" where
  "cn_writeJSON status v = \<lparr>rp_status = status, rp_body = v\<rparr>"

definition setBearerAuth :: "string \<Rightarrow> console_call \<Rightarrow> console_call" where
  "setBearerAuth token req = (if token = [] then req else req\<lparr>cq_Auth := ''Bearer '' @ token\<rparr>)"

definition console_request :: "string \<Rightarrow> string \<Rightarrow> string \<Rightarrow> console_call" where
  "console_request meth url body =
     \<lparr>cq_Method = meth, cq_URL = url, cq_ContentType = [], cq_Auth = [], cq_Body = body, cq_BodyFails = False\<rparr>"

definition proxy :: "'w transport \<Rightarrow> console_call \<Rightarrow> 'w \<Rightarrow> 'w \<times> console_body response" where
  "proxy send req w =
     (case send req w of
        (w, Inl e) \<Rightarrow> (w, cn_writeError 502 e)
      | (w, Inr resp) \<Rightarrow> (w, \<lparr>rp_status = ca_StatusCode resp, rp_body = CnProxied (ca_Header resp) (ca_Body resp)\<rparr>))"

definition doJSON :: "console_env \<Rightarrow> 'w transport \<Rightarrow> console_call \<Rightarrow> nat \<Rightarrow> 'w \<Rightarrow> 'w \<times> (string + console_Run)" where
  "doJSON env send req expectedStatus w =
     (case send req w of
        (w, Inl e) \<Rightarrow> (w, Inl e)
      | (w, Inr resp) \<Rightarrow>
          if ca_StatusCode resp \<noteq> expectedStatus
          then (w, Inl (ce_url_host env (cq_URL req) @ '' returned '' @ ca_Status resp @ '': '' @ TrimSpace (take 4096 (ca_Body resp))))
          else (case ce_decode_run env (ca_Body resp) of None \<Rightarrow> (w, Inl ''invalid json'') | Some run \<Rightarrow> (w, Inr run)))"

section \<open>Guards\<close>

record console_headers =
  hd_SecFetchSite :: string
  hd_Origin :: string
  hd_Host :: string
  hd_ContentType :: string

text \<open>\<^verbatim>\<open>strings.Index\<close> of the scheme separator, and the rest after it.\<close>

fun after_scheme :: "string \<Rightarrow> string option" where
  "after_scheme [] = None"
| "after_scheme (c # s) = (if HasPrefix (c # s) ''://'' then Some (drop 3 (c # s)) else after_scheme s)"

definition originMatchesHost :: "string \<Rightarrow> string \<Rightarrow> bool" where
  "originMatchesHost origin host =
     (let origin = (case after_scheme origin of None \<Rightarrow> origin | Some rest \<Rightarrow> rest)
      in origin \<noteq> [] \<and> origin = host)"

definition sameOrigin :: "('w \<Rightarrow> 'w \<times> console_body response) \<Rightarrow> console_headers \<Rightarrow> 'w \<Rightarrow> 'w \<times> console_body response" where
  "sameOrigin next h w =
     (if hd_SecFetchSite h = ''cross-site'' then (w, cn_writeError 403 ''cross-site request rejected'')
      else if hd_SecFetchSite h \<in> {''same-origin'', ''same-site'', ''none''} then next w
      else
        let origin = TrimSpace (hd_Origin h) in
        if origin = [] then next w
        else if originMatchesHost origin (hd_Host h) then next w
        else (w, cn_writeError 403 ''cross-origin request rejected''))"

definition maxInFlightRequests :: nat where "maxInFlightRequests = 256"

text \<open>\<open>inFlight\<close>: the requests that hold a slot when this one arrives.\<close>

definition limitInFlight :: "('w \<Rightarrow> 'w \<times> console_body response) \<Rightarrow> nat \<Rightarrow> nat \<Rightarrow> 'w \<Rightarrow> 'w \<times> console_body response" where
  "limitInFlight next maxSlots inFlight w =
     (if inFlight < maxSlots then next w else (w, cn_writeError 503 ''server busy: too many concurrent requests''))"

section \<open>The handlers\<close>

definition cn_maxSubmissionBytes :: nat where "cn_maxSubmissionBytes = 134217728"

definition checkHealth :: "console_env \<Rightarrow> 'w transport \<Rightarrow> string \<Rightarrow> 'w \<Rightarrow> 'w \<times> string option" where
  "checkHealth env send baseURL w =
     (if \<not> ce_url_ok env (baseURL @ ''/health'') then (w, Some ''invalid URL'')
      else case send (console_request ''GET'' (baseURL @ ''/health'') []) w of
        (w, Inl e) \<Rightarrow> (w, Some e)
      | (w, Inr resp) \<Rightarrow> (w, if ca_StatusCode resp < 200 \<or> 300 \<le> ca_StatusCode resp then Some (ca_Status resp) else None))"

definition downstreamHealth :: "console_env \<Rightarrow> console_Config \<Rightarrow> 'w transport \<Rightarrow> 'w \<Rightarrow> 'w \<times> console_body response" where
  "downstreamHealth env cfg send w =
     (case checkHealth env send (cf_SubmissionURL cfg) w of (w, s) \<Rightarrow>
      case checkHealth env send (cf_OrchestratorURL cfg) w of (w, orch) \<Rightarrow>
      case checkHealth env send (cf_LeaderboardURL cfg) w of (w, l) \<Rightarrow>
        (w, cn_writeJSON StatusOK (CnHealth [(''console'', None), (''submission'', s), (''orchestrator'', orch), (''leaderboard'', l)])))"

definition cn_createSubmission :: "console_env \<Rightarrow> console_Config \<Rightarrow> 'w transport \<Rightarrow> string \<Rightarrow> string \<Rightarrow> 'w \<Rightarrow>
    'w \<times> console_body response" where
  "cn_createSubmission env cfg send contentType body w =
     (let url = cf_SubmissionURL cfg @ ''/submissions'' in
      if \<not> ce_url_ok env url then (w, cn_writeError StatusInternalServerError ''invalid URL'')
      else proxy send (setBearerAuth (cf_SubmissionToken cfg)
        ((console_request ''POST'' url (take cn_maxSubmissionBytes body))\<lparr>cq_ContentType := contentType,
           cq_BodyFails := length body > cn_maxSubmissionBytes\<rparr>)) w)"

text \<open>The body of a run request is \<open>None\<close> when reading it fails.\<close>

definition cn_createRun :: "console_env \<Rightarrow> console_Config \<Rightarrow> 'w transport \<Rightarrow> string \<Rightarrow> string option \<Rightarrow> 'w \<Rightarrow>
    'w \<times> console_body response" where
  "cn_createRun env cfg send pathID body w =
     (let submissionID = TrimSpace pathID in
      if submissionID = [] then (w, cn_writeError StatusBadRequest ''submission_id is required'')
      else case body of
        None \<Rightarrow> (w, cn_writeError StatusBadRequest ''unexpected EOF'')
      | Some b \<Rightarrow>
          let url = cf_SubmissionURL cfg @ ''/submissions/'' @ submissionID @ ''/runs'' in
          if \<not> ce_url_ok env url then (w, cn_writeError StatusInternalServerError ''invalid URL'')
          else
            (case doJSON env send (setBearerAuth (cf_SubmissionToken cfg)
                ((console_request ''POST'' url (take 1048576 b))\<lparr>cq_ContentType := ''application/json''\<rparr>)) StatusCreated w of
               (w, Inl e) \<Rightarrow> (w, cn_writeError 502 e)
             | (w, Inr run) \<Rightarrow>
                 if cn_RunID run = [] then (w, cn_writeError 502 ''submission-api returned empty run_id'')
                 else
                   let startURL = cf_OrchestratorURL cfg @ ''/runs/'' @ cn_RunID run @ ''/start'' in
                   if \<not> ce_url_ok env startURL then (w, cn_writeError StatusInternalServerError ''invalid URL'')
                   else
                     (case doJSON env send (setBearerAuth (cf_OrchestratorToken cfg) (console_request ''POST'' startURL []))
                         StatusAccepted w of
                        (w, Inl e) \<Rightarrow> (w, cn_writeError 502 (''run created but orchestrator start failed: '' @ e))
                      | (w, Inr started) \<Rightarrow>
                          (w, cn_writeJSON StatusAccepted (CnStarted (if cn_RunID started = [] then run else started))))))"

text \<open>The three handlers that pass on one read: \<^verbatim>\<open>listRuns\<close>, \<^verbatim>\<open>getRun\<close> and \<^verbatim>\<open>leaderboard\<close>.\<close>

definition proxied_get :: "console_env \<Rightarrow> 'w transport \<Rightarrow> string \<Rightarrow> string \<Rightarrow> 'w \<Rightarrow> 'w \<times> console_body response" where
  "proxied_get env send token url w =
     (if \<not> ce_url_ok env url then (w, cn_writeError StatusInternalServerError ''invalid URL'')
      else proxy send (setBearerAuth token (console_request ''GET'' url [])) w)"

definition cn_listRuns :: "console_env \<Rightarrow> console_Config \<Rightarrow> 'w transport \<Rightarrow> 'w \<Rightarrow> 'w \<times> console_body response" where
  "cn_listRuns env cfg send = proxied_get env send (cf_OrchestratorToken cfg) (cf_OrchestratorURL cfg @ ''/runs'')"

definition cn_getRun :: "console_env \<Rightarrow> console_Config \<Rightarrow> 'w transport \<Rightarrow> string \<Rightarrow> 'w \<Rightarrow> 'w \<times> console_body response" where
  "cn_getRun env cfg send runID =
     proxied_get env send (cf_OrchestratorToken cfg) (cf_OrchestratorURL cfg @ ''/runs/'' @ TrimSpace runID)"

definition cn_leaderboard :: "console_env \<Rightarrow> console_Config \<Rightarrow> 'w transport \<Rightarrow> 'w \<Rightarrow> 'w \<times> console_body response" where
  "cn_leaderboard env cfg send = proxied_get env send (cf_LeaderboardToken cfg) (cf_LeaderboardURL cfg @ ''/leaderboard'')"

definition fetchRun :: "console_env \<Rightarrow> console_Config \<Rightarrow> 'w transport \<Rightarrow> string \<Rightarrow> 'w \<Rightarrow> 'w \<times> (string + console_Run)" where
  "fetchRun env cfg send pathID w =
     (let runID = TrimSpace pathID; url = cf_OrchestratorURL cfg @ ''/runs/'' @ runID in
      if runID = [] then (w, Inl ''run_id is required'')
      else if \<not> ce_url_ok env url then (w, Inl ''invalid URL'')
      else doJSON env send (setBearerAuth (cf_OrchestratorToken cfg) (console_request ''GET'' url [])) StatusOK w)"

section \<open>Artifacts\<close>

text \<open>\<^verbatim>\<open>filepath.Abs\<close>: it fails only when the working directory is needed and unknown.\<close>

definition filepath_Abs :: "string option \<Rightarrow> string \<Rightarrow> string option" where
  "filepath_Abs cwd p = (if IsAbs p then Some (Clean p) else map_option (\<lambda>d. path_Join [d, p]) cwd)"

definition safeArtifactDir :: "string option \<Rightarrow> string \<Rightarrow> string \<Rightarrow> string + string" where
  "safeArtifactDir cwd repoRoot artifactDir =
     (if TrimSpace artifactDir = [] then Inl ''run has no artifact_dir yet''
      else case filepath_Abs cwd (path_Join [repoRoot, ''.runs'']) of
        None \<Rightarrow> Inl ''getwd''
      | Some rootDir \<Rightarrow>
          (case filepath_Abs cwd artifactDir of
             None \<Rightarrow> Inl ''getwd''
           | Some dir \<Rightarrow>
               if dir \<noteq> rootDir \<and> \<not> HasPrefix dir (rootDir @ ''/'')
               then Inl (''artifact_dir is outside .runs: '' @ artifactDir) else Inr dir))"

definition readOptionalJSON :: "console_env \<Rightarrow> string \<Rightarrow> string option" where
  "readOptionalJSON env path =
     (case ce_read env path of
        None \<Rightarrow> None
      | Some data \<Rightarrow> if TrimSpace data = [] then None else if \<not> ce_json_valid env data then None else Some data)"

definition artifact_file :: "string \<Rightarrow> string \<times> bool \<times> nat option \<Rightarrow> ArtifactFile option" where
  "artifact_file runID entry =
     (case entry of (name, isDir, info) \<Rightarrow>
        if isDir then None
        else map_option (\<lambda>n. \<lparr>af_Name = name, af_SizeBytes = n, af_URL = ''/api/runs/'' @ runID @ ''/artifacts/'' @ name\<rparr>) info)"

definition cn_listArtifacts :: "console_env \<Rightarrow> console_Config \<Rightarrow> 'w transport \<Rightarrow> string \<Rightarrow> 'w \<Rightarrow> 'w \<times> console_body response" where
  "cn_listArtifacts env cfg send pathID w =
     (case fetchRun env cfg send pathID w of
        (w, Inl e) \<Rightarrow> (w, cn_writeError 502 e)
      | (w, Inr run) \<Rightarrow>
          (case safeArtifactDir (ce_cwd env) (cf_RepoRoot cfg) (cn_ArtifactDir run) of
             Inl e \<Rightarrow> (w, cn_writeError StatusBadRequest e)
           | Inr dir \<Rightarrow>
               (case ce_readDir env dir of
                  None \<Rightarrow> (w, cn_writeError StatusNotFound ''readdir'')
                | Some entries \<Rightarrow>
                    (w, cn_writeJSON StatusOK (CnArtifacts
                      \<lparr>ar_RunID = cn_RunID run, ar_ArtifactDir = cn_ArtifactDir run,
                       ar_Files = List.map_filter (artifact_file (cn_RunID run)) entries,
                       ar_Metrics = readOptionalJSON env (path_Join [dir, ''metrics.json'']),
                       ar_Validation = readOptionalJSON env (path_Join [dir, ''validation.json'']),
                       ar_Score = readOptionalJSON env (path_Join [dir, ''score.json''])\<rparr>)))))"

text \<open>
  \<^verbatim>\<open>http.ServeFile\<close> refuses a request whose URL path has a \<^verbatim>\<open>..\<close> element; what it does with the path
  otherwise (a file, a directory, nothing there) is left open. The URL path is the one of the route.
\<close>

definition containsDotDot :: "string \<Rightarrow> bool" where
  "containsDotDot v \<longleftrightarrow> ''..'' \<in> set (SplitChar CHR ''/'' (map (\<lambda>c. if c = CHR 0x5C then CHR ''/'' else c) v))"

definition download_path :: "string \<Rightarrow> string \<Rightarrow> string" where
  "download_path pathID name = (''/api/runs/'' @ pathID @ ''/artifacts'') @ ''/'' @ name"

definition serveFile :: "string \<Rightarrow> string \<Rightarrow> console_body response" where
  "serveFile urlPath path =
     (if containsDotDot urlPath then cn_writeError StatusBadRequest ''invalid URL path''
      else \<lparr>rp_status = StatusOK, rp_body = CnFile path\<rparr>)"

definition cn_downloadArtifact :: "console_env \<Rightarrow> console_Config \<Rightarrow> 'w transport \<Rightarrow> string \<Rightarrow> string \<Rightarrow> 'w \<Rightarrow>
    'w \<times> console_body response" where
  "cn_downloadArtifact env cfg send pathID name w =
     (case fetchRun env cfg send pathID w of
        (w, Inl e) \<Rightarrow> (w, cn_writeError 502 e)
      | (w, Inr run) \<Rightarrow>
          (case safeArtifactDir (ce_cwd env) (cf_RepoRoot cfg) (cn_ArtifactDir run) of
             Inl e \<Rightarrow> (w, cn_writeError StatusBadRequest e)
           | Inr dir \<Rightarrow>
               if name = [] \<or> path_Base name \<noteq> name then (w, cn_writeError StatusBadRequest ''invalid artifact name'')
               else (w, serveFile (download_path pathID name) (path_Join [dir, name]))))"

section \<open>The routes\<close>

datatype console_path = RtHealth | RtDownstream | RtCreateSubmission | RtCreateRun string | RtListRuns | RtGetRun string
  | RtArtifacts string | RtDownload string string | RtLeaderboard

record console_req =
  rr_route :: console_path
  rr_headers :: console_headers
  rr_body :: "string option"

definition cn_health :: "console_Config \<Rightarrow> console_body response" where
  "cn_health cfg = cn_writeJSON StatusOK (CnHealth [(''submission_url'', Some (cf_SubmissionURL cfg)),
     (''orchestrator_url'', Some (cf_OrchestratorURL cfg)), (''leaderboard_url'', Some (cf_LeaderboardURL cfg))])"

definition console_route :: "console_env \<Rightarrow> console_Config \<Rightarrow> 'w transport \<Rightarrow> console_req \<Rightarrow> 'w \<Rightarrow> 'w \<times> console_body response" where
  "console_route env cfg send req w =
     (case rr_route req of
        RtHealth \<Rightarrow> (w, cn_health cfg)
      | RtDownstream \<Rightarrow> downstreamHealth env cfg send w
      | RtCreateSubmission \<Rightarrow>
          sameOrigin (cn_createSubmission env cfg send (hd_ContentType (rr_headers req))
            (case rr_body req of None \<Rightarrow> [] | Some b \<Rightarrow> b)) (rr_headers req) w
      | RtCreateRun i \<Rightarrow> sameOrigin (cn_createRun env cfg send i (rr_body req)) (rr_headers req) w
      | RtListRuns \<Rightarrow> cn_listRuns env cfg send w
      | RtGetRun i \<Rightarrow> cn_getRun env cfg send i w
      | RtArtifacts i \<Rightarrow> cn_listArtifacts env cfg send i w
      | RtDownload i name \<Rightarrow> cn_downloadArtifact env cfg send i name w
      | RtLeaderboard \<Rightarrow> cn_leaderboard env cfg send w)"

definition console_serve :: "console_env \<Rightarrow> console_Config \<Rightarrow> 'w transport \<Rightarrow> nat \<Rightarrow> console_req \<Rightarrow> 'w \<Rightarrow> 'w \<times> console_body response" where
  "console_serve env cfg send inFlight req = limitInFlight (console_route env cfg send req) maxInFlightRequests inFlight"

section \<open>Configuration\<close>

definition envString :: "(string \<Rightarrow> string) \<Rightarrow> string \<Rightarrow> string \<Rightarrow> string" where
  "envString getenv name fallback = (if TrimSpace (getenv name) = [] then fallback else TrimSpace (getenv name))"

definition cn_envPath :: "(string \<Rightarrow> string) \<Rightarrow> string option \<Rightarrow> string \<Rightarrow> string \<Rightarrow> string" where
  "cn_envPath getenv cwd name fallback =
     (let v = envString getenv name fallback in case filepath_Abs cwd v of None \<Rightarrow> v | Some a \<Rightarrow> a)"

definition cn_firstEnv :: "(string \<Rightarrow> string) \<Rightarrow> string list \<Rightarrow> string" where
  "cn_firstEnv getenv names =
     (case filter (\<lambda>v. v \<noteq> []) (map (\<lambda>n. TrimSpace (getenv n)) names) of [] \<Rightarrow> [] | v # _ \<Rightarrow> v)"

definition TrimRight_slash :: "string \<Rightarrow> string" where
  "TrimRight_slash s = rev (dropWhile (\<lambda>c. c = CHR ''/'') (rev s))"

definition loadConfig :: "(string \<Rightarrow> string) \<Rightarrow> string option \<Rightarrow> string \<Rightarrow> console_Config" where
  "loadConfig getenv cwd repoRoot =
     \<lparr>cf_Addr = envString getenv ''CONSOLE_API_ADDR'' ''127.0.0.1:9700'',
      cf_RepoRoot = repoRoot,
      cf_UIRoot = cn_envPath getenv cwd ''CONSOLE_UI_DIR'' (path_Join [repoRoot, ''web'', ''console-ui'']),
      cf_SubmissionURL = TrimRight_slash (envString getenv ''SUBMISSION_API_URL'' ''http://127.0.0.1:9100''),
      cf_OrchestratorURL = TrimRight_slash (envString getenv ''ORCHESTRATOR_URL'' ''http://127.0.0.1:9300''),
      cf_LeaderboardURL = TrimRight_slash (envString getenv ''LEADERBOARD_URL'' ''http://127.0.0.1:9500''),
      cf_SubmissionToken = cn_firstEnv getenv [''SUBMISSION_API_AUTH_TOKEN'', ''SERVICE_AUTH_TOKEN''],
      cf_OrchestratorToken = cn_firstEnv getenv [''ORCHESTRATOR_AUTH_TOKEN'', ''SERVICE_AUTH_TOKEN''],
      cf_LeaderboardToken = cn_firstEnv getenv [''LEADERBOARD_AUTH_TOKEN'', ''SERVICE_AUTH_TOKEN'']\<rparr>"

text \<open>Unless the operator says otherwise the console listens on the loopback interface only.\<close>

lemma console_is_local: "TrimSpace (getenv ''CONSOLE_API_ADDR'') = [] \<Longrightarrow> cf_Addr (loadConfig getenv cwd repoRoot) = ''127.0.0.1:9700''"
  by (simp add: loadConfig_def envString_def)

section \<open>Which files are served\<close>

lemma path_Join_clean: "p \<noteq> [] \<Longrightarrow> \<exists>q. path_Join [d, p] = path_Clean q"
  by (auto simp: path_Join_def)

lemma filepath_Abs_clean: "\<lbrakk>filepath_Abs cwd p = Some a; p \<noteq> []\<rbrakk> \<Longrightarrow> path_Clean a = a"
  using path_Join_clean by (auto simp: filepath_Abs_def Clean_def split: if_splits) (metis path_Clean_idem)

lemma safeArtifactDir_under:
  assumes "safeArtifactDir cwd repoRoot d = Inr dir"
  shows "under (path_Join [repoRoot, ''.runs'']) dir" "path_Clean dir = dir"
proof -
  obtain rootDir where root: "filepath_Abs cwd (path_Join [repoRoot, ''.runs'']) = Some rootDir"
    and dir: "filepath_Abs cwd d = Some dir" and ok: "dir = rootDir \<or> HasPrefix dir (rootDir @ ''/'')"
    using assms by (auto simp: safeArtifactDir_def split: if_splits option.splits)
  obtain q where q: "path_Join [repoRoot, ''.runs''] = path_Clean q" using path_Join_clean by blast
  have abs: "IsAbs (path_Clean q)" by (simp add: IsAbs_def HasPrefix_def path_Clean_def)
  have ne: "d \<noteq> []" using assms by (auto simp: safeArtifactDir_def)
  have clean: "path_Clean rootDir = rootDir" "path_Clean dir = dir"
    using filepath_Abs_clean [OF root] filepath_Abs_clean [OF dir ne] q by (auto simp: path_Clean_def)
  have "rootDir = path_Join [repoRoot, ''.runs'']"
    using root abs unfolding q by (simp add: filepath_Abs_def Clean_def)
  moreover have "\<not> escapes rootDir dir"
    using ok clean by (auto simp: escapes_def)
  ultimately show "under (path_Join [repoRoot, ''.runs'']) dir" using not_escapes_under by blast
  show "path_Clean dir = dir" by (rule clean)
qed

lemma under_child: "\<lbrakk>under d p; path_stack q = path_stack p @ es\<rbrakk> \<Longrightarrow> under d q"
  by (auto simp: under_def) (metis append_take_drop_id le_add1 length_append take_all_iff take_append diff_is_0_eq' append.right_neutral take0 nat_le_linear)

lemma SplitChar_last: "CHR ''/'' \<notin> set name \<Longrightarrow> name \<in> set (SplitChar CHR ''/'' (p @ CHR ''/'' # name))"
  by (simp add: SplitChar_append SplitChar_none)

lemma served_name:
  assumes "path_Base name = name" "name \<noteq> []" "\<not> containsDotDot (p @ ''/'' @ name)" "path_Clean dir = dir"
  shows "\<exists>es. path_stack (path_Join [dir, name]) = path_stack dir @ es"
proof -
  have dir: "dir \<noteq> []" using assms(4) by (auto simp: path_Clean_def)
  have join: "path_stack (path_Join [dir, name]) = fold path_push (SplitChar CHR ''/'' name) (path_stack dir)"
    using dir assms(2) by (simp add: path_Join_two path_stack_append)
  consider "name = ''/''" | "CHR ''/'' \<notin> set name" using path_Base_fixed [OF assms(1,2)] by blast
  then show ?thesis
  proof cases
    case 1
    then show ?thesis unfolding join by (simp add: path_push_def)
  next
    case 2
    have "name \<noteq> ''..''"
    proof
      assume "name = ''..''"
      then have "''..'' \<in> set (SplitChar CHR ''/'' (map (\<lambda>c. if c = CHR 0x5C then CHR ''/'' else c) p @ CHR ''/'' # ''..''))"
        by (intro SplitChar_last) simp
      then show False using assms(3) \<open>name = ''..''\<close> by (simp add: containsDotDot_def)
    qed
    then show ?thesis using 2 by (auto simp: join SplitChar_none path_push_def)
  qed
qed

text \<open>
  C34. The console serves nothing outside the run directories. Whatever the orchestrator answers and
  whatever name is asked for, a download that is not refused is of a path at or below \<^verbatim>\<open>.runs\<close>.
\<close>

theorem console_serves_runs_only:
  assumes "console_serve env cfg send inFlight req w = (w', r)" "rp_body r = CnFile path"
  shows "under (path_Join [cf_RepoRoot cfg, ''.runs'']) path \<and> rp_status r = StatusOK \<and>
    (\<exists>i name. rr_route req = RtDownload i name)"
proof -
  have no_file: "rp_body (snd (proxy send q u)) \<noteq> CnFile path" "rp_body (snd (proxied_get env send t url u)) \<noteq> CnFile path" for q t url u
    by (auto simp: proxied_get_def proxy_def cn_writeError_def split: prod.split sum.split)
  have other: "rp_body (snd (console_route env cfg send req w)) \<noteq> CnFile path" if "\<And>i name. rr_route req \<noteq> RtDownload i name"
    using that no_file
    by (cases "rr_route req")
      (auto simp: console_route_def cn_health_def cn_writeJSON_def cn_writeError_def downstreamHealth_def sameOrigin_def
        cn_createSubmission_def cn_createRun_def cn_listRuns_def cn_getRun_def cn_leaderboard_def cn_listArtifacts_def Let_def
        split: prod.split sum.split option.split)
  have route: "console_route env cfg send req w = (w', r)"
    using assms by (auto simp: console_serve_def limitInFlight_def cn_writeError_def split: if_splits)
  then obtain i name where rt: "rr_route req = RtDownload i name" using other assms(2) by fastforce
  then have "cn_downloadArtifact env cfg send i name w = (w', r)" using route by (simp add: console_route_def)
  then obtain run :: console_Run and dir where dir: "safeArtifactDir (ce_cwd env) (cf_RepoRoot cfg) (cn_ArtifactDir run) = Inr dir"
    and name: "name \<noteq> []" "path_Base name = name" and r: "r = serveFile (download_path i name) (path_Join [dir, name])"
    using assms(2) by (auto simp: cn_downloadArtifact_def cn_writeError_def split: prod.splits sum.splits if_splits)
  have p: "path = path_Join [dir, name]" "rp_status r = StatusOK" and nodots: "\<not> containsDotDot ((''/api/runs/'' @ i @ ''/artifacts'') @ ''/'' @ name)"
    using assms(2) r unfolding download_path_def by (auto simp: serveFile_def cn_writeError_def split: if_splits)
  note safe = safeArtifactDir_under [OF dir]
  show ?thesis using under_child [OF safe(1)] served_name [OF name(2,1) nodots safe(2)] p rt by blast
qed

text \<open>A run directory with a score, and its download.\<close>

definition demo_console_run :: console_Run where
  "demo_console_run = \<lparr>cn_RunID = ''r1'', cn_SubmissionID = ''s'', cn_TeamID = ''t'', cn_Status = ''FINISHED'',
     cn_ArtifactDir = ''/srv/.runs/r1'', cn_Valid = Some True, cn_Score = Fin 1, cn_FailureStage = [], cn_FailureReason = []\<rparr>"

definition demo_console_env :: console_env where
  "demo_console_env = \<lparr>ce_url_ok = (\<lambda>u. True), ce_url_host = (\<lambda>u. ''h''), ce_decode_run = (\<lambda>b. Some demo_console_run),
     ce_json_valid = (\<lambda>b. True), ce_read = (\<lambda>p. None), ce_readDir = (\<lambda>p. None), ce_cwd = None\<rparr>"

definition demo_console_cfg :: console_Config where "demo_console_cfg = loadConfig no_env None ''/srv''"

definition demo_send :: "unit transport" where
  "demo_send q w = (w, Inr \<lparr>ca_StatusCode = 200, ca_Status = ''200 OK'', ca_Header = [], ca_Body = []\<rparr>)"

definition demo_download :: console_req where
  "demo_download = \<lparr>rr_route = RtDownload ''r1'' ''score.json'',
     rr_headers = \<lparr>hd_SecFetchSite = [], hd_Origin = [], hd_Host = [], hd_ContentType = []\<rparr>, rr_body = None\<rparr>"

lemma demo_download_served:
  "console_serve demo_console_env demo_console_cfg demo_send 0 demo_download () =
     ((), \<lparr>rp_status = 200, rp_body = CnFile ''/srv/.runs/r1/score.json''\<rparr>)"
proof -
  have "safeArtifactDir None ''/srv'' ''/srv/.runs/r1'' = Inr ''/srv/.runs/r1''" by code_simp
  moreover have "path_Base ''score.json'' = ''score.json''" by code_simp
  moreover have "path_Join [''/srv/.runs/r1'', ''score.json''] = ''/srv/.runs/r1/score.json''" by code_simp
  moreover have "\<not> containsDotDot (download_path ''r1'' ''score.json'')" by code_simp
  moreover have "TrimSpace ''r1'' = ''r1''" by code_simp
  ultimately show ?thesis
    by (simp add: console_serve_def limitInFlight_def maxInFlightRequests_def console_route_def demo_download_def
      cn_downloadArtifact_def fetchRun_def doJSON_def demo_console_env_def demo_console_cfg_def demo_send_def loadConfig_def
      demo_console_run_def serveFile_def StatusOK_def Let_def)
qed

theorem console_serves_runs_only_witness:
  "under (path_Join [cf_RepoRoot demo_console_cfg, ''.runs'']) ''/srv/.runs/r1/score.json''"
  using console_serves_runs_only [OF demo_download_served] by simp

section \<open>Which requests are made\<close>

text \<open>A transport that also writes down what was sent.\<close>

definition logged :: "'w transport \<Rightarrow> ('w \<times> console_call list) transport" where
  "logged send q s = (case s of (w, qs) \<Rightarrow> (case send q w of (w', a) \<Rightarrow> ((w', qs @ [q]), a)))"

text \<open>Running \<open>f\<close> sends at most \<open>n\<close> requests, all of which satisfy \<open>P\<close>.\<close>

definition calls :: "(console_call \<Rightarrow> bool) \<Rightarrow> nat \<Rightarrow> ('w \<times> console_call list \<Rightarrow> ('w \<times> console_call list) \<times> 'b) \<Rightarrow> bool" where
  "calls P n f \<longleftrightarrow> (\<forall>s. \<exists>new. snd (fst (f s)) = snd s @ new \<and> list_all P new \<and> length new \<le> n)"

lemma callsI: "(\<And>s. \<exists>new. snd (fst (f s)) = snd s @ new \<and> list_all P new \<and> length new \<le> n) \<Longrightarrow> calls P n f"
  by (simp add: calls_def)

lemma calls_none [simp]: "calls P n (\<lambda>s. (s, r))"
  by (auto simp: calls_def)

lemma calls_more: "\<lbrakk>calls P m f; m \<le> n\<rbrakk> \<Longrightarrow> calls P n f"
  unfolding calls_def by (meson order_trans)

lemma calls_logged: "P q \<Longrightarrow> calls P 1 (logged send q)"
  by (auto simp: calls_def logged_def split: prod.split)

lemma calls_bind:
  assumes "calls P m f" "\<And>a. calls P n (g a)"
  shows "calls P (m + n) (\<lambda>s. case f s of (s', a) \<Rightarrow> g a s')"
proof (rule callsI)
  fix s
  obtain s' a where f: "f s = (s', a)" by fastforce
  obtain new where new: "snd s' = snd s @ new" "list_all P new" "length new \<le> m"
    using assms(1) f unfolding calls_def by (metis fst_conv)
  obtain new' where "snd (fst (g a s')) = snd s' @ new'" "list_all P new'" "length new' \<le> n"
    using assms(2) unfolding calls_def by meson
  then show "\<exists>new. snd (fst (case f s of (s', a) \<Rightarrow> g a s')) = snd s @ new \<and> list_all P new \<and> length new \<le> m + n"
    using f new by (intro exI [of _ "new @ new'"]) simp
qed

lemma calls_proxy:
  assumes "P q"
  shows "calls P 1 (proxy (logged send) q)"
proof -
  have "calls P 0 (\<lambda>s. case a of Inl e \<Rightarrow> (s, cn_writeError 502 e)
      | Inr resp \<Rightarrow> (s, \<lparr>rp_status = ca_StatusCode resp, rp_body = CnProxied (ca_Header resp) (ca_Body resp)\<rparr>))" for a
    by (cases a) simp_all
  from calls_bind [OF calls_logged [of P q send] this] assms show ?thesis by (simp add: proxy_def [abs_def])
qed

lemma calls_doJSON:
  assumes "P q"
  shows "calls P 1 (doJSON env (logged send) q n)"
proof -
  have "calls P 0 (\<lambda>s. case a of Inl e \<Rightarrow> (s, Inl e)
      | Inr resp \<Rightarrow> if ca_StatusCode resp \<noteq> n
          then (s, Inl (ce_url_host env (cq_URL q) @ '' returned '' @ ca_Status resp @ '': '' @ TrimSpace (take 4096 (ca_Body resp))))
          else (case ce_decode_run env (ca_Body resp) of None \<Rightarrow> (s, Inl ''invalid json'') | Some run \<Rightarrow> (s, Inr run)))" for a
    by (cases a; cases "ca_StatusCode (projr a) = n"; cases "ce_decode_run env (ca_Body (projr a))") simp_all
  from calls_bind [OF calls_logged [of P q send] this] assms show ?thesis by (simp add: doJSON_def [abs_def])
qed

lemma calls_if: "\<lbrakk>calls P n f; calls P n g\<rbrakk> \<Longrightarrow> calls P n (\<lambda>s. if b then f s else g s)"
  by (cases b) simp_all

text \<open>
  A call is well addressed when its URL starts with the base URL of a service and it carries the token
  of that service or none; the browser's request is trusted when the guard lets it through.
\<close>

definition addressed :: "console_Config \<Rightarrow> console_call \<Rightarrow> bool" where
  "addressed cfg q \<longleftrightarrow>
     (\<exists>(base, token) \<in> {(cf_SubmissionURL cfg, cf_SubmissionToken cfg), (cf_OrchestratorURL cfg, cf_OrchestratorToken cfg),
         (cf_LeaderboardURL cfg, cf_LeaderboardToken cfg)}.
        HasPrefix (cq_URL q) base \<and> cq_Auth q \<in> {[], ''Bearer '' @ token})"

definition trusted_origin :: "console_headers \<Rightarrow> bool" where
  "trusted_origin h \<longleftrightarrow> hd_SecFetchSite h \<noteq> ''cross-site'' \<and>
     (hd_SecFetchSite h \<in> {''same-origin'', ''same-site'', ''none''} \<or> TrimSpace (hd_Origin h) = [] \<or>
      originMatchesHost (TrimSpace (hd_Origin h)) (hd_Host h))"

definition proper_call :: "console_Config \<Rightarrow> console_headers \<Rightarrow> console_call \<Rightarrow> bool" where
  "proper_call cfg h q \<longleftrightarrow> addressed cfg q \<and> (cq_Method q = ''GET'' \<or> cq_Method q = ''POST'' \<and> trusted_origin h)"

lemma setBearerAuth_fields [simp]:
  "cq_URL (setBearerAuth t q) = cq_URL q" "cq_Method (setBearerAuth t q) = cq_Method q"
  "cq_Auth (setBearerAuth t q) = (if t = [] then cq_Auth q else ''Bearer '' @ t)"
  by (simp_all add: setBearerAuth_def)

lemma console_request_fields [simp]:
  "cq_URL (console_request m u b) = u" "cq_Method (console_request m u b) = m" "cq_Auth (console_request m u b) = []"
  by (simp_all add: console_request_def)

lemma addressed_append:
  assumes "(base, token) \<in> {(cf_SubmissionURL cfg, cf_SubmissionToken cfg), (cf_OrchestratorURL cfg, cf_OrchestratorToken cfg),
      (cf_LeaderboardURL cfg, cf_LeaderboardToken cfg)}" "cq_URL q = base @ rest" "cq_Auth q \<in> {[], ''Bearer '' @ token}"
  shows "addressed cfg q"
  unfolding addressed_def using assms by (intro bexI [of _ "(base, token)"]) simp_all

lemma calls_get:
  assumes "(base, token) \<in> {(cf_SubmissionURL cfg, cf_SubmissionToken cfg), (cf_OrchestratorURL cfg, cf_OrchestratorToken cfg),
      (cf_LeaderboardURL cfg, cf_LeaderboardToken cfg)}" "1 \<le> n"
  shows "calls (proper_call cfg h) n (proxied_get env (logged send) token (base @ rest))"
proof -
  have "proper_call cfg h (setBearerAuth token (console_request ''GET'' (base @ rest) []))"
    using addressed_append [OF assms(1)] by (auto simp: proper_call_def)
  then have p: "calls (proper_call cfg h) n (proxy (logged send) (setBearerAuth token (console_request ''GET'' (base @ rest) [])))"
    using calls_more [OF calls_proxy assms(2)] by blast
  show ?thesis unfolding proxied_get_def [abs_def] by (intro calls_if calls_none p)
qed

lemma calls_health:
  assumes "(base, token) \<in> {(cf_SubmissionURL cfg, cf_SubmissionToken cfg), (cf_OrchestratorURL cfg, cf_OrchestratorToken cfg),
      (cf_LeaderboardURL cfg, cf_LeaderboardToken cfg)}"
  shows "calls (proper_call cfg h) 1 (checkHealth env (logged send) base)"
proof -
  have "proper_call cfg h (console_request ''GET'' (base @ ''/health'') [])"
    using addressed_append [OF assms, of _ "''/health''"] by (auto simp: proper_call_def)
  moreover have "calls (proper_call cfg h) 0 (\<lambda>s. case a of Inl e \<Rightarrow> (s, Some e)
      | Inr resp \<Rightarrow> (s, if ca_StatusCode resp < 200 \<or> 300 \<le> ca_StatusCode resp then Some (ca_Status resp) else None))" for a
    by (cases a) simp_all
  ultimately have "calls (proper_call cfg h) (1 + 0) (\<lambda>s. case logged send (console_request ''GET'' (base @ ''/health'') []) s of
      (s, a) \<Rightarrow> (case a of Inl e \<Rightarrow> (s, Some e)
      | Inr resp \<Rightarrow> (s, if ca_StatusCode resp < 200 \<or> 300 \<le> ca_StatusCode resp then Some (ca_Status resp) else None)))"
    by (intro calls_bind calls_logged)
  then have "calls (proper_call cfg h) 1 (\<lambda>s. if \<not> ce_url_ok env (base @ ''/health'') then (s, Some ''invalid URL'')
      else case logged send (console_request ''GET'' (base @ ''/health'') []) s of
        (s, a) \<Rightarrow> (case a of Inl e \<Rightarrow> (s, Some e)
        | Inr resp \<Rightarrow> (s, if ca_StatusCode resp < 200 \<or> 300 \<le> ca_StatusCode resp then Some (ca_Status resp) else None)))"
    by (intro calls_if calls_none) simp
  then show ?thesis by (simp add: checkHealth_def [abs_def])
qed

lemma calls_downstream: "calls (proper_call cfg h) 3 (downstreamHealth env cfg (logged send))"
proof -
  have s: "calls (proper_call cfg h) 1 (checkHealth env (logged send) (cf_SubmissionURL cfg))"
    by (rule calls_health [of _ "cf_SubmissionToken cfg"]) simp
  have r: "calls (proper_call cfg h) 1 (checkHealth env (logged send) (cf_OrchestratorURL cfg))"
    by (rule calls_health [of _ "cf_OrchestratorToken cfg"]) simp
  have l: "calls (proper_call cfg h) 1 (checkHealth env (logged send) (cf_LeaderboardURL cfg))"
    by (rule calls_health [of _ "cf_LeaderboardToken cfg"]) simp
  have "calls (proper_call cfg h) (1 + (1 + (1 + 0))) (downstreamHealth env cfg (logged send))"
    unfolding downstreamHealth_def [abs_def]
    by (rule calls_bind [OF s], rule calls_bind [OF r], rule calls_bind [OF l], rule calls_none)
  then show ?thesis by (simp add: numeral_3_eq_3)
qed

lemma calls_submission:
  assumes "trusted_origin h"
  shows "calls (proper_call cfg h) 1 (cn_createSubmission env cfg (logged send) contentType body)"
proof -
  have "proper_call cfg h (setBearerAuth (cf_SubmissionToken cfg)
      ((console_request ''POST'' (cf_SubmissionURL cfg @ ''/submissions'') (take cn_maxSubmissionBytes body))\<lparr>cq_ContentType := contentType,
         cq_BodyFails := length body > cn_maxSubmissionBytes\<rparr>))"
    using assms addressed_append [of "cf_SubmissionURL cfg" "cf_SubmissionToken cfg" cfg _ "''/submissions''"] by (auto simp: proper_call_def)
  then show ?thesis
    unfolding cn_createSubmission_def [abs_def] Let_def by (intro calls_if calls_none calls_proxy)
qed

lemma calls_run:
  fixes send :: "'w transport"
  assumes "trusted_origin h"
  shows "calls (proper_call cfg h) 2 (cn_createRun env cfg (logged send) pathID body)"
proof -
  let ?P = "proper_call cfg h"
  have 1: "?P (setBearerAuth (cf_SubmissionToken cfg) ((console_request ''POST'' (cf_SubmissionURL cfg @ ''/submissions/'' @ i @ ''/runs'') b)
      \<lparr>cq_ContentType := ''application/json''\<rparr>))" for i b
    using assms addressed_append [of "cf_SubmissionURL cfg" "cf_SubmissionToken cfg" cfg _ "''/submissions/'' @ i @ ''/runs''"]
    by (auto simp: proper_call_def)
  have 2: "?P (setBearerAuth (cf_OrchestratorToken cfg) (console_request ''POST'' (cf_OrchestratorURL cfg @ ''/runs/'' @ i @ ''/start'') []))" for i
    using assms addressed_append [of "cf_OrchestratorURL cfg" "cf_OrchestratorToken cfg" cfg _ "''/runs/'' @ i @ ''/start''"]
    by (auto simp: proper_call_def)
  define after_start where "after_start run a s =
    (case a of Inl e \<Rightarrow> (s, cn_writeError 502 (''run created but orchestrator start failed: '' @ e))
     | Inr started \<Rightarrow> (s, cn_writeJSON StatusAccepted (CnStarted (if cn_RunID started = [] then run else started))))"
    for run and a :: "string + console_Run" and s :: "'w \<times> console_call list"
  define after_create where "after_create a s =
    (case a of Inl e \<Rightarrow> (s, cn_writeError 502 e)
     | Inr run \<Rightarrow>
         if cn_RunID run = [] then (s, cn_writeError 502 ''submission-api returned empty run_id'')
         else if \<not> ce_url_ok env (cf_OrchestratorURL cfg @ ''/runs/'' @ cn_RunID run @ ''/start'') then (s, cn_writeError StatusInternalServerError ''invalid URL'')
         else (case doJSON env (logged send) (setBearerAuth (cf_OrchestratorToken cfg)
             (console_request ''POST'' (cf_OrchestratorURL cfg @ ''/runs/'' @ cn_RunID run @ ''/start'') [])) StatusAccepted s of
           (s, a) \<Rightarrow> after_start run a s))"
    for a :: "string + console_Run" and s :: "'w \<times> console_call list"
  have a: "calls ?P 0 (after_start run a)" for run a by (cases a) (simp_all add: after_start_def [abs_def])
  have c: "calls ?P (1 + 0) (after_create a)" for a
  proof (cases a)
    case (Inr run)
    show ?thesis unfolding after_create_def [abs_def] Inr sum.case
      by (intro calls_if calls_none calls_bind calls_doJSON 2 a)
  qed (simp add: after_create_def [abs_def])
  have "calls ?P (1 + (1 + 0)) (cn_createRun env cfg (logged send) pathID body)"
  proof (cases body)
    case None
    show ?thesis unfolding cn_createRun_def [abs_def] Let_def None option.case by (intro calls_if calls_none)
  next
    case (Some b)
    have "cn_createRun env cfg (logged send) pathID body = (\<lambda>s.
      if TrimSpace pathID = [] then (s, cn_writeError StatusBadRequest ''submission_id is required'')
      else if \<not> ce_url_ok env (cf_SubmissionURL cfg @ ''/submissions/'' @ TrimSpace pathID @ ''/runs'') then (s, cn_writeError StatusInternalServerError ''invalid URL'')
      else (case doJSON env (logged send) (setBearerAuth (cf_SubmissionToken cfg)
          ((console_request ''POST'' (cf_SubmissionURL cfg @ ''/submissions/'' @ TrimSpace pathID @ ''/runs'') (take 1048576 b))
            \<lparr>cq_ContentType := ''application/json''\<rparr>)) StatusCreated s of (s, a) \<Rightarrow> after_create a s))"
      by (rule ext) (simp only: cn_createRun_def Let_def Some option.case after_create_def after_start_def)
    then show ?thesis by (simp only:) (intro calls_if calls_none calls_bind calls_doJSON 1 c)
  qed
  then show ?thesis by (simp add: numeral_2_eq_2)
qed

lemma calls_fetch: "calls (proper_call cfg h) 1 (fetchRun env cfg (logged send) pathID)"
proof -
  have "proper_call cfg h (setBearerAuth (cf_OrchestratorToken cfg) (console_request ''GET'' (cf_OrchestratorURL cfg @ ''/runs/'' @ i) []))" for i
    using addressed_append [of "cf_OrchestratorURL cfg" "cf_OrchestratorToken cfg" cfg _ "''/runs/'' @ i"] by (auto simp: proper_call_def)
  then show ?thesis unfolding fetchRun_def [abs_def] Let_def by (intro calls_if calls_none calls_doJSON)
qed

lemma calls_after_fetch:
  assumes "\<And>a s. fst (g a s) = s"
  shows "calls (proper_call cfg h) 1 (\<lambda>s. case fetchRun env cfg (logged send) pathID s of (s, a) \<Rightarrow> g a s)"
proof -
  have "calls (proper_call cfg h) 0 (g a)" for a using assms by (auto simp: calls_def)
  from calls_bind [OF calls_fetch this] show ?thesis by simp
qed

lemma calls_list: "calls (proper_call cfg h) 1 (cn_listArtifacts env cfg (logged send) pathID)"
  unfolding cn_listArtifacts_def [abs_def] by (rule calls_after_fetch) (simp split: sum.split option.split)

lemma calls_download: "calls (proper_call cfg h) 1 (cn_downloadArtifact env cfg (logged send) pathID name)"
  unfolding cn_downloadArtifact_def [abs_def] by (rule calls_after_fetch) (simp split: sum.split)

lemma calls_sameOrigin: "(trusted_origin h \<Longrightarrow> calls P n f) \<Longrightarrow> calls P n (sameOrigin f h)"
proof (cases "trusted_origin h")
  case True
  moreover assume "trusted_origin h \<Longrightarrow> calls P n f"
  ultimately have f: "calls P n f" by simp
  show ?thesis unfolding sameOrigin_def [abs_def] Let_def by (intro calls_if calls_none f)
next
  case False
  then have "\<exists>e. \<forall>w. sameOrigin f h w = (w, cn_writeError 403 e)" by (auto simp: sameOrigin_def trusted_origin_def Let_def)
  then show ?thesis by (auto simp: calls_def)
qed

lemma calls_route: "calls (proper_call cfg (rr_headers req)) 3 (console_route env cfg (logged send) req)"
proof (cases "rr_route req")
  case RtHealth
  then show ?thesis by (simp add: console_route_def [abs_def])
next
  case RtDownstream
  then show ?thesis using calls_downstream by (simp add: console_route_def [abs_def])
next
  case RtCreateSubmission
  have "calls (proper_call cfg (rr_headers req)) 3 (sameOrigin (cn_createSubmission env cfg (logged send) t b) (rr_headers req))" for t b
    by (rule calls_more [OF calls_sameOrigin [OF calls_submission]]) simp_all
  with RtCreateSubmission show ?thesis by (simp add: console_route_def [abs_def])
next
  case (RtCreateRun i)
  have "calls (proper_call cfg (rr_headers req)) 3 (sameOrigin (cn_createRun env cfg (logged send) i b) (rr_headers req))" for b
    by (rule calls_more [OF calls_sameOrigin [OF calls_run]]) simp_all
  with RtCreateRun show ?thesis by (simp add: console_route_def [abs_def])
next
  case RtListRuns
  then show ?thesis
    using calls_get [of "cf_OrchestratorURL cfg" "cf_OrchestratorToken cfg" cfg 3] by (simp add: console_route_def [abs_def] cn_listRuns_def)
next
  case (RtGetRun i)
  then show ?thesis
    using calls_get [of "cf_OrchestratorURL cfg" "cf_OrchestratorToken cfg" cfg 3] by (simp add: console_route_def [abs_def] cn_getRun_def)
next
  case (RtArtifacts i)
  then show ?thesis using calls_more [OF calls_list, of 3] by (simp add: console_route_def [abs_def])
next
  case (RtDownload i name)
  then show ?thesis using calls_more [OF calls_download, of 3] by (simp add: console_route_def [abs_def])
next
  case RtLeaderboard
  then show ?thesis
    using calls_get [of "cf_LeaderboardURL cfg" "cf_LeaderboardToken cfg" cfg 3] by (simp add: console_route_def [abs_def] cn_leaderboard_def)
qed


text \<open>A run the console reports as started was created by one service and started by the other.\<close>

lemma started_run_was_created:
  assumes "cn_createRun env cfg send pathID body w = (w', r)" "rp_status r = StatusAccepted"
  obtains b w1 a1 run a2 where "body = Some b"
    "send (setBearerAuth (cf_SubmissionToken cfg) ((console_request ''POST'' (cf_SubmissionURL cfg @ ''/submissions/'' @ TrimSpace pathID @ ''/runs'')
       (take 1048576 b))\<lparr>cq_ContentType := ''application/json''\<rparr>)) w = (w1, Inr a1)"
    "ca_StatusCode a1 = StatusCreated" "ce_decode_run env (ca_Body a1) = Some run" "cn_RunID run \<noteq> []"
    "send (setBearerAuth (cf_OrchestratorToken cfg) (console_request ''POST'' (cf_OrchestratorURL cfg @ ''/runs/'' @ cn_RunID run @ ''/start'') [])) w1 = (w', Inr a2)"
    "ca_StatusCode a2 = StatusAccepted"
  using assms
  by (auto simp: cn_createRun_def doJSON_def cn_writeError_def cn_writeJSON_def StatusAccepted_def StatusBadRequest_def
      StatusInternalServerError_def Let_def split: option.splits if_splits prod.splits sum.splits)

text \<open>
  The identifier in the path of a request is decoded before it is put into the URL of the next one, so
  an encoded separator names other resources of the service.
\<close>

lemma path_value_is_not_escaped:
  assumes "ce_url_ok env (cf_OrchestratorURL cfg @ ''/runs/../health'')"
  shows "map cq_URL (snd (fst (cn_getRun env cfg (logged send) ''../health'' (w, [])))) = [cf_OrchestratorURL cfg @ ''/runs/../health'']"
proof -
  have "TrimSpace ''../health'' = ''../health''" by code_simp
  then show ?thesis using assms by (simp add: cn_getRun_def proxied_get_def proxy_def logged_def split: prod.split sum.split)
qed

end
