(* ===== verification/Engines.thy ===== *)
theory Engines
  imports Panel LocalSandbox
begin

text \<open>
  The tools the control panel and the local mode of the orchestrator run as processes of the host: the
  stub engine (\<^verbatim>\<open>internal/executor/engine.go\<close> of both services, which differ only in the mode they pass
  and in the text of two errors), and the control panel's bot fleet
  (\<^verbatim>\<open>control-panel/internal/executor/botfleet.go\<close>), an older copy of the orchestrator's.

  The Go toolchain and the process answer through \<open>engine_world\<close>; the processes alive are a list of
  process identifiers. The text written to \<^verbatim>\<open>run.log\<close> is not modelled.
\<close>

section \<open>The engine process\<close>

text \<open>
  What \<^verbatim>\<open>stopProcess\<close> sees: whether the process had ended, what comes first after the interrupt (its end
  or 1.5 seconds), and, after the kill, whether its end is seen before the caller goes away.
\<close>

record engine_stop_world =
  es_done :: "wait_result option"
  es_interrupted :: "wait_result option"
  es_killed :: "wait_result option"

definition engine_stopProcess :: "engine_stop_world \<Rightarrow> fate \<times> string option" where
  "engine_stopProcess sw =
     (case es_done sw of
        Some res \<Rightarrow> (Exited, ignoreExitError res)
      | None \<Rightarrow>
          (case es_interrupted sw of
             Some res \<Rightarrow> (Exited, ignoreExitError res)
           | None \<Rightarrow>
               (case es_killed sw of
                  Some res \<Rightarrow> (Exited, ignoreExitError res)
                | None \<Rightarrow> (Killed, Some ''context canceled''))))"

fun engine_waitForHealth :: "string \<Rightarrow> string \<Rightarrow> health_event list \<Rightarrow> string option" where
  "engine_waitForHealth what url [] = Some (what @ '' timed out: '' @ url)"
| "engine_waitForHealth what url (HealthCtxDone # evs) = Some ''context canceled''"
| "engine_waitForHealth what url (HealthDeadline # evs) = Some (what @ '' timed out: '' @ url)"
| "engine_waitForHealth what url (HealthTick (Some code) # evs) =
     (if 200 \<le> code \<and> code < 300 then None else engine_waitForHealth what url evs)"
| "engine_waitForHealth what url (HealthTick None # evs) = engine_waitForHealth what url evs"

record engine_world =
  ew_port :: "int option"
  ew_log :: bool
  ew_build :: "string option"
  ew_start :: "string option"
  ew_pid :: int
  ew_health :: "health_event list"
  ew_stop :: engine_stop_world

text \<open>What is run: the build of the stub engine in its directory, and the engine.\<close>

definition engine_dir :: "string \<Rightarrow> string" where "engine_dir repoRoot = path_Join [repoRoot, ''examples'', ''stub-engine'']"
definition engine_binary :: "string \<Rightarrow> string" where "engine_binary dir = path_Join [dir, ''stub-engine'']"

definition engine_command :: "string \<Rightarrow> string \<Rightarrow> int \<Rightarrow> string list" where
  "engine_command mode dir port =
     [''--addr'', '':'' @ Itoa port, ''--mode'', mode, ''--events'', path_Join [dir, ''engine_outputs.jsonl'']]"

text \<open>The commands run so far, and the processes alive.\<close>

record engine_host =
  eh_ran :: "(string \<times> string list) list"
  eh_alive :: "int list"

definition engine_ran :: "string \<Rightarrow> string \<times> string list \<Rightarrow> engine_host \<Rightarrow> engine_host" where
  "engine_ran dir cmd h = h\<lparr>eh_ran := eh_ran h @ [cmd]\<rparr>"

definition engine_reap :: "fate \<Rightarrow> int \<Rightarrow> engine_host \<Rightarrow> engine_host" where
  "engine_reap f pid h = (if f = Interrupted then h else h\<lparr>eh_alive := remove1 pid (eh_alive h)\<rparr>)"

text \<open>The result is the endpoint and the process the cleanup function stops.\<close>

definition engine_Start :: "string \<Rightarrow> string \<Rightarrow> string \<Rightarrow> string \<Rightarrow> string \<Rightarrow> engine_world \<Rightarrow> engine_host \<Rightarrow>
    engine_host \<times> (string + string \<times> int)" where
  "engine_Start what startErr repoRoot dir mode w h =
     (case ew_port w of
        None \<Rightarrow> (h, Inl ''listen'')
      | Some port \<Rightarrow>
          if \<not> ew_log w then (h, Inl (''open '' @ path_Join [dir, ''run.log'']))
          else
            let h = engine_ran (engine_dir repoRoot) (''go'', [''build'', ''-o'', engine_binary dir, ''.'']) h in
            (case ew_build w of
               Some e \<Rightarrow> (h, Inl (''build stub engine: '' @ e))
             | None \<Rightarrow>
                 (case ew_start w of
                    Some e \<Rightarrow> (h, Inl (startErr @ e))
                  | None \<Rightarrow>
                      let h = engine_ran (engine_dir repoRoot) (engine_binary dir, engine_command mode dir port) h;
                          h = h\<lparr>eh_alive := ew_pid w # eh_alive h\<rparr>
                      in case engine_waitForHealth what (''http://127.0.0.1:'' @ Itoa port @ ''/health'') (ew_health w) of
                           Some e \<Rightarrow> (engine_reap (fst (engine_stopProcess (ew_stop w))) (ew_pid w) h, Inl e)
                         | None \<Rightarrow> (h, Inr (''ws://127.0.0.1:'' @ Itoa port @ ''/ws'', ew_pid w)))))"

definition engine_Stop :: "engine_stop_world \<Rightarrow> int \<Rightarrow> engine_host \<Rightarrow> engine_host \<times> string option" where
  "engine_Stop sw pid h = (case engine_stopProcess sw of (f, e) \<Rightarrow> (engine_reap f pid h, e))"

definition panel_Engine_Start :: "string \<Rightarrow> PanelRun \<Rightarrow> engine_world \<Rightarrow> engine_host \<Rightarrow> engine_host \<times> (string + string \<times> int)" where
  "panel_Engine_Start repoRoot r =
     engine_Start ''engine healthcheck'' ''start stub engine: '' repoRoot (pn_ArtifactDir r) (pn_EngineMode r)"

definition LocalEngine_Start :: "string \<Rightarrow> BenchmarkRun \<Rightarrow> engine_world \<Rightarrow> engine_host \<Rightarrow> engine_host \<times> (string + string \<times> int)" where
  "LocalEngine_Start repoRoot run = engine_Start ''healthcheck'' [] repoRoot (br_ArtifactDir run) ''normal''"

text \<open>The local mode does not build the submission: it writes down what it was given. \<open>quote\<close> is \<^verbatim>\<open>%q\<close>.\<close>

definition LocalEngine_Build :: "(string \<Rightarrow> string) \<Rightarrow> Machine \<Rightarrow> BenchmarkRun \<Rightarrow> Submission \<Rightarrow> files \<Rightarrow> files \<times> string option" where
  "LocalEngine_Build quote M run s fs =
     Executor.WriteFile M (path_Join [br_ArtifactDir run, ''build.json''])
       (''{'' @ [CHR 0x0A] @ ''  \"submission_id\": '' @ quote (sb_SubmissionID s) @ '','' @ [CHR 0x0A] @
        ''  \"artifact_uri\": '' @ quote (sa_URI (sb_Artifact s)) @ '','' @ [CHR 0x0A] @
        ''  \"language\": '' @ quote (sb_Language s) @ '','' @ [CHR 0x0A] @
        ''  \"builder\": \"local-stub\"'' @ [CHR 0x0A] @ ''}'' @ [CHR 0x0A]) fs"

text \<open>
  Unlike the local sandbox runner's, this \<^verbatim>\<open>stopProcess\<close> never leaves a process that was only
  interrupted, so a start that fails and a stop, whatever they answer, leave no engine alive.
\<close>

lemma engine_stop_reaps: "fst (engine_stopProcess sw) \<noteq> Interrupted"
  by (auto simp: engine_stopProcess_def split: option.split)

lemma engine_start_failed: "engine_Start what se repo dir mode w h = (h', Inl e) \<Longrightarrow> eh_alive h' = eh_alive h"
  using engine_stop_reaps [of "ew_stop w"]
  by (auto simp: engine_Start_def engine_ran_def engine_reap_def Let_def split: option.splits if_splits)

lemma engine_start_stop:
  assumes "engine_Start what se repo dir mode w h = (h', Inr (endpoint, pid))"
  shows "eh_alive h' = pid # eh_alive h" "eh_alive (fst (engine_Stop sw pid h')) = eh_alive h"
    "\<exists>p. ew_port w = Some p \<and> endpoint = ''ws://127.0.0.1:'' @ Itoa p @ ''/ws''"
proof -
  have "eh_alive h' = pid # eh_alive h \<and> (\<exists>p. ew_port w = Some p \<and> endpoint = ''ws://127.0.0.1:'' @ Itoa p @ ''/ws'')"
    using assms by (auto simp: engine_Start_def engine_ran_def Let_def split: option.splits if_splits)
  then show "eh_alive h' = pid # eh_alive h" "eh_alive (fst (engine_Stop sw pid h')) = eh_alive h"
    "\<exists>p. ew_port w = Some p \<and> endpoint = ''ws://127.0.0.1:'' @ Itoa p @ ''/ws''"
    using engine_stop_reaps [of sw] by (auto simp: engine_Stop_def engine_reap_def split: prod.split)
qed

text \<open>Whatever engine a run asks for, the local mode of the orchestrator runs the stub engine in its normal mode.\<close>

lemma local_mode_ignores_the_submission:
  assumes "LocalEngine_Start repoRoot run w h = (h', Inr x)"
  shows "\<exists>port. eh_ran h' = eh_ran h @ [(''go'', [''build'', ''-o'', engine_binary (br_ArtifactDir run), ''.'']),
    (engine_binary (br_ArtifactDir run), engine_command ''normal'' (br_ArtifactDir run) port)]"
  using assms by (auto simp: LocalEngine_Start_def engine_Start_def engine_ran_def Let_def split: option.splits if_splits)

section \<open>The control panel's bot fleet\<close>

definition panel_fleet_args :: "PanelRun \<Rightarrow> string \<Rightarrow> string list" where
  "panel_fleet_args r endpoint =
     [''run'', ''-p'', ''bot-fleet'', ''--bin'', ''bot-fleet'', ''--'', ''--target'', endpoint,
      ''--bots'', Itoa (pn_BotCount r), ''--orders-per-sec'', Itoa (pn_OrdersPerSec r),
      ''--duration-sec'', Itoa (pn_DurationSec r), ''--seed'', Itoa (pn_Seed r), ''--run-id'', pn_RunID r,
      ''--events-out'', path_Join [pn_ArtifactDir r, ''events.jsonl''],
      ''--outputs-out'', path_Join [pn_ArtifactDir r, ''contestant_outputs.jsonl'']]"

definition panel_runLoggedCommand :: "Machine \<Rightarrow> PanelRun \<Rightarrow> string \<Rightarrow> string \<Rightarrow> string list \<Rightarrow> files \<Rightarrow> files \<times> CommandOutput" where
  "panel_runLoggedCommand M r dir name args fs =
     (let log = path_Join [pn_ArtifactDir r, ''run.log''] in
      if mc_writable M log then mc_run M dir name args fs
      else (fs, \<lparr>co_Stdout = [], co_Err = Some (''open '' @ log)\<rparr>))"

definition zeroPanelMetrics :: PanelMetrics where
  "zeroPanelMetrics = \<lparr>px_RunID = [], px_Bots = 0, px_OrdersSent = 0, px_AcksReceived = 0, px_FillsReceived = 0,
     px_Timeouts = 0, px_ConnectErrors = 0, px_TPS = Fin 0, px_P50MS = Fin 0, px_P90MS = Fin 0, px_P99MS = Fin 0,
     px_EventsOut = [], px_OutputsOut = [], px_RawOutput = []\<rparr>"

definition panel_metric_field :: "string \<Rightarrow> string \<Rightarrow> PanelMetrics \<Rightarrow> PanelMetrics" where
  "panel_metric_field key v m =
     (if key = ''run_id'' then m\<lparr>px_RunID := v\<rparr>
      else if key = ''bots'' then m\<lparr>px_Bots := atoi v\<rparr>
      else if key = ''orders_sent'' then m\<lparr>px_OrdersSent := atoi v\<rparr>
      else if key = ''acks_received'' then m\<lparr>px_AcksReceived := atoi v\<rparr>
      else if key = ''fills_received'' then m\<lparr>px_FillsReceived := atoi v\<rparr>
      else if key = ''timeouts'' then m\<lparr>px_Timeouts := atoi v\<rparr>
      else if key = ''connect_errors'' then m\<lparr>px_ConnectErrors := atoi v\<rparr>
      else if key = ''tps'' then m\<lparr>px_TPS := atof v\<rparr>
      else if key = ''p50'' then m\<lparr>px_P50MS := parseMS v\<rparr>
      else if key = ''p90'' then m\<lparr>px_P90MS := parseMS v\<rparr>
      else if key = ''p99'' then m\<lparr>px_P99MS := parseMS v\<rparr>
      else if key = ''events_out'' then m\<lparr>px_EventsOut := v\<rparr>
      else if key = ''outputs_out'' then m\<lparr>px_OutputsOut := v\<rparr>
      else m)"

definition panel_metric_line :: "string \<Rightarrow> PanelMetrics \<Rightarrow> PanelMetrics" where
  "panel_metric_line line m =
     (case CutChar CHR '':'' line of None \<Rightarrow> m
      | Some (key, v) \<Rightarrow> panel_metric_field (TrimSpace key) (TrimSpace v) m)"

definition panel_parseMetrics :: "string \<Rightarrow> PanelMetrics" where
  "panel_parseMetrics text = fold panel_metric_line (SplitChar CHR 0x0A text) zeroPanelMetrics"

definition panel_validateBenchmarkLoad :: "PanelMetrics \<Rightarrow> string option" where
  "panel_validateBenchmarkLoad m =
     (if px_OrdersSent m \<le> 0 then
        (if px_ConnectErrors m > 0
         then Some (''bot fleet produced no orders; connect_errors='' @ Itoa (px_ConnectErrors m))
         else Some ''bot fleet produced no orders'')
      else None)"

text \<open>
  The outputs are split as in the orchestrator, line by line into three files, but without buffers: when
  the scanner fails the lines before are in the files. \<^verbatim>\<open>outputKind\<close> is the same.
\<close>

definition panel_splitOutputs :: "Machine \<Rightarrow> string \<Rightarrow> string \<Rightarrow> files \<Rightarrow> files \<times> string option" where
  "panel_splitOutputs M outputsPath artifactDir fs =
     (let acks = path_Join [artifactDir, ''acks.jsonl'']; fills = path_Join [artifactDir, ''fills.jsonl''];
          cancels = path_Join [artifactDir, ''cancels.jsonl''] in
      case fs outputsPath of
        None \<Rightarrow> (fs, Some (''open '' @ outputsPath))
      | Some _ \<Rightarrow>
          (case Executor.WriteFile M acks [] fs of (fs, Some e) \<Rightarrow> (fs, Some e) | (fs, None) \<Rightarrow>
          (case Executor.WriteFile M fills [] fs of (fs, Some e) \<Rightarrow> (fs, Some e) | (fs, None) \<Rightarrow>
          (case Executor.WriteFile M cancels [] fs of (fs, Some e) \<Rightarrow> (fs, Some e) | (fs, None) \<Rightarrow>
             let data = (case fs outputsPath of Some d \<Rightarrow> d | None \<Rightarrow> []);
                 (lines, ok) = Scan data; (a, f, c) = fold (split_line M) lines ([], [], []) in
             (fs(acks \<mapsto> a, fills \<mapsto> f, cancels \<mapsto> c), if ok then None else Some ''bufio.Scanner: token too long'')))))"

definition panel_writeSplitArtifacts :: "Machine \<Rightarrow> string \<Rightarrow> string \<Rightarrow> string \<Rightarrow> files \<Rightarrow> files \<times> string option" where
  "panel_writeSplitArtifacts M eventsPath outputsPath artifactDir fs =
     (case copyFile M eventsPath (path_Join [artifactDir, ''orders.jsonl'']) fs of
        (fs, Some e) \<Rightarrow> (fs, Some e)
      | (fs, None) \<Rightarrow> panel_splitOutputs M outputsPath artifactDir fs)"

text \<open>\<open>encode\<close> is the JSON encoder of the control panel's metrics.\<close>

definition panel_store_fleet :: "Machine \<Rightarrow> (PanelMetrics \<Rightarrow> string option) \<Rightarrow> string \<Rightarrow> PanelMetrics \<Rightarrow> files \<Rightarrow> files \<times> string option" where
  "panel_store_fleet M encode dir m fs =
     (case encode m of
        None \<Rightarrow> (fs, Some ''json: unsupported value'')
      | Some data \<Rightarrow>
          (case Executor.WriteFile M (path_Join [dir, ''metrics.json'']) (data @ [CHR 0x0A]) fs of
             (fs, Some e) \<Rightarrow> (fs, Some e)
           | (fs, None) \<Rightarrow> panel_writeSplitArtifacts M (path_Join [dir, ''events.jsonl''])
               (path_Join [dir, ''contestant_outputs.jsonl'']) dir fs))"

definition panel_BotFleet_Run :: "Machine \<Rightarrow> (PanelMetrics \<Rightarrow> string option) \<Rightarrow> string \<Rightarrow> PanelRun \<Rightarrow> string \<Rightarrow> files \<Rightarrow>
    files \<times> PanelMetrics option \<times> string option" where
  "panel_BotFleet_Run M encode repoRoot r endpoint fs =
     (let (fs, output) = panel_runLoggedCommand M r repoRoot ''cargo'' (panel_fleet_args r endpoint) fs
      in case co_Err output of
           Some e \<Rightarrow> (fs, None, Some (''bot fleet failed: '' @ e))
         | None \<Rightarrow>
             let m = (panel_parseMetrics (co_Stdout output))\<lparr>px_RawOutput := co_Stdout output\<rparr>;
                 m = (if px_RunID m = [] then m\<lparr>px_RunID := pn_RunID r\<rparr> else m) in
             (case panel_store_fleet M encode (pn_ArtifactDir r) m fs of
                (fs, Some e) \<Rightarrow> (fs, None, Some e)
              | (fs, None) \<Rightarrow> (fs, Some m, panel_validateBenchmarkLoad m)))"

subsection \<open>Agreement with the orchestrator's\<close>

lemma panel_parse_agrees: "panel_parseMetrics text = panel_metrics (parseMetrics text)"
proof -
  have field: "panel_metric_field k v (panel_metrics m) = panel_metrics (metric_field k v m)" for k v m
    unfolding panel_metric_field_def metric_field_def by (simp add: panel_metrics_def)
  have lines: "fold panel_metric_line ls (panel_metrics m) = panel_metrics (fold metric_line ls m)" for ls m
    by (induction ls arbitrary: m) (simp_all add: panel_metric_line_def metric_line_def field split: option.split prod.split)
  have "zeroPanelMetrics = panel_metrics zeroMetrics"
    by (simp add: zeroPanelMetrics_def zeroMetrics_def panel_metrics_def)
  from lines [of "SplitChar CHR 0x0A text" zeroMetrics, folded this] show ?thesis unfolding panel_parseMetrics_def parseMetrics_def .
qed

lemma panel_load_agrees: "panel_validateBenchmarkLoad (panel_metrics m) = validateBenchmarkLoad m"
  by (simp add: panel_validateBenchmarkLoad_def validateBenchmarkLoad_def panel_metrics_def)

lemma panel_split_agrees: "snd (panel_splitOutputs M out dir fs) = snd (splitOutputs M out dir fs)"
  "snd (splitOutputs M out dir fs) = None \<Longrightarrow> panel_splitOutputs M out dir fs = splitOutputs M out dir fs"
  by (auto simp: panel_splitOutputs_def splitOutputs_def Let_def split: option.split prod.split if_splits)

lemma panel_write_agrees: "snd (panel_writeSplitArtifacts M ev out dir fs) = snd (writeSplitArtifacts M ev out dir fs)"
  "snd (writeSplitArtifacts M ev out dir fs) = None \<Longrightarrow> panel_writeSplitArtifacts M ev out dir fs = writeSplitArtifacts M ev out dir fs"
  using panel_split_agrees by (auto simp: panel_writeSplitArtifacts_def writeSplitArtifacts_def split: option.split prod.split)

end
