(* ===== verification/EngineTypes.thy ===== *)
theory EngineTypes
  imports MutexEngine
begin

text \<open>
  The values of the engine have their types.  Prices and quantities are \<^verbatim>\<open>int64\<close> in the code and integers
  in the model, and a side, a status, a reason are strings with a few legal values.  The typing below is
  kept by every step, so no subtraction of the matching loops leaves the 64-bit range and everything that
  goes out on the wire is of the documented form.
\<close>

section \<open>Typing\<close>

definition name_typed :: "string \<Rightarrow> bool" where
  "name_typed s \<longleftrightarrow> s \<noteq> [] \<and> length s \<le> maxOrderFieldLen"

definition order_typed :: "Order \<Rightarrow> bool" where
  "order_typed x \<longleftrightarrow> in_i64 (o_Price x) \<and> 0 \<le> o_Qty x \<and> in_i64 (o_Qty x) \<and> o_Side x \<in> {''BUY'', ''SELL''} \<and>
     name_typed (o_ID x) \<and> name_typed (o_Symbol x)"

definition fill_typed :: "Fill \<Rightarrow> bool" where
  "fill_typed f \<longleftrightarrow> f_Type f = ''fill'' \<and> in_i64 (f_Price f) \<and> 0 < f_Qty f \<and> in_i64 (f_Qty f) \<and>
     name_typed (f_BuyOrderID f) \<and> name_typed (f_SellOrderID f) \<and> name_typed (f_Symbol f)"

definition ack_typed :: "Ack \<Rightarrow> bool" where
  "ack_typed a \<longleftrightarrow> ack_Type a = ''ack'' \<and>
     (ack_Status a, ack_Reason a) \<in> {(''accepted'', []), (''accepted'', ''residual_dropped''), (''canceled'', []), (''not_found'', []),
        (''rejected'', ''invalid_order''), (''rejected'', ''field_too_long''), (''rejected'', ''book_full'')}"

fun out_typed :: "emitted \<Rightarrow> bool" where
  "out_typed (OutAck a) = ack_typed a"
| "out_typed (OutFill f) = fill_typed f"

fun req_typed :: "request \<Rightarrow> bool" where
  "req_typed (ReqNew now ord owner) = (in_i64 (no_Price ord) \<and> in_i64 (no_Qty ord))"
| "req_typed (ReqLoad i now c) = True"
| "req_typed (ReqLocked i now) = True"

definition heap_typed :: "Engine \<Rightarrow> bool" where
  "heap_typed e \<longleftrightarrow> (\<forall>r < c_next e. order_typed (c_heap e r))"

definition sys_typed :: "Sys \<Rightarrow> bool" where
  "sys_typed s \<longleftrightarrow> heap_typed (s_engine s) \<and> list_all out_typed (s_out s)"

text \<open>A subtraction of the matching loops does not wrap.\<close>

lemma decQty_exact: "\<lbrakk>order_typed (h r); 0 \<le> q; q \<le> o_Qty (h r)\<rbrakk> \<Longrightarrow> o_Qty (decQty r q h r) = wrap64 (o_Qty (h r) - q)"
  by (simp add: decQty_def order_typed_def in_i64_def)

section \<open>Preservation\<close>

lemma less_qty_typed: "\<lbrakk>order_typed x; same_order x y; 0 \<le> o_Qty y; o_Qty y \<le> o_Qty x\<rbrakk> \<Longrightarrow> order_typed y"
  using same_orderD [of x y] by (auto simp: order_typed_def in_i64_def)

lemma new_active_typed:
  assumes "\<not> invalid_order ord" "length (no_ClientOrderID ord) \<le> maxOrderFieldLen" "name_typed symbol"
    "in_i64 (no_Price ord)" "in_i64 (no_Qty ord)"
  shows "order_typed (new_active ord owner symbol book)"
  using assms by (auto simp: order_typed_def new_active_def invalid_order_def name_typed_def Let_def)

lemma match_typed:
  assumes ok: "book_ok (c_heap e) (c_next e) broken symbol book" and t: "heap_typed e"
    and new: "order_typed (new_active ord owner symbol book)" "0 < no_Qty ord"
    and m: "Engine_match bs (new_core e ord owner symbol book)
      (book\<lparr>b_insertSeq := b_insertSeq book + 1\<rparr>) (c_next e) market = (e3, book2, ds)"
  shows "r < c_next e3 \<Longrightarrow> order_typed (c_heap e3 r)" "d \<in> set ds \<Longrightarrow> fill_typed (fd_Fill d)"
proof -
  let ?c = "new_core e ord owner symbol book" and ?b = "book\<lparr>b_insertSeq := b_insertSeq book + 1\<rparr>" and ?a = "c_next e"
  let ?tr = "trades_of ?c ?b bs ?a market"
  note mt = new_matchable [OF ok, of ord owner "b_insertSeq book + 1" bs]
  note res = Engine_match_result [OF mt m] and am = after_match [OF ok m new(2)]
  have c: "order_typed (c_heap ?c r)" if "r \<le> ?a" for r
    using that t new(1) by (cases "r = ?a") (simp_all add: new_core_def heap_typed_def)
  have sub: "r < ?a" if "(r, q) \<in> set ?tr" for r q
  proof -
    have "r \<in> set (opp bs book)" using that trades_of_fst [of ?c ?b bs ?a market] by force
    then show ?thesis using side_okD(1) [OF book_ok_opp [OF ok]] by blast
  qed
  show "order_typed (c_heap e3 r)" if r: "r < c_next e3"
  proof (rule less_qty_typed [OF c])
    show "r \<le> ?a" using r am(1) by simp
    show "same_order (c_heap ?c r) (c_heap e3 r)" by (simp add: res(1))
    have "0 \<le> o_Qty (c_heap e3 r) \<and> o_Qty (c_heap e3 r) \<le> o_Qty (c_heap ?c r)"
    proof (cases "r = ?a")
      case True
      then show ?thesis
        using am(10) trades_of_bounds(1) [OF mt, of market] new(2)
          settle_active [OF trades_of_active [OF mt], of "c_heap ?c" market]
        by (simp add: res(1)) (simp add: new_core_def new_active_def)
    next
      case other: False
      show ?thesis
      proof (cases "r \<in> fst ` set ?tr")
        case True
        then obtain q where q: "(r, q) \<in> set ?tr" by force
        show ?thesis
          using trades_of_qty [OF mt q] settle_resting [OF trades_of_active [OF mt] trades_of_distinct [OF mt] q, of "c_heap ?c"]
          by (simp add: res(1))
      next
        case False
        then have "c_heap e3 r = c_heap ?c r" using settle_other [OF other False] by (simp add: res(1))
        then show ?thesis using c [OF \<open>r \<le> ?a\<close>] by (simp add: order_typed_def)
      qed
    qed
    then show "0 \<le> o_Qty (c_heap e3 r)" "o_Qty (c_heap e3 r) \<le> o_Qty (c_heap ?c r)" by simp_all
  qed
  show "fill_typed (fd_Fill d)" if dm: "d \<in> set ds"
  proof -
    have len: "length ds = length ?tr" unfolding res(3) by simp
    obtain i where "i < length ds" "ds ! i = d" using dm unfolding in_set_conv_nth by blast
    then have i: "i < length ?tr" and d: "d = ds ! i" by (simp_all add: len)
    have i2: "d = fill_of (c_heap ?c) bs ?a (?tr ! i) (c_engineSeq ?c + 1 + of_nat i)"
      unfolding d res(3) by (rule fills_of_nth [OF i])
    obtain r q where rq: "?tr ! i = (r, q)" by fastforce
    then have mem: "(r, q) \<in> set ?tr" using i nth_mem [of i ?tr] by (simp only:)
    have "order_typed (c_heap ?c r)" "order_typed (c_heap ?c ?a)" using c sub [OF mem] by simp_all
    moreover have "0 < q" "q \<le> o_Qty (c_heap ?c r)" using trades_of_qty [OF mt mem] by simp_all
    ultimately show ?thesis
      using i2 rq by (auto simp: fill_of_def Let_def fill_typed_def order_typed_def in_i64_def)
  qed
qed

lemma mkAck_typed: "ack_typed (mkAck c s q n r) \<longleftrightarrow> ack_typed \<lparr>ack_Type = ''ack'', ack_ClientOrderID = [], ack_Status = s,
    ack_EngineSeq = 0, ack_TsNs = 0, ack_Reason = r\<rparr>"
  by (simp add: ack_typed_def mkAck_def)

lemma ProcessNew_typed:
  assumes inv: "engine_ok e" and sb: "seq_bound k e" "k < 2 ^ 64 - 1" and t: "heap_typed e"
    and i64: "in_i64 (no_Price ord)" "in_i64 (no_Qty ord)" and r: "ProcessNew e now ord owner = (e', ack, ds)"
  shows "heap_typed e'" "ack_typed ack" "list_all (fill_typed \<circ> fd_Fill) ds"
proof -
  have "heap_typed e' \<and> ack_typed ack \<and> list_all (fill_typed \<circ> fd_Fill) ds"
  proof (cases "invalid_order ord \<or> length (no_ClientOrderID ord) > maxOrderFieldLen \<or> length (no_Symbol ord) > maxOrderFieldLen")
    case True
    define reason where "reason = (if invalid_order ord then ''invalid_order'' else ''field_too_long'')"
    have "e' = e\<lparr>c_engineSeq := c_engineSeq e + 1\<rparr>" "ds = []" "ack = mkAck (no_ClientOrderID ord) ''rejected'' (c_engineSeq e + 1) now reason"
      using r True by (simp_all add: ProcessNew_def nextSeq_def reason_def split: if_splits)
    then show ?thesis using t by (simp add: heap_typed_def mkAck_def ack_typed_def reason_def)
  next
    case False
    obtain symbol book e1 where
      bf: "bookFor e (if no_Symbol ord = [] then ''DEFAULT'' else no_Symbol ord) = (symbol, book, e1)" using prod_cases3 by blast
    have r1: "ProcessNew_locked e1 now ord owner symbol book = (e', ack, ds)" using False bf r by (simp add: ProcessNew_def Let_def)
    note b = bookFor_result [OF bf] and ok1 = bookFor_ok [OF inv bf] and sb1 = bookFor_seq_bound [OF sb(1) bf]
    note w = seq_bound_w [OF sb1 sb(2) b(7)]
    have valid: "\<not> invalid_order ord" using False by simp
    have sym: "name_typed symbol" using b(1) False by (simp add: name_typed_def maxOrderFieldLen_def)
    have qty: "0 < no_Qty ord" using valid by (auto simp: invalid_order_def Let_def)
    have ok: "book_ok (c_heap e1) (c_next e1) (e_broken e1) symbol book"
      using ok1 b(7) books_okD(1) unfolding engine_ok_def by blast
    have new: "order_typed (new_active ord owner symbol book)" using new_active_typed [OF valid _ sym i64] False by simp
    obtain e3 book2 ds3 where m: "Engine_match (is_buy ord) (new_core e1 ord owner symbol book)
        (book\<lparr>b_insertSeq := b_insertSeq book + 1\<rparr>) (c_next e1) (is_market ord) = (e3, book2, ds3)" using prod_cases3 by blast
    have t1: "heap_typed e1" using t b(2,3) by (simp add: heap_typed_def)
    note mt = match_typed [OF ok t1 new qty m]
    have res: "c_heap e' = c_heap e3" "c_next e' = c_next e3" "ds = ds3"
      using r1 m by (auto simp: ProcessNew_locked_eq Let_def split: if_splits)
    have "ack_Type ack = ''ack''"
      using r1 m by (auto simp: ProcessNew_locked_eq Let_def mkAck_def rejectResidual_def split: if_splits)
    moreover note ProcessNew_locked_outcome(3) [OF ok1 b(7) w valid r1]
    ultimately show ?thesis using mt by (auto simp: heap_typed_def res ack_typed_def list_all_iff split: if_splits)
  qed
  then show "heap_typed e'" "ack_typed ack" "list_all (fill_typed \<circ> fd_Fill) ds" by simp_all
qed

lemma sys_typed_step:
  assumes ok: "sys_ok k s" "k < 2 ^ 64 - 1" and t: "sys_typed s" and q: "req_typed q"
  shows "sys_typed (sys_step q s)"
proof -
  have inv: "engine_ok (s_engine s)" and sb: "seq_bound k (s_engine s)" using ok by (simp_all add: sys_ok_def)
  have h: "heap_typed (s_engine s)" and out: "list_all out_typed (s_out s)" using t by (simp_all add: sys_typed_def)
  show ?thesis
  proof (cases q)
    case (ReqNew now ord owner)
    obtain e ack ds where r: "ProcessNew (s_engine s) now ord owner = (e, ack, ds)" using prod_cases3 by blast
    have "in_i64 (no_Price ord)" "in_i64 (no_Qty ord)" using q ReqNew by simp_all
    from ProcessNew_typed [OF inv sb ok(2) h this r] out show ?thesis
      by (auto simp: ReqNew r sys_typed_def list_all_iff)
  next
    case (ReqLoad i now c)
    obtain e res where r: "ProcessCancel_load (s_engine s) now c = (e, res)" by fastforce
    then have "heap_typed e" "res = Inl ack \<Longrightarrow> ack_typed ack" for ack
      using h by (auto simp: ProcessCancel_load_def nextSeq_def Let_def heap_typed_def mkAck_def ack_typed_def split: option.splits)
    then show ?thesis using t out by (auto simp: ReqLoad r sys_typed_def split: option.splits sum.splits)
  next
    case (ReqLocked i now)
    show ?thesis
    proof (cases "s_pending s i")
      case (Some cr)
      obtain c p where cr: "cr = (c, p)" by fastforce
      obtain e ack where r: "ProcessCancel_locked (s_engine s) now c p = (e, ack)" by fastforce
      have "cancel_ref (s_engine s) c p" using ok Some cr by (simp add: sys_ok_def)
      note lo = ProcessCancel_locked_ok [OF inv this r]
      have "c_next e = c_next (s_engine s)"
        using r by (auto simp: ProcessCancel_locked_def nextSeq_def Let_def bookFor_def split: prod.splits option.splits if_splits)
      then have "heap_typed e" using h lo(8) by (simp add: heap_typed_def)
      moreover have "ack_typed ack" unfolding lo(4) by (simp add: ack_typed_def mkAck_def)
      ultimately show ?thesis using out by (simp add: ReqLocked Some cr r sys_typed_def)
    qed (use t in \<open>simp add: ReqLocked\<close>)
  qed
qed

text \<open>
  C5. The engine is well typed.  Whatever the interleaving of orders and cancels with 64-bit prices and
  quantities, every order it ever holds has a 64-bit price, a 64-bit quantity that is not negative, a
  side, an identifier and a symbol of legal length; every fill is for a positive 64-bit quantity at a
  64-bit price; and every ack has one of the seven documented combinations of status and reason.
\<close>

theorem engine_is_well_typed:
  assumes "length reqs < 2 ^ 64" "\<forall>q \<in> set reqs. req_typed q"
  shows "sys_typed (run_sys reqs (newSys mode))"
  using assms
proof (induction reqs rule: rev_induct)
  case Nil
  then show ?case by (simp add: run_sys_def newSys_def newEngine_def sys_typed_def heap_typed_def)
next
  case (snoc q reqs)
  have "sys_ok (length reqs) (run_sys reqs (newSys mode))" using snoc.prems by (intro run_sys_ok) simp
  from sys_typed_step [OF this, of q] snoc show ?case by (simp add: run_sys_def)
qed

lemma engine_is_well_typed_witness:
  "sys_typed (run_sys [ReqNew 1 (demo_new ''s1'' ''SELL'' ''LIMIT'' 10 5) None, ReqNew 2 (demo_new ''b1'' ''BUY'' ''LIMIT'' 12 3) None]
     (newSys ''normal''))"
  by (rule engine_is_well_typed) (simp_all add: demo_new_def in_i64_def)

end
