(* ===== verification/Worker.thy ===== *)
theory Worker
  imports Orchestrator
begin

text \<open>
  The orchestrator's worker: the goroutine of \<^verbatim>\<open>StartWorker\<close> that claims queued runs, one call of
  \<^verbatim>\<open>claimAvailable\<close> per tick.  A call claims until the queue is empty, until no build slot is free (it
  then waits at the semaphore), until a claim fails, or until the worker is told to stop.  The
  \<open>i\<close>-th attempt of a call meets the environment \<open>envs i\<close>; \<open>ended i\<close> says that its \<^verbatim>\<open>select\<close> took the
  branch of the ended context.
\<close>

section \<open>One call\<close>

datatype next_result = NextParked | NextStopped | NextErr store_error | NextRun BenchmarkRun

text \<open>\<^verbatim>\<open>StartNextQueued\<close> from its slot to its goroutine.\<close>

definition StartNextQueued :: "Setup \<Rightarrow> Env \<Rightarrow> bool \<Rightarrow> Manager \<Rightarrow> next_result \<times> Manager" where
  "StartNextQueued su env stopped m =
     (if stopped then (NextStopped, m)
      else if m_cap m \<le> m_slots m then (NextParked, m)
      else case ClaimNextQueuedRun (su_sort su) (en_io env) (en_now env) (m_file m) of
        (f, Some run, None) \<Rightarrow>
          (NextRun run, register_run (length (m_claimed m)) (StartNextQueued_claim su env m))
      | (f, _, Some e) \<Rightarrow> (NextErr e, m\<lparr>m_file := f\<rparr>)
      | (f, None, None) \<Rightarrow> (NextErr ErrNotFound, m\<lparr>m_file := f\<rparr>))"

datatype worker_end = Drained | Parked | Stopped | ClaimFailed store_error

lemma StartNextQueued_slots:
  "StartNextQueued su env stopped m = (NextRun run, m') \<Longrightarrow> m_slots m' = Suc (m_slots m) \<and> m_slots m < m_cap m \<and> m_cap m' = m_cap m"
  by (auto simp: StartNextQueued_def StartNextQueued_claim_def register_run_def Let_def
      split: if_splits prod.splits option.splits)

function claimAvailable :: "Setup \<Rightarrow> (nat \<Rightarrow> Env) \<Rightarrow> (nat \<Rightarrow> bool) \<Rightarrow> nat \<Rightarrow> Manager \<Rightarrow> worker_end \<times> Manager" where
  "claimAvailable su envs ended i m =
     (case StartNextQueued su (envs i) (ended i) m of
        (NextRun run, m') \<Rightarrow> claimAvailable su envs ended (Suc i) m'
      | (NextErr e, m') \<Rightarrow> (if e = ErrNotFound then Drained else ClaimFailed e, m')
      | (NextStopped, m') \<Rightarrow> (Stopped, m')
      | (NextParked, m') \<Rightarrow> (Parked, m'))"
  by pat_completeness auto
termination
  by (relation "measure (\<lambda>(su, envs, ended, i, m). m_cap m - m_slots m)") (auto dest!: sym [THEN StartNextQueued_slots])

declare claimAvailable.simps [simp del]

section \<open>The worker\<close>

text \<open>\<open>interval\<close> in nanoseconds.\<close>

definition StartWorker_interval :: "int \<Rightarrow> int" where
  "StartWorker_interval interval = (if interval \<le> 0 then 2000000000 else interval)"

text \<open>
  What the other goroutines do before a tick, then a call at it.  The loop leaves when its context has
  ended (\<open>True\<close>), which the call may have noticed or not.
\<close>

fun worker_loop :: "Setup \<Rightarrow> (event list \<times> (nat \<Rightarrow> Env) \<times> (nat \<Rightarrow> bool) \<times> bool) list \<Rightarrow> Manager \<Rightarrow> Manager" where
  "worker_loop su [] m = m"
| "worker_loop su ((evs, envs, ended, done) # rounds) m =
     (let m' = snd (claimAvailable su envs ended 0 (run_mgr su evs m))
      in if done then m' else worker_loop su rounds m')"

section \<open>The worker is made of the manager's events\<close>

lemma run_mgr_append: "run_mgr su (evs @ evs') m = run_mgr su evs' (run_mgr su evs m)"
  by (simp add: run_mgr_def)

lemma StartNextQueued_events: "\<exists>evs. snd (StartNextQueued su env stopped m) = run_mgr su evs m"
proof (cases "StartNextQueued su env stopped m")
  case (Pair r m')
  consider "r = NextStopped \<or> r = NextParked" | run where "r = NextRun run" | e where "r = NextErr e"
    by (cases r) auto
  then show ?thesis
  proof cases
    case 1
    with Pair have "m' = run_mgr su [] m"
      by (auto simp: StartNextQueued_def run_mgr_def split: if_splits prod.splits option.splits)
    then show ?thesis using Pair by auto
  next
    case 2
    with Pair have "m' = run_mgr su [EvStartNext env, EvRegister (length (m_claimed m))] m"
      by (auto simp: StartNextQueued_def run_mgr_def split: if_splits prod.splits option.splits)
    then show ?thesis using Pair by (metis snd_conv)
  next
    case 3
    with Pair have "m' = run_mgr su [EvStartNext env] m"
      by (auto simp: StartNextQueued_def StartNextQueued_claim_def run_mgr_def split: if_splits prod.splits option.splits)
    then show ?thesis using Pair by (metis snd_conv)
  qed
qed

lemma claimAvailable_events: "\<exists>evs. snd (claimAvailable su envs ended i m) = run_mgr su evs m"
proof (induction su envs ended i m rule: claimAvailable.induct)
  case (1 su envs ended i m)
  obtain r m' where r: "StartNextQueued su (envs i) (ended i) m = (r, m')" by fastforce
  obtain evs where evs: "m' = run_mgr su evs m" using StartNextQueued_events r by (metis snd_conv)
  show ?case
  proof (cases r)
    case (NextRun run)
    then obtain evs' where "snd (claimAvailable su envs ended (Suc i) m') = run_mgr su evs' m'"
      using 1 [OF r [symmetric]] by blast
    then have "snd (claimAvailable su envs ended i m) = run_mgr su (evs @ evs') m"
      using r NextRun evs by (simp add: claimAvailable.simps [of su envs ended i m] run_mgr_append)
    then show ?thesis by blast
  qed (use r evs in \<open>auto simp: claimAvailable.simps [of su envs ended i m]\<close>)
qed

lemma worker_loop_events: "\<exists>evs. worker_loop su rounds m = run_mgr su evs m"
proof (induction su rounds m rule: worker_loop.induct)
  case (1 su m)
  show ?case by (rule exI [of _ "[]"]) (simp add: run_mgr_def)
next
  case (2 su evs envs ended fin rounds m)
  let ?m = "snd (claimAvailable su envs ended 0 (run_mgr su evs m))"
  obtain evs1 where 1: "?m = run_mgr su (evs @ evs1) m" using claimAvailable_events by (metis run_mgr_append)
  show ?case
  proof (cases fin)
    case True
    then show ?thesis using 1 by auto
  next
    case False
    then obtain evs2 where "worker_loop su rounds ?m = run_mgr su evs2 ?m" using 2 by blast
    then show ?thesis using False 1 by (auto simp: Let_def run_mgr_append [symmetric])
  qed
qed

text \<open>So the invariant of the manager holds with the worker running.\<close>

lemma worker_loop_ok: "\<lbrakk>run_sorter (su_sort su); mgr_ok su m\<rbrakk> \<Longrightarrow> mgr_ok su (worker_loop su rounds m)"
  using worker_loop_events mgr_ok_run by metis

section \<open>The queue is drained\<close>

text \<open>
  \<open>claims m rs m'\<close>: from \<open>m\<close> to \<open>m'\<close> exactly the runs \<open>rs\<close> were claimed, in this order; each was queued,
  has a slot and a fresh goroutine, and every other run is as it was.
\<close>

definition claims :: "Manager \<Rightarrow> BenchmarkRun list \<Rightarrow> Manager \<Rightarrow> bool" where
  "claims m rs m' \<longleftrightarrow>
     m_execs m' = m_execs m @ map newExec rs \<and> m_slots m' = m_slots m + length rs \<and> m_cap m' = m_cap m \<and>
     distinct (map br_RunID rs) \<and>
     (\<forall>r\<in>set rs. \<exists>q now. run_in (m_file m) (br_RunID r) = Some q \<and> br_Status q = Queued \<and> r = Touch now Building q) \<and>
     (\<forall>i. run_in (m_file m') i = (case find (\<lambda>r. br_RunID r = i) rs of Some r \<Rightarrow> Some r | None \<Rightarrow> run_in (m_file m) i))"

definition queued_in :: "store_file \<Rightarrow> BenchmarkRun \<Rightarrow> bool" where
  "queued_in f q \<longleftrightarrow> run_in f (br_RunID q) = Some q \<and> br_Status q = Queued"

lemma queued_in_runs: "ids_ok f \<Longrightarrow> queued_in f q \<longleftrightarrow> q \<in> set (runs_of f) \<and> br_Status q = Queued"
  using find_id_iff by (auto simp: queued_in_def run_in_def ids_ok_def)

definition oldest_first :: "BenchmarkRun list \<Rightarrow> bool" where
  "oldest_first rs \<longleftrightarrow> sorted_wrt (\<lambda>a b. br_CreatedAt a \<le> br_CreatedAt b) rs"

lemma ClaimNext_works:
  assumes "run_sorter srt" and "f \<noteq> FileCorrupt"
  shows "(\<exists>f' r. ClaimNextQueuedRun srt io_good now f = (f', Some r, None) \<and> f' \<noteq> FileCorrupt \<and> br_Status r = Building) \<or>
    ClaimNextQueuedRun srt io_good now f = (f, None, Some ErrNotFound) \<and> (\<forall>q\<in>set (runs_of f). br_Status q \<noteq> Queued)"
proof -
  obtain s where s: "loadLocked io_good f = Inr s" using assms(2) by (cases f) (auto simp: loadLocked_def io_good_def)
  note rs = runs_of_load [OF s]
  show ?thesis
  proof (cases "claim_queued now (srt (sn_Runs s))")
    case None
    then have "\<forall>q\<in>set (srt (sn_Runs s)). br_Status q \<noteq> Queued" by (simp only: claim_queued_None)
    with None show ?thesis using run_sorter.srt_set [OF assms(1)] rs s by (simp add: ClaimNextQueuedRun_def io_good_def)
  next
    case (Some p)
    have "claim_queued now xs = Some (x, ys) \<Longrightarrow> br_Status x = Building" for xs x ys
      by (induction xs arbitrary: ys) (auto split: if_splits)
    with Some s show ?thesis
      by (cases p) (auto simp: ClaimNextQueuedRun_def writeLocked_def io_good_def cloneRun_def)
  qed
qed

lemma ClaimNext_building:
  assumes "ClaimNextQueuedRun srt io now f = (f', Some r, None)"
  shows "br_Status r = Building"
proof -
  have "claim_queued now xs = Some (x, ys) \<Longrightarrow> br_Status x = Building" for xs x ys
    by (induction xs arbitrary: ys) (auto split: if_splits)
  with assms show ?thesis
    by (auto simp: ClaimNextQueuedRun_def cloneRun_def split: if_splits sum.splits option.splits prod.splits)
qed

text \<open>One claim extends a history of claims at its end.\<close>

lemma claims_refl: "claims m [] m"
  by (simp add: claims_def)

lemma claims_snoc:
  assumes c: "claims m rs m1" and r: "run_in (m_file m1) (br_RunID r) = Some q" "br_Status q = Queued" "r = Touch now Building q"
    and m2: "m_execs m2 = m_execs m1 @ [newExec r]" "m_slots m2 = Suc (m_slots m1)" "m_cap m2 = m_cap m1"
      "\<And>i. run_in (m_file m2) i = (if i = br_RunID r then Some r else run_in (m_file m1) i)"
  shows "claims m (rs @ [r]) m2"
proof -
  have old: "run_in (m_file m1) i = (case find (\<lambda>r. br_RunID r = i) rs of Some r \<Rightarrow> Some r | None \<Rightarrow> run_in (m_file m) i)" for i
    using c by (simp add: claims_def)
  have new: "find (\<lambda>r'. br_RunID r' = br_RunID r) rs = None"
  proof (rule ccontr)
    assume "\<not> ?thesis"
    then obtain r' where r': "find (\<lambda>r'. br_RunID r' = br_RunID r) rs = Some r'" by auto
    then have "r' \<in> set rs" by (auto simp: find_Some_iff)
    then have "br_Status r' = Building" using c by (auto simp: claims_def)
    with r(1,2) old [of "br_RunID r"] r' show False by simp
  qed
  then have fresh: "br_RunID r \<notin> br_RunID ` set rs" by (auto simp: find_None_iff)
  have "run_in (m_file m) (br_RunID r) = Some q" using r(1) old [of "br_RunID r"] new by simp
  moreover have "find (\<lambda>r. br_RunID r = i) (rs @ [r]) =
    (case find (\<lambda>r. br_RunID r = i) rs of Some x \<Rightarrow> Some x | None \<Rightarrow> if br_RunID r = i then Some r else None)" for i
    by (induction rs) auto
  ultimately show ?thesis
    using c r m2 old new fresh by (auto simp: claims_def split: option.splits)
qed

lemma StartNextQueued_claims:
  assumes srt: "run_sorter (su_sort su)" and ids: "ids_ok (m_file m)"
    and s: "StartNextQueued su env stopped m = (NextRun r, m')"
  shows "\<exists>q. run_in (m_file m) (br_RunID r) = Some q \<and> br_Status q = Queued \<and> r = Touch (en_now env) Building q \<and>
      (\<forall>q'. queued_in (m_file m) q' \<longrightarrow> br_CreatedAt r \<le> br_CreatedAt q')"
    and "m_execs m' = m_execs m @ [newExec r]" "m_slots m' = Suc (m_slots m)" "m_cap m' = m_cap m" "ids_ok (m_file m')"
    and "run_in (m_file m') i = (if i = br_RunID r then Some r else run_in (m_file m) i)"
proof -
  obtain f where c: "ClaimNextQueuedRun (su_sort su) (en_io env) (en_now env) (m_file m) = (f, Some r, None)"
    and m': "m' = register_run (length (m_claimed m)) (StartNextQueued_claim su env m)" and slot: "m_slots m < m_cap m"
    using s by (auto simp: StartNextQueued_def split: if_splits prod.splits option.splits)
  have eq: "m' = m\<lparr>m_file := f, m_slots := m_slots m + 1, m_cancels := (m_cancels m)(br_RunID r := Some (length (m_execs m))),
      m_execs := m_execs m @ [newExec r]\<rparr>"
    unfolding m' using c slot by (simp add: StartNextQueued_claim_def register_run_def Let_def)
  show "m_execs m' = m_execs m @ [newExec r]" "m_slots m' = Suc (m_slots m)" "m_cap m' = m_cap m"
    unfolding eq by simp_all
  note n = run_sorter.ClaimNext_result [OF srt c ids]
  have cl: "claimed (f, Some r, None) = Some r" using ClaimNext_building [OF c] by (simp add: claimed_def Terminal_def)
  from n(4) [OF cl] obtain q where q: "run_in (m_file m) (br_RunID r) = Some q" "br_Status q = Queued"
    "r = Touch (en_now env) Building q" "\<And>i. run_in f i = (if i = br_RunID r then Some r else run_in (m_file m) i)"
    "\<forall>q'\<in>set (runs_of (m_file m)). br_Status q' = Queued \<longrightarrow> br_CreatedAt q \<le> br_CreatedAt q'" by blast
  have "br_CreatedAt r = br_CreatedAt q" using q(3) by simp
  then show "\<exists>q. run_in (m_file m) (br_RunID r) = Some q \<and> br_Status q = Queued \<and> r = Touch (en_now env) Building q \<and>
      (\<forall>q'. queued_in (m_file m) q' \<longrightarrow> br_CreatedAt r \<le> br_CreatedAt q')"
    using q(1,2,3,5) ids by (intro exI [of _ q]) (simp add: queued_in_runs)
  show "ids_ok (m_file m')" using n(1) by (simp add: eq)
  show "run_in (m_file m') i = (if i = br_RunID r then Some r else run_in (m_file m) i)" using q(4) by (simp add: eq)
qed

text \<open>
  What a call leaves behind, when the disk works and nobody stops it.  \<open>rs\<close> are the runs claimed so far,
  none younger than what is still queued.
\<close>

definition drained :: "Manager \<Rightarrow> worker_end \<times> Manager \<Rightarrow> bool" where
  "drained m res \<longleftrightarrow> (\<exists>rs. claims m rs (snd res) \<and> oldest_first rs \<and>
     (\<forall>r\<in>set rs. \<forall>q. queued_in (m_file (snd res)) q \<longrightarrow> br_CreatedAt r \<le> br_CreatedAt q) \<and>
     (fst res = Parked \<and> m_slots (snd res) = m_cap (snd res) \<or>
      fst res = Drained \<and> (\<forall>q. \<not> queued_in (m_file (snd res)) q)))"

lemma drainedI:
  assumes "claims m rs m'" "oldest_first rs" "\<forall>r\<in>set rs. \<forall>q. queued_in (m_file m') q \<longrightarrow> br_CreatedAt r \<le> br_CreatedAt q"
    "e = Parked \<and> m_slots m' = m_cap m' \<or> e = Drained \<and> (\<forall>q. \<not> queued_in (m_file m') q)"
  shows "drained m (e, m')"
  using assms by (auto simp: drained_def)

lemma claimAvailable_drains:
  assumes "run_sorter (su_sort su)" and "\<And>i. en_io (envs i) = io_good" and "\<And>i. \<not> ended i"
    and "claims m rs m1" "oldest_first rs" "ids_ok (m_file m1)" "m_file m1 \<noteq> FileCorrupt" "m_slots m1 \<le> m_cap m1"
    and "\<forall>r\<in>set rs. \<forall>q. queued_in (m_file m1) q \<longrightarrow> br_CreatedAt r \<le> br_CreatedAt q"
  shows "drained m (claimAvailable su envs ended i m1)"
  using assms
proof (induction su envs ended i m1 arbitrary: rs rule: claimAvailable.induct)
  case (1 su envs ended i m1)
  note fl = "1.prems"(6,7) and old = "1.prems"(9)
  obtain r m2 where r: "StartNextQueued su (envs i) (ended i) m1 = (r, m2)" by fastforce
  note step = claimAvailable.simps [of su envs ended i m1, unfolded r]
  show ?case
  proof (cases "m_cap m1 \<le> m_slots m1")
    case True
    then have "r = NextParked \<and> m2 = m1" using r "1.prems"(3) by (auto simp: StartNextQueued_def)
    with step have eq: "claimAvailable su envs ended i m1 = (Parked, m1)" by simp
    show ?thesis unfolding eq by (rule drainedI [OF "1.prems"(4,5) old]) (use True "1.prems"(8) in simp)
  next
    case free: False
    from ClaimNext_works [OF "1.prems"(1) fl(2), of "en_now (envs i)"] show ?thesis
    proof (elim disjE exE conjE)
      fix f run
      assume c: "ClaimNextQueuedRun (su_sort su) io_good (en_now (envs i)) (m_file m1) = (f, Some run, None)" "f \<noteq> FileCorrupt"
      then have run: "r = NextRun run" and f: "m_file m2 = f"
        using r free "1.prems"(2,3) by (auto simp: StartNextQueued_def StartNextQueued_claim_def register_run_def Let_def)
      note q = StartNextQueued_claims [OF "1.prems"(1) fl(1) r [unfolded run]]
      from q(1) obtain q0 where q0: "run_in (m_file m1) (br_RunID run) = Some q0" "br_Status q0 = Queued"
        "run = Touch (en_now (envs i)) Building q0" "\<And>q'. queued_in (m_file m1) q' \<Longrightarrow> br_CreatedAt run \<le> br_CreatedAt q'"
        by blast
      have "queued_in (m_file m1) q0" using q0 by (simp add: queued_in_def)
      then have "\<forall>x\<in>set rs. br_CreatedAt x \<le> br_CreatedAt run" using old q0(3) by simp
      then have 2: "oldest_first (rs @ [run])" using "1.prems"(5) by (simp add: oldest_first_def sorted_wrt_append)
      have 1: "claims m (rs @ [run]) m2" by (rule claims_snoc [OF "1.prems"(4) q0(1,2,3) q(2,3,4,6)])
      have "queued_in (m_file m2) q' \<Longrightarrow> queued_in (m_file m1) q'" for q'
        using q0(3) by (auto simp: queued_in_def q(6) split: if_splits)
      then have 3: "\<forall>x\<in>set (rs @ [run]). \<forall>q'. queued_in (m_file m2) q' \<longrightarrow> br_CreatedAt x \<le> br_CreatedAt q'"
        using old q0(4) by auto
      have "drained m (claimAvailable su envs ended (Suc i) m2)"
        using "1.IH" [OF r [symmetric] run "1.prems"(1,2,3) 1 2 q(5) _ _ 3] c(2) f free q(3,4) by simp
      then show ?thesis using step run by simp
    next
      assume c: "ClaimNextQueuedRun (su_sort su) io_good (en_now (envs i)) (m_file m1) = (m_file m1, None, Some ErrNotFound)"
        and none: "\<forall>q\<in>set (runs_of (m_file m1)). br_Status q \<noteq> Queued"
      then have "r = NextErr ErrNotFound" "m2 = m1" using r free "1.prems"(2,3) by (auto simp: StartNextQueued_def)
      moreover have "\<not> queued_in (m_file m1) q" for q using none queued_in_runs [OF fl(1)] by blast
      moreover from calculation(1,2) step have eq: "claimAvailable su envs ended i m1 = (Drained, m1)" by simp
      ultimately show ?thesis unfolding eq by (intro drainedI [OF "1.prems"(4,5) old]) simp
    qed
  qed
qed



end
