(* ===== verification/Lifecycle.thy ===== *)
theory Lifecycle
  imports Worker Submission
begin

text \<open>
  A run from the request to the end: the submission API writes it to the file, the orchestrator's worker
  claims it, its goroutine executes it while the rest of the manager goes on, and the file then says
  how it ended.  Nothing new is modelled here; the theory composes the handler of \<^verbatim>\<open>Submission\<close>, the
  worker of \<^verbatim>\<open>Worker\<close> and the manager's events of \<^verbatim>\<open>Orchestrator\<close>.
\<close>

section \<open>What a step of a goroutine writes\<close>

lemma stage_file:
  "snd (stage_step su env p x f) = f \<or> snd (stage_step su env p x f) = fst (SaveRun (en_io env) (x_run x) f)"
proof (cases p)
  case (PSave st)
  obtain g e where "SaveRun (en_io env) (x_run x) f = (g, e)" by fastforce
  then show ?thesis using PSave by (cases e) simp_all
next
  case PScore
  obtain s ok where "Score (su_Log10 su) (en_disk env) (x_run x) (x_metrics x) (x_validation x) = (s, ok)" by fastforce
  then show ?thesis using PScore by (cases ok) simp_all
qed (auto simp: Let_def split: option.split sum.split)

lemma exec_file_other:
  "rid \<noteq> run_id x \<Longrightarrow> run_in (snd (exec_step su env x f)) rid = run_in f rid"
proof -
  assume rid: "rid \<noteq> run_id x"
  have "run_in (fst (SaveRun (en_io env) (x_run x) f)) rid = run_in f rid"
    using SaveRun_result(3) [of "en_io env" "x_run x" f _ _ rid] rid by (cases "SaveRun (en_io env) (x_run x) f") auto
  moreover have "snd (exec_step su env x f) = f \<or> snd (exec_step su env x f) = fst (SaveRun (en_io env) (x_run x) f)"
    using stage_file [of su env "x_pc x" x f] by (auto simp: exec_step_def split: option.split)
  ultimately show ?thesis by auto
qed

text \<open>The points of the pipeline after the outcome was saved.\<close>

definition settled :: "stage \<Rightarrow> bool" where
  "settled p \<longleftrightarrow> p = PPublish \<or> p = PUnwind \<or> p = PCleanup \<or> p = PDone"

text \<open>The file has the run, claimed, and over if \<open>p\<close> says so.\<close>

definition run_state :: "string \<Rightarrow> bool \<Rightarrow> store_file \<Rightarrow> bool" where
  "run_state rid fin f \<longleftrightarrow> (\<exists>r. run_in f rid = Some r \<and> br_Status r \<noteq> Queued \<and> (fin \<longrightarrow> Terminal (br_Status r)))"

lemma run_state_cong: "run_in g rid = run_in f rid \<Longrightarrow> run_state rid fin g = run_state rid fin f"
  by (simp add: run_state_def)

lemma run_state_weaken: "run_state rid fin f \<Longrightarrow> (fin' \<Longrightarrow> fin) \<Longrightarrow> run_state rid fin' f"
  by (auto simp: run_state_def)

lemma save_terminal_state:
  assumes "run_state rid fin f" "Terminal (br_Status run)"
  shows "run_state rid fin (fst (SaveRun io run f))"
proof -
  obtain g e where s: "SaveRun io run f = (g, e)" by fastforce
  have "br_Status run \<noteq> Queued" using assms(2) by (auto simp: Terminal_def)
  then show ?thesis using SaveRun_result(3) [OF s, of rid] assms s by (auto simp: run_state_def)
qed

lemma save_outcome_state:
  assumes "run_state (br_RunID run) fin f" "Terminal (br_Status run)"
  shows "run_state (br_RunID run) True (fst (SaveRun io_good run f))"
proof -
  obtain old where old: "run_in f (br_RunID run) = Some old" using assms(1) by (auto simp: run_state_def)
  obtain g e where s: "SaveRun io_good run f = (g, e)" by fastforce
  have t: "br_Status run \<noteq> Queued" using assms(2) by (auto simp: Terminal_def)
  show ?thesis
  proof (cases "refused old run")
    case True
    then have "g = f" "Terminal (br_Status old)" using SaveRun_result(4) [OF s old] by (auto simp: refused_def)
    moreover have "br_Status old \<noteq> Queued" using calculation(2) by (auto simp: Terminal_def)
    ultimately show ?thesis using old s by (simp add: run_state_def)
  next
    case False
    then have "run_in g (br_RunID run) = Some run" using SaveRun_good [of io_good f run old] old s by (simp add: io_good_def)
    then show ?thesis using assms(2) t s by (simp add: run_state_def)
  qed
qed

lemma stage_settles:
  assumes "exec_ok su x" "en_io env = io_good" "run_state (run_id x) (settled (x_pc x)) f"
  shows "run_state (run_id x) (settled (x_pc (fst (stage_step su env (x_pc x) x f)))) (snd (stage_step su env (x_pc x) x f))"
proof (cases "x_pc x")
  case (PSave st)
  then have st: "st \<in> {Building, SandboxStarting, HealthChecking, Benchmarking, Validating, Scoring}" "br_Status (x_run x) \<noteq> Queued"
    using assms(1) by (auto simp: exec_ok_def split: if_splits)
  obtain g e where s: "SaveRun io_good (x_run x) f = (g, e)" by fastforce
  then have "run_state (run_id x) False g"
    using SaveRun_result(3) [OF s, of "run_id x"] assms(3) st(2) by (auto simp: run_state_def)
  moreover have "\<not> settled (after_save st)" using st(1) by (auto simp: settled_def)
  ultimately show ?thesis using PSave s assms(2) by (cases e) (simp_all add: settled_def)
next
  case PScore
  obtain s ok where "Score (su_Log10 su) (en_disk env) (x_run x) (x_metrics x) (x_validation x) = (s, ok)" by fastforce
  then show ?thesis using PScore assms(3) by (cases ok) (simp_all add: settled_def)
next
  case PCommit
  then have "Terminal (br_Status (x_run x))" using assms(1) by (simp add: exec_ok_def Terminal_def)
  from save_outcome_state [OF assms(3) this] show ?thesis using PCommit assms(2) by (simp add: settled_def)
next
  case PFailSave
  then have "Terminal (br_Status (x_run x))" using assms(1) by (auto simp: exec_ok_def Terminal_def)
  from save_outcome_state [OF assms(3) this] show ?thesis using PFailSave assms(2) by (simp add: settled_def)
qed (use assms(3) in \<open>auto simp: Let_def settled_def split: option.split sum.split\<close>)

lemma exec_settles:
  assumes "exec_ok su x" "en_io env = io_good" "run_state (run_id x) (settled (x_pc x)) f"
  shows "run_state (run_id x) (settled (x_pc (fst (exec_step su env x f)))) (snd (exec_step su env x f))"
proof (cases "\<exists>msg. en_panic env = Some msg \<and> \<not> unwinding (x_pc x)")
  case True
  then show ?thesis using assms(3) by (auto simp: exec_step_def settled_def intro: run_state_weaken)
next
  case False
  then have "exec_step su env x f = stage_step su env (x_pc x) x f" by (auto simp: exec_step_def split: option.split)
  then show ?thesis using stage_settles [OF assms] by simp
qed

section \<open>The run of one goroutine among all events\<close>

text \<open>
  Goroutine \<open>k\<close> is the only one of run \<open>rid\<close> that still lives, and nobody else can come to execute it:
  the file has it claimed.  \<open>good\<close> says that the disk works for this goroutine.
\<close>

definition owns :: "bool \<Rightarrow> nat \<Rightarrow> string \<Rightarrow> Manager \<Rightarrow> bool" where
  "owns good k rid m \<longleftrightarrow> k < length (m_execs m) \<and> run_id (m_execs m ! k) = rid \<and>
     (\<forall>j < length (m_execs m). j \<noteq> k \<and> run_id (m_execs m ! j) = rid \<longrightarrow> \<not> live (m_execs m ! j)) \<and>
     (\<forall>r \<in> set (m_claimed m). br_RunID r \<noteq> rid) \<and>
     run_state rid (good \<and> settled (x_pc (m_execs m ! k))) (m_file m)"

lemma owns_update:
  assumes "owns good k rid m" and "length (m_execs m') = length (m_execs m)"
    and "\<And>j. j < length (m_execs m) \<Longrightarrow> run_id (m_execs m' ! j) = run_id (m_execs m ! j) \<and> (live (m_execs m' ! j) \<longrightarrow> live (m_execs m ! j))"
    and "\<forall>r \<in> set (m_claimed m'). r \<in> set (m_claimed m) \<or> br_RunID r \<noteq> rid"
    and "run_state rid (good \<and> settled (x_pc (m_execs m' ! k))) (m_file m')"
  shows "owns good k rid m'"
  using assms unfolding owns_def by metis

text \<open>Events that leave the goroutines' points and runs alone keep it, as far as the file does.\<close>

lemma owns_frame:
  assumes "owns good k rid m" and "length (m_execs m') = length (m_execs m)"
    and "\<And>j. j < length (m_execs m) \<Longrightarrow> x_pc (m_execs m' ! j) = x_pc (m_execs m ! j) \<and> x_run (m_execs m' ! j) = x_run (m_execs m ! j)"
    and "\<forall>r \<in> set (m_claimed m'). r \<in> set (m_claimed m) \<or> br_RunID r \<noteq> rid"
    and "\<And>fin. run_state rid fin (m_file m) \<Longrightarrow> run_state rid fin (m_file m')"
  shows "owns good k rid m'"
  using assms unfolding owns_def by fastforce

lemma owns_signal: "owns good k rid m \<Longrightarrow> owns good k rid (signal_exec c j m)"
  by (erule owns_frame) (use signal_exec_nth in auto)

lemma owns_claim:
  assumes "owns good k rid m" "run_in (m_file m) (br_RunID run) = Some q" "br_Status q = Queued"
    "\<And>i. run_in g i = (if i = br_RunID run then Some run else run_in (m_file m) i)"
  shows "owns good k rid (m\<lparr>m_file := g, m_slots := n, m_claimed := m_claimed m @ [run]\<rparr>)"
proof -
  have "br_RunID run \<noteq> rid" using assms(1-3) by (auto simp: owns_def run_state_def)
  then show ?thesis by (intro owns_frame [OF assms(1)]) (auto simp: assms(4) run_state_def)
qed

lemma owns_start:
  assumes "owns good k rid m"
  shows "owns good k rid (StartRun_claim env i m)"
proof -
  obtain g ro e where c: "ClaimRun (en_io env) (en_now env) i (m_file m) = (g, ro, e)" using prod_cases3 by blast
  show ?thesis
  proof (cases "claimed (g, ro, e)")
    case None
    then have "g = m_file m" using ClaimRun_result(2) [OF c] by simp
    then show ?thesis using None assms c by (auto simp: StartRun_claim_def claimed_def split: option.splits if_splits)
  next
    case (Some run)
    then obtain q where q: "run_in (m_file m) i = Some q" "br_Status q = Queued" "run = Touch (en_now env) Building q"
      "\<And>j. run_in g j = (if j = i then Some run else run_in (m_file m) j)" using ClaimRun_result(3) [OF c] by blast
    have "br_RunID q = i" using q(1) by (auto simp: run_in_def find_Some_iff)
    then have "br_RunID run = i" using q(3) by simp
    then have "owns good k rid (m\<lparr>m_file := g, m_slots := m_slots m + 1, m_claimed := m_claimed m @ [run]\<rparr>)"
      using owns_claim [OF assms, of run q g] q by simp
    moreover have "ro = Some run" "e = None" "\<not> Terminal (br_Status run)"
      using Some by (auto simp: claimed_def split: option.splits if_splits)
    ultimately show ?thesis using c assms by (simp add: StartRun_claim_def)
  qed
qed

lemma owns_start_next:
  assumes "run_sorter (su_sort su)" "ids_ok (m_file m)" "owns good k rid m"
  shows "owns good k rid (StartNextQueued_claim su env m)"
proof -
  obtain g ro e where c: "ClaimNextQueuedRun (su_sort su) (en_io env) (en_now env) (m_file m) = (g, ro, e)"
    using prod_cases3 by blast
  note res = run_sorter.ClaimNext_result [OF assms(1) c assms(2)]
  show ?thesis
  proof (cases "claimed (g, ro, e)")
    case None
    then show ?thesis using res(3) assms(3) c by (auto simp: StartNextQueued_claim_def)
  next
    case (Some run)
    then obtain q where q: "run_in (m_file m) (br_RunID run) = Some q" "br_Status q = Queued"
      "\<And>j. run_in g j = (if j = br_RunID run then Some run else run_in (m_file m) j)" using res(4) by blast
    have "ro = Some run" "e = None" using Some by (auto simp: claimed_def split: option.splits if_splits)
    then show ?thesis using owns_claim [OF assms(3) q] c assms(3) by (simp add: StartNextQueued_claim_def)
  qed
qed

lemma owns_register:
  assumes "owns good k rid m"
  shows "owns good k rid (register_run i m)"
proof (cases "i < length (m_claimed m)")
  case True
  then have "m_claimed m ! i \<in> set (m_claimed m)" by simp
  then have "br_RunID (m_claimed m ! i) \<noteq> rid" using assms by (simp add: owns_def)
  moreover have "x_run (newExec run) = run" for run by (simp add: newExec_def)
  ultimately show ?thesis
    using assms True by (auto simp: owns_def register_run_def Let_def nth_append less_Suc_eq dest: in_set_takeD in_set_dropD)
qed (use assms in \<open>simp add: register_run_def\<close>)

lemma owns_run_step:
  assumes ok: "mgr_ok su m" and own: "owns good k rid m" and io: "good \<Longrightarrow> j = k \<Longrightarrow> en_io env = io_good"
  shows "owns good k rid (run_step su env j m)"
proof (cases "j < length (m_execs m)")
  case True
  let ?x = "m_execs m ! j" and ?y = "fst (exec_step su env (m_execs m ! j) (m_file m))"
  let ?g = "snd (exec_step su env (m_execs m ! j) (m_file m))"
  have eq: "run_step su env j m = m\<lparr>m_execs := (m_execs m)[j := ?y], m_file := ?g\<rparr>"
    using True by (simp add: run_step_def case_prod_beta)
  have x: "exec_ok su ?x" using ok True by (simp add: mgr_ok_def)
  have st: "run_state rid (good \<and> settled (x_pc (m_execs m ! k))) (m_file m)" and k: "run_id (m_execs m ! k) = rid" "k < length (m_execs m)"
    using own by (simp_all add: owns_def)
  have "run_state rid (good \<and> settled (x_pc ((m_execs m)[j := ?y] ! k))) ?g"
  proof (cases "j = k")
    case self: True
    show ?thesis
    proof (cases good)
      case True
      then show ?thesis using exec_settles [OF x io [OF True self], of "m_file m"] st k self by simp
    next
      case False
      have "kept (m_file m) ?g" by (rule exec_kept [OF x])
      then show ?thesis using st False by (auto simp: run_state_def kept_def)
    qed
  next
    case other: False
    have f: "run_in ?g rid = run_in (m_file m) rid"
    proof (cases "run_id ?x = rid")
      case True
      then have "x_pc ?x = PDone" using own other \<open>j < length (m_execs m)\<close> by (simp add: owns_def)
      then show ?thesis using zero_step [of ?x su env "m_file m"] by simp
    qed (use exec_file_other in simp)
    show ?thesis using st other by (simp add: run_state_cong [OF f])
  qed
  moreover have "run_id ((m_execs m)[j := ?y] ! i) = run_id (m_execs m ! i) \<and> live ((m_execs m)[j := ?y] ! i) = live (m_execs m ! i)" for i
    using True by (cases "i = j") simp_all
  ultimately show ?thesis unfolding eq by (intro owns_update [OF own]) simp_all
qed (use own in \<open>simp add: run_step_def\<close>)

lemma owns_cleanup:
  assumes "owns good k rid m"
  shows "owns good k rid (run_cleanup j m)"
proof (cases "j < length (m_execs m) \<and> x_pc (m_execs m ! j) = PCleanup")
  case True
  define m1 where "m1 = (case m_cancels m (run_id (m_execs m ! j)) of None \<Rightarrow> m | Some i \<Rightarrow> signal_exec CtxCanceled i m)"
  define m' where "m' = run_cleanup j m"
  have own: "owns good k rid m1" using assms owns_signal by (simp add: m1_def split: option.split)
  have pc: "x_pc (m_execs m1 ! j) = PCleanup"
    using True signal_exec_nth [of j m] by (simp add: m1_def split: option.split)
  have m': "m_execs m' = (m_execs m1)[j := (m_execs m1 ! j)\<lparr>x_pc := PDone\<rparr>]" "m_claimed m' = m_claimed m1" "m_file m' = m_file m1"
    using True by (simp_all add: m'_def run_cleanup_def Let_def m1_def)
  have p: "x_run (m_execs m' ! i) = x_run (m_execs m1 ! i)" "live (m_execs m' ! i) \<Longrightarrow> live (m_execs m1 ! i)"
    "settled (x_pc (m_execs m' ! i)) = settled (x_pc (m_execs m1 ! i))" if "i < length (m_execs m1)" for i
    using that pc unfolding m' by (cases "i = j"; simp add: settled_def)+
  have "k < length (m_execs m1)" "run_state rid (good \<and> settled (x_pc (m_execs m1 ! k))) (m_file m1)"
    using own by (simp_all add: owns_def)
  then have "owns good k rid m'" using p by (intro owns_update [OF own]) (simp_all add: m'(2,3), simp add: m'(1))
  then show ?thesis by (simp add: m'_def)
qed (use assms in \<open>auto simp: run_cleanup_def\<close>)

lemma owns_cancel_save:
  assumes "owns good k rid m"
  shows "owns good k rid (cancel_save env i m)"
proof -
  have "owns good k rid (m\<lparr>m_file := fst (SaveRun (en_io env) (finished_run (en_now env) Cancelled run) (m_file m)), m_requests := rq\<rparr>)"
    for run rq
    by (rule owns_frame [OF assms]) (auto intro: save_terminal_state simp: Terminal_def)
  then show ?thesis using assms by (simp add: cancel_save_def Let_def split: cancel_request.split)
qed

lemma owns_cancel_signal: "owns good k rid m \<Longrightarrow> owns good k rid (cancel_signal i m)"
proof -
  assume own: "owns good k rid m"
  have "owns good k rid m1 \<Longrightarrow> owns good k rid (m1\<lparr>m_requests := rq\<rparr>)" for m1 rq by (erule owns_frame) auto
  then show ?thesis using own by (simp add: cancel_signal_def Let_def owns_signal split: cancel_request.split option.split)
qed

lemma Shutdown_nth:
  "length (m_execs (Shutdown m)) = length (m_execs m) \<and> (j < length (m_execs m) \<longrightarrow>
     x_pc (m_execs (Shutdown m) ! j) = x_pc (m_execs m ! j) \<and> x_run (m_execs (Shutdown m) ! j) = x_run (m_execs m ! j))"
  by (simp add: Shutdown_def nth_enumerate_eq)

lemma owns_submit: "owns good k rid m \<Longrightarrow> owns good k rid (submit_run run m)"
proof -
  assume own: "owns good k rid m"
  have "find P (xs @ [z]) = Some r" if "find P xs = Some r" for P r and xs :: "BenchmarkRun list" and z
    using that by (induction xs) auto
  then have "run_state rid fin (m_file m) \<Longrightarrow> run_state rid fin (m_file (submit_run run m))" for fin
    by (cases "m_file m") (auto simp: run_state_def submit_run_def run_in_def runs_of_def)
  moreover have "m_execs (submit_run run m) = m_execs m" "m_claimed (submit_run run m) = m_claimed m"
    by (auto simp: submit_run_def split: store_file.split)
  ultimately show ?thesis by (intro owns_frame [OF own]) simp_all
qed

definition disk_works :: "nat \<Rightarrow> event list \<Rightarrow> bool" where
  "disk_works k evs \<longleftrightarrow> (\<forall>env. EvRun env k \<in> set evs \<longrightarrow> en_io env = io_good)"

lemma owns_step:
  assumes "run_sorter (su_sort su)" "mgr_ok su m" "owns good k rid m" "good \<Longrightarrow> disk_works k [ev]"
  shows "owns good k rid (mgr_step su ev m)"
proof (cases ev)
  case (EvRun env j)
  then have "owns good k rid (run_step su env j m)"
    by (intro owns_run_step [OF assms(2,3)]) (use assms(4) in \<open>auto simp: disk_works_def\<close>)
  then show ?thesis using EvRun by simp
next
  case (EvStartNext env)
  then show ?thesis using owns_start_next [OF assms(1) _ assms(3)] assms(2) by (simp add: mgr_ok_def)
next
  case EvShutdown
  have "owns good k rid (Shutdown m)"
    by (rule owns_frame [OF assms(3)]) (use Shutdown_nth in \<open>auto simp: Shutdown_def\<close>)
  then show ?thesis using EvShutdown by simp
next
  case (EvCancelRead env i)
  have "owns good k rid (cancel_read env i m)"
    by (rule owns_frame [OF assms(3)]) (auto simp: cancel_read_def split: sum.split)
  then show ?thesis using EvCancelRead by simp
qed (use assms(3) in \<open>simp_all add: owns_start owns_register owns_cleanup owns_signal owns_cancel_signal owns_cancel_save owns_submit\<close>)

lemma owns_run:
  assumes "run_sorter (su_sort su)" "mgr_ok su m" "owns good k rid m" "good \<Longrightarrow> disk_works k evs"
  shows "owns good k rid (run_mgr su evs m)"
  using assms(2-4) unfolding run_mgr_def
proof (induction evs arbitrary: m)
  case (Cons ev evs)
  have "owns good k rid (mgr_step su ev m)"
    by (rule owns_step [OF assms(1) Cons.prems(1,2)]) (use Cons.prems(3) in \<open>simp add: disk_works_def\<close>)
  then show ?case using Cons.IH [OF mgr_ok_step [OF assms(1) Cons.prems(1)]] Cons.prems(3) by (simp add: disk_works_def)
qed simp

text \<open>A goroutine that was just started owns its run.\<close>

lemma live_ids_member: "\<lbrakk>x \<in> set xs; live x; run_id x = rid\<rbrakk> \<Longrightarrow> rid \<in># live_ids xs"
  by (auto simp: live_ids_def intro!: image_eqI [where x = x])

lemma owns_new:
  assumes ok: "mgr_ok su m" and k: "k < length (m_execs m)" "m_execs m ! k = newExec run"
  shows "owns good k (br_RunID run) m"
proof -
  let ?rid = "br_RunID run" and ?xs = "m_execs m"
  have x: "live (?xs ! k)" "run_id (?xs ! k) = ?rid" "\<not> settled (x_pc (?xs ! k))"
    using k(2) by (simp_all add: newExec_def settled_def)
  then have self: "?rid \<in># live_ids [?xs ! k]" by (simp add: live_ids_def)
  have split: "active m = mset (map br_RunID (m_claimed m)) + (live_ids (take k ?xs) + live_ids [?xs ! k] + live_ids (drop (Suc k) ?xs))"
    unfolding active_def using live_ids_nth [OF k(1)] by simp
  have one: "count (active m) ?rid \<le> 1" using ok by (simp add: mgr_ok_def)
  then have none: "?rid \<notin> br_RunID ` set (m_claimed m)" "?rid \<notin># live_ids (take k ?xs)" "?rid \<notin># live_ids (drop (Suc k) ?xs)"
    using self unfolding split by (auto simp: not_in_iff live_ids_one x dest!: count_eq_zero_iff [THEN iffD1] split: if_splits)
  have others: "\<not> live (?xs ! j)" if "j < length ?xs" "j \<noteq> k" "run_id (?xs ! j) = ?rid" for j
  proof
    assume l: "live (?xs ! j)"
    have "?xs ! j \<in> set (take k ?xs) \<or> ?xs ! j \<in> set (drop (Suc k) ?xs)"
    proof (cases "j < k")
      case True
      then show ?thesis using that(1) by (auto simp: in_set_conv_nth)
    next
      case False
      then have "drop (Suc k) ?xs ! (j - Suc k) = ?xs ! j" "j - Suc k < length (drop (Suc k) ?xs)" using that(1,2) by auto
      then show ?thesis using nth_mem by metis
    qed
    then show False using none(2,3) live_ids_member [OF _ l that(3)] by blast
  qed
  have "?rid \<in># active m" using self unfolding split by simp
  then have "run_state ?rid False (m_file m)" using ok by (auto simp: mgr_ok_def run_state_def)
  moreover have "\<forall>r \<in> set (m_claimed m). br_RunID r \<noteq> ?rid" using none(1) by (metis imageI)
  ultimately show ?thesis using k(1) x others by (simp add: owns_def)
qed

section \<open>Its progress\<close>

definition steps_of :: "nat \<Rightarrow> event list \<Rightarrow> nat" where
  "steps_of k evs = length (filter (\<lambda>ev. case ev of EvRun env j \<Rightarrow> j = k | _ \<Rightarrow> False) evs)"

lemma cleanup_pc:
  assumes "k < length (m_execs m)"
  shows "k < length (m_execs (run_cleanup j m)) \<and> rank_of (x_pc (m_execs (run_cleanup j m) ! k)) \<le> rank_of (x_pc (m_execs m ! k))"
proof (cases "j < length (m_execs m) \<and> x_pc (m_execs m ! j) = PCleanup")
  case True
  define m1 where "m1 = (case m_cancels m (run_id (m_execs m ! j)) of None \<Rightarrow> m | Some i \<Rightarrow> signal_exec CtxCanceled i m)"
  have pc: "x_pc (m_execs m1 ! i) = x_pc (m_execs m ! i)" if "i < length (m_execs m)" for i
    using that signal_exec_nth [of i m] by (simp add: m1_def split: option.split)
  have len: "length (m_execs m1) = length (m_execs m)" by (simp add: m1_def split: option.split)
  have "m_execs (run_cleanup j m) = (m_execs m1)[j := (m_execs m1 ! j)\<lparr>x_pc := PDone\<rparr>]"
    using True by (simp add: run_cleanup_def Let_def m1_def)
  then show ?thesis using assms pc [of k] len True by (cases "j = k") simp_all
qed (use assms in \<open>auto simp: run_cleanup_def\<close>)

lemma step_progress:
  assumes "k < length (m_execs m)"
  shows "k < length (m_execs (mgr_step su ev m)) \<and>
    rank_of (x_pc (m_execs (mgr_step su ev m) ! k)) \<le> rank_of (x_pc (m_execs m ! k)) - steps_of k [ev]"
proof (cases ev)
  case (EvRun env j)
  then show ?thesis
    using assms rank_step_weak [of su env "m_execs m ! k" "m_file m"]
    by (auto simp: run_step_def steps_of_def case_prod_beta nth_list_update)
next
  case (EvStart env i)
  then show ?thesis using assms by (auto simp: StartRun_claim_def steps_of_def split: prod.split option.split)
next
  case (EvStartNext env)
  then show ?thesis using assms by (auto simp: StartNextQueued_claim_def steps_of_def split: prod.split option.split)
next
  case (EvRegister i)
  then show ?thesis using assms by (simp add: register_run_def Let_def steps_of_def nth_append)
next
  case (EvCleanup j)
  then show ?thesis using cleanup_pc [OF assms] by (simp add: steps_of_def)
next
  case (EvTimeout j)
  then show ?thesis using assms signal_exec_nth [OF assms] by (simp add: steps_of_def)
next
  case (EvCancelRead env i)
  then show ?thesis using assms by (simp add: cancel_read_def steps_of_def split: sum.split)
next
  case (EvCancelSignal i)
  then show ?thesis using assms signal_exec_nth [OF assms] by (simp add: cancel_signal_def Let_def steps_of_def split: cancel_request.split option.split)
next
  case (EvCancelSave env i)
  then show ?thesis using assms by (simp add: cancel_save_def Let_def steps_of_def split: cancel_request.split)
next
  case EvShutdown
  then show ?thesis using assms Shutdown_nth [of m k] by (simp add: steps_of_def)
next
  case (EvSubmit run)
  then show ?thesis using assms by (simp add: submit_run_def steps_of_def split: store_file.split)
qed

lemma run_progress:
  assumes "k < length (m_execs m)"
  shows "k < length (m_execs (run_mgr su evs m)) \<and>
    rank_of (x_pc (m_execs (run_mgr su evs m) ! k)) \<le> rank_of (x_pc (m_execs m ! k)) - steps_of k evs"
  using assms unfolding run_mgr_def
proof (induction evs arbitrary: m)
  case (Cons ev evs)
  have "steps_of k (ev # evs) = steps_of k [ev] + steps_of k evs" by (simp add: steps_of_def)
  moreover note step_progress [OF Cons.prems, of su ev]
  ultimately show ?case using Cons.IH [of "mgr_step su ev m"] by (auto intro: order_trans [OF _ diff_le_mono])
qed (simp add: steps_of_def)

section \<open>From the request to the end\<close>

lemma created_run_kept:
  assumes created: "sub_CreateRun io0 io sid body now rnd fr f = (f', r)" "rp_body r = SbRun run"
    and new: "run_in f (br_RunID run) = None"
  shows "kept f f'" "queued_in f' run" "ids_ok f \<Longrightarrow> ids_ok f'"
proof -
  obtain s req e g where save: "sub_SaveRun io (new_run (normalizeRunRequest req) s now rnd) f = (g, e)"
    and eq: "e = None" "g = f'" "run = new_run (normalizeRunRequest req) s now rnd"
    using created by (auto simp: sub_CreateRun_def sub_handleStoreError_def sub_writeError_def sub_writeJSON_def Let_def
        split: sum.splits option.splits prod.splits if_splits)
  then have *: "ids_ok f' \<longleftrightarrow> ids_ok f" "br_Status run = Queued" "\<And>i. run_in f' i = (if i = br_RunID run then Some run else run_in f i)"
    using sub_SaveRun_ids [OF save] sub_SaveRun_result(3) [OF save] by (simp_all add: new_run_def)
  show "kept f f'" using * new by (auto simp: kept_def)
  show "queued_in f' run" using *(2,3) by (simp add: queued_in_def)
  show "ids_ok f \<Longrightarrow> ids_ok f'" using *(1) by simp
qed

lemma drained_claims_queued:
  assumes "claims m rs m'" "queued_in (m_file m) q" "\<not> queued_in (m_file m') q"
  shows "\<exists>k t. k < length (m_execs m') \<and> m_execs m' ! k = newExec (Touch t Building q)"
proof -
  have q: "run_in (m_file m) (br_RunID q) = Some q" "br_Status q = Queued" using assms(2) by (simp_all add: queued_in_def)
  have "find (\<lambda>r. br_RunID r = br_RunID q) rs \<noteq> None"
  proof
    assume "find (\<lambda>r. br_RunID r = br_RunID q) rs = None"
    then have "run_in (m_file m') (br_RunID q) = Some q" using assms(1) q(1) by (simp add: claims_def)
    then show False using assms(3) q(2) by (simp add: queued_in_def)
  qed
  then obtain r where r: "r \<in> set rs" "br_RunID r = br_RunID q" by (auto simp: find_None_iff)
  have "\<exists>q' t. run_in (m_file m) (br_RunID r) = Some q' \<and> br_Status q' = Queued \<and> r = Touch t Building q'"
    using assms(1) r(1) by (simp add: claims_def)
  then obtain t where t: "r = Touch t Building q" using r(2) q(1) by auto
  obtain i where i: "i < length rs" "rs ! i = r" using r(1) by (auto simp: in_set_conv_nth)
  then have "length (m_execs m) + i < length (m_execs m')" "m_execs m' ! (length (m_execs m) + i) = newExec r"
    using assms(1) by (simp_all add: claims_def nth_append)
  then show ?thesis using t by blast
qed

text \<open>What is left of a goroutine after enough steps.\<close>

lemma goroutine_ends:
  assumes srt: "run_sorter (su_sort su)" and ok: "mgr_ok su m" and k: "k < length (m_execs m)" "m_execs m ! k = newExec run"
    and steps: "27 \<le> steps_of k evs" and m': "m' = run_mgr su evs m"
  defines "x \<equiv> m_execs m' ! k"
  shows "run_id x = br_RunID run" "x_pc x = PCleanup \<or> x_pc x = PDone" "Terminal (br_Status (x_run x))"
    "x_engine x \<in> {EngNone, EngStopped}" "x_pc (m_execs (run_mgr su [EvCleanup k] m') ! k) = PDone"
    "disk_works k evs \<Longrightarrow> run_state (br_RunID run) True (m_file m')"
proof -
  have ok': "mgr_ok su m'" unfolding m' by (rule mgr_ok_run [OF srt ok])
  have own: "owns (disk_works k evs) k (br_RunID run) m'"
    unfolding m' by (rule owns_run [OF srt ok owns_new [OF ok k]])
  then have len: "k < length (m_execs m')" and id: "run_id x = br_RunID run" by (simp_all add: owns_def x_def)
  have "rank_of (x_pc x) = 0" using run_progress [OF k(1), of su evs] k(2) steps m' by (simp add: newExec_def x_def)
  then show pc: "x_pc x = PCleanup \<or> x_pc x = PDone" by (simp add: rank_zero)
  have "exec_ok su x" using ok' len by (simp add: mgr_ok_def x_def)
  then show "Terminal (br_Status (x_run x))" "x_engine x \<in> {EngNone, EngStopped}" using pc by (auto simp: exec_ok_def)
  show "run_id x = br_RunID run" by (rule id)
  show "disk_works k evs \<Longrightarrow> run_state (br_RunID run) True (m_file m')" using own pc by (auto simp: owns_def settled_def x_def)
  show "x_pc (m_execs (run_mgr su [EvCleanup k] m') ! k) = PDone"
    using pc len by (auto simp: x_def run_mgr_def run_cleanup_def Let_def split: option.split)
qed


definition demo_base :: store_file where
  "demo_base = FileSnap \<lparr>sn_Submissions = [demo_submission], sn_Runs = []\<rparr>"

definition demo_created :: BenchmarkRun where
  "demo_created = new_run (normalizeRunRequest DefaultRunRequest) demo_submission 5 None"

lemma demo_created_run:
  "sub_CreateRun io_good io_good ''s'' None 5 None demo_base demo_base =
     (FileSnap \<lparr>sn_Submissions = [demo_submission], sn_Runs = [demo_created]\<rparr>, sub_writeJSON StatusCreated (SbRun demo_created))"
  by (simp add: sub_CreateRun_def GetSubmission_def demo_base_def io_good_def loadLocked_def demo_submission_def requested_def
      sub_SaveRun_def writeLocked_def demo_created_def new_run_def Let_def)


end
