(* ===== verification/Startup.thy ===== *)
theory Startup
  imports Console Submission SandboxRunner Board ScoreEngine Clients Panel Worker
begin

text \<open>
  What the services settle before they serve: the root of the repository, paths, tokens, addresses;
  and whether what they settle, each on its own and from one environment, fits together.

  \<open>getenv\<close> is the environment (an unset variable is empty), \<open>cwd\<close> the answer of \<^verbatim>\<open>os.Getwd\<close>, a clean
  rooted path if there is one, and \<open>exists p\<close> whether \<^verbatim>\<open>os.Stat\<close> finds \<open>p\<close>.  A service that refuses to
  start (\<^verbatim>\<open>log.Fatal\<close>) is an \<open>Inl\<close>.
\<close>

section \<open>The root of the repository\<close>

definition depth :: "string \<Rightarrow> nat" where
  "depth p = length (path_stack p) + (if path_Clean p = p then 0 else 1)"

lemma path_stack_of: "(\<And>e. e \<in> set es \<Longrightarrow> path_elem e) \<Longrightarrow> path_stack (path_of es) = es"
  unfolding path_of_def by (rule path_stack_intercalate)

lemma path_stack_Dir: "path_stack (path_Dir p) = butlast (path_stack p)"
  unfolding path_Dir_def by (rule path_stack_of) (auto dest: in_set_butlastD path_stack_elems)

lemma path_of_stack: "path_of (path_stack p) = path_Clean p"
  by (simp add: path_of_def path_Clean_def)

lemma path_Dir_clean: "path_Clean (path_Dir p) = path_Dir p"
  using path_of_stack [of "path_Dir p"] by (simp add: path_stack_Dir) (simp add: path_Dir_def)

lemma path_Dir_depth:
  assumes "path_Dir p \<noteq> p"
  shows "depth (path_Dir p) < depth p"
proof (cases "path_stack p")
  case Nil
  then have "path_Clean p \<noteq> p" using assms path_of_stack [of p] by (auto simp: path_Dir_def)
  then show ?thesis using Nil by (simp add: depth_def path_Dir_clean path_stack_Dir)
next
  case Cons
  then show ?thesis by (simp add: depth_def path_Dir_clean path_stack_Dir)
qed

text \<open>The loop of \<^verbatim>\<open>resolveRepoRoot\<close>: \<open>here\<close> recognises the root.\<close>

function find_root :: "(string \<Rightarrow> bool) \<Rightarrow> string \<Rightarrow> string option" where
  "find_root here dir =
     (if here dir then Some dir
      else let parent = path_Dir dir in if parent = dir then None else find_root here parent)"
  by pat_completeness auto
termination
  by (relation "measure (\<lambda>(here, dir). depth dir)") (auto simp: path_Dir_depth)

declare find_root.simps [simp del]

definition resolve_root :: "(string \<Rightarrow> bool) \<Rightarrow> (string \<Rightarrow> string) \<Rightarrow> string option \<Rightarrow> string + string" where
  "resolve_root here getenv cwd =
     (let repoRoot = getenv ''REPO_ROOT'' in
      if repoRoot \<noteq> [] then (case filepath_Abs cwd repoRoot of None \<Rightarrow> Inl ''getwd'' | Some p \<Rightarrow> Inr p)
      else case cwd of
        None \<Rightarrow> Inl ''getwd''
      | Some dir \<Rightarrow> (case find_root here dir of
            Some p \<Rightarrow> Inr p
          | None \<Rightarrow> Inl ''could not find repo root; set REPO_ROOT''))"

text \<open>Every service has its own copy; they differ in what they look for.\<close>

definition has_proto :: "(string \<Rightarrow> bool) \<Rightarrow> string \<Rightarrow> bool" where
  "has_proto exists dir \<longleftrightarrow> exists (path_Join [dir, ''Cargo.toml'']) \<and> exists (path_Join [dir, ''proto'', ''benchmark.proto''])"

definition has_stub_engine :: "(string \<Rightarrow> bool) \<Rightarrow> string \<Rightarrow> bool" where
  "has_stub_engine exists dir \<longleftrightarrow>
     exists (path_Join [dir, ''Cargo.toml'']) \<and> exists (path_Join [dir, ''examples'', ''stub-engine'', ''go.mod''])"

definition sub_resolveRepoRoot :: "(string \<Rightarrow> bool) \<Rightarrow> (string \<Rightarrow> string) \<Rightarrow> string option \<Rightarrow> string + string" where
  "sub_resolveRepoRoot exists = resolve_root (has_proto exists)"

definition lb_resolveRepoRoot :: "(string \<Rightarrow> bool) \<Rightarrow> (string \<Rightarrow> string) \<Rightarrow> string option \<Rightarrow> string + string" where
  "lb_resolveRepoRoot exists = resolve_root (has_proto exists)"

definition se_resolveRepoRoot :: "(string \<Rightarrow> bool) \<Rightarrow> (string \<Rightarrow> string) \<Rightarrow> string option \<Rightarrow> string + string" where
  "se_resolveRepoRoot exists = resolve_root (has_proto exists)"

definition cn_resolveRepoRoot :: "(string \<Rightarrow> bool) \<Rightarrow> (string \<Rightarrow> string) \<Rightarrow> string option \<Rightarrow> string + string" where
  "cn_resolveRepoRoot exists = resolve_root (has_proto exists)"

definition panel_resolveRepoRoot :: "(string \<Rightarrow> bool) \<Rightarrow> (string \<Rightarrow> string) \<Rightarrow> string option \<Rightarrow> string + string" where
  "panel_resolveRepoRoot exists = resolve_root (has_stub_engine exists)"

definition sr_resolveRepoRoot :: "(string \<Rightarrow> bool) \<Rightarrow> (string \<Rightarrow> string) \<Rightarrow> string option \<Rightarrow> string + string" where
  "sr_resolveRepoRoot exists = resolve_root (has_stub_engine exists)"

definition orc_resolveRepoRoot :: "(string \<Rightarrow> bool) \<Rightarrow> (string \<Rightarrow> string) \<Rightarrow> string option \<Rightarrow> string + string" where
  "orc_resolveRepoRoot exists =
     resolve_root (\<lambda>dir. exists (path_Join [dir, ''Cargo.toml'']) \<and> exists (path_Join [dir, ''.artifacts'']) \<or> has_proto exists dir)"

text \<open>The directories from one up to the file system's root, and the search as a search of that list.\<close>

definition ancestors :: "string \<Rightarrow> string list" where
  "ancestors dir = map (\<lambda>n. path_of (take n (path_stack dir))) (rev [0..<Suc (length (path_stack dir))])"

lemma find_root_take:
  assumes "n \<le> length (path_stack dir)"
  shows "find_root here (path_of (take n (path_stack dir))) =
    find here (map (\<lambda>n. path_of (take n (path_stack dir))) (rev [0..<Suc n]))"
  using assms
proof (induction n)
  case 0
  have "path_Dir (path_of []) = path_of []" using path_stack_of [of "[]"] by (simp add: path_Dir_def)
  then show ?case by (subst find_root.simps) simp
next
  case (Suc n)
  let ?p = "\<lambda>n. path_of (take n (path_stack dir))"
  have st: "path_stack (?p k) = take k (path_stack dir)" for k
    by (rule path_stack_of) (auto dest: in_set_takeD path_stack_elems)
  have dir: "path_Dir (?p (Suc n)) = ?p n" using Suc.prems by (simp add: path_Dir_def st butlast_take)
  have "length (path_stack (?p n)) = n" "length (path_stack (?p (Suc n))) = Suc n" using Suc.prems by (simp_all only: st length_take)
  then have "?p n \<noteq> ?p (Suc n)" by (metis n_not_Suc_n)
  then show ?case using Suc by (subst find_root.simps) (simp add: dir Let_def)
qed

lemma find_root_ancestors: "path_Clean dir = dir \<Longrightarrow> find_root here dir = find here (ancestors dir)"
  using find_root_take [of "length (path_stack dir)" dir here] path_of_stack [of dir] by (simp add: ancestors_def)

text \<open>The root is the nearest directory that looks like one, and there is none only if no directory does.\<close>

lemma find_root_nearest:
  assumes "path_Clean dir = dir" "r \<in> set (ancestors dir)" "here r" "\<And>d. \<lbrakk>d \<in> set (ancestors dir); here d\<rbrakk> \<Longrightarrow> d = r"
  shows "find_root here dir = Some r"
proof (cases "find here (ancestors dir)")
  case None
  then show ?thesis using assms(2,3) by (auto simp: find_None_iff)
next
  case (Some d)
  then show ?thesis using assms(1) assms(4) [of d] by (auto simp: find_root_ancestors find_Some_iff)
qed

text \<open>
  A checkout has everything the services look for in one directory, and nothing of it between there and
  where they are started.  They then agree on the root, each from its own working directory.
\<close>

definition checkout :: "(string \<Rightarrow> bool) \<Rightarrow> string \<Rightarrow> string \<Rightarrow> bool" where
  "checkout exists r dir \<longleftrightarrow> path_Clean dir = dir \<and> r \<in> set (ancestors dir) \<and> has_proto exists r \<and> has_stub_engine exists r \<and>
     (\<forall>d \<in> set (ancestors dir). exists (path_Join [d, ''Cargo.toml'']) \<and>
        (exists (path_Join [d, ''proto'', ''benchmark.proto'']) \<or> exists (path_Join [d, ''.artifacts'']) \<or>
         exists (path_Join [d, ''examples'', ''stub-engine'', ''go.mod''])) \<longrightarrow> d = r)"

lemmas resolveRepoRoot_defs = sub_resolveRepoRoot_def lb_resolveRepoRoot_def se_resolveRepoRoot_def cn_resolveRepoRoot_def
  panel_resolveRepoRoot_def sr_resolveRepoRoot_def orc_resolveRepoRoot_def

lemma services_agree_on_root:
  assumes "checkout exists r dir" "getenv ''REPO_ROOT'' = []"
  shows "sub_resolveRepoRoot exists getenv (Some dir) = Inr r" "lb_resolveRepoRoot exists getenv (Some dir) = Inr r"
    "se_resolveRepoRoot exists getenv (Some dir) = Inr r" "cn_resolveRepoRoot exists getenv (Some dir) = Inr r"
    "panel_resolveRepoRoot exists getenv (Some dir) = Inr r" "sr_resolveRepoRoot exists getenv (Some dir) = Inr r"
    "orc_resolveRepoRoot exists getenv (Some dir) = Inr r"
proof -
  let ?orc = "\<lambda>dir. exists (path_Join [dir, ''Cargo.toml'']) \<and> exists (path_Join [dir, ''.artifacts'']) \<or> has_proto exists dir"
  have "find_root (has_proto exists) dir = Some r" "find_root (has_stub_engine exists) dir = Some r" "find_root ?orc dir = Some r"
    using assms(1) by (auto intro!: find_root_nearest simp: checkout_def has_proto_def has_stub_engine_def)
  then show "sub_resolveRepoRoot exists getenv (Some dir) = Inr r" "lb_resolveRepoRoot exists getenv (Some dir) = Inr r"
    "se_resolveRepoRoot exists getenv (Some dir) = Inr r" "cn_resolveRepoRoot exists getenv (Some dir) = Inr r"
    "panel_resolveRepoRoot exists getenv (Some dir) = Inr r" "sr_resolveRepoRoot exists getenv (Some dir) = Inr r"
    "orc_resolveRepoRoot exists getenv (Some dir) = Inr r"
    using assms(2) by (simp_all add: resolveRepoRoot_defs resolve_root_def)
qed

section \<open>The environment\<close>

definition envBool :: "(string \<Rightarrow> string) \<Rightarrow> string \<Rightarrow> bool \<Rightarrow> bool" where
  "envBool getenv name fallback =
     (let v = TrimSpace (ToLower (getenv name)) in
      if v = [] then fallback
      else if v \<in> {''1'', ''true'', ''yes'', ''y'', ''on''} then True
      else if v \<in> {''0'', ''false'', ''no'', ''n'', ''off''} then False
      else fallback)"

definition orc_envPath :: "(string \<Rightarrow> string) \<Rightarrow> string option \<Rightarrow> string \<Rightarrow> string \<Rightarrow> string" where
  "orc_envPath getenv cwd name fallback =
     (let v = getenv name in
      if v = [] then fallback else (case filepath_Abs cwd v of None \<Rightarrow> v | Some a \<Rightarrow> a))"

definition orc_firstEnv :: "(string \<Rightarrow> string) \<Rightarrow> string list \<Rightarrow> string" where
  "orc_firstEnv getenv names = (case filter (\<lambda>v. v \<noteq> []) (map getenv names) of [] \<Rightarrow> [] | v # _ \<Rightarrow> v)"

definition panel_firstEnv :: "(string \<Rightarrow> string) \<Rightarrow> string list \<Rightarrow> string" where
  "panel_firstEnv getenv names = (case filter (\<lambda>v. v \<noteq> []) (map getenv names) of [] \<Rightarrow> [] | v # _ \<Rightarrow> v)"

definition se_firstEnv :: "(string \<Rightarrow> string) \<Rightarrow> string list \<Rightarrow> string" where
  "se_firstEnv getenv names = (case filter (\<lambda>v. v \<noteq> []) (map getenv names) of [] \<Rightarrow> [] | v # _ \<Rightarrow> v)"

section \<open>Starting the orchestrator, the control panel and the score engine\<close>

record orc_config =
  og_storePath :: string
  og_sandboxURL :: string
  og_runTimeout :: int
  og_runRoot :: string
  og_leaderboardURL :: string
  og_token :: string
  og_addr :: string

text \<open>
  Durations are nanoseconds, parsed by \<open>parseDuration\<close>.  The first component is the interval the worker
  was started with: it runs from then on, whatever becomes of the rest of \<^verbatim>\<open>main\<close>.
\<close>

definition durationEnv :: "(string \<Rightarrow> int option) \<Rightarrow> string \<Rightarrow> int \<Rightarrow> int option" where
  "durationEnv parseDuration v fallback = (if v = [] then Some fallback else parseDuration v)"

definition orc_main :: "(string \<Rightarrow> bool) \<Rightarrow> (string \<Rightarrow> string) \<Rightarrow> string option \<Rightarrow> (string \<Rightarrow> int option) \<Rightarrow>
    int option \<times> (string + orc_config)" where
  "orc_main exists getenv cwd parseDuration =
     (case orc_resolveRepoRoot exists getenv cwd of
        Inl e \<Rightarrow> (None, Inl e)
      | Inr repoRoot \<Rightarrow>
          let storePath = orc_envPath getenv cwd ''ORCHESTRATOR_STORE_PATH'' [];
              storePath = (if storePath = [] then orc_envPath getenv cwd ''SUBMISSION_INDEX_PATH''
                  (path_Join [repoRoot, ''.artifacts'', ''submissions'', ''index.json'']) else storePath);
              sandboxURL = (if getenv ''SANDBOX_RUNNER_URL'' = [] then ''http://127.0.0.1:9200'' else getenv ''SANDBOX_RUNNER_URL'')
          in case durationEnv parseDuration (getenv ''ORCHESTRATOR_RUN_TIMEOUT'') 180000000000 of
            None \<Rightarrow> (None, Inl (''invalid ORCHESTRATOR_RUN_TIMEOUT '' @ getenv ''ORCHESTRATOR_RUN_TIMEOUT''))
          | Some runTimeout \<Rightarrow>
            (case durationEnv parseDuration (getenv ''ORCHESTRATOR_POLL_INTERVAL'') 2000000000 of
               None \<Rightarrow> (None, Inl (''invalid ORCHESTRATOR_POLL_INTERVAL '' @ getenv ''ORCHESTRATOR_POLL_INTERVAL''))
             | Some pollInterval \<Rightarrow>
                 (if envBool getenv ''ORCHESTRATOR_AUTO_START'' True then Some (StartWorker_interval pollInterval) else None,
                  let authToken = orc_firstEnv getenv [''ORCHESTRATOR_AUTH_TOKEN'', ''SERVICE_AUTH_TOKEN''] in
                  if authToken = [] \<and> getenv ''REQUIRE_AUTH'' = ''1''
                  then Inl ''refusing to start: REQUIRE_AUTH=1 but no service auth token set''
                  else Inr \<lparr>og_storePath = storePath, og_sandboxURL = TrimRight_slash sandboxURL,
                    og_runTimeout = (if runTimeout \<le> 0 then 180000000000 else runTimeout),
                    og_runRoot = path_Join [repoRoot, ''.runs''],
                    og_leaderboardURL = TrimRight_slash (getenv ''LEADERBOARD_URL''),
                    og_token = authToken,
                    og_addr = (if getenv ''ORCHESTRATOR_ADDR'' = [] then '':9300'' else getenv ''ORCHESTRATOR_ADDR'')\<rparr>)))"

text \<open>The results: the path of the store, the run directory, the token and the address.\<close>

definition panel_main :: "(string \<Rightarrow> bool) \<Rightarrow> (string \<Rightarrow> string) \<Rightarrow> string option \<Rightarrow> string + string \<times> string \<times> string \<times> string" where
  "panel_main exists getenv cwd =
     (case panel_resolveRepoRoot exists getenv cwd of
        Inl e \<Rightarrow> Inl e
      | Inr repoRoot \<Rightarrow>
          let authToken = panel_firstEnv getenv [''CONTROL_PANEL_AUTH_TOKEN'', ''SERVICE_AUTH_TOKEN''] in
          if authToken = [] \<and> getenv ''REQUIRE_AUTH'' = ''1''
          then Inl ''refusing to start: REQUIRE_AUTH=1 but no service auth token set''
          else Inr (path_Join [repoRoot, ''.runs'', ''index.json''], path_Join [repoRoot, ''.runs''], authToken,
                 if getenv ''CONTROL_PANEL_ADDR'' = [] then '':9000'' else getenv ''CONTROL_PANEL_ADDR''))"

text \<open>The run directory, the token and the address.\<close>

definition se_main :: "(string \<Rightarrow> bool) \<Rightarrow> (string \<Rightarrow> string) \<Rightarrow> string option \<Rightarrow> string + string \<times> string \<times> string" where
  "se_main exists getenv cwd =
     (case se_resolveRepoRoot exists getenv cwd of
        Inl e \<Rightarrow> Inl e
      | Inr repoRoot \<Rightarrow>
          let authToken = se_firstEnv getenv [''SCORE_ENGINE_AUTH_TOKEN'', ''SERVICE_AUTH_TOKEN''] in
          if TrimSpace authToken = [] \<and> getenv ''REQUIRE_AUTH'' = ''1''
          then Inl ''refusing to start: REQUIRE_AUTH=1 but no service auth token set''
          else Inr (path_Join [repoRoot, ''.runs''], authToken,
                 if getenv ''SCORE_ENGINE_ADDR'' = [] then '':9400'' else getenv ''SCORE_ENGINE_ADDR''))"

section \<open>Tokens meet\<close>

text \<open>The header the orchestrator's two clients send.\<close>

definition bearer_header :: "string \<Rightarrow> string" where
  "bearer_header token = (if token = [] then [] else ''Bearer '' @ token)"

definition sandbox_Authorization :: "(string \<Rightarrow> string) \<Rightarrow> string" where
  "sandbox_Authorization getenv = bearer_header (firstEnv getenv [''SANDBOX_RUNNER_AUTH_TOKEN'', ''SERVICE_AUTH_TOKEN''])"

definition publisher_Authorization :: "(string \<Rightarrow> string) \<Rightarrow> string" where
  "publisher_Authorization getenv = bearer_header (firstEnv getenv [''LEADERBOARD_AUTH_TOKEN'', ''SERVICE_AUTH_TOKEN''])"

text \<open>The six copies of \<^verbatim>\<open>firstEnv\<close> that do not trim, on two variables.\<close>

lemma token_of_two:
  "sub_firstEnv getenv [a, b] = (if getenv a \<noteq> [] then getenv a else getenv b)"
  "lb_firstEnv getenv [a, b] = (if getenv a \<noteq> [] then getenv a else getenv b)"
  "sr_firstEnv getenv [a, b] = (if getenv a \<noteq> [] then getenv a else getenv b)"
  "orc_firstEnv getenv [a, b] = (if getenv a \<noteq> [] then getenv a else getenv b)"
  "panel_firstEnv getenv [a, b] = (if getenv a \<noteq> [] then getenv a else getenv b)"
  "se_firstEnv getenv [a, b] = (if getenv a \<noteq> [] then getenv a else getenv b)"
  "firstEnv getenv [a, b] = (if getenv a \<noteq> [] then getenv a else getenv b)"
  by (simp_all add: sub_firstEnv_def lb_firstEnv_def sr_firstEnv_def orc_firstEnv_def panel_firstEnv_def se_firstEnv_def firstEnv_def firstNonEmpty_def)

lemma TrimSpace_hd: "\<lbrakk>s \<noteq> []; \<not> is_space (hd s)\<rbrakk> \<Longrightarrow> TrimSpace s = rev (dropWhile is_space (rev s))"
  by (cases s) (simp_all add: TrimSpace_def)

lemma TrimSpace_bearer:
  assumes "TrimSpace t \<noteq> []" "\<not> is_space (hd t)"
  shows "TrimSpace (''Bearer '' @ t) = ''Bearer '' @ TrimSpace t"
proof -
  have t: "TrimSpace t = rev (dropWhile is_space (rev t))"
    using assms by (intro TrimSpace_hd) auto
  then have "\<not> (\<forall>c \<in> set (rev t). is_space c)" using assms(1) by (auto simp: dropWhile_eq_Nil_conv)
  then have "dropWhile is_space (rev t @ rev ''Bearer '') = dropWhile is_space (rev t) @ rev ''Bearer ''"
    by (auto simp: dropWhile_append1)
  then have "rev (dropWhile is_space (rev (''Bearer '' @ t))) = ''Bearer '' @ TrimSpace t" by (simp add: t)
  moreover have "TrimSpace (''Bearer '' @ t) = rev (dropWhile is_space (rev (''Bearer '' @ t)))"
    by (intro TrimSpace_hd) (simp_all add: is_space_def)
  ultimately show ?thesis by simp
qed

lemma TrimSpace_trimmed:
  assumes "TrimSpace s \<noteq> []"
  shows "\<not> is_space (hd (TrimSpace s))" "TrimSpace (TrimSpace s) = TrimSpace s"
proof -
  let ?l = "dropWhile is_space s"
  have l: "?l \<noteq> []"
  proof
    assume "?l = []"
    then have "TrimSpace s = []" by (simp only: TrimSpace_def rev.simps dropWhile.simps)
    then show False using assms by simp
  qed
  then have h: "\<not> is_space (hd ?l)" by (rule hd_dropWhile)
  have t: "TrimSpace s = rev (dropWhile is_space (rev ?l))" by (simp add: TrimSpace_def)
  obtain c cs where cs: "?l = c # cs" "\<not> is_space c" using l h by (cases ?l) auto
  have "TrimSpace s = c # rev (dropWhile is_space (rev cs))"
    unfolding t cs(1) using cs(2) by (simp add: dropWhile_append)
  then show hd: "\<not> is_space (hd (TrimSpace s))" using cs(2) by simp
  have "TrimSpace (TrimSpace s) = rev (dropWhile is_space (rev (TrimSpace s)))" by (rule TrimSpace_hd [OF assms hd])
  then show "TrimSpace (TrimSpace s) = TrimSpace s" by (simp add: t dropWhile_idem)
qed

text \<open>The token the console sends passes the check of a service that takes its own from the same variables.\<close>

lemma console_token_ok:
  assumes "TrimSpace (if getenv a \<noteq> [] then getenv a else getenv b) \<noteq> []"
  shows "bearer_ok (if getenv a \<noteq> [] then getenv a else getenv b) (cq_Auth (setBearerAuth (cn_firstEnv getenv [a, b]) (console_request meth url body)))"
proof -
  let ?t = "if getenv a \<noteq> [] then getenv a else getenv b"
  have "cn_firstEnv getenv [a, b] = TrimSpace ?t" using assms by (cases "getenv a = []") (simp_all add: cn_firstEnv_def)
  then show ?thesis
    using assms TrimSpace_bearer [of "TrimSpace ?t"] TrimSpace_trimmed [OF assms]
    by (simp add: setBearerAuth_def bearer_ok_def)
qed

lemma client_token_ok:
  assumes "TrimSpace t \<noteq> []" "\<not> is_space (hd t)"
  shows "bearer_ok t (bearer_header t)"
proof -
  have "t \<noteq> []" using assms(1) by auto
  then show ?thesis using TrimSpace_bearer [OF assms] by (simp add: bearer_header_def bearer_ok_def)
qed

lemma admitted:
  assumes "TrimSpace t = [] \<or> bearer_ok t header"
  shows "sub_RequireAuth t meth path header unauthorized served = served"
    "RequireServiceAuth handler rejected t \<lparr>hr_Method = meth, hr_Path = path, hr_Authorization = header\<rparr> =
      handler \<lparr>hr_Method = meth, hr_Path = path, hr_Authorization = header\<rparr>"
    "lb_requireServiceAuth t header unauthorized served = served"
    "sr_RequireServiceAuth t meth path header unauthorized served = served"
  using assms by (auto simp: sub_RequireAuth_def RequireServiceAuth_def lb_requireServiceAuth_def sr_RequireServiceAuth_def)

lemma console_admitted:
  "TrimSpace (if getenv a \<noteq> [] then getenv a else getenv b) = [] \<or>
   bearer_ok (if getenv a \<noteq> [] then getenv a else getenv b) (cq_Auth (setBearerAuth (cn_firstEnv getenv [a, b]) (console_request meth url body)))"
  using console_token_ok by blast


definition demo_env :: "string \<Rightarrow> string" where
  "demo_env v = (if v = ''SERVICE_AUTH_TOKEN'' then ''key '' else if v = ''REQUIRE_AUTH'' then ''1''
     else if v = ''SANDBOX_RUNNER_MODE'' then ''docker'' else [])"

definition demo_exists :: "string \<Rightarrow> bool" where
  "demo_exists p \<longleftrightarrow> p \<in> {''/r/Cargo.toml'', ''/r/proto/benchmark.proto'', ''/r/examples/stub-engine/go.mod'', ''/r/.artifacts''}"

lemma demo_orc: "orc_main demo_exists demo_env (Some ''/r/services/orchestrator'') (\<lambda>_. None) =
    (Some 2000000000, Inr \<lparr>og_storePath = ''/r/.artifacts/submissions/index.json'', og_sandboxURL = ''http://127.0.0.1:9200'',
      og_runTimeout = 180000000000, og_runRoot = ''/r/.runs'', og_leaderboardURL = [], og_token = ''key '', og_addr = '':9300''\<rparr>)"
  by code_simp

lemma demo_tokens: "sub_main demo_env Some ''/r'' = Inr (''/r/.artifacts/submissions'', ''/r/.artifacts/submissions/index.json'', ''key '', '':9100'')"
    "lb_main_token demo_env = Inr ''key ''" "sr_main demo_env True = Inr (DockerMode, ''key '', '':9200'')"
  by code_simp+


text \<open>
  The console trims a token before it sends it and the services trim theirs before they compare; the clients
  of the orchestrator do not.  A token that starts with a blank locks the orchestrator out of the sandbox runner.
\<close>

lemma leading_blank_locks_out:
  assumes "\<And>v. getenv v = (if v = ''SERVICE_AUTH_TOKEN'' then '' key'' else [])"
  shows "sr_RequireServiceAuth '' key'' ''POST'' ''/sandboxes/start'' (sandbox_Authorization getenv) (401::nat) 202 = 401"
    "cq_Auth (setBearerAuth (cf_OrchestratorToken (loadConfig getenv cwd d)) (console_request meth url body)) = ''Bearer key''"
proof -
  show "sr_RequireServiceAuth '' key'' ''POST'' ''/sandboxes/start'' (sandbox_Authorization getenv) (401::nat) 202 = 401"
    by (simp add: sandbox_Authorization_def token_of_two assms bearer_header_def sr_RequireServiceAuth_def bearer_ok_def
        TrimSpace_def is_space_def)
  show "cq_Auth (setBearerAuth (cf_OrchestratorToken (loadConfig getenv cwd d)) (console_request meth url body)) = ''Bearer key''"
    by (simp add: loadConfig_def cn_firstEnv_def assms setBearerAuth_def TrimSpace_def is_space_def)
qed

section \<open>Required authentication\<close>

text \<open>
  With \<^verbatim>\<open>REQUIRE_AUTH\<close> set, no service that starts serves a stranger.  If no token variable is set to blanks
  only, each of the six services that change state has a token that is not blank, and answers a request
  without it with the refusal, the health checks apart.
\<close>

lemma required_auth_is_enforced:
  assumes "getenv ''REQUIRE_AUTH'' = ''1''" "\<And>v. getenv v = [] \<or> TrimSpace (getenv v) \<noteq> []"
    and "sub_main getenv absf repoRoot = Inr (artifactRoot, indexPath, t1, a1)"
    and "orc_main exists getenv cwd parseDuration = (worker, Inr oc)" "panel_main exists getenv cwd = Inr (store, runs, t3, a3)"
    and "se_main exists getenv cwd = Inr (runRoot, t4, a4)" "lb_main_token getenv = Inr t5"
    and "sr_main getenv docker_ok = Inr (mode, t6, a6)"
  shows "(\<forall>t \<in> {t1, og_token oc, t3, t4, t5, t6}. TrimSpace t \<noteq> [])
    \<and> sub_RequireAuth t1 meth path header unauthorized served =
        (if meth = ''GET'' \<and> path = ''/health'' \<or> bearer_ok t1 header then served else unauthorized)
    \<and> RequireServiceAuth handler rejected (og_token oc) r =
        (if hr_Method r = ''GET'' \<and> hr_Path r = ''/health'' \<or> bearer_ok (og_token oc) (hr_Authorization r) then handler r else rejected)
    \<and> panel_RequireServiceAuth handler rejected t3 r =
        (if hr_Method r = ''GET'' \<and> hr_Path r = ''/health'' \<or> bearer_ok t3 (hr_Authorization r) then handler r else rejected)
    \<and> se_requireServiceAuth t4 header unauthorized served = (if bearer_ok t4 header then served else unauthorized)
    \<and> lb_requireServiceAuth t5 header unauthorized served = (if bearer_ok t5 header then served else unauthorized)
    \<and> sr_RequireServiceAuth t6 meth path header unauthorized served =
        (if meth = ''GET'' \<and> path = ''/health'' \<or> bearer_ok t6 header then served else unauthorized)"
proof -
  have t: "t \<noteq> [] \<Longrightarrow> t = (if getenv a \<noteq> [] then getenv a else getenv b) \<Longrightarrow> TrimSpace t \<noteq> []" for t a b
    using assms(2) [of a] assms(2) [of b] by auto
  have "t1 \<noteq> []" "t1 = sub_firstEnv getenv [''SUBMISSION_API_AUTH_TOKEN'', ''SERVICE_AUTH_TOKEN'']"
    using assms(1,3) by (auto simp: sub_main_def Let_def split: if_splits)
  then have 1: "TrimSpace t1 \<noteq> []" unfolding token_of_two by (rule t)
  have "og_token oc \<noteq> []" "og_token oc = orc_firstEnv getenv [''ORCHESTRATOR_AUTH_TOKEN'', ''SERVICE_AUTH_TOKEN'']"
    using assms(1,4) by (auto simp: orc_main_def Let_def split: if_splits sum.splits option.splits)
  then have 2: "TrimSpace (og_token oc) \<noteq> []" unfolding token_of_two by (rule t)
  have "t3 \<noteq> []" "t3 = panel_firstEnv getenv [''CONTROL_PANEL_AUTH_TOKEN'', ''SERVICE_AUTH_TOKEN'']"
    using assms(1,5) by (auto simp: panel_main_def Let_def split: if_splits sum.splits)
  then have 3: "TrimSpace t3 \<noteq> []" unfolding token_of_two by (rule t)
  have 4: "TrimSpace t4 \<noteq> []" using assms(1,6) by (auto simp: se_main_def Let_def split: if_splits sum.splits)
  have 5: "TrimSpace t5 \<noteq> []" using assms(1,7) by (auto simp: lb_main_token_def Let_def split: if_splits)
  have "t6 \<noteq> []" "t6 = sr_firstEnv getenv [''SANDBOX_RUNNER_AUTH_TOKEN'', ''SERVICE_AUTH_TOKEN'']"
    using assms(1,8) by (auto simp: sr_main_def Let_def split: if_splits)
  then have 6: "TrimSpace t6 \<noteq> []" unfolding token_of_two by (rule t)
  show ?thesis
    using 1 2 3 4 5 6
    by (simp add: sub_RequireAuth_def RequireServiceAuth_def panel_RequireServiceAuth_def se_requireServiceAuth_def
        lb_requireServiceAuth_def sr_RequireServiceAuth_def)
qed

lemma demo_panel: "panel_main demo_exists demo_env (Some ''/r/services/x'') = Inr (''/r/.runs/index.json'', ''/r/.runs'', ''key '', '':9000'')"
  "se_main demo_exists demo_env (Some ''/r/services/x'') = Inr (''/r/.runs'', ''key '', '':9400'')"
  "orc_main demo_exists demo_env (Some ''/r/services/x'') (\<lambda>_. None) =
    (Some 2000000000, Inr \<lparr>og_storePath = ''/r/.artifacts/submissions/index.json'', og_sandboxURL = ''http://127.0.0.1:9200'',
      og_runTimeout = 180000000000, og_runRoot = ''/r/.runs'', og_leaderboardURL = [], og_token = ''key '', og_addr = '':9300''\<rparr>)"
  by code_simp+

lemma required_auth_is_enforced_witness:
  "RequireServiceAuth (\<lambda>_. 200) (401::nat) ''key '' \<lparr>hr_Method = ''GET'', hr_Path = ''/runs'', hr_Authorization = []\<rparr> = 401"
proof -
  have "demo_env ''REQUIRE_AUTH'' = ''1''" "\<And>v. demo_env v = [] \<or> TrimSpace (demo_env v) \<noteq> []"
    by (simp_all add: demo_env_def TrimSpace_def is_space_def)
  note enf = required_auth_is_enforced [where handler = "\<lambda>_. 200::nat" and rejected = 401
      and r = "\<lparr>hr_Method = ''GET'', hr_Path = ''/runs'', hr_Authorization = []\<rparr>",
      OF this demo_tokens(1) demo_panel(3) demo_panel(1,2) demo_tokens(2,3), THEN conjunct2, THEN conjunct2, THEN conjunct1]
  have no: "\<not> bearer_ok ''key '' []" by (simp add: bearer_ok_def)
  show ?thesis using enf no by simp
qed

text \<open>
  The orchestrator starts its worker before it looks at the token.  A start that is refused for want of a token
  has by then a worker that claims queued runs, which nobody executes when the process exits.
\<close>

lemma refused_start_has_a_worker:
  assumes "orc_resolveRepoRoot exists getenv cwd = Inr d" "getenv ''REQUIRE_AUTH'' = ''1''"
    "\<And>v. v \<noteq> ''REQUIRE_AUTH'' \<Longrightarrow> getenv v = []"
  shows "\<exists>e. orc_main exists getenv cwd parseDuration = (Some 2000000000, Inl e)"
  using assms
  by (simp add: orc_main_def durationEnv_def envBool_def orc_firstEnv_def StartWorker_interval_def Let_def)

section \<open>Files meet\<close>

lemma path_Join_four:
  assumes "a \<noteq> []" "b \<noteq> []" "c \<noteq> []" "d \<noteq> []"
  shows "path_Join [path_Join [a, b, c], d] = path_Join [a, b, c, d]"
proof -
  have "path_Join [path_Join [a, b, c], d] = path_Clean (path_Clean ((a @ CHR ''/'' # b) @ CHR ''/'' # c) @ CHR ''/'' # d)"
    using assms by (simp add: path_Join_two path_Join_ne) (simp add: path_Join_def)
  also have "\<dots> = path_Clean (((a @ CHR ''/'' # b) @ CHR ''/'' # c) @ CHR ''/'' # d)"
    by (rule path_Clean_cong) (simp only: path_stack_append path_stack_Clean)
  also have "\<dots> = path_Join [a, b, c, d]" using assms by (simp add: path_Join_def)
  finally show ?thesis .
qed

text \<open>
  C39. Services started in one checkout, each in its own directory and without a store path of the
  orchestrator's own, work on the same files: the orchestrator's store is the file the submission API
  writes, the sandbox runner looks for artifacts where they are stored, and the score engine and the
  console look for runs where the orchestrator puts them.  The operator's paths have to be absolute, and
  the path of the store given whenever the artifact directory is.
\<close>

theorem services_share_their_files:
  assumes "\<And>dir. dir \<in> {d1, d2, d3, d4, d5} \<Longrightarrow> checkout exists r dir" "getenv ''REPO_ROOT'' = []"
    and "\<And>v. v \<in> {''SUBMISSION_ARTIFACT_ROOT'', ''SUBMISSION_INDEX_PATH''} \<Longrightarrow> getenv v = [] \<or> IsAbs (getenv v)"
    and "getenv ''ORCHESTRATOR_STORE_PATH'' = []" "getenv ''SUBMISSION_INDEX_PATH'' = [] \<Longrightarrow> getenv ''SUBMISSION_ARTIFACT_ROOT'' = []"
    and "sub_resolveRepoRoot exists getenv (Some d1) = Inr r1" "sub_main getenv (filepath_Abs (Some d1)) r1 = Inr (artifactRoot, indexPath, t, a)"
    and "orc_main exists getenv (Some d2) parseDuration = (worker, Inr oc)"
    and "sr_resolveRepoRoot exists getenv (Some d3) = Inr r3" "se_main exists getenv (Some d4) = Inr (runRoot, t4, a4)"
    and "cn_resolveRepoRoot exists getenv (Some d5) = Inr r5" "cfg = loadConfig getenv (Some d5) r5"
  shows "og_storePath oc = indexPath \<and> submissionArtifactRoot getenv (filepath_Abs (Some d3)) r3 = artifactRoot \<and>
    runRoot = og_runRoot oc \<and> path_Join [cf_RepoRoot cfg, ''.runs''] = og_runRoot oc"
proof -
  have co: "checkout exists r d1" "checkout exists r d2" "checkout exists r d3" "checkout exists r d4" "checkout exists r d5"
    by (simp_all add: assms(1))
  note agree = services_agree_on_root [where getenv = getenv, OF _ assms(2)]
  have rs: "r1 = r" "r3 = r" "r5 = r" "se_resolveRepoRoot exists getenv (Some d4) = Inr r" "orc_resolveRepoRoot exists getenv (Some d2) = Inr r"
    using agree(1) [OF co(1)] agree(6) [OF co(3)]
      agree(4) [OF co(5)] assms(6,9,11) agree(3) [OF co(4)]
      agree(7) [OF co(2)] by simp_all
  have "r \<noteq> []" using co(1) by (auto simp: checkout_def ancestors_def path_of_def)
  then have ix: "path_Join [path_Join [r, ''.artifacts'', ''submissions''], ''index.json''] = path_Join [r, ''.artifacts'', ''submissions'', ''index.json'']"
    by (intro path_Join_four) simp_all
  have abs: "v \<in> {''SUBMISSION_ARTIFACT_ROOT'', ''SUBMISSION_INDEX_PATH''} \<Longrightarrow> getenv v \<noteq> [] \<Longrightarrow>
      filepath_Abs (Some d) (getenv v) = Some (Clean (getenv v))" for d v
    using assms(3) [of v] by (auto simp: filepath_Abs_def)
  have sub: "artifactRoot = (if getenv ''SUBMISSION_ARTIFACT_ROOT'' = [] then path_Join [r, ''.artifacts'', ''submissions'']
      else Clean (getenv ''SUBMISSION_ARTIFACT_ROOT''))"
    "indexPath = (if getenv ''SUBMISSION_INDEX_PATH'' = [] then path_Join [artifactRoot, ''index.json''] else Clean (getenv ''SUBMISSION_INDEX_PATH''))"
    using assms(7) abs rs(1) by (auto simp: sub_main_def envPath_def Let_def split: if_splits)
  have orc: "og_storePath oc = (if getenv ''SUBMISSION_INDEX_PATH'' = [] then path_Join [r, ''.artifacts'', ''submissions'', ''index.json'']
      else Clean (getenv ''SUBMISSION_INDEX_PATH''))" "og_runRoot oc = path_Join [r, ''.runs'']"
    using assms(4,8) abs [of "''SUBMISSION_INDEX_PATH''" d2] rs(5)
    by (auto simp: orc_main_def orc_envPath_def Let_def split: if_splits option.splits)
  have se: "runRoot = path_Join [r, ''.runs'']" using assms(10) rs(4) by (auto simp: se_main_def Let_def split: if_splits)
  have "submissionArtifactRoot getenv (filepath_Abs (Some d3)) r3 = artifactRoot"
    using sub(1) abs rs(2) by (simp add: submissionArtifactRoot_def Let_def)
  moreover have "og_storePath oc = indexPath" using sub orc(1) ix assms(5) by simp
  ultimately show ?thesis using se orc(2) rs(3) assms(12) by (simp add: loadConfig_def)
qed

lemma demo_checkout: "checkout demo_exists ''/r'' ''/r/services/x''" "checkout demo_exists ''/r'' ''/r/services/orchestrator''"
  "checkout demo_exists ''/r'' ''/r''"
  by code_simp+

lemma services_share_their_files_witness:
  "submissionArtifactRoot demo_env (filepath_Abs (Some ''/r'')) ''/r'' = ''/r/.artifacts/submissions''"
proof -
  let ?x = "''/r/services/x''" and ?o = "''/r/services/orchestrator''" and ?r = "''/r''"
  have c: "checkout demo_exists ''/r'' dir" if "dir \<in> {?x, ?o, ?r, ?x, ?x}" for dir
    using that demo_checkout by auto
  have e: "demo_env ''REPO_ROOT'' = []" "demo_env ''ORCHESTRATOR_STORE_PATH'' = []"
    "\<And>v. v \<in> {''SUBMISSION_ARTIFACT_ROOT'', ''SUBMISSION_INDEX_PATH''} \<Longrightarrow> demo_env v = [] \<or> IsAbs (demo_env v)"
    "demo_env ''SUBMISSION_INDEX_PATH'' = [] \<Longrightarrow> demo_env ''SUBMISSION_ARTIFACT_ROOT'' = []"
    by (auto simp: demo_env_def)
  have "sub_resolveRepoRoot demo_exists demo_env (Some ?x) = Inr ?r" "sr_resolveRepoRoot demo_exists demo_env (Some ?r) = Inr ?r"
    "cn_resolveRepoRoot demo_exists demo_env (Some ?x) = Inr ?r"
    "sub_main demo_env (filepath_Abs (Some ?x)) ?r = Inr (''/r/.artifacts/submissions'', ''/r/.artifacts/submissions/index.json'', ''key '', '':9100'')"
    by code_simp+
  note m = this
  show ?thesis
    using services_share_their_files [OF c e(1,3,2,4) m(1,4) demo_orc m(2) demo_panel(2) m(3) refl] by blast
qed

text \<open>
  The two services have different defaults for the store.  When only the artifact directory is moved, the submission
  API writes its index there and the orchestrator reads the one in the repository: no run is ever claimed.
\<close>

lemma moved_artifacts_split_the_store:
  assumes "checkout exists r dir" "\<And>v. getenv v = (if v = ''SUBMISSION_ARTIFACT_ROOT'' then ''/data'' else [])"
  shows "sub_main getenv (filepath_Abs (Some dir)) r = Inr (''/data'', ''/data/index.json'', [], '':9100'')"
    "\<exists>oc worker. orc_main exists getenv (Some dir) parseDuration = (worker, Inr oc) \<and>
       og_storePath oc = path_Join [r, ''.artifacts'', ''submissions'', ''index.json'']"
proof -
  have "filepath_Abs (Some dir) ''/data'' = Some ''/data''" "path_Join [''/data'', ''index.json''] = ''/data/index.json''"
    by (simp_all add: filepath_Abs_def IsAbs_def HasPrefix_def Clean_def path_Clean_def path_stack_def path_push_def path_Join_def)
  then show "sub_main getenv (filepath_Abs (Some dir)) r = Inr (''/data'', ''/data/index.json'', [], '':9100'')"
    by (simp add: sub_main_def envPath_def sub_firstEnv_def assms(2) Let_def)
  show "\<exists>oc worker. orc_main exists getenv (Some dir) parseDuration = (worker, Inr oc) \<and>
       og_storePath oc = path_Join [r, ''.artifacts'', ''submissions'', ''index.json'']"
    using services_agree_on_root(7) [OF assms(1), of getenv] assms(2)
    by (simp add: orc_main_def durationEnv_def orc_envPath_def orc_firstEnv_def Let_def)
qed

end
