(* ===== verification/RedisFeed.thy ===== *)
theory RedisFeed
  imports RedisBoard
begin

text \<open>
  The Redis board with its poller, its callers and its subscribers at once.  A refresh is two steps, the
  read from Redis, which takes no lock, and the publication under the lock; the poller and every \<^verbatim>\<open>Upsert\<close>
  run refreshes of their own, so any number of reads may be waiting to be published.  The subscriptions are
  those of theory \<^verbatim>\<open>Feed\<close>.
\<close>

section \<open>A refresh in two steps\<close>

definition redis_read :: "(Entry list \<Rightarrow> string option) \<Rightarrow> int \<Rightarrow> redis_answers \<Rightarrow> (Entry list \<times> string) option" where
  "redis_read marshal now a =
     (case ra_ranked a of
        None \<Rightarrow> None
      | Some zs \<Rightarrow> let entries = map (redis_entry now a) zs in map_option (Pair entries) (marshal entries))"

text \<open>The second result says whether the payload has changed.\<close>

definition redis_publish :: "int \<Rightarrow> Entry list \<times> string \<Rightarrow> RedisBoard \<Rightarrow> RedisBoard \<times> bool" where
  "redis_publish now ep b =
     (b\<lparr>rb_snapshot := fst ep, rb_lastPayload := Some (snd ep), rb_lastRefresh := now\<rparr>, rb_lastPayload b \<noteq> Some (snd ep))"

text \<open>Undisturbed, the two steps are the refresh of theory \<^verbatim>\<open>RedisBoard\<close>.\<close>

lemma redis_refresh_steps:
  "redis_refresh marshal now a b =
     (case redis_read marshal now a of
        None \<Rightarrow> (b, None)
      | Some ep \<Rightarrow> (fst (redis_publish now ep b), if snd (redis_publish now ep b) then Some (snd ep) else None))"
  by (auto simp: redis_refresh_def redis_read_def redis_publish_def Let_def split: option.split)

section \<open>The system\<close>

record redis_sys = feed +
  ry_board :: RedisBoard
  ry_reads :: "(Entry list \<times> string) list"

datatype redis_event = RvRead int redis_answers | RvPublish nat int | RvSubscribe | RvSend nat | RvCancel nat | RvRecv nat

definition redis_start :: "(Entry list \<Rightarrow> string option) \<Rightarrow> RedisBoard \<Rightarrow> redis_sys" where
  "redis_start marshal b =
     \<lparr>by_history = [redis_seed marshal b], by_birth = [], by_bufs = [], by_subs = [], by_jobs = [],
      ry_board = b, ry_reads = []\<rparr>"

definition redis_step :: "(Entry list \<Rightarrow> string option) \<Rightarrow> redis_event \<Rightarrow> redis_sys \<Rightarrow> redis_sys option" where
  "redis_step marshal ev s =
     (case ev of
        RvRead now a \<Rightarrow>
          (case redis_read marshal now a of
             None \<Rightarrow> Some s
           | Some ep \<Rightarrow> Some (s\<lparr>ry_reads := ry_reads s @ [ep]\<rparr>))
      | RvPublish j now \<Rightarrow>
          if j < length (ry_reads s) then
            let ep = ry_reads s ! j; (b, changed) = redis_publish now ep (ry_board s);
                s = s\<lparr>ry_board := b, ry_reads := take j (ry_reads s) @ drop (Suc j) (ry_reads s)\<rparr>
            in Some (if changed then feed_publish (snd ep) True s else s)
          else None
      | RvSubscribe \<Rightarrow> Some (feed_subscribe (redis_seed marshal (ry_board s)) s)
      | RvSend j \<Rightarrow> feed_send j s
      | RvCancel c \<Rightarrow> Some (feed_cancel c s)
      | RvRecv c \<Rightarrow> feed_recv c s)"

inductive redis_reach :: "(Entry list \<Rightarrow> string option) \<Rightarrow> redis_sys \<Rightarrow> bool" for marshal :: "Entry list \<Rightarrow> string option" where
  opened: "redis_New marshal now a url_ok ping_ok interval = Inr b \<Longrightarrow> redis_reach marshal (redis_start marshal b)"
| stepped: "\<lbrakk>redis_reach marshal s; redis_step marshal ev s = Some s'\<rbrakk> \<Longrightarrow> redis_reach marshal s'"

definition redis_inv :: "(Entry list \<Rightarrow> string option) \<Rightarrow> redis_sys \<Rightarrow> bool" where
  "redis_inv marshal s \<longleftrightarrow> feed_inv s \<and> last (by_history s) = redis_seed marshal (ry_board s)"

lemma redis_more: "feed.more s' = feed.more s \<Longrightarrow> ry_board s' = ry_board (s :: redis_sys)"
  by (cases s; cases s') simp

lemma redis_inv_frame: "feed_inv (s\<lparr>ry_board := b, ry_reads := r\<rparr>) = feed_inv (s :: redis_sys)"
  "feed_inv (s\<lparr>ry_reads := r\<rparr>) = feed_inv s"
    "feed_inv (s\<lparr>ry_board := b\<rparr>) = feed_inv s"
proof -
  have "fits (s\<lparr>ry_board := b, ry_reads := r\<rparr>) = fits s" "fits (s\<lparr>ry_reads := r\<rparr>) = fits s" "fits (s\<lparr>ry_board := b\<rparr>) = fits s"
    by (intro ext, simp add: fits_def)+
  then show "feed_inv (s\<lparr>ry_board := b, ry_reads := r\<rparr>) = feed_inv s" "feed_inv (s\<lparr>ry_reads := r\<rparr>) = feed_inv s"
    "feed_inv (s\<lparr>ry_board := b\<rparr>) = feed_inv s"
    by (simp_all add: feed_inv_def)
qed

lemma redis_inv_step:
  assumes "redis_inv marshal s" "redis_step marshal ev s = Some s'"
  shows "redis_inv marshal s'"
proof -
  have inv: "feed_inv s" and last: "last (by_history s) = redis_seed marshal (ry_board s)"
    using assms(1) by (simp_all add: redis_inv_def)
  show ?thesis
  proof (cases ev)
    case (RvRead now a)
    then have "s' = s \<or> (\<exists>ep. s' = s\<lparr>ry_reads := ry_reads s @ [ep]\<rparr>)"
      using assms(2) by (auto simp: redis_step_def split: option.splits)
    then show ?thesis using assms(1) by (auto simp: redis_inv_def redis_inv_frame)
  next
    case (RvPublish j now)
    define ep where "ep = ry_reads s ! j"
    let ?s = "s\<lparr>ry_board := fst (redis_publish now ep (ry_board s)), ry_reads := take j (ry_reads s) @ drop (Suc j) (ry_reads s)\<rparr>"
    have s': "s' = (if snd (redis_publish now ep (ry_board s)) then feed_publish (snd ep) True ?s else ?s)"
      using assms(2) by (auto simp: redis_step_def RvPublish ep_def Let_def split: if_splits prod.splits)
    have ok: "feed_inv ?s" using inv by (simp add: redis_inv_frame)
    show ?thesis
    proof (cases "snd (redis_publish now ep (ry_board s))")
      case True
      have "feed_inv (feed_publish (snd ep) True ?s)" using ok by (rule feed_inv_publish)
      then show ?thesis using True by (simp add: s' redis_inv_def) (simp add: feed_publish_def redis_publish_def redis_seed_def)
    next
      case False
      then have "redis_seed marshal (fst (redis_publish now ep (ry_board s))) = redis_seed marshal (ry_board s)"
        by (simp add: redis_publish_def redis_seed_def)
      then show ?thesis using False ok last by (simp add: s' redis_inv_def)
    qed
  next
    case RvSubscribe
    then have s': "s' = feed_subscribe (redis_seed marshal (ry_board s)) s" using assms(2) by (simp add: redis_step_def)
    show ?thesis using feed_inv_subscribe [OF inv last [symmetric]] last redis_more [OF feed_more(4)]
      by (simp add: redis_inv_def s' feed_frame)
  next
    case (RvSend j)
    then have s': "feed_send j s = Some s'" using assms(2) by (simp add: redis_step_def)
    then show ?thesis using feed_inv_send [OF inv s'] last redis_more [OF feed_more(2) [OF s']]
      by (simp add: redis_inv_def feed_frame(2) [OF s'])
  next
    case (RvCancel c)
    then have s': "s' = feed_cancel c s" using assms(2) by (simp add: redis_step_def)
    show ?thesis using feed_inv_cancel [OF inv] last redis_more [OF feed_more(1)] by (simp add: redis_inv_def s' feed_frame)
  next
    case (RvRecv c)
    then have s': "feed_recv c s = Some s'" using assms(2) by (simp add: redis_step_def)
    then show ?thesis using feed_inv_recv [OF inv s'] last redis_more [OF feed_more(3) [OF s']]
      by (simp add: redis_inv_def feed_frame(3) [OF s'])
  qed
qed

lemma redis_reach_inv: "redis_reach marshal s \<Longrightarrow> redis_inv marshal s"
proof (induction rule: redis_reach.induct)
  case (opened now a url_ok ping_ok interval b)
  show ?case by (simp add: redis_inv_def redis_start_def feed_inv_def)
qed (rule redis_inv_step)

text \<open>
  In every reachable state a subscriber's channel holds at most 8 payloads, each the snapshot of a version
  at least as recent as its subscription, and every broadcast or seed in progress can take its next step.
\<close>

lemma redis_subscribers_get_snapshots:
  assumes "redis_reach marshal s" "c < length (by_bufs s)" "(v, p) \<in> set (by_bufs s ! c)" "j < length (by_jobs s)"
  shows "length (by_bufs s ! c) \<le> 8 \<and> by_birth s ! c \<le> v \<and> v \<le> by_version s \<and> by_history s ! v = p \<and>
    (\<exists>s'. redis_step marshal (RvSend j) s = Some s')"
  using redis_reach_inv [OF assms(1)] feed_bounded [OF _ assms(2,3)] feed_send_enabled [OF assms(4)]
  by (simp add: redis_inv_def redis_step_def)

section \<open>Two races\<close>

fun redis_run :: "(Entry list \<Rightarrow> string option) \<Rightarrow> redis_event list \<Rightarrow> redis_sys \<Rightarrow> redis_sys option" where
  "redis_run marshal [] s = Some s"
| "redis_run marshal (ev # evs) s =
     (case redis_step marshal ev s of None \<Rightarrow> None | Some s' \<Rightarrow> redis_run marshal evs s')"

lemma redis_run_reach: "\<lbrakk>redis_reach marshal s; redis_run marshal evs s = Some s'\<rbrakk> \<Longrightarrow> redis_reach marshal s'"
  by (induction marshal evs s rule: redis_run.induct) (auto split: option.splits intro: redis_reach.stepped)

definition demo_teams :: "string list \<Rightarrow> redis_answers" where
  "demo_teams ts = \<lparr>ra_ranked = Some (map (\<lambda>t. (t, Fin 50)) ts), ra_card = (\<lambda>_. None)\<rparr>"

definition demo_redis :: "redis_event list \<Rightarrow> redis_sys option" where
  "demo_redis evs = (case redis_New demo_marshal 1 (demo_teams []) True True 0 of
     Inl e \<Rightarrow> None | Inr b \<Rightarrow> redis_run demo_marshal evs (redis_start demo_marshal b))"

lemma Itoa_0: "Itoa 0 = ''0''"
  by code_simp

lemmas demo_redis_defs = demo_redis_def redis_New_def redis_refresh_def redis_read_def redis_entry_def bare_entry_def demo_teams_def
  demo_marshal_def Itoa_0 redis_start_def redis_step_def redis_publish_def redis_seed_def redis_List_def payload_of_def
  feed_publish_def feed_subscribe_def feed_send_def try_send_def seedCapacity_def by_version_def

lemma demo_redis_reach: "demo_redis evs = Some s \<Longrightarrow> redis_reach demo_marshal s"
  by (auto simp: demo_redis_def split: sum.splits intro: redis_run_reach redis_reach.opened)

text \<open>
  The seed of a subscription is sent after the lock is released, so a broadcast can overtake it: the
  subscriber is then left on the older of the two snapshots until the board changes again.
\<close>

lemma redis_seed_can_come_last:
  "\<exists>s. redis_reach demo_marshal s \<and> by_jobs s = [] \<and> by_bufs s ! 0 \<noteq> [] \<and> fst (last (by_bufs s ! 0)) < by_version s"
proof -
  let ?evs = "[RvSubscribe, RvRead 2 (demo_teams [''a'']), RvPublish 0 2, RvSend 1, RvSend 1, RvSend 0, RvSend 0]"
  have "map_option (\<lambda>s. (map (map fst) (by_bufs s), by_jobs s, by_version s)) (demo_redis ?evs) = Some ([[1, 0]], [], 1)"
    by (simp add: demo_redis_defs Let_def numeral_2_eq_2)
  then obtain s where s: "demo_redis ?evs = Some s" "map (map fst) (by_bufs s) = [[1, 0]]" "by_jobs s = []" "by_version s = 1"
    by auto
  then have "by_bufs s ! 0 \<noteq> []" "fst (last (by_bufs s ! 0)) = 0" by (auto simp: last_map [symmetric])
  then show ?thesis using demo_redis_reach [OF s(1)] s by auto
qed

text \<open>
  Reads are published in any order.  A read the poller made before an update can be published after the one
  the update made: the list then lacks the entry that was just accepted, also in the answer to the update.
\<close>

lemma redis_update_can_be_hidden:
  "\<exists>s. redis_reach demo_marshal s \<and> ry_reads s = [] \<and> map en_TeamID (redis_List (ry_board s)) = [''a''] \<and>
     demo_redis [RvRead 2 (demo_teams [''a'']), RvRead 3 (demo_teams [''a'', ''b'']), RvPublish 1 3, RvPublish 0 4] = Some s"
proof -
  let ?evs = "[RvRead 2 (demo_teams [''a'']), RvRead 3 (demo_teams [''a'', ''b'']), RvPublish 1 3, RvPublish 0 4]"
  have "map_option (\<lambda>s. (ry_reads s, map en_TeamID (redis_List (ry_board s)))) (demo_redis ?evs) = Some ([], [''a''])"
    by (simp add: demo_redis_defs Let_def)
  then obtain s where s: "demo_redis ?evs = Some s" "(ry_reads s, map en_TeamID (redis_List (ry_board s))) = ([], [''a''])"
    unfolding map_option_eq_Some by (elim exE conjE)
  show ?thesis
    by (intro exI [of _ s] conjI demo_redis_reach [OF s(1)] s(1)) (use s(2) in simp_all)
qed

end
