(* ===== verification/Spec2Isabelle.thy ===== *)
theory Spec2Isabelle
  imports Prelude Ladder OrderBook Matching MutexEngine Ring Disruptor StubServer RunModel RunStore
    Float64 Scoring ScoreProps Http ScoreEngine Pipeline Orchestrator Strconv Executor Clients Direct
    Panel PanelManager PanelControl Sandbox SandboxRunner DockerSandbox LocalSandbox Board RedisBoard
    Submission Platform Console Engines EngineTypes Worker Lifecycle Startup Feed RedisFeed
begin

text \<open>
  A verification of the Go services of the exchange benchmark platform.

  \<^bold>\<open>The program.\<close>  Teams submit matching engines.  The console is the browser's gateway to the
  services.  The submission API stores an upload and queues a run in a JSON file it shares with
  the orchestrator; the orchestrator claims queued runs, has the sandbox runner build and start
  the engine in a container, points the bot fleet at it, has the validator replay what it did,
  scores the run and publishes it to the leaderboard API.  The score engine scores artifact
  directories on its own; the control panel runs benchmarks of a local engine with a store, a
  scorer and a manager of its own.  The stub engine is the reference contestant: a limit order
  book behind a WebSocket server, with a mutex engine and a disruptor engine that promise the
  same behaviour.

  \<^bold>\<open>The stub engine\<close> (\<^verbatim>\<open>examples/stub-engine\<close>).
  \<^item> Theories \<^verbatim>\<open>Ladder\<close> and \<^verbatim>\<open>OrderBook\<close>: the price ladder, the two sides of a book as sorted
    lists of references into a heap of orders, insertion and removal.
  \<^item> \<^verbatim>\<open>Matching\<close>: \<^verbatim>\<open>matchBuy\<close> and \<^verbatim>\<open>matchSell\<close> as loops whose termination is proved, price-time
    priority, conservation of quantity and the refinement of an abstract sweep of the opposite
    side.
  \<^item> \<^verbatim>\<open>MutexEngine\<close>: \<^verbatim>\<open>ProcessNew\<close> and \<^verbatim>\<open>ProcessCancel\<close> with the index and the sequence counter,
    and the invariant of every sequence of requests.  \<^verbatim>\<open>EngineTypes\<close>: its integers stay in 64 bits and
    what it sends has the documented form.
  \<^item> \<^verbatim>\<open>Ring\<close>: the ring buffer of \<^verbatim>\<open>disruptor.go\<close>, step by step for any number of producers and
    one consumer.  \<^verbatim>\<open>Disruptor\<close>: the sharded engine and its agreement with the mutex engine.
  \<^item> \<^verbatim>\<open>StubServer\<close>: the frames of a connection and the audit log.

  \<^bold>\<open>The orchestrator\<close> (\<^verbatim>\<open>services/orchestrator\<close>).
  \<^item> \<^verbatim>\<open>RunModel\<close>: runs, statuses, load ceilings.  \<^verbatim>\<open>RunStore\<close>: the JSON store shared with the
    submission API; each operation is one transaction under the file lock.
  \<^item> \<^verbatim>\<open>Float64\<close>: binary64 arithmetic, with its rounding as a locale of which the arithmetic here
    is the interpretation.  \<^verbatim>\<open>Scoring\<close> and \<^verbatim>\<open>ScoreProps\<close>: the score, its range and monotonicity.
  \<^item> \<^verbatim>\<open>Pipeline\<close>: one run's goroutine as a step function, every panic, error and end of the
    context included; between two steps the store may change.  \<^verbatim>\<open>Orchestrator\<close>: the manager's
    build slots, cancellation and shutdown around any number of such goroutines.  \<^verbatim>\<open>Worker\<close>: the
    goroutine that polls the queue, and that it drains it oldest first.
  \<^item> \<^verbatim>\<open>Executor\<close>: the bot fleet and validator processes and what is read from them.
    \<^verbatim>\<open>Clients\<close>: the sandbox-runner client, the leaderboard publisher, the HTTP handlers.
    \<^verbatim>\<open>Direct\<close>: the direct benchmark of a caller's endpoint with its guard against internal
    addresses, composed of all of these.

  \<^bold>\<open>The score engine\<close> (\<^verbatim>\<open>services/score-engine\<close>): theory \<^verbatim>\<open>ScoreEngine\<close>, its own formulas, proved
    to agree with the orchestrator's, and its handlers over a map of files.

  \<^bold>\<open>The control panel\<close> (\<^verbatim>\<open>services/control-panel\<close>).  \<^verbatim>\<open>Panel\<close>: requests, the scorer, the store, the
  validator and the handlers.  \<^verbatim>\<open>PanelManager\<close>: one run as a step function over its program points,
  with a rank that bounds it.  \<^verbatim>\<open>PanelControl\<close>: the slots, cancellation and shutdown around any number
  of runs.  \<^verbatim>\<open>Engines\<close>: the engine as a process of the host, there and in the orchestrator's local
  mode, and the control panel's bot fleet, which agrees with the orchestrator's.

  \<^bold>\<open>The submission API\<close> (\<^verbatim>\<open>services/submission-api\<close>): theory \<^verbatim>\<open>Submission\<close>, with the clamping of run
  requests, its updates of the shared store, the artifact store down to the bytes read and written,
  identifiers and handlers.  A created run can be claimed by the orchestrator, and an uploaded
  artifact is the file the sandbox runner resolves.

  \<^bold>\<open>The sandbox runner\<close> (\<^verbatim>\<open>services/sandbox-runner\<close>).
  \<^item> \<^verbatim>\<open>Sandbox\<close>: where artifacts are, the extraction of untrusted archives, the Dockerfile policy,
    build contexts, image tags and the environment of contestant processes.
  \<^item> \<^verbatim>\<open>SandboxRunner\<close>: the runner interface (locale \<open>sandbox_runner\<close>), the health wait, the resource
    sampler, the handlers.  \<^verbatim>\<open>DockerSandbox\<close> and \<^verbatim>\<open>LocalSandbox\<close> are its two interpretations, over a
    daemon and over the processes of the host: what a failed or stopped sandbox leaves behind.

  \<^bold>\<open>The leaderboard API\<close> (\<^verbatim>\<open>services/leaderboard-api\<close>).  \<^verbatim>\<open>Board\<close>: the file board, its ranking (locale
  \<open>board_sorter\<close>), admission, and the broadcast to subscribers as a step system.  \<^verbatim>\<open>RedisBoard\<close>: the
  board over Redis, and the store interface (locale \<open>leaderboard_store\<close>) both boards meet.  \<^verbatim>\<open>RedisFeed\<close>:
  its poller, callers and subscribers at once.  The subscriptions of both are theory \<^verbatim>\<open>Feed\<close>.

  \<^bold>\<open>The console API\<close> (\<^verbatim>\<open>services/console-api\<close>): theory \<^verbatim>\<open>Console\<close>, the handlers over a transport to the
  services; which requests are made, with which token, and which files are served.

  \<^bold>\<open>Where services meet.\<close>  \<^verbatim>\<open>Platform\<close> has what the orchestrator publishes on the board, and what of a
  contestant's limits reaches the container; this theory has the agreement of the three scorers.
  \<^verbatim>\<open>Lifecycle\<close> follows a run from the request, over the worker that claims it and the goroutine that
  executes it amid the manager's other events, to the outcome the shared file then has.
  \<^verbatim>\<open>Startup\<close> has what the \<^verbatim>\<open>main\<close> functions settle, and that services started from one environment in
  one checkout accept each other's tokens and work on the same files.

  \<^bold>\<open>Shared theories.\<close>  \<^verbatim>\<open>Prelude\<close> has the machine integers and Go's string helpers, \<^verbatim>\<open>Http\<close> the
  responses, the token check and path cleaning, \<^verbatim>\<open>Strconv\<close> the number parsers.

  \<^bold>\<open>Conventions.\<close>  Strings are byte lists.  \<^verbatim>\<open>int\<close> and \<^verbatim>\<open>int64\<close> are integers with \<open>wrap64\<close> where an
  operation can leave the 64-bit range; \<^verbatim>\<open>uint64\<close> is \<open>64 word\<close>.  Sequence numbers are words; the
  bounds under which they do not wrap are hypotheses (\<open>seq_bound\<close>).  A \<^verbatim>\<open>float64\<close> is a real, an
  infinity or not-a-number, every operation rounds; the sign of zero is not kept.  Errors are
  values.  JSON codecs, \<^verbatim>\<open>url.Parse\<close>, name resolution, \<^verbatim>\<open>math.Log10\<close>, the clock, the disk and the
  other processes are parameters; a property that needs more of one of them names it.
  \<^verbatim>\<open>execute\<close> runs at most 27 program points, so 27 steps always reach its cleanup; a run of the
  control panel takes at most 14.  A path that is joined starts with a rooted directory.

  \<^bold>\<open>Not modelled.\<close>  HTTP transport and routing, static files, listeners and signals, the text
  of logs, \<^verbatim>\<open>time.ParseDuration\<close> (a parameter), the generated protobuf code and the Rust programs.
\<close>

section \<open>The scorers agree\<close>

text \<open>
  C40. The three copies of the scoring formulas give the same score.  For any run, metrics and
  verdict, whatever the logarithm and the rounding give: the score engine answers what the
  orchestrator writes, up to the run id a failed run is reported under; and the control panel
  computes what the orchestrator computes for the same metrics without a resource sample, which
  the panel does not take.
\<close>

theorem scorers_agree:
  "as_result rid (se_Score Log10
     \<lparr>sq_RunID = br_RunID run, sq_TeamID = team, sq_ArtifactDir = dir, sq_Config = se_config (br_Config run),
      sq_Metrics = map_option se_metrics metrics, sq_Validation = map_option se_validation validation\<rparr>) =
     (fst (Score Log10 disk_ok run metrics validation))\<lparr>sr_RunID := rid\<rparr> \<and>
   CalculateScore Log10 (panel_of run metrics validation) =
     (fst (Score Log10 disk_ok run (map_option unsampled metrics) validation))\<lparr>sr_RunID := br_RunID run\<rparr>"
  using se_Score_agrees CalculateScore_agrees [OF panel_of_scored] by blast

end
